(* ===== verification/Pyro_Prelude.thy ===== *)
theory Pyro_Prelude
  imports Main "HOL-Library.Word" "HOL-Library.Monad_Syntax"
begin

unbundle bit_operations_syntax

text \<open>
  Shared vocabulary of the development: the machine types of the firmware, buffers seen
  through a pointer, C strings, little-endian encodings, and the generic facts on lists and
  words that several components use.

  Conventions.
  \<^item> The target is a 32-bit ARM core: \<open>unsigned char\<close> is \<open>8 word\<close>, \<open>unsigned short\<close> is
    \<open>16 word\<close>, \<open>unsigned int\<close> and \<open>unsigned long\<close> are \<open>32 word\<close>. Plain \<open>char\<close> is
    unsigned, as the ARM procedure call standard has it.
  \<^item> A \<open>char *\<close> that the code only moves forward is the list of the bytes from the pointer to
    the end of the object it points into; \<open>p++\<close> is the tail of the list. An access
    outside of the object is undefined behaviour in C and the value \<open>None\<close> here.
  \<^item> A returned pointer is the number of bytes between the pointer that was passed in and the
    one that is returned; the null pointer is \<open>None\<close>.
\<close>

type_synonym u8 = "8 word"
type_synonym u16 = "16 word"
type_synonym u32 = "32 word"
type_synonym u64 = "64 word"
type_synonym buf = "u8 list"

named_theorems pyro_bits \<open>bitwise facts that reduce a word operation to its bits\<close>
named_theorems pyro_mem \<open>what the memory primitives compute inside their buffers\<close>

subsection \<open>Characters and C strings\<close>

definition chr8 :: "char \<Rightarrow> u8" where
  "chr8 c = of_char c"

definition bytes :: "string \<Rightarrow> buf" where
  "bytes s = map of_char s"

definition cstr :: "string \<Rightarrow> buf" where
  "cstr s = bytes s @ [0]"

text \<open>The characters in front of the first terminator; \<open>None\<close> if there is no terminator.\<close>

fun c_string :: "buf \<Rightarrow> buf option" where
  "c_string [] = None"
| "c_string (c # cs) = (if c = 0 then Some [] else map_option ((#) c) (c_string cs))"

lemma c_string_append_nul [simp]: "0 \<notin> set s \<Longrightarrow> c_string (s @ 0 # t) = Some s"
  by (induction s) auto

lemma c_string_SomeE:
  assumes "c_string p = Some s"
  obtains t where "p = s @ 0 # t" and "0 \<notin> set s"
proof -
  have "\<exists>t. p = s @ 0 # t \<and> 0 \<notin> set s"
    using assms by (induction p arbitrary: s rule: c_string.induct) (auto split: if_splits)
  then show ?thesis using that by blast
qed

lemma c_string_no_nul: "c_string p = Some s \<Longrightarrow> 0 \<notin> set s"
  by (erule c_string_SomeE) simp

subsection \<open>Stores through a pointer\<close>

text \<open>\<open>*p = v\<close>: the first byte of the object is overwritten.\<close>

fun poke :: "buf \<Rightarrow> u8 \<Rightarrow> buf option" where
  "poke [] v = None"
| "poke (_ # ds) v = Some (v # ds)"

text \<open>\<open>*p++ = v\<close> followed by a continuation that works on the rest of the object.\<close>

definition emit :: "u8 \<Rightarrow> (buf \<times> nat) option \<Rightarrow> (buf \<times> nat) option" where
  "emit v = map_option (\<lambda>(m, k). (v # m, Suc k))"

lemma emit_simps [simp]:
  "emit v None = None"
  "emit v (Some (m, k)) = Some (v # m, Suc k)"
  by (simp_all add: emit_def)

lemma emit_eq_SomeD: "emit v r = Some (m, k) \<Longrightarrow> \<exists>m' k'. r = Some (m', k') \<and> m = v # m' \<and> k = Suc k'"
  by (auto simp: emit_def)

text \<open>The bytes \<open>xs\<close> stored at offset \<open>i\<close> of a buffer.\<close>

definition overwrite :: "buf \<Rightarrow> nat \<Rightarrow> buf \<Rightarrow> buf" where
  "overwrite m i xs = take i m @ xs @ drop (i + length xs) m"

definition seg :: "nat \<Rightarrow> nat \<Rightarrow> buf \<Rightarrow> buf" where
  "seg i n m = take n (drop i m)"

lemma length_overwrite [simp]:
  "i + length xs \<le> length m \<Longrightarrow> length (overwrite m i xs) = length m"
  by (simp add: overwrite_def)

lemma length_seg [simp]: "length (seg i n m) = min n (length m - i)"
  by (simp add: seg_def)

lemma seg_overwrite_same [simp]:
  "i + length xs \<le> length m \<Longrightarrow> n = length xs \<Longrightarrow> seg i n (overwrite m i xs) = xs"
  by (simp add: seg_def overwrite_def)

lemma seg_overwrite_before:
  assumes "j + n \<le> i" and "i + length xs \<le> length m"
  shows "seg j n (overwrite m i xs) = seg j n m"
  using assms
  by (intro nth_equalityI) (auto simp: seg_def overwrite_def nth_append)

lemma seg_overwrite_after:
  assumes "i + length xs \<le> j" and "i + length xs \<le> length m"
  shows "seg j n (overwrite m i xs) = seg j n m"
proof -
  have "drop j (overwrite m i xs) = drop j m"
    using assms by (simp add: overwrite_def)
  then show ?thesis by (simp add: seg_def)
qed

lemma seg_overwrite_disjoint:
  assumes "j + n \<le> i \<or> i + length xs \<le> j" and "i + length xs \<le> length m"
  shows "seg j n (overwrite m i xs) = seg j n m"
  using assms seg_overwrite_before seg_overwrite_after by blast

lemma overwrite_seg_id [simp]:
  assumes "i + n \<le> length m"
  shows "overwrite m i (seg i n m) = m"
proof -
  have "take i m @ take n (drop i m) @ drop (i + n) m = m"
    by (metis append_take_drop_id drop_drop add.commute)
  then show ?thesis using assms by (simp add: overwrite_def seg_def min_def)
qed

lemma overwrite_append:
  assumes "i + length xs + length ys \<le> length m" and "j = i + length xs"
  shows "overwrite (overwrite m i xs) j ys = overwrite m i (xs @ ys)"
  using assms by (simp add: overwrite_def ac_simps)

lemma seg_all [simp]: "seg 0 (length m) m = m"
  by (simp add: seg_def)

subsection \<open>Little-endian encodings\<close>

definition le16 :: "u16 \<Rightarrow> buf" where
  "le16 w = [ucast w, ucast (drop_bit 8 w)]"

definition le32 :: "u32 \<Rightarrow> buf" where
  "le32 w = [ucast w, ucast (drop_bit 8 w), ucast (drop_bit 16 w), ucast (drop_bit 24 w)]"

definition get16 :: "buf \<Rightarrow> u16" where
  "get16 b = ucast (b ! 0) OR push_bit 8 (ucast (b ! 1))"

definition get32 :: "buf \<Rightarrow> u32" where
  "get32 b = ucast (b ! 0) OR push_bit 8 (ucast (b ! 1)) OR push_bit 16 (ucast (b ! 2))
     OR push_bit 24 (ucast (b ! 3))"

lemma length_le [simp]: "length (le16 w) = 2" "length (le32 v) = 4"
  by (simp_all add: le16_def le32_def)

lemma get16_le16 [simp]: "get16 (le16 w) = w"
  by (rule bit_word_eqI)
     (auto simp: get16_def le16_def bit_simps)

lemma get32_le32 [simp]: "get32 (le32 w) = w"
proof (rule bit_word_eqI)
  fix n assume "n < LENGTH(32)"
  then have "n < 8 \<or> 8 \<le> n \<and> n < 16 \<or> 16 \<le> n \<and> n < 24 \<or> 24 \<le> n \<and> n < 32" by auto
  then show "bit (get32 (le32 w)) n = bit w n"
    by (auto simp: get32_def le32_def bit_simps)
qed

lemma bit_u8_high [simp]: "8 \<le> n \<Longrightarrow> \<not> bit (w :: u8) n"
  using bit_imp_le_length [of w n] by auto

lemma bit_u8D: "bit (w :: u8) n \<Longrightarrow> n < 8"
  using bit_imp_le_length [of w n] by simp

lemma bit_u16_high [simp]: "16 \<le> n \<Longrightarrow> \<not> bit (w :: u16) n"
  using bit_imp_le_length [of w n] by auto

lemma le16_get16: "length b = 2 \<Longrightarrow> le16 (get16 b) = b"
  by (cases b; cases "tl b")
     (auto simp: le16_def get16_def intro!: bit_word_eqI simp: bit_simps dest: bit_imp_le_length)

subsection \<open>Words\<close>

lemma bit_15 [pyro_bits]: "bit (15 :: int) i \<longleftrightarrow> i < 4"
proof -
  have "(15 :: int) = mask 4" by (simp add: mask_eq_exp_minus_1)
  then show ?thesis by (simp only: bit_mask_iff possible_bit_int) blast
qed

lemma unat_lt_16 [pyro_bits]: "unat (w AND 15 :: u16) < 16"
  by (rule le_less_trans [OF word_and_le1 [THEN word_le_nat_alt [THEN iffD1]]]) simp

lemma word_neq_zero_iff_bit: "(w :: 'a::len word) \<noteq> 0 \<longleftrightarrow> (\<exists>n < LENGTH('a). bit w n)"
  by (metis bit_imp_le_length bit_word_eqI bit_0_eq bot_apply bot_bool_def)

subsection \<open>Indices of ring buffers\<close>

lemma ring_index_inj:
  assumes "i < n" and "j < n" and "(h + i) mod n = (h + j) mod (n :: nat)"
  shows "i = j"
proof -
  obtain q1 q2 where "h + i + n * q1 = h + j + n * q2"
    using assms(3) by (auto simp: nat_mod_eq_iff)
  then have "i + n * q1 = j + n * q2" by simp
  then have "(i + n * q1) mod n = (j + n * q2) mod n" by simp
  with assms(1,2) show ?thesis by simp
qed

subsection \<open>Results that are there\<close>

text \<open>A property of the result of a computation, if there is one, and the rules that take such a goal through the steps of the computation.\<close>

definition holds :: "('a \<Rightarrow> bool) \<Rightarrow> 'a option \<Rightarrow> bool" where
  "holds P m \<longleftrightarrow> (\<forall>x. m = Some x \<longrightarrow> P x)"

lemma holdsD: "holds P m \<Longrightarrow> m = Some x \<Longrightarrow> P x"
  by (simp add: holds_def)

lemma holds_intros:
  "holds P None"
  "P x \<Longrightarrow> holds P (Some x)"
  "(\<And>y. w = Some y \<Longrightarrow> holds P (f y)) \<Longrightarrow> holds P (Option.bind w f)"
  "(c \<Longrightarrow> holds P m) \<Longrightarrow> (\<not> c \<Longrightarrow> holds P m') \<Longrightarrow> holds P (if c then m else m')"
  "(\<And>a b. z = (a, b) \<Longrightarrow> holds P (g a b)) \<Longrightarrow> holds P (case z of (a, b) \<Rightarrow> g a b)"
  "(u = None \<Longrightarrow> holds P m) \<Longrightarrow> (\<And>v. u = Some v \<Longrightarrow> holds P (h v)) \<Longrightarrow> holds P (case u of None \<Rightarrow> m | Some v \<Rightarrow> h v)"
  "(\<And>v. s = Inl v \<Longrightarrow> holds P (k v)) \<Longrightarrow> (\<And>v. s = Inr v \<Longrightarrow> holds P (l v)) \<Longrightarrow> holds P (case s of Inl v \<Rightarrow> k v | Inr v \<Rightarrow> l v)"
  "(xs = [] \<Longrightarrow> holds P m) \<Longrightarrow> (\<And>y ys. xs = y # ys \<Longrightarrow> holds P (q y ys)) \<Longrightarrow> holds P (case xs of [] \<Rightarrow> m | y # ys \<Rightarrow> q y ys)"
  by (auto simp: holds_def bind_eq_Some_conv split: prod.splits option.splits sum.splits list.splits)

end
