(* ===== verification/Hq_String.thy ===== *)
theory Hq_String
  imports Pyro_Prelude
begin

text \<open>
  The string library \<open>src/lib/microlib/hq_string.c\<close>: length, copy, comparison, search,
  conversions between numbers and text, tokenising, and the validity checks on addresses
  and numbers that the configuration commands use. The conversions to \<open>float\<close> and
  \<open>double\<close> are not part of the model.

  A function that stores through a pointer takes the destination object and returns it
  updated together with the distance the pointer was moved.
\<close>

subsection \<open>Length, copy, comparison\<close>

fun string_length :: "buf \<Rightarrow> nat option" where
  "string_length [] = None"
| "string_length (c # cs) = (if c \<noteq> 0 then map_option Suc (string_length cs) else Some 0)"

fun string_copy :: "buf \<Rightarrow> buf \<Rightarrow> (buf \<times> nat) option" where
  "string_copy dest [] = None"
| "string_copy [] (s # ss) = None"
| "string_copy (d # ds) (s # ss) =
     (if s \<noteq> 0 then emit s (string_copy ds ss) else Some (0 # ds, 0))"

fun string_copy_n :: "buf \<Rightarrow> buf \<Rightarrow> int \<Rightarrow> (buf \<times> nat) option" where
  "string_copy_n [] src len = None"
| "string_copy_n (d # ds) [] len = (if len > 0 then None else Some (0 # ds, 0))"
| "string_copy_n (d # ds) (s # ss) len =
     (if len > 0 then
        (if s = 0 then Some (0 # ds, 0) else emit s (string_copy_n ds ss (len - 1)))
      else Some (0 # ds, 0))"

fun string_comp :: "buf \<Rightarrow> buf \<Rightarrow> int option" where
  "string_comp [] _ = None"
| "string_comp (a # as) [] = None"
| "string_comp (a # as) (b # bs) =
     (if a = 0 then (if b = 0 then Some 0 else Some (- 1))
      else if b = 0 then Some 1
      else if a < b then Some (- 1)
      else if a > b then Some 1
      else string_comp as bs)"

fun string_comp_n :: "buf \<Rightarrow> buf \<Rightarrow> int \<Rightarrow> int option" where
  "string_comp_n (a # as) (b # bs) len =
     (if len > 0 then
        (if a < b then Some (- 1) else if a > b then Some 1 else string_comp_n as bs (len - 1))
      else Some 0)"
| "string_comp_n _ _ len = (if len > 0 then None else Some 0)"

text \<open>
  The loop that swaps \<open>*start\<close> and \<open>*fin\<close> and moves both pointers towards each other occurs
  in \<open>string_reverse\<close>, \<open>dec_to_string\<close> and \<open>float_to_string\<close>. The end pointer \<open>fin\<close> is one less than
  the number of characters and can be one less than \<open>start\<close>, so it is an integer.
\<close>

function reverse_loop :: "buf \<Rightarrow> nat \<Rightarrow> int \<Rightarrow> buf" where
  "reverse_loop b start fin =
     (if int start < fin then
        reverse_loop (b[start := b ! nat fin, nat fin := b ! start]) (Suc start) (fin - 1)
      else b)"
  by pat_completeness auto
termination
  by (relation "measure (\<lambda>(b, start, fin). nat (fin - int start))") auto

declare reverse_loop.simps [simp del]

definition string_reverse :: "buf \<Rightarrow> buf option" where
  "string_reverse str = do {
     n \<leftarrow> string_length str;
     Some (reverse_loop str 0 (int n - 1)) }"

text \<open>The scan of \<open>string_extract\<close>: the number of characters in front of \<open>sp\<close> or the terminator.\<close>

fun extract_end :: "buf \<Rightarrow> u8 \<Rightarrow> nat option" where
  "extract_end [] sp = None"
| "extract_end (c # cs) sp =
     (if c \<noteq> 0 then (if c = sp then Some 0 else map_option Suc (extract_end cs sp)) else Some 0)"

definition string_extract :: "buf \<Rightarrow> buf \<Rightarrow> u8 \<Rightarrow> (buf \<times> nat) option" where
  "string_extract dest src sp = do {
     e \<leftarrow> extract_end src sp;
     (dest', _) \<leftarrow> string_copy_n dest src (int e);
     Some (dest', e + 1) }"

text \<open>The result of \<open>string_search\<close> is the offset of the match or the null pointer.\<close>

fun string_search :: "buf \<Rightarrow> buf \<Rightarrow> nat option option" where
  "string_search [] sub = None"
| "string_search (c # cs) sub =
     (if c \<noteq> 0 then
        do { r \<leftarrow> string_comp (c # cs) sub;
             if r = 0 then Some (Some 0)
             else map_option (map_option Suc) (string_search cs sub) }
      else Some None)"

subsection \<open>Text to numbers\<close>

text \<open>
  These store through \<open>dest\<close> on success only: the model takes the old value and returns the
  return code with the value \<open>*dest\<close> has afterwards.
\<close>

fun string_to_dec_loop :: "u32 \<Rightarrow> u32 \<Rightarrow> buf \<Rightarrow> (int \<times> u32) option" where
  "string_to_dec_loop dest result [] = None"
| "string_to_dec_loop dest result (c # cs) =
     (if c \<noteq> 0 then
        (if c \<ge> 48 \<and> c \<le> 57 then string_to_dec_loop dest (result * 10 + (ucast c - 48)) cs
         else if c \<noteq> 32 then Some (- 1, dest)
         else string_to_dec_loop dest result cs)
      else Some (0, result))"

definition string_to_dec :: "u32 \<Rightarrow> buf \<Rightarrow> (int \<times> u32) option" where
  "string_to_dec dest str = string_to_dec_loop dest 0 str"

fun string_to_dec_n_loop :: "u32 \<Rightarrow> u32 \<Rightarrow> buf \<Rightarrow> int \<Rightarrow> (int \<times> u32) option" where
  "string_to_dec_n_loop dest result [] len = (if len > 0 then None else Some (0, result))"
| "string_to_dec_n_loop dest result (c # cs) len =
     (if len > 0 then
        (if c \<ge> 48 \<and> c \<le> 57
         then string_to_dec_n_loop dest (result * 10 + (ucast c - 48)) cs (len - 1)
         else Some (- 1, dest))
      else Some (0, result))"

definition string_to_dec_n :: "u32 \<Rightarrow> buf \<Rightarrow> int \<Rightarrow> (int \<times> u32) option" where
  "string_to_dec_n dest str len = string_to_dec_n_loop dest 0 str len"

text \<open>\<open>long long\<close> is a 64-bit word read as two's complement.\<close>

fun string_to_lldec_loop :: "u64 \<Rightarrow> u64 \<Rightarrow> u64 \<Rightarrow> buf \<Rightarrow> int \<Rightarrow> (int \<times> u64) option" where
  "string_to_lldec_loop dest flag result [] len =
     (if len > 0 then None else Some (0, flag * result))"
| "string_to_lldec_loop dest flag result (c # cs) len =
     (if len > 0 then
        (if c \<ge> 48 \<and> c \<le> 57
         then string_to_lldec_loop dest flag (result * 10 + (ucast c - 48)) cs (len - 1)
         else Some (- 1, dest))
      else Some (0, flag * result))"

fun string_to_lldec_n :: "u64 \<Rightarrow> buf \<Rightarrow> int \<Rightarrow> (int \<times> u64) option" where
  "string_to_lldec_n dest [] len = None"
| "string_to_lldec_n dest (c # cs) len =
     (if c = 45 then string_to_lldec_loop dest (- 1) 0 cs (len - 1)
      else string_to_lldec_loop dest 1 0 (c # cs) len)"

fun string_to_hex_loop :: "u32 \<Rightarrow> u32 \<Rightarrow> buf \<Rightarrow> (int \<times> u32) option" where
  "string_to_hex_loop dest result [] = None"
| "string_to_hex_loop dest result (c # cs) =
     (if c \<noteq> 0 then
        (if c \<ge> 48 \<and> c \<le> 57 then
           string_to_hex_loop dest (push_bit 4 result + (ucast c - 48)) cs
         else if c \<ge> 97 \<and> c \<le> 102 then
           string_to_hex_loop dest (push_bit 4 result + (ucast c - 97 + 10)) cs
         else if c \<ge> 65 \<and> c \<le> 70 then
           string_to_hex_loop dest (push_bit 4 result + (ucast c - 65 + 10)) cs
         else Some (- 1, dest))
      else Some (0, result))"

definition string_to_hex :: "u32 \<Rightarrow> buf \<Rightarrow> (int \<times> u32) option" where
  "string_to_hex dest str = string_to_hex_loop dest 0 str"

subsection \<open>Numbers to text\<close>

text \<open>The first loop of \<open>dec_to_string\<close>: the digits from low to high, then the terminator.\<close>

function dec_digits_loop :: "buf \<Rightarrow> u32 \<Rightarrow> (buf \<times> nat) option" where
  "dec_digits_loop [] value = None"
| "dec_digits_loop (d # ds) value =
     (if value > 0 then emit (ucast (value mod 10) + 48) (dec_digits_loop ds (value div 10))
      else Some (0 # ds, 0))"
  by pat_completeness auto
termination
  by (relation "measure (\<lambda>(ds, value). length ds)") auto

definition dec_to_string :: "buf \<Rightarrow> u32 \<Rightarrow> (buf \<times> nat) option" where
  "dec_to_string str value =
     (if value = 0 then
        (case str of
           _ # _ # rest \<Rightarrow> Some (48 # 0 # rest, 1)
         | _ \<Rightarrow> None)
      else do {
        (m, n) \<leftarrow> dec_digits_loop str value;
        Some (reverse_loop m 0 (int n - 1), n) })"

text \<open>
  \<open>hex_to_string\<close> counts \<open>digits\<close> down; \<open>n\<close> is the number of digits still to write, so that
  the shift of this round is \<open>4 * (n - 1)\<close>. A shift by 32 or more is undefined in C.
\<close>

fun hex_to_string_loop :: "buf \<Rightarrow> u32 \<Rightarrow> nat \<Rightarrow> (buf \<times> nat) option" where
  "hex_to_string_loop str value 0 = map_option (\<lambda>m. (m, 0)) (poke str 0)"
| "hex_to_string_loop [] value (Suc n) = None"
| "hex_to_string_loop (d # ds) value (Suc n) =
     (let ch = (ucast (drop_bit (4 * n) value AND 15) :: u8) in
      if 4 * n \<ge> 32 then None
      else if ch < 10 then emit (ch + 48) (hex_to_string_loop ds value n)
      else if ch < 16 then emit (ch - 10 + 65) (hex_to_string_loop ds value n)
      else hex_to_string_loop (d # ds) value n)"

definition hex_to_string :: "buf \<Rightarrow> u32 \<Rightarrow> int \<Rightarrow> (buf \<times> nat) option" where
  "hex_to_string str value digits = hex_to_string_loop str value (nat digits)"

text \<open>
  \<open>float_to_string\<close> writes at least \<open>decimal\<close> digits, a point after exactly \<open>decimal\<close> of
  them, a leading zero if nothing is left for the integer part, and reverses the whole.
\<close>

function float_digits_loop :: "buf \<Rightarrow> u32 \<Rightarrow> int \<Rightarrow> int \<Rightarrow> (buf \<times> nat) option" where
  "float_digits_loop [] value decimal i = None"
| "float_digits_loop (d # ds) value decimal i =
     (if i < decimal \<or> value > 0 then
        emit (ucast (value mod 10) + 48)
          (if i + 1 = decimal then
             (case ds of [] \<Rightarrow> None
              | _ # ds' \<Rightarrow> emit 46 (float_digits_loop ds' (value div 10) decimal (i + 1)))
           else float_digits_loop ds (value div 10) decimal (i + 1))
      else if i = decimal then emit 48 (map_option (\<lambda>m. (m, 0)) (poke ds 0))
      else Some (0 # ds, 0))"
  by pat_completeness auto
termination
  by (relation "measure (\<lambda>(ds, value, decimal, i). length ds)") auto

definition float_to_string :: "buf \<Rightarrow> u32 \<Rightarrow> int \<Rightarrow> (buf \<times> nat) option" where
  "float_to_string str value decimal = do {
     (m, n) \<leftarrow> float_digits_loop str value decimal 0;
     Some (reverse_loop m 0 (int n - 1), n) }"

subsection \<open>Character classes\<close>

definition is_digit :: "u8 \<Rightarrow> bool" where
  "is_digit ch \<longleftrightarrow> ch \<ge> 48 \<and> ch \<le> 57"

definition is_upper :: "u8 \<Rightarrow> bool" where
  "is_upper ch \<longleftrightarrow> ch \<ge> 65 \<and> ch \<le> 90"

text \<open>\<open>isupper\<close> and \<open>isalnum\<close> of the C locale.\<close>

definition c_isupper :: "u8 \<Rightarrow> bool" where
  "c_isupper ch \<longleftrightarrow> ch \<ge> 65 \<and> ch \<le> 90"

definition c_isalnum :: "u8 \<Rightarrow> bool" where
  "c_isalnum ch \<longleftrightarrow> ch \<ge> 48 \<and> ch \<le> 57 \<or> ch \<ge> 65 \<and> ch \<le> 90 \<or> ch \<ge> 97 \<and> ch \<le> 122"

fun check_uppercase :: "buf \<Rightarrow> int \<Rightarrow> int option" where
  "check_uppercase [] len = (if len > 0 then None else Some 0)"
| "check_uppercase (c # cs) len =
     (if len > 0 then (if \<not> c_isupper c then Some (- 1) else check_uppercase cs (len - 1))
      else Some 0)"

fun check_numcase :: "buf \<Rightarrow> int \<Rightarrow> int option" where
  "check_numcase [] len = (if len > 0 then None else Some 0)"
| "check_numcase (c # cs) len =
     (if len > 0 then (if \<not> c_isalnum c then Some (- 1) else check_numcase cs (len - 1))
      else Some 0)"

text \<open>
  \<open>is_pure_digit\<close> has the return type \<open>bool\<close>, so its \<open>return -1\<close> for the null pointer and
  the empty string yields true.
\<close>

fun pure_digit_loop :: "buf \<Rightarrow> bool option" where
  "pure_digit_loop [] = None"
| "pure_digit_loop (c # cs) =
     (if c \<noteq> 0 \<and> c \<noteq> 13 then (if c < 48 \<or> c > 57 then Some False else pure_digit_loop cs)
      else Some True)"

fun is_pure_digit :: "buf option \<Rightarrow> bool option" where
  "is_pure_digit None = Some True"
| "is_pure_digit (Some []) = None"
| "is_pure_digit (Some (c # cs)) = (if c = 0 then Some True else pure_digit_loop (c # cs))"

fun pure_digit_n_loop :: "buf \<Rightarrow> int \<Rightarrow> bool option" where
  "pure_digit_n_loop [] len = (if len > 0 then None else Some True)"
| "pure_digit_n_loop (c # cs) len =
     (if len > 0 then (if c < 48 \<or> c > 57 then Some False else pure_digit_n_loop cs (len - 1))
      else Some True)"

fun is_pure_digit_n :: "buf option \<Rightarrow> int \<Rightarrow> bool option" where
  "is_pure_digit_n None len = Some False"
| "is_pure_digit_n (Some str) len = (if len \<le> 0 then Some False else pure_digit_n_loop str len)"

fun pure_comma_loop :: "buf \<Rightarrow> int option" where
  "pure_comma_loop [] = None"
| "pure_comma_loop (c # cs) =
     (if c \<noteq> 0 then
        (if c < 48 \<or> c > 57 then (if c = 44 then pure_comma_loop cs else Some (- 1))
         else pure_comma_loop cs)
      else Some 0)"

fun is_pure_comma_digit :: "buf \<Rightarrow> int option" where
  "is_pure_comma_digit [] = None"
| "is_pure_comma_digit (c # cs) = (if c = 0 then Some (- 1) else pure_comma_loop (c # cs))"

subsection \<open>Searching for a character, tokenising\<close>

fun simple_strchr :: "buf \<Rightarrow> u8 \<Rightarrow> nat option option" where
  "simple_strchr [] ch = None"
| "simple_strchr (c # cs) ch =
     (if c \<noteq> 0 then
        (if c = ch then Some (Some 0) else map_option (map_option Suc) (simple_strchr cs ch))
      else if ch = 0 then Some (Some 0) else Some None)"

fun strrchr_loop :: "buf \<Rightarrow> u8 \<Rightarrow> nat \<Rightarrow> nat option \<Rightarrow> nat option option" where
  "strrchr_loop [] ch i last_pos = None"
| "strrchr_loop (c # cs) ch i last_pos =
     (if c \<noteq> 0 then strrchr_loop cs ch (Suc i) (if c = ch then Some i else last_pos)
      else if ch = 0 then Some (Some i) else Some last_pos)"

definition simple_strrchr :: "buf \<Rightarrow> u8 \<Rightarrow> nat option option" where
  "simple_strrchr str ch = strrchr_loop str ch 0 None"

text \<open>
  \<open>simple_strtok\<close> keeps a static pointer \<open>last\<close> and cuts the string in place. The object the
  strings live in and the pointer (as an offset into it) are the state.
\<close>

fun strtok_skip :: "buf \<Rightarrow> buf \<Rightarrow> nat option" where
  "strtok_skip [] delim = None"
| "strtok_skip (c # cs) delim =
     (if c \<noteq> 0 then
        (case simple_strchr delim c of
           None \<Rightarrow> None
         | Some None \<Rightarrow> Some 0
         | Some (Some _) \<Rightarrow> map_option Suc (strtok_skip cs delim))
      else Some 0)"

fun strtok_span :: "buf \<Rightarrow> buf \<Rightarrow> nat option" where
  "strtok_span [] delim = None"
| "strtok_span (c # cs) delim =
     (if c \<noteq> 0 then
        (case simple_strchr delim c of
           None \<Rightarrow> None
         | Some None \<Rightarrow> map_option Suc (strtok_span cs delim)
         | Some (Some _) \<Rightarrow> Some 0)
      else Some 0)"

record strtok_state =
  tok_mem :: buf
  tok_last :: "nat option"

definition simple_strtok ::
  "strtok_state \<Rightarrow> nat option \<Rightarrow> buf \<Rightarrow> (nat option \<times> strtok_state) option" where
  "simple_strtok st str delim =
     (let st = (case str of Some p \<Rightarrow> st\<lparr>tok_last := Some p\<rparr> | None \<Rightarrow> st); mem = tok_mem st in
      case tok_last st of
        None \<Rightarrow> Some (None, st)
      | Some lp \<Rightarrow>
          if \<not> lp < length mem then None
          else if mem ! lp = 0 then Some (None, st)
          else do {
            a \<leftarrow> strtok_skip (drop lp mem) delim;
            let start = lp + a;
            if mem ! start = 0 then Some (None, st\<lparr>tok_last := Some start\<rparr>)
            else do {
              n \<leftarrow> strtok_span (drop start mem) delim;
              let fin = start + n;
              Some (Some start,
                if mem ! fin = 0 then st\<lparr>tok_last := Some fin\<rparr>
                else st\<lparr>tok_mem := mem[fin := 0], tok_last := Some (fin + 1)\<rparr>) } })"

subsection \<open>Validity of numbers, serial formats and addresses\<close>

fun dec_number_loop :: "buf \<Rightarrow> int \<Rightarrow> int \<Rightarrow> int \<Rightarrow> (int \<times> int) option" where
  "dec_number_loop [] n number_len cnt_point =
     (if n > 0 then None else Some (number_len, cnt_point))"
| "dec_number_loop (c # cs) n number_len cnt_point =
     (if n > 0 then
        (if uint c - 48 \<le> 9 \<and> uint c - 48 \<ge> 0 then dec_number_loop cs (n - 1) (number_len + 1) cnt_point
         else if c = 46 then dec_number_loop cs (n - 1) number_len (cnt_point + 1)
         else dec_number_loop cs (n - 1) number_len cnt_point)
      else Some (number_len, cnt_point))"

definition dec_number_verdict :: "buf \<Rightarrow> int \<Rightarrow> int \<Rightarrow> int option" where
  "dec_number_verdict str n cnt_sign = do {
     (number_len, cnt_point) \<leftarrow> dec_number_loop str n 0 0;
     Some (if number_len + cnt_sign = n \<and> cnt_point = 0 then 1
           else if cnt_point + number_len + cnt_sign = n \<and> cnt_point = 1 then 2
           else 0) }"

fun is_dec_number :: "buf \<Rightarrow> int \<Rightarrow> int option" where
  "is_dec_number [] n = None"
| "is_dec_number (c # cs) n =
     (if c = 46 then Some 0
      else if c = 45 then
        (if n < 2 then Some 0
         else (case cs of
                 [] \<Rightarrow> None
               | c1 # _ \<Rightarrow> if c1 < 48 \<or> c1 > 57 then Some 0 else dec_number_verdict (c # cs) n 1))
      else dec_number_verdict (c # cs) n 0)"

text \<open>\<open>strncpy (dst, src, n)\<close> into a zeroed array, as the characters it leaves there.\<close>

fun c_strncpy :: "buf \<Rightarrow> nat \<Rightarrow> buf option" where
  "c_strncpy src 0 = Some []"
| "c_strncpy [] (Suc n) = None"
| "c_strncpy (c # cs) (Suc n) = (if c = 0 then Some [] else map_option ((#) c) (c_strncpy cs n))"

text \<open>\<open>strstr\<close> on the characters of two strings: does the second occur in the first?\<close>

fun c_prefix :: "buf \<Rightarrow> buf \<Rightarrow> bool" where
  "c_prefix [] hay = True"
| "c_prefix (x # xs) [] = False"
| "c_prefix (x # xs) (y # ys) = (x = y \<and> c_prefix xs ys)"

fun c_strstr :: "buf \<Rightarrow> buf \<Rightarrow> bool" where
  "c_strstr [] needle = c_prefix needle []"
| "c_strstr (c # cs) needle = (c_prefix needle (c # cs) \<or> c_strstr cs needle)"

definition valid_formats :: buf where
  "valid_formats = bytes ''8N18O18E18n18o18e1''"

fun is_check_fmt_valid :: "buf \<Rightarrow> bool option" where
  "is_check_fmt_valid [] = None"
| "is_check_fmt_valid (c # cs) = do {
     chk_str \<leftarrow> c_strncpy (c # cs) 3;
     Some (if c \<noteq> 56 \<or> \<not> c_strstr valid_formats chk_str then False else True) }"

text \<open>The tokens \<open>strtok (.., ".")\<close> delivers one after the other from a string.\<close>

fun dot_tokens :: "buf \<Rightarrow> buf \<Rightarrow> buf list" where
  "dot_tokens acc [] = (if acc = [] then [] else [acc])"
| "dot_tokens acc (c # cs) =
     (if c = 46 then (if acc = [] then dot_tokens [] cs else acc # dot_tokens [] cs)
      else dot_tokens (acc @ [c]) cs)"

text \<open>\<open>sscanf (token, "%d", ..)\<close>: white space, a sign, digits; \<open>None\<close> when nothing matches.\<close>

fun scan_digits :: "int \<Rightarrow> buf \<Rightarrow> int" where
  "scan_digits v [] = v"
| "scan_digits v (c # cs) = (if is_digit c then scan_digits (v * 10 + (uint c - 48)) cs else v)"

definition c_isspace :: "u8 \<Rightarrow> bool" where
  "c_isspace c \<longleftrightarrow> c = 32 \<or> c \<ge> 9 \<and> c \<le> 13"

definition sscanf_d :: "buf \<Rightarrow> int option" where
  "sscanf_d token =
     (case dropWhile c_isspace token of
        [] \<Rightarrow> None
      | c # cs \<Rightarrow>
          if c = 45 \<or> c = 43 then
            (if cs \<noteq> [] \<and> is_digit (hd cs)
             then Some ((if c = 45 then - 1 else 1) * scan_digits 0 cs) else None)
          else if is_digit c then Some (scan_digits 0 (c # cs)) else None)"

text \<open>
  The loop of \<open>is_valid_ip\<close> over the tokens. \<open>token\<close> is terminated by the zero that
  \<open>strtok\<close> stores, which is what \<open>is_dec_number\<close> sees behind it.
\<close>

fun valid_ip_loop :: "buf list \<Rightarrow> int \<Rightarrow> int \<Rightarrow> int \<Rightarrow> bool option" where
  "valid_ip_loop [] num_parts token_len_sum ip_len =
     Some (\<not> (num_parts \<noteq> 4 \<or> token_len_sum + 3 \<noteq> ip_len))"
| "valid_ip_loop (token # rest) num_parts token_len_sum ip_len =
     (let token_len = int (length token); token_len_sum = token_len_sum + token_len in
      if token_len > 3 \<or> token_len < 1 then Some False
      else (case is_dec_number (token @ [0]) token_len of
              None \<Rightarrow> None
            | Some r \<Rightarrow>
                if r \<noteq> 1 \<or> hd (token @ [0]) = 45 then Some False
                else (case sscanf_d token of
                        None \<Rightarrow> Some False
                      | Some part \<Rightarrow>
                          if part < 0 \<or> part > 255 then Some False
                          else valid_ip_loop rest (num_parts + 1) token_len_sum ip_len)))"

definition IP_COPY_SIZE :: nat where
  "IP_COPY_SIZE = 1024" \<comment> \<open>\<open>char *str[256]\<close>, pointers of four bytes\<close>

definition is_valid_ip :: "buf \<Rightarrow> bool option" where
  "is_valid_ip ip = do {
     s \<leftarrow> c_string ip;
     if length s + 1 > IP_COPY_SIZE then None
     else valid_ip_loop (dot_tokens [] s) 0 0 (int (length s)) }"


subsection \<open>What the copy and comparison functions compute\<close>

lemma string_length_eq: "string_length p = map_option length (c_string p)"
  by (induction p) (auto simp: option.map_comp comp_def)

lemma string_copy_eq:
  "string_copy dest src = do {
     s \<leftarrow> c_string src;
     if length s < length dest then Some (s @ 0 # drop (Suc (length s)) dest, length s) else None }"
proof (induction dest src rule: string_copy.induct)
  case (3 d ds s ss)
  then show ?case by (cases "c_string ss") auto
qed auto

lemma string_copy_n_eq:
  assumes "c_string src = Some s" and "0 \<le> len"
  shows "string_copy_n dest src len =
     (let k = min (nat len) (length s) in
      if k < length dest then Some (take k s @ 0 # drop (Suc k) dest, k) else None)"
  using assms
proof (induction dest src len arbitrary: s rule: string_copy_n.induct)
  case (3 d ds c ss len)
  show ?case
  proof (cases "len > 0 \<and> c \<noteq> 0")
    case True
    then obtain s' where s': "c_string ss = Some s'" "s = c # s'"
      using "3.prems" by (auto split: if_splits)
    moreover have "nat len = Suc (nat (len - 1))" using True by linarith
    ultimately show ?thesis using 3 True by (simp add: Let_def)
  next
    case False
    then show ?thesis using "3.prems" by (auto simp: Let_def)
  qed
qed (auto simp: Let_def)

lemma string_comp_eq:
  assumes "c_string p = Some s" and "c_string q = Some t"
  shows "string_comp p q = Some (if s = t then 0 else if ord_class.lexordp s t then - 1 else 1)"
  using assms
proof (induction p q arbitrary: s t rule: string_comp.induct)
  case (3 a as b bs)
  show ?case
  proof (cases "a = 0 \<or> b = 0 \<or> a \<noteq> b")
    case True
    then show ?thesis using "3.prems" by (auto split: if_splits)
  next
    case False
    then obtain s' t' where "c_string as = Some s'" "s = a # s'" "c_string bs = Some t'" "t = b # t'"
      using "3.prems" by auto
    then show ?thesis using "3.IH" [of s' t'] False by simp
  qed
qed auto

lemma string_comp_zero_iff:
  assumes "c_string p = Some s" and "c_string q = Some t"
  shows "string_comp p q = Some 0 \<longleftrightarrow> s = t"
  using string_comp_eq [OF assms] by auto

lemma c_string_drop:
  assumes "c_string p = Some s" and "i \<le> length s"
  shows "c_string (drop i p) = Some (drop i s)"
  using assms
proof (induction p arbitrary: s i)
  case (Cons c cs)
  then show ?case by (cases i) (auto split: if_splits)
qed simp

subsection \<open>Reversing in place\<close>

lemma reverse_loop_swap:
  assumes "start = length xs" and "f = length xs + Suc (length m)"
  shows "reverse_loop (xs @ a # m @ b # zs) start (int f)
     = reverse_loop (xs @ b # m @ a # zs) (Suc start) (int f - 1)"
proof -
  let ?l = "xs @ a # m @ b # zs"
  have "?l[start := ?l ! f, f := ?l ! start] = xs @ b # m @ a # zs"
    using assms by (simp add: nth_append list_update_append)
  moreover have "start < f" using assms by simp
  ultimately show ?thesis
    by (subst reverse_loop.simps) (simp only: nat_int of_nat_less_iff if_True)
qed

lemma reverse_loop_middle:
  "reverse_loop (xs @ ys @ zs) (length xs) (int (length xs) + int (length ys) - 1) = xs @ rev ys @ zs"
proof (induction "length ys" arbitrary: xs ys zs rule: less_induct)
  case less
  show ?case
  proof (cases "length ys < 2")
    case True
    then have "ys = [] \<or> (\<exists>y. ys = [y])" by (cases ys; cases "tl ys") auto
    then show ?thesis by (subst reverse_loop.simps) auto
  next
    case False
    then obtain a r where "ys = a # r" "r \<noteq> []" by (cases ys) auto
    then obtain m b where ys: "ys = a # m @ [b]" by (metis rev_exhaust)
    have "reverse_loop (xs @ ys @ zs) (length xs) (int (length xs) + int (length ys) - 1)
        = reverse_loop ((xs @ [b]) @ m @ a # zs) (Suc (length xs)) (int (length xs) + int (length ys) - 2)"
      using reverse_loop_swap [OF refl refl, of xs a m b zs] by (simp add: ys algebra_simps)
    also have "\<dots> = (xs @ [b]) @ rev m @ a # zs"
      using less [of m "xs @ [b]" "a # zs"] ys by (simp add: algebra_simps)
    finally show ?thesis by (simp add: ys)
  qed
qed

lemma reverse_loop_prefix:
  "n = length ys \<Longrightarrow> reverse_loop (ys @ zs) 0 (int n - 1) = rev ys @ zs"
  using reverse_loop_middle [of "[]" ys zs] by simp

lemma string_reverse_eq:
  assumes "c_string p = Some s"
  shows "string_reverse p = Some (rev s @ drop (length s) p)"
proof -
  obtain t where "p = s @ 0 # t" using assms by (rule c_string_SomeE)
  then show ?thesis
    using assms by (simp add: string_reverse_def string_length_eq reverse_loop_prefix)
qed

subsection \<open>Decimal text\<close>

text \<open>The character of a decimal digit.\<close>

definition digit_char :: "nat \<Rightarrow> u8" where
  "digit_char d = of_nat (d + 48)"

lemma unat_digit_char: "d < 10 \<Longrightarrow> unat (digit_char d) = d + 48"
  unfolding digit_char_def by (subst unsigned_of_nat) (simp add: take_bit_nat_eq_self)

lemma digit_char_simps:
  assumes "d < 10"
  shows "digit_char d \<le> 57" "48 \<le> digit_char d" "digit_char d \<noteq> 0" "is_digit (digit_char d)"
  using unat_digit_char [OF assms] assms by (auto simp: word_le_nat_alt is_digit_def)

lemma digit_char_u32:
  assumes "d < 10"
  shows "ucast (digit_char d) - 48 = (of_nat d :: u32)"
proof -
  have "ucast (digit_char d) = (of_nat (unat (digit_char d)) :: u32)"
    by (rule of_nat_unat [symmetric])
  then show ?thesis using assms by (simp add: unat_digit_char)
qed

lemma digit_char_of_mod: "ucast (v mod 10) + 48 = digit_char (unat (v :: u32) mod 10)"
proof -
  have "ucast (v mod 10) = (of_nat (unat (v mod 10)) :: u8)"
    by (rule of_nat_unat [symmetric])
  then show ?thesis by (simp only: digit_char_def unat_mod of_nat_add of_nat_numeral unat_numeral) simp
qed

text \<open>The decimal digits of a number, least significant first; none for zero.\<close>

fun lsd_digits :: "nat \<Rightarrow> buf" where
  "lsd_digits n = (if n = 0 then [] else digit_char (n mod 10) # lsd_digits (n div 10))"

declare lsd_digits.simps [simp del]

lemma lsd_digits_0 [simp]: "lsd_digits 0 = []"
  by (simp add: lsd_digits.simps)

lemma lsd_digits_pos: "n > 0 \<Longrightarrow> lsd_digits n = digit_char (n mod 10) # lsd_digits (n div 10)"
  by (simp add: lsd_digits.simps)

lemma length_lsd_digits: "n < 10 ^ k \<Longrightarrow> length (lsd_digits n) \<le> k"
proof (induction k arbitrary: n)
  case (Suc k)
  then have "n div 10 < 10 ^ k" by (simp add: less_mult_imp_div_less mult.commute)
  with Suc.IH [of "n div 10"] show ?case
    by (cases "n = 0") (simp_all add: lsd_digits_pos)
qed simp

lemma string_to_dec_loop_digit:
  "d < 10 \<Longrightarrow>
   string_to_dec_loop dest r (digit_char d # cs) = string_to_dec_loop dest (r * 10 + of_nat d) cs"
  by (simp add: digit_char_simps digit_char_u32)

lemma dec_digits_loop_eq:
  "dec_digits_loop ds v =
     (let l = lsd_digits (unat v) in
      if length l < length ds then Some (l @ 0 # drop (Suc (length l)) ds, length l) else None)"
proof (induction ds v rule: dec_digits_loop.induct)
  case (2 d ds v)
  show ?case
  proof (cases "v = 0")
    case False
    then have l: "lsd_digits (unat v) = digit_char (unat v mod 10) # lsd_digits (unat (v div 10))"
      by (simp add: lsd_digits_pos unat_div unat_gt_0)
    show ?thesis using 2 False by (simp add: l Let_def word_neq_0_conv digit_char_of_mod)
  qed (simp add: Let_def)
qed (simp add: Let_def)

lemma string_to_dec_loop_lsd:
  "string_to_dec_loop dest r (rev (lsd_digits n) @ cs)
   = string_to_dec_loop dest (r * 10 ^ length (lsd_digits n) + of_nat n) cs"
proof (induction n arbitrary: cs rule: lsd_digits.induct)
  case (1 n)
  show ?case
  proof (cases "n = 0")
    case False
    define d m where "d = n mod 10" and "m = n div 10"
    have d: "d < 10" "n = 10 * m + d" by (simp_all add: d_def m_def)
    have l: "lsd_digits n = digit_char d # lsd_digits m"
      using False by (simp add: lsd_digits_pos d_def m_def)
    have "string_to_dec_loop dest r (rev (lsd_digits n) @ cs) =
      string_to_dec_loop dest r (rev (lsd_digits m) @ digit_char d # cs)"
      by (simp only: l rev.simps append_assoc append.simps)
    also have "\<dots> = string_to_dec_loop dest
        ((r * 10 ^ length (lsd_digits m) + of_nat m) * 10 + of_nat d) cs"
      by (simp only: m_def "1.IH" [OF False] string_to_dec_loop_digit [OF d(1)])
    also have "(r * 10 ^ length (lsd_digits m) + of_nat m) * 10 + of_nat d
        = r * 10 ^ length (lsd_digits n) + (of_nat n :: u32)"
      using arg_cong [OF d(2), of "of_nat :: nat \<Rightarrow> u32"] by (simp add: l algebra_simps)
    finally show ?thesis .
  qed simp
qed

lemma dec_to_string_eq:
  assumes "length str \<ge> 11"
  shows "dec_to_string str v =
    (let l = (if v = 0 then [48] else rev (lsd_digits (unat v))) in
     Some (l @ 0 # drop (Suc (length l)) str, length l))"
proof (cases "v = 0")
  case True
  then show ?thesis using assms
    by (cases str; cases "tl str") (auto simp: dec_to_string_def)
next
  case False
  have "unat v < 10 ^ 10" using unsigned_less [of v, where 'a = nat] by simp
  then have "length (lsd_digits (unat v)) \<le> 10" by (rule length_lsd_digits)
  then show ?thesis using assms False
    by (simp add: dec_to_string_def dec_digits_loop_eq Let_def reverse_loop_prefix)
qed

lemma string_to_dec_dec_to_string:
  assumes "length str \<ge> 11" and "dec_to_string str v = Some (m, n)"
  shows "string_to_dec d m = Some (0, v)"
proof (cases "v = 0")
  case False
  then have "m = rev (lsd_digits (unat v)) @ 0 # drop (Suc n) str"
    using assms by (auto simp: dec_to_string_eq Let_def)
  then show ?thesis by (simp add: string_to_dec_def string_to_dec_loop_lsd)
qed (use assms in \<open>auto simp: dec_to_string_eq string_to_dec_def\<close>)

subsection \<open>Hexadecimal text\<close>

definition hex_char :: "u8 \<Rightarrow> u8" where
  "hex_char ch = (if ch < 10 then ch + 48 else ch - 10 + 65)"

definition nibble :: "u32 \<Rightarrow> nat \<Rightarrow> u8" where
  "nibble v n = ucast (drop_bit (4 * n) v AND 15)"

lemma bit_nibble: "bit (nibble v n) i \<longleftrightarrow> i < 4 \<and> bit v (4 * n + i)"
  by (auto simp: nibble_def bit_simps pyro_bits dest: bit_imp_le_length)

lemma nibble_lt: "nibble v n < 16"
proof -
  have "nibble v n = nibble v n AND 15"
    by (rule bit_word_eqI) (auto simp: bit_nibble pyro_bits bit_and_iff)
  then have "nibble v n \<le> 15" by (metis word_and_le1)
  then show ?thesis by (rule le_less_trans) simp
qed

lemma unat_hex_char:
  "x < 16 \<Longrightarrow> unat (hex_char x) = (if unat x < 10 then unat x + 48 else unat x + 55)"
  by (simp add: hex_char_def word_less_nat_alt unat_plus_if' unat_sub_if')

lemma string_to_hex_loop_digit:
  assumes "x < 16"
  shows "string_to_hex_loop dest r (hex_char x # cs) = string_to_hex_loop dest (push_bit 4 r + ucast x) cs"
proof -
  define y where "y = hex_char x"
  have y: "unat y = (if unat x < 10 then unat x + 48 else unat x + 55)" and x: "unat x < 16"
    using assms by (simp_all add: y_def unat_hex_char word_less_nat_alt)
  have "ucast y = (of_nat (unat y) :: u32)" by (rule of_nat_unat [symmetric])
  then have "ucast y = (ucast x + (if unat x < 10 then 48 else 55) :: u32)"
    by (simp only: y) simp
  then have "unat x < 10 \<Longrightarrow> ucast y - 48 = (ucast x :: u32)"
    "\<not> unat x < 10 \<Longrightarrow> ucast y - 65 + 10 = (ucast x :: u32)"
    by simp_all
  moreover have "y \<noteq> 0" using y by (auto split: if_splits)
  ultimately show ?thesis
    using x y by (simp add: word_le_nat_alt flip: y_def)
qed

lemma hex_to_string_loop_eq:
  "n \<le> 8 \<Longrightarrow> hex_to_string_loop str v n =
     (let l = map (\<lambda>i. hex_char (nibble v i)) (rev [0..<n]) in
      if n < length str then Some (l @ 0 # drop (Suc n) str, n) else None)"
proof (induction str v n rule: hex_to_string_loop.induct)
  case (1 str v)
  then show ?case by (cases str) auto
next
  case (3 d ds v n)
  have lt: "nibble v n < 16" by (rule nibble_lt)
  show ?case
  proof (cases "nibble v n < 10")
    case True
    with "3.IH"(1) [OF refl] "3.prems" show ?thesis
      by (simp add: Let_def hex_char_def flip: nibble_def)
  next
    case False
    with "3.IH"(2) [OF refl] "3.prems" lt show ?thesis
      by (simp add: Let_def hex_char_def flip: nibble_def)
  qed
qed (simp add: Let_def)

lemma push_nibble: "push_bit 4 r + ucast (nibble v n) = push_bit 4 r OR ucast (nibble v n)"
  by (rule disjunctive_add) (auto simp: bit_simps bit_nibble)

lemma string_to_hex_loop_nibbles:
  "string_to_hex_loop dest r (map (\<lambda>i. hex_char (nibble v i)) (rev [0..<n]) @ cs) =
   string_to_hex_loop dest (push_bit (4 * n) r OR take_bit (4 * n) v) cs"
proof (induction n arbitrary: r)
  case (Suc n)
  have "push_bit (4 * n) (push_bit 4 r + ucast (nibble v n)) OR take_bit (4 * n) v
      = push_bit (4 * Suc n) r OR take_bit (4 * Suc n) v"
  proof (rule bit_word_eqI)
    fix i assume "i < LENGTH(32)"
    then show "bit (push_bit (4 * n) (push_bit 4 r + ucast (nibble v n)) OR take_bit (4 * n) v) i
        = bit (push_bit (4 * Suc n) r OR take_bit (4 * Suc n) v) i"
      by (cases "i < 4 * n"; cases "i < 4 + 4 * n")
         (auto simp: push_nibble bit_simps bit_nibble add.commute [of 4])
  qed
  then show ?case using Suc [of "push_bit 4 r + ucast (nibble v n)"] 
    by (simp add: string_to_hex_loop_digit nibble_lt del: string_to_hex_loop.simps)
qed simp

lemma string_to_hex_hex_to_string:
  assumes "length str \<ge> 9" and "hex_to_string str v 8 = Some (m, n)"
  shows "string_to_hex d m = Some (0, v)"
proof -
  have "m = map (\<lambda>i. hex_char (nibble v i)) (rev [0..<8]) @ 0 # drop 9 str"
    using assms by (simp add: hex_to_string_def hex_to_string_loop_eq Let_def)
  then show ?thesis
    by (simp only: string_to_hex_def string_to_hex_loop_nibbles) (simp add: take_bit_word_eq_self)
qed

subsection \<open>Searching\<close>

text \<open>
  \<open>string_search\<close> compares the whole rest of the text with the pattern, so what it finds is
  the position at which the text ends with the pattern.
\<close>

lemma string_search_found:
  assumes "c_string p = Some s" and "c_string q = Some sub"
  shows "string_search p q = Some (if sub \<noteq> [] \<and> (\<exists>i. drop i s = sub)
     then Some (length s - length sub) else None)"
  using assms(1)
proof (induction p arbitrary: s)
  case (Cons c cs)
  show ?case
  proof (cases "c = 0")
    case False
    then obtain s' where s': "c_string cs = Some s'" "s = c # s'" using Cons.prems by auto
    have cmp: "string_comp (c # cs) q = Some 0 \<longleftrightarrow> s = sub" "string_comp (c # cs) q \<noteq> None"
      using string_comp_zero_iff [OF Cons.prems assms(2)] string_comp_eq [OF Cons.prems assms(2)] by auto
    have ex: "(\<exists>i. drop i (c # s') = sub) \<longleftrightarrow> c # s' = sub \<or> (\<exists>i. drop i s' = sub)"
      by (metis drop0 drop_Suc_Cons not0_implies_Suc)
    show ?thesis
    proof (cases "s = sub")
      case True
      then show ?thesis using cmp False s' by (auto intro: exI [of _ 0])
    next
      case ne: False
      obtain r where r: "string_comp (c # cs) q = Some r" "r \<noteq> 0" using cmp ne by auto
      have le: "drop i s' = sub \<Longrightarrow> length sub \<le> length s'" for i by auto
      show ?thesis
        using False ne r Cons.IH [OF s'(1)] s'(2) ex le by (auto simp: Suc_diff_le)
    qed
  qed (use Cons.prems in auto)
qed simp

subsection \<open>Internet addresses\<close>

definition octet_text :: "buf \<Rightarrow> bool" where
  "octet_text t \<longleftrightarrow> 1 \<le> length t \<and> length t \<le> 3 \<and> list_all is_digit t \<and> scan_digits 0 t \<le> 255"

lemma dec_number_loop_pure:
  assumes "46 \<notin> set t"
  shows "dec_number_loop (t @ [0]) (int (length t)) a b =
     Some (a + int (length (filter is_digit t)), b)"
  using assms
proof (induction t arbitrary: a)
  case (Cons c t)
  have "uint c - 48 \<le> 9 \<and> uint c - 48 \<ge> 0 \<longleftrightarrow> is_digit c"
    by (auto simp: is_digit_def word_le_def)
  then show ?case using Cons by (auto simp: is_digit_def)
qed simp

lemma filter_all_length: "length (filter P xs) = length xs \<longleftrightarrow> list_all P xs"
  by (metis filter_True length_filter_less less_irrefl list_all_iff)

lemma is_dec_number_token:
  assumes "46 \<notin> set t" and "t \<noteq> []" and "hd t \<noteq> 45"
  shows "is_dec_number (t @ [0]) (int (length t)) = Some (if list_all is_digit t then 1 else 0)"
proof (cases t)
  case (Cons c cs)
  then show ?thesis
    using assms dec_number_loop_pure [OF assms(1), of 0 0] filter_all_length [of is_digit t]
    by (auto simp: dec_number_verdict_def)
qed (use assms in simp)

lemma scan_digits_nonneg: "0 \<le> v \<Longrightarrow> 0 \<le> scan_digits v t"
  by (induction t arbitrary: v) (auto simp: is_digit_def word_le_def)

lemma sscanf_d_digits:
  assumes "list_all is_digit t" and "t \<noteq> []"
  shows "sscanf_d t = Some (scan_digits 0 t)"
proof (cases t)
  case (Cons c cs)
  have "is_digit c" using assms(1) Cons by simp
  moreover have "\<not> c_isspace c" "c \<noteq> 45" "c \<noteq> 43"
    using \<open>is_digit c\<close> by (auto simp: is_digit_def c_isspace_def word_le_def)
  ultimately show ?thesis using Cons by (simp add: sscanf_d_def)
qed (use assms in simp)

lemma is_dec_number_minus_defined:
  assumes "46 \<notin> set t" and "t \<noteq> []" and "hd t = 45"
  shows "is_dec_number (t @ [0]) (int (length t)) \<noteq> None"
  using assms dec_number_loop_pure [OF assms(1), of 0 0]
  by (cases t; cases "tl t") (auto simp: dec_number_verdict_def)

lemma valid_ip_loop_eq:
  assumes "\<forall>t \<in> set ts. 46 \<notin> set t \<and> t \<noteq> []"
  shows "valid_ip_loop ts k l n =
    Some (list_all octet_text ts \<and> k + int (length ts) = 4 \<and> l + int (length (concat ts)) + 3 = n)"
  using assms
proof (induction ts arbitrary: k l)
  case (Cons t ts)
  then have t: "46 \<notin> set t" "t \<noteq> []" by simp_all
  show ?case
  proof (cases "octet_text t")
    case True
    then have d: "list_all is_digit t" and "hd t \<noteq> 45" "length t \<le> 3" "scan_digits 0 t \<le> 255"
      using t(2) by (cases t; auto simp: octet_text_def is_digit_def)+
    then show ?thesis
      using Cons True t is_dec_number_token [of t] sscanf_d_digits [of t] scan_digits_nonneg [of 0 t]
      by (cases t) (auto simp: Let_def add.assoc Suc_le_eq)
  next
    case False
    then show ?thesis
    proof (cases "length t > 3 \<or> hd t = 45")
      case True
      then show ?thesis using False t is_dec_number_minus_defined [of t]
        by (cases t) (auto simp: Let_def)
    next
      case short: False
      then show ?thesis
        using False t is_dec_number_token [of t] sscanf_d_digits [of t]
        by (cases t) (auto simp: Let_def octet_text_def)
    qed
  qed
qed (simp add: add.commute)

lemma dot_tokens_wf:
  "46 \<notin> set acc \<Longrightarrow> t \<in> set (dot_tokens acc s) \<Longrightarrow> 46 \<notin> set t \<and> t \<noteq> []"
  by (induction acc s rule: dot_tokens.induct) (auto split: if_splits)

lemma dot_tokens_token:
  "46 \<notin> set t \<Longrightarrow> acc @ t \<noteq> [] \<Longrightarrow> dot_tokens acc (t @ 46 # r) = (acc @ t) # dot_tokens [] r"
  by (induction t arbitrary: acc) auto

lemma dot_tokens_final: "46 \<notin> set t \<Longrightarrow> acc @ t \<noteq> [] \<Longrightarrow> dot_tokens acc t = [acc @ t]"
  by (induction t arbitrary: acc) auto

lemma dot_tokens_length:
  "length (concat (dot_tokens acc s)) + length (filter (\<lambda>c. c = 46) s) = length acc + length s"
  by (induction acc s rule: dot_tokens.induct) auto

lemma dot_tokens_count: "length (dot_tokens acc s) \<le> Suc (length (filter (\<lambda>c. c = 46) s))"
  by (induction acc s rule: dot_tokens.induct) auto

text \<open>Text with one token more than dots is its tokens with single dots in between.\<close>

fun dotted :: "buf list \<Rightarrow> buf" where
  "dotted [] = []"
| "dotted [t] = t"
| "dotted (t # ts) = t @ 46 # dotted ts"

lemma dotted_Cons: "ts \<noteq> [] \<Longrightarrow> dotted (t # ts) = t @ 46 # dotted ts"
  by (cases ts) auto

lemma dot_tokens_tight:
  "length (dot_tokens acc s) = Suc (length (filter (\<lambda>c. c = 46) s)) \<Longrightarrow> dotted (dot_tokens acc s) = acc @ s"
proof (induction acc s rule: dot_tokens.induct)
  case (2 acc c cs)
  show ?case
  proof (cases "c = 46")
    case True
    have "acc \<noteq> []"
      using "2.prems" True dot_tokens_count [of "[]" cs] by auto
    moreover have "dot_tokens [] cs \<noteq> []"
      using "2.prems" True \<open>acc \<noteq> []\<close> by auto
    ultimately show ?thesis using 2 True by (simp add: dotted_Cons)
  next
    case False
    then show ?thesis using 2 by auto
  qed
qed (auto split: if_splits)

lemma octet_text_no_dot: "octet_text t \<Longrightarrow> 46 \<notin> set t \<and> t \<noteq> []"
  by (auto simp: octet_text_def list_all_iff is_digit_def word_le_def)

lemma dot_tokens_dotted:
  "list_all octet_text ts \<Longrightarrow> ts \<noteq> [] \<Longrightarrow> dot_tokens [] (dotted ts) = ts"
  by (induction ts rule: dotted.induct)
     (auto simp: dot_tokens_token dot_tokens_final dest: octet_text_no_dot)

lemma length_dotted: "ts \<noteq> [] \<Longrightarrow> Suc (length (dotted ts)) = length (concat ts) + length ts"
  by (induction ts rule: dotted.induct) auto

lemma list4: "length xs = 4 \<Longrightarrow> \<exists>a b c d. xs = [a, b, c, d]"
  by (auto simp: numeral_eq_Suc length_Suc_conv)

lemma valid_ip_tokens:
  "list_all octet_text (dot_tokens [] s) \<and> length (dot_tokens [] s) = 4
     \<and> length (concat (dot_tokens [] s)) + 3 = length s
   \<longleftrightarrow> (\<exists>a b c d. octet_text a \<and> octet_text b \<and> octet_text c \<and> octet_text d
         \<and> s = a @ 46 # b @ 46 # c @ 46 # d)" (is "?L \<longleftrightarrow> ?R")
proof
  assume L: ?L
  then obtain a b c d where ts: "dot_tokens [] s = [a, b, c, d]" using list4 by blast
  have "length (dot_tokens [] s) = Suc (length (filter (\<lambda>c. c = 46) s))"
    using L dot_tokens_length [of "[]" s] by simp
  then have "dotted (dot_tokens [] s) = s" using dot_tokens_tight [of "[]" s] by simp
  then show ?R using L ts by auto
next
  assume ?R
  then obtain a b c d where o: "list_all octet_text [a, b, c, d]" and s: "s = dotted [a, b, c, d]"
    by auto
  then have "dot_tokens [] s = [a, b, c, d]" using dot_tokens_dotted [of "[a, b, c, d]"] by simp
  then show ?L using o s by simp
qed

lemma is_valid_ip_eq:
  assumes "c_string p = Some s" and "length s < IP_COPY_SIZE"
  shows "is_valid_ip p = Some (\<exists>a b c d. octet_text a \<and> octet_text b \<and> octet_text c \<and> octet_text d
         \<and> s = a @ 46 # b @ 46 # c @ 46 # d)"
proof -
  have "\<forall>t \<in> set (dot_tokens [] s). 46 \<notin> set t \<and> t \<noteq> []" using dot_tokens_wf [of "[]"] by simp
  from valid_ip_loop_eq [OF this, of 0 0 "int (length s)"]
  have "valid_ip_loop (dot_tokens [] s) 0 0 (int (length s)) =
     Some (list_all octet_text (dot_tokens [] s) \<and> length (dot_tokens [] s) = 4
       \<and> length (concat (dot_tokens [] s)) + 3 = length s)"
    by (auto simp: algebra_simps)
  then show ?thesis using assms by (simp add: is_valid_ip_def valid_ip_tokens)
qed

lemma is_check_fmt_valid_prefix:
  assumes "c_string p = Some s"
  shows "is_check_fmt_valid p = Some (s \<noteq> [] \<and> hd s = 56 \<and> c_strstr valid_formats (take 3 s))"
proof -
  have "c_string q = Some t \<Longrightarrow> c_strncpy q n = Some (take n t)" for q t n
    by (induction q n arbitrary: t rule: c_strncpy.induct) (auto split: if_splits)
  then show ?thesis using assms by (cases p) (auto split: if_splits)
qed

subsection \<open>Properties\<close>

text \<open>\<open>string_comp\<close> is the three-way lexicographic comparison of the two strings.\<close>

theorem string_comp_is_lexicographic:
  assumes "c_string str1 = Some s" and "c_string str2 = Some t"
  shows "string_comp str1 str2 = Some (if s = t then 0 else if ord_class.lexordp s t then - 1 else 1)"
  using assms by (rule string_comp_eq)

theorem string_comp_is_lexicographic_witness:
  "string_comp (cstr ''AE'') (cstr ''AF'') = Some (- 1)"
  using string_comp_is_lexicographic [of "cstr ''AE''" "bytes ''AE''" "cstr ''AF''" "bytes ''AF''"]
  by (simp add: cstr_def bytes_def)

text \<open>printing any 32-bit number in decimal into a buffer of eleven characters succeeds, and
  reading the text back gives the number.\<close>

theorem dec_text_roundtrip:
  assumes "11 \<le> length str"
  shows "\<exists>m n. dec_to_string str v = Some (m, n) \<and> string_to_dec d m = Some (0, v)"
  using dec_to_string_eq [OF assms, of v] string_to_dec_dec_to_string [OF assms] by (auto simp: Let_def)

theorem dec_text_roundtrip_witness:
  "\<exists>m n. dec_to_string (replicate 11 0) 4294967295 = Some (m, n) \<and> string_to_dec 0 m = Some (0, 4294967295)"
  by (rule dec_text_roundtrip) simp

text \<open>printing any 32-bit number with eight hexadecimal digits into a buffer of nine
  characters succeeds, and reading the text back gives the number.\<close>

theorem hex_text_roundtrip:
  assumes "9 \<le> length str"
  shows "\<exists>m n. hex_to_string str v 8 = Some (m, n) \<and> string_to_hex d m = Some (0, v)"
proof -
  have "\<exists>m n. hex_to_string str v 8 = Some (m, n)"
    using assms by (simp add: hex_to_string_def hex_to_string_loop_eq Let_def)
  then show ?thesis using string_to_hex_hex_to_string [OF assms] by blast
qed

theorem hex_text_roundtrip_witness:
  "\<exists>m n. hex_to_string (replicate 9 0) 0xDEADBEEF 8 = Some (m, n) \<and> string_to_hex 0 m = Some (0, 0xDEADBEEF)"
  by (rule hex_text_roundtrip) simp

text \<open>\<open>is_valid_ip\<close> accepts exactly the texts of four decimal numbers of one to three digits,
  none above 255, with single dots between them.\<close>

theorem is_valid_ip_iff_dotted_quad:
  assumes "c_string ip = Some s" and "length s < IP_COPY_SIZE"
  shows "is_valid_ip ip = Some (\<exists>a b c d. octet_text a \<and> octet_text b \<and> octet_text c \<and> octet_text d
         \<and> s = a @ 46 # b @ 46 # c @ 46 # d)"
  using assms by (rule is_valid_ip_eq)

theorem is_valid_ip_iff_dotted_quad_witness:
  "is_valid_ip (cstr ''192.168.0.1'') = Some True"
proof -
  have s: "c_string (cstr ''192.168.0.1'') = Some (bytes ''192.168.0.1'')"
    by (simp add: cstr_def bytes_def)
  have "octet_text (bytes ''192'') \<and> octet_text (bytes ''168'') \<and> octet_text (bytes ''0'') \<and> octet_text (bytes ''1'')
    \<and> bytes ''192.168.0.1'' = bytes ''192'' @ 46 # bytes ''168'' @ 46 # bytes ''0'' @ 46 # bytes ''1''"
    by code_simp
  then have "\<exists>a b c d. octet_text a \<and> octet_text b \<and> octet_text c \<and> octet_text d
    \<and> bytes ''192.168.0.1'' = a @ 46 # b @ 46 # c @ 46 # d" by blast
  moreover have "length (bytes ''192.168.0.1'') < IP_COPY_SIZE" by (simp add: bytes_def IP_COPY_SIZE_def)
  ultimately show ?thesis using is_valid_ip_iff_dotted_quad [OF s] by simp
qed

text \<open>\<open>string_search\<close> reports a position only where the rest of the text is the whole pattern:
  it finds a pattern at the end of the text and no other occurrence.\<close>

theorem string_search_finds_suffix_only:
  assumes "c_string str = Some s" and "c_string sub = Some t"
  shows "string_search str sub =
    Some (if t \<noteq> [] \<and> (\<exists>i. drop i s = t) then Some (length s - length t) else None)"
  using assms by (rule string_search_found)

theorem string_search_finds_suffix_only_witness:
  "string_search (cstr ''abc'') (cstr ''b'') = Some None"
proof -
  have "\<not> (\<exists>i. drop i (bytes ''abc'') = bytes ''b'')"
  proof
    assume "\<exists>i. drop i (bytes ''abc'') = bytes ''b''"
    then obtain i where i: "drop i (bytes ''abc'') = bytes ''b''" by blast
    then have "length (bytes ''abc'') - i = length (bytes ''b'')" by (metis length_drop)
    then have "i = 2" by (simp add: bytes_def)
    with i show False by (simp add: bytes_def)
  qed
  then show ?thesis
    using string_search_finds_suffix_only [of "cstr ''abc''" "bytes ''abc''" "cstr ''b''" "bytes ''b''"]
    by (simp add: cstr_def bytes_def)
qed

end
