(* ===== verification/Hq_Crc.thy ===== *)
theory Hq_Crc
  imports Pyro_Prelude
begin

text \<open>
  The three 16-bit cyclic redundancy checks of \<open>src/lib/microlib/hq_generic.c\<close>. Each is
  computed four bits at a time from a table of sixteen entries; the theory shows that the
  tables compute the division bit by bit, and what follows from it about detected errors.
\<close>

subsection \<open>The code\<close>

definition CRC16_CCITT_TABLE :: "u16 list" where
  "CRC16_CCITT_TABLE =
    [0x0000, 0x1021, 0x2042, 0x3063, 0x4084, 0x50A5, 0x60C6, 0x70E7,
     0x8108, 0x9129, 0xA14A, 0xB16B, 0xC18C, 0xD1AD, 0xE1CE, 0xF1EF]"

definition CRC16_IBM_TABLE :: "u16 list" where
  "CRC16_IBM_TABLE =
    [0x0000, 0x8005, 0x800F, 0x000A, 0x801B, 0x001E, 0x0014, 0x8011,
     0x8033, 0x0036, 0x003C, 0x8039, 0x0028, 0x802D, 0x8027, 0x0022]"

definition CRC16_RTU_TABLE :: "u16 list" where
  "CRC16_RTU_TABLE =
    [0x0000, 0xCC01, 0xD801, 0x1400, 0xF001, 0x3C00, 0x2800, 0xE401,
     0xA001, 0x6C00, 0x7800, 0xB401, 0x5000, 0x9C01, 0x8801, 0x4400]"

text \<open>One statement of the loops: a nibble is looked up and shifted in.\<close>

definition msb_nibble :: "u16 list \<Rightarrow> u16 \<Rightarrow> u16 \<Rightarrow> u16" where
  "msb_nibble table crc n = push_bit 4 crc XOR table ! unat (drop_bit 12 crc XOR n)"

definition rtu_nibble :: "u16 \<Rightarrow> u16 \<Rightarrow> u16" where
  "rtu_nibble crc n = drop_bit 4 crc XOR CRC16_RTU_TABLE ! unat ((crc AND 15) XOR n)"

text \<open>The loop bodies.\<close>

definition ccitt_byte :: "u8 \<Rightarrow> u16 \<Rightarrow> u16" where
  "ccitt_byte d crc =
     (let crc = msb_nibble CRC16_CCITT_TABLE crc (ucast (drop_bit 4 d) AND 15) in
      msb_nibble CRC16_CCITT_TABLE crc (ucast d AND 15))"

definition ibm_byte :: "u8 \<Rightarrow> u16 \<Rightarrow> u16" where
  "ibm_byte d crc =
     (let crc = msb_nibble CRC16_IBM_TABLE crc (ucast (drop_bit 4 d) AND 15) in
      msb_nibble CRC16_IBM_TABLE crc (ucast d AND 15))"

definition rtu_byte :: "u8 \<Rightarrow> u16 \<Rightarrow> u16" where
  "rtu_byte d crc =
     (let crc = rtu_nibble crc (ucast d AND 15) in
      rtu_nibble crc (ucast (drop_bit 4 d) AND 15))"

text \<open>
  The loop \<open>while (len-- != 0)\<close> over the bytes; with a length that exceeds the object, or a
  negative one, it leaves the object.
\<close>

fun crc_loop :: "(u8 \<Rightarrow> u16 \<Rightarrow> u16) \<Rightarrow> u16 \<Rightarrow> buf \<Rightarrow> int \<Rightarrow> u16 option" where
  "crc_loop upd crc [] len = (if len \<noteq> 0 then None else Some crc)"
| "crc_loop upd crc (d # ds) len = (if len \<noteq> 0 then crc_loop upd (upd d crc) ds (len - 1) else Some crc)"

definition crc16_CCITT :: "buf \<Rightarrow> int \<Rightarrow> u16 option" where
  "crc16_CCITT buff len = crc_loop ccitt_byte 0 buff len"

definition crc16_IBM :: "buf \<Rightarrow> int \<Rightarrow> u16 option" where
  "crc16_IBM buff len = crc_loop ibm_byte 0 buff len"

definition crc16_RTU :: "buf \<Rightarrow> int \<Rightarrow> u16 option" where
  "crc16_RTU buff len = crc_loop rtu_byte 0xFFFF buff len"

text \<open>The value of a call whose length is that of the data; this is what the clients of the checksum use.\<close>

definition crc_rtu :: "buf \<Rightarrow> u16" where
  "crc_rtu m = fold rtu_byte m 0xFFFF"

lemma crc_loop_take:
  "n \<le> length b \<Longrightarrow> crc_loop upd c b (int n) = Some (fold upd (take n b) c)"
proof (induction b arbitrary: c n)
  case (Cons d b)
  then show ?case by (cases n) auto
qed simp

lemma crc16_RTU_take: "n \<le> length b \<Longrightarrow> crc16_RTU b (int n) = Some (crc_rtu (take n b))"
  by (simp add: crc16_RTU_def crc_rtu_def crc_loop_take)

subsection \<open>Division of polynomials bit by bit\<close>

text \<open>
  The reference: \<open>lsb_bit\<close> and \<open>msb_bit\<close> divide by the polynomial one bit at a time, in the
  reflected and in the plain bit order.
\<close>

definition lsb_bit :: "u16 \<Rightarrow> u16 \<Rightarrow> u16" where
  "lsb_bit poly c = drop_bit 1 c XOR (if bit c 0 then poly else 0)"

definition msb_bit :: "u16 \<Rightarrow> u16 \<Rightarrow> u16" where
  "msb_bit poly c = push_bit 1 c XOR (if bit c 15 then poly else 0)"

definition lsb_byte :: "u16 \<Rightarrow> u8 \<Rightarrow> u16 \<Rightarrow> u16" where
  "lsb_byte poly d c = (lsb_bit poly ^^ 8) (c XOR ucast d)"

definition msb_byte :: "u16 \<Rightarrow> u8 \<Rightarrow> u16 \<Rightarrow> u16" where
  "msb_byte poly d c = (msb_bit poly ^^ 8) (c XOR push_bit 8 (ucast d))"

lemma lsb_bit_xor: "lsb_bit p (a XOR b) = lsb_bit p a XOR lsb_bit p b"
  by (simp add: lsb_bit_def bit_xor_iff ac_simps drop_bit_xor)

lemma msb_bit_xor: "msb_bit p (a XOR b) = msb_bit p a XOR msb_bit p b"
  by (simp add: msb_bit_def bit_xor_iff ac_simps push_bit_xor)

lemma funpow_xor:
  fixes f :: "u16 \<Rightarrow> u16"
  assumes "\<And>a b. f (a XOR b) = f a XOR f b"
  shows "(f ^^ n) (a XOR b) = (f ^^ n) a XOR (f ^^ n) b"
  by (induction n) (simp_all add: assms)

lemma word_split_mask: "(x :: u16) = (x AND m) XOR (x AND NOT m)"
  by (rule bit_word_eqI) (auto simp: bit_simps)

lemma lsb_bit_even: "\<not> bit c 0 \<Longrightarrow> lsb_bit p c = drop_bit 1 c"
  by (simp add: lsb_bit_def)

lemma lsb_bits_shift:
  "(\<And>i. i < n \<Longrightarrow> \<not> bit c i) \<Longrightarrow> (lsb_bit p ^^ n) c = drop_bit n c"
proof (induction n arbitrary: c)
  case (Suc n)
  then have "(lsb_bit p ^^ Suc n) c = lsb_bit p (drop_bit n c)" by simp
  also have "\<dots> = drop_bit (Suc n) c"
    using Suc.prems [of n] by (simp add: lsb_bit_even bit_drop_bit_eq)
  finally show ?case .
qed simp

lemma msb_bits_shift:
  "n \<le> 16 \<Longrightarrow> (\<And>i. 16 - n \<le> i \<Longrightarrow> \<not> bit c i) \<Longrightarrow> (msb_bit p ^^ n) c = push_bit n c"
proof (induction n arbitrary: c)
  case (Suc n)
  then have "(msb_bit p ^^ Suc n) c = msb_bit p (push_bit n c)" by simp
  also have "\<dots> = push_bit (Suc n) c"
    using Suc.prems(1) Suc.prems(2) [of "15 - n"] by (simp add: msb_bit_def bit_push_bit_iff)
  finally show ?case .
qed simp

lemmas lsb_bits_xor = funpow_xor [of "lsb_bit p" for p, OF lsb_bit_xor]
lemmas msb_bits_xor = funpow_xor [of "msb_bit p" for p, OF msb_bit_xor]

lemma rtu_table_eq: "CRC16_RTU_TABLE = map (\<lambda>n. (lsb_bit 0xA001 ^^ 4) (of_nat n)) [0..<16]"
  by code_simp

lemma ccitt_table_eq:
  "CRC16_CCITT_TABLE = map (\<lambda>n. (msb_bit 0x1021 ^^ 4) (push_bit 12 (of_nat n))) [0..<16]"
  by code_simp

lemma ibm_table_eq:
  "CRC16_IBM_TABLE = map (\<lambda>n. (msb_bit 0x8005 ^^ 4) (push_bit 12 (of_nat n))) [0..<16]"
  by code_simp

lemma rtu_nibble_eq:
  assumes "n AND 15 = n"
  shows "rtu_nibble c n = (lsb_bit 0xA001 ^^ 4) (c XOR n)"
proof -
  define x where "x = c XOR n"
  have lo: "(c AND 15) XOR n = x AND 15"
    unfolding x_def by (subst assms [symmetric]) (rule bit_word_eqI, auto simp: bit_simps)
  have "CRC16_RTU_TABLE ! unat (x AND 15) = (lsb_bit 0xA001 ^^ 4) (x AND 15)"
    by (simp add: rtu_table_eq unat_lt_16 del: upt_Suc)
  moreover have "(lsb_bit 0xA001 ^^ 4) (x AND NOT 15) = drop_bit 4 c"
  proof -
    have "x AND NOT 15 = push_bit 4 (drop_bit 4 c)"
      unfolding x_def
      by (subst assms [symmetric]) (rule bit_word_eqI, auto simp: bit_simps pyro_bits)
    moreover have "(lsb_bit 0xA001 ^^ 4) (push_bit 4 (drop_bit 4 c)) = drop_bit 4 (push_bit 4 (drop_bit 4 c))"
      by (rule lsb_bits_shift) (auto simp: bit_simps)
    moreover have "drop_bit 4 (push_bit 4 (drop_bit 4 c)) = drop_bit 4 c"
      by (rule bit_word_eqI) (auto simp: bit_simps dest: bit_imp_le_length)
    ultimately show ?thesis by simp
  qed
  ultimately have "rtu_nibble c n = (lsb_bit 0xA001 ^^ 4) ((x AND 15) XOR (x AND NOT 15))"
    by (simp only: rtu_nibble_def lo lsb_bits_xor) (simp add: ac_simps)
  then show ?thesis by (simp only: word_split_mask [symmetric] x_def)
qed

lemma msb_nibble_eq:
  assumes T: "T = map (\<lambda>n. (msb_bit p ^^ 4) (push_bit 12 (of_nat n))) [0..<16]" and "n AND 15 = n"
  shows "msb_nibble T c n = (msb_bit p ^^ 4) (c XOR push_bit 12 n)"
proof -
  define k where "k = drop_bit 12 c XOR n"
  have "k AND 15 = k"
    unfolding k_def by (subst (1 2) assms(2) [symmetric]) 
      (rule bit_word_eqI, auto simp: bit_simps pyro_bits dest: bit_imp_le_length)
  then have "unat k < 16" using unat_lt_16 [of k] by simp
  then have "T ! unat k = (msb_bit p ^^ 4) (push_bit 12 k)"
    by (simp add: T del: upt_Suc)
  moreover have "push_bit 4 c = (msb_bit p ^^ 4) (take_bit 12 c)"
    by (subst msb_bits_shift) (auto simp: bit_simps intro!: bit_word_eqI)
  moreover have "take_bit 12 c XOR push_bit 12 k = c XOR push_bit 12 n"
  proof (rule bit_word_eqI)
    fix i assume "i < LENGTH(16)"
    then show "bit (take_bit 12 c XOR push_bit 12 k) i = bit (c XOR push_bit 12 n) i"
      by (cases "i < 12") (auto simp: k_def bit_simps)
  qed
  ultimately show ?thesis
    by (simp only: msb_nibble_def msb_bits_xor [symmetric] k_def)
qed

lemma nibbles_masked:
  "(ucast d AND 15) AND 15 = (ucast d AND 15 :: u16)"
  by (simp add: and.assoc)

lemma byte_of_nibbles:
  "(ucast d AND 15) XOR push_bit 4 (ucast (drop_bit 4 d) AND 15) = (ucast (d :: u8) :: u16)"
proof (rule bit_word_eqI)
  fix i assume "i < LENGTH(16)"
  then show "bit ((ucast d AND 15 :: u16) XOR push_bit 4 (ucast (drop_bit 4 d) AND 15)) i = bit (ucast d :: u16) i"
    by (cases "i < 4"; cases "i < 8") (auto simp: bit_simps pyro_bits simp del: push_bit_and)
qed

lemma nibble_bit: "n AND 15 = n \<Longrightarrow> bit (n :: u16) i \<Longrightarrow> i < 4"
  by (metis bit_15 bit_and_iff bit_numeral_word_iff)

lemma msb_nibble_shift:
  assumes "n AND 15 = n"
  shows "(msb_bit p ^^ 4) (push_bit 8 n) = push_bit 12 n"
  by (subst msb_bits_shift) (auto simp: bit_push_bit_iff dest!: nibble_bit [OF assms])

lemma rtu_byte_eq: "rtu_byte d c = lsb_byte 0xA001 d c"
proof -
  let ?z = "lsb_bit 0xA001" and ?lo = "ucast d AND 15 :: u16" and ?hi = "ucast (drop_bit 4 d) AND 15 :: u16"
  have hi: "?hi = (?z ^^ 4) (push_bit 4 ?hi)"
    by (subst lsb_bits_shift) (auto simp: bit_simps pyro_bits intro!: bit_word_eqI)
  have "rtu_byte d c = (?z ^^ 4) ((?z ^^ 4) (c XOR ?lo) XOR ?hi)"
    by (simp add: rtu_byte_def rtu_nibble_eq nibbles_masked)
  also have "\<dots> = (?z ^^ 4) ((?z ^^ 4) (c XOR ?lo XOR push_bit 4 ?hi))"
    by (subst hi) (simp only: lsb_bits_xor xor.assoc)
  also have "c XOR ?lo XOR push_bit 4 ?hi = c XOR ucast d"
    using byte_of_nibbles [of d] by simp
  also have "(?z ^^ 4) ((?z ^^ 4) (c XOR ucast d)) = (?z ^^ 8) (c XOR ucast d)"
    by (simp only: funpow_add [of 4 4, simplified, THEN fun_cong, unfolded comp_def])
  finally show ?thesis by (simp add: lsb_byte_def)
qed

lemma msb_byte_eq:
  assumes T: "T = map (\<lambda>n. (msb_bit p ^^ 4) (push_bit 12 (of_nat n))) [0..<16]"
  shows "msb_nibble T (msb_nibble T c (ucast (drop_bit 4 d) AND 15)) (ucast d AND 15) = msb_byte p d c"
proof -
  let ?z = "msb_bit p" and ?lo = "ucast d AND 15 :: u16" and ?hi = "ucast (drop_bit 4 d) AND 15 :: u16"
  have lo: "push_bit 12 ?lo = (?z ^^ 4) (push_bit 8 ?lo)"
    by (rule msb_nibble_shift [symmetric]) (rule nibbles_masked)
  have "msb_nibble T (msb_nibble T c ?hi) ?lo = (?z ^^ 4) ((?z ^^ 4) (c XOR push_bit 12 ?hi) XOR push_bit 12 ?lo)"
    by (simp add: msb_nibble_eq [OF T] nibbles_masked)
  also have "\<dots> = (?z ^^ 4) ((?z ^^ 4) (c XOR push_bit 12 ?hi XOR push_bit 8 ?lo))"
    by (subst lo) (simp only: msb_bits_xor xor.assoc)
  also have "c XOR push_bit 12 ?hi XOR push_bit 8 ?lo = c XOR push_bit 8 (ucast d)"
    using arg_cong [OF byte_of_nibbles [of d], of "push_bit 8"] by (simp add: push_bit_xor xor.commute)
  also have "(?z ^^ 4) ((?z ^^ 4) (c XOR push_bit 8 (ucast d))) = (?z ^^ 8) (c XOR push_bit 8 (ucast d))"
    by (simp only: funpow_add [of 4 4, simplified, THEN fun_cong, unfolded comp_def])
  finally show ?thesis by (simp add: msb_byte_def)
qed

lemma ccitt_byte_eq: "ccitt_byte d c = msb_byte 0x1021 d c"
  by (simp add: ccitt_byte_def msb_byte_eq [OF ccitt_table_eq])

lemma ibm_byte_eq: "ibm_byte d c = msb_byte 0x8005 d c"
  by (simp add: ibm_byte_def msb_byte_eq [OF ibm_table_eq])

subsection \<open>Error detection\<close>

text \<open>
  The contract of a checksum register of two bytes: updating with one byte loses nothing of
  the register, and two bytes that are shifted in one after the other can be told apart.
\<close>

locale crc_register =
  fixes upd :: "u8 \<Rightarrow> u16 \<Rightarrow> u16"
  assumes upd_inj: "upd d c = upd d c' \<Longrightarrow> c = c'"
    and upd_pair: "upd b (upd a c) = upd b' (upd a' c) \<Longrightarrow> a = a' \<and> b = b'"
begin

lemma fold_inj: "fold upd m c = fold upd m c' \<Longrightarrow> c = c'"
  by (induction m arbitrary: c c') (auto dest: upd_inj)

text \<open>Two messages that differ inside a window of two neighbouring bytes have different checksums.\<close>

lemma burst_detected:
  assumes "fold upd (p @ [a, b] @ q) c = fold upd (p @ [a', b'] @ q) c"
  shows "a = a' \<and> b = b'"
proof -
  have "upd b (upd a (fold upd p c)) = upd b' (upd a' (fold upd p c))"
    using assms fold_inj [of q] by simp
  then show ?thesis by (rule upd_pair)
qed

lemma byte_detected:
  assumes "fold upd (p @ a # q) c = fold upd (p @ a' # q) c"
  shows "a = a'"
proof -
  have "upd a (fold upd p c) = upd a' (fold upd p c)"
    using assms fold_inj [of q] by auto
  then show ?thesis using upd_pair [of 0 a _ 0 a'] by metis
qed

end

lemma xor_right_cancel: "c XOR d = c' XOR d \<longleftrightarrow> c = (c' :: u16)"
  by (metis xor.assoc xor.right_neutral xor_self_eq)

lemma xor_eq_0D: "a XOR b = 0 \<Longrightarrow> a = (b :: u16)"
  by (metis xor_right_cancel xor_self_eq)

lemma lsb_bit_inj:
  assumes "bit p 15" and "lsb_bit p a = lsb_bit p b"
  shows "a = b"
proof -
  define c where "c = a XOR b"
  have z: "lsb_bit p c = 0" using assms(2) by (simp add: c_def lsb_bit_xor)
  have "bit (lsb_bit p c) 15 = bit c 0"
    using assms(1) by (simp add: lsb_bit_def bit_simps)
  then have "\<not> bit c 0" by (simp add: z)
  then have "bit (lsb_bit p c) i = bit c (Suc i)" for i by (simp add: lsb_bit_def bit_simps)
  then have "\<not> bit c i" for i using z \<open>\<not> bit c 0\<close> by (cases i) auto
  then have "c = 0" by (auto intro: bit_word_eqI)
  then show ?thesis unfolding c_def by (rule xor_eq_0D)
qed

lemma msb_bit_inj:
  assumes "bit p 0" and "msb_bit p a = msb_bit p b"
  shows "a = b"
proof -
  define c where "c = a XOR b"
  have z: "msb_bit p c = 0" using assms(2) by (simp add: c_def msb_bit_xor)
  have "bit (msb_bit p c) 0 = bit c 15"
    using assms(1) by (simp add: msb_bit_def bit_xor_iff bit_push_bit_iff del: push_bit_Suc push_bit_of_Suc_0)
  then have n: "\<not> bit c 15" by (simp add: z)
  have "\<not> bit c i" for i
  proof (cases "i < 15")
    case True
    then have "bit (msb_bit p c) (Suc i) = bit c i" using n
      by (simp add: msb_bit_def bit_xor_iff bit_push_bit_iff del: push_bit_Suc push_bit_of_Suc_0)
    then show ?thesis by (simp add: z)
  next
    case False
    then show ?thesis using n by (cases "i = 15") auto
  qed
  then have "c = 0" by (auto intro: bit_word_eqI)
  then show ?thesis unfolding c_def by (rule xor_eq_0D)
qed

lemma funpow_inj:
  fixes f :: "u16 \<Rightarrow> u16"
  shows "(\<And>a b. f a = f b \<Longrightarrow> a = b) \<Longrightarrow> (f ^^ n) a = (f ^^ n) b \<Longrightarrow> a = b"
  using inj_fn [of f n] by (metis injD injI)

text \<open>Two bytes shifted in one after the other are sixteen bits that are added at once.\<close>

lemma lsb_pair: "lsb_byte p b (lsb_byte p a c) = (lsb_bit p ^^ 16) (c XOR get16 [a, b])"
proof -
  have b: "ucast b = (lsb_bit p ^^ 8) (push_bit 8 (ucast b))"
    by (subst lsb_bits_shift) (auto simp: bit_simps intro!: bit_word_eqI dest: bit_u8D)
  have "lsb_byte p b (lsb_byte p a c) = (lsb_bit p ^^ 8) ((lsb_bit p ^^ 8) (c XOR ucast a XOR push_bit 8 (ucast b)))"
    unfolding lsb_byte_def by (subst b) (simp only: lsb_bits_xor xor.assoc)
  also have "c XOR ucast a XOR push_bit 8 (ucast b) = c XOR get16 [a, b]"
    by (rule bit_word_eqI) (auto simp: get16_def bit_simps)
  also have "(lsb_bit p ^^ 8) ((lsb_bit p ^^ 8) x) = (lsb_bit p ^^ 16) x" for x
    by (simp only: funpow_add [of 8 8, simplified, THEN fun_cong, unfolded comp_def])
  finally show ?thesis .
qed

lemma msb_pair: "msb_byte p b (msb_byte p a c) = (msb_bit p ^^ 16) (c XOR get16 [b, a])"
proof -
  have b: "push_bit 8 (ucast b) = (msb_bit p ^^ 8) (ucast b)"
    by (subst msb_bits_shift) (auto simp: bit_simps)
  have "msb_byte p b (msb_byte p a c) = (msb_bit p ^^ 8) ((msb_bit p ^^ 8) (c XOR push_bit 8 (ucast a) XOR ucast b))"
    unfolding msb_byte_def by (subst b) (simp only: msb_bits_xor xor.assoc)
  also have "c XOR push_bit 8 (ucast a) XOR ucast b = c XOR get16 [b, a]"
    by (rule bit_word_eqI) (auto simp: get16_def bit_simps)
  also have "(msb_bit p ^^ 8) ((msb_bit p ^^ 8) x) = (msb_bit p ^^ 16) x" for x
    by (simp only: funpow_add [of 8 8, simplified, THEN fun_cong, unfolded comp_def])
  finally show ?thesis .
qed

lemma get16_inj: "get16 [a, b] = get16 [a', b'] \<Longrightarrow> a = a' \<and> b = b'"
  by (metis le16_get16 length_Cons list.inject list.size(3) numeral_2_eq_2)

lemma lsb_register:
  assumes "bit p 15"
  shows "crc_register (lsb_byte p)"
proof
  show "c = c'" if "lsb_byte p d c = lsb_byte p d c'" for d c c'
    using funpow_inj [OF lsb_bit_inj [OF assms]] that xor_right_cancel unfolding lsb_byte_def by blast
  show "a = a' \<and> b = b'" if "lsb_byte p b (lsb_byte p a c) = lsb_byte p b' (lsb_byte p a' c)" for a b a' b' c
  proof -
    have "c XOR get16 [a, b] = c XOR get16 [a', b']"
      using funpow_inj [OF lsb_bit_inj [OF assms]] that unfolding lsb_pair by blast
    then show ?thesis using get16_inj xor_right_cancel by (metis xor.commute)
  qed
qed

lemma msb_register:
  assumes "bit p 0"
  shows "crc_register (msb_byte p)"
proof
  show "c = c'" if "msb_byte p d c = msb_byte p d c'" for d c c'
    using funpow_inj [OF msb_bit_inj [OF assms]] that xor_right_cancel unfolding msb_byte_def by blast
  show "a = a' \<and> b = b'" if "msb_byte p b (msb_byte p a c) = msb_byte p b' (msb_byte p a' c)" for a b a' b' c
  proof -
    have "c XOR get16 [b, a] = c XOR get16 [b', a']"
      using funpow_inj [OF msb_bit_inj [OF assms]] that unfolding msb_pair by blast
    then show ?thesis using get16_inj xor_right_cancel by (metis xor.commute)
  qed
qed

lemma byte_functions_eq:
  "rtu_byte = lsb_byte 0xA001" "ccitt_byte = msb_byte 0x1021" "ibm_byte = msb_byte 0x8005"
  by (simp_all add: fun_eq_iff rtu_byte_eq ccitt_byte_eq ibm_byte_eq)

interpretation rtu: crc_register rtu_byte
  unfolding byte_functions_eq by (rule lsb_register) simp

interpretation ccitt: crc_register ccitt_byte
  unfolding byte_functions_eq by (rule msb_register) simp

interpretation ibm: crc_register ibm_byte
  unfolding byte_functions_eq by (rule msb_register) simp

lemma lsb_bits_0: "(lsb_bit p ^^ n) 0 = 0"
  by (induction n) (simp_all add: lsb_bit_def)

lemma msb_bits_0: "(msb_bit p ^^ n) 0 = 0"
  by (induction n) (simp_all add: msb_bit_def)

lemma crc_rtu_residue: "crc_rtu (m @ le16 (crc_rtu m)) = 0"
  by (simp add: crc_rtu_def le16_def rtu_byte_eq lsb_pair lsb_bits_0
      get16_le16 [unfolded le16_def] del: funpow.simps)

subsection \<open>Properties\<close>

text \<open>C6: the Modbus checksum, computed with a table four bits at a time, is the bitwise division
  of the data by the reflected polynomial \<open>0xA001\<close> with the start value \<open>0xFFFF\<close>.\<close>

theorem crc16_RTU_is_bitwise_division:
  assumes "n \<le> length buff"
  shows "crc16_RTU buff (int n) = Some (fold (lsb_byte 0xA001) (take n buff) 0xFFFF)"
  using assms by (simp add: crc16_RTU_def crc_loop_take byte_functions_eq)

theorem crc16_RTU_is_bitwise_division_witness:
  "crc16_RTU (bytes ''123456789'') 9 = Some (fold (lsb_byte 0xA001) (bytes ''123456789'') 0xFFFF)
   \<and> crc16_RTU (bytes ''123456789'') 9 = Some 0x4B37"
proof
  show "crc16_RTU (bytes ''123456789'') 9 = Some (fold (lsb_byte 0xA001) (bytes ''123456789'') 0xFFFF)"
    using crc16_RTU_is_bitwise_division [of 9 "bytes ''123456789''"] by (simp add: bytes_def)
  show "crc16_RTU (bytes ''123456789'') 9 = Some 0x4B37" by code_simp
qed

text \<open>the other two checksums are the bitwise division by their polynomials in the plain bit
  order, with the start value zero.\<close>

theorem crc16_CCITT_IBM_are_bitwise_division:
  assumes "n \<le> length buff"
  shows "crc16_CCITT buff (int n) = Some (fold (msb_byte 0x1021) (take n buff) 0)
    \<and> crc16_IBM buff (int n) = Some (fold (msb_byte 0x8005) (take n buff) 0)"
  using assms by (simp add: crc16_CCITT_def crc16_IBM_def crc_loop_take byte_functions_eq)

theorem crc16_CCITT_IBM_are_bitwise_division_witness:
  "crc16_CCITT (bytes ''123456789'') 9 = Some (fold (msb_byte 0x1021) (bytes ''123456789'') 0)
   \<and> crc16_CCITT (bytes ''123456789'') 9 = Some 0x31C3"
proof
  show "crc16_CCITT (bytes ''123456789'') 9 = Some (fold (msb_byte 0x1021) (bytes ''123456789'') 0)"
    using crc16_CCITT_IBM_are_bitwise_division [of 9 "bytes ''123456789''"] by (simp add: bytes_def)
  show "crc16_CCITT (bytes ''123456789'') 9 = Some 0x31C3" by code_simp
qed

text \<open>a message that is damaged inside two neighbouring bytes has another checksum, for all
  three checksums: if the checksums of the two versions are equal, so are the two bytes.\<close>

theorem crc16_detects_bursts:
  assumes "m = p @ [a, b] @ q" and "m' = p @ [a', b'] @ q" and "m \<noteq> m'" and "n = int (length m)"
  shows "crc16_RTU m n \<noteq> crc16_RTU m' n \<and> crc16_CCITT m n \<noteq> crc16_CCITT m' n
    \<and> crc16_IBM m n \<noteq> crc16_IBM m' n"
proof -
  have n: "n = int (length m')" "n = int (length m)" using assms by simp_all
  have whole: "crc_loop upd c x (int (length x)) = Some (fold upd x c)" for upd c x
    by (simp add: crc_loop_take)
  have "\<not> (a = a' \<and> b = b')" using assms by simp
  then show ?thesis
    using rtu.burst_detected [of p a b q _ a' b'] ccitt.burst_detected [of p a b q _ a' b']
      ibm.burst_detected [of p a b q _ a' b']
    unfolding crc16_RTU_def crc16_CCITT_def crc16_IBM_def
    by (metis assms(1) assms(2) n whole option.inject)
qed

theorem crc16_detects_bursts_witness:
  "crc16_RTU [1, 2, 3, 4] 4 \<noteq> crc16_RTU [1, 7, 8, 4] 4"
  using crc16_detects_bursts [of "[1, 2, 3, 4]" "[1]" 2 3 "[4]" "[1, 7, 8, 4]" 7 8 4] by simp

end
