(* ===== verification/Hq_Generic.thy ===== *)
theory Hq_Generic
  imports Hq_String "HOL-Library.Signed_Division"
begin

text \<open>
  The rest of \<open>src/lib/microlib/hq_generic.c\<close> and the macros of \<open>hq_generic.h\<close>: bit
  reversal, sums, memory blocks, the command line interpreter and packed representations.
  The routines on floating-point numbers and the random numbers are not part of the model.
\<close>

subsection \<open>Macros on bytes and bit maps\<close>

definition byte_0 :: "u32 \<Rightarrow> u32" where "byte_0 n = n AND 0xFF"
definition byte_1 :: "u32 \<Rightarrow> u32" where "byte_1 n = drop_bit 8 n AND 0xFF"
definition byte_2 :: "u32 \<Rightarrow> u32" where "byte_2 n = drop_bit 16 n AND 0xFF"
definition byte_3 :: "u32 \<Rightarrow> u32" where "byte_3 n = drop_bit 24 n AND 0xFF"

definition make_u16 :: "u8 \<Rightarrow> u8 \<Rightarrow> u32" where
  "make_u16 b0 b1 = ucast b0 OR push_bit 8 (ucast b1)"

definition make_u32 :: "u32 \<Rightarrow> u32 \<Rightarrow> u32 \<Rightarrow> u32 \<Rightarrow> u32" where
  "make_u32 b0 b1 b2 b3 = b0 OR push_bit 8 b1 OR push_bit 16 b2 OR push_bit 24 b3"

definition to_BCD :: "u32 \<Rightarrow> u32" where
  "to_BCD n = push_bit 4 (n div 10) OR (n mod 10)"

definition from_BCD :: "u32 \<Rightarrow> u32" where
  "from_BCD n = (drop_bit 4 n AND 0x0F) * 10 + (n AND 0x0F)"

definition hex_to_char :: "u32 \<Rightarrow> u32" where
  "hex_to_char n = (if n > 9 then n - 0x0A + 65 else n + 48)"

text \<open>
  The bit maps come in three widths; \<open>sh\<close> is the shift that turns a bit number into the
  index of its element, 3, 4 or 5 for elements of 8, 16 or 32 bits.
\<close>

definition bm_index :: "nat \<Rightarrow> nat \<Rightarrow> nat" where
  "bm_index sh bit_no = drop_bit sh bit_no"

definition bm_mask :: "nat \<Rightarrow> nat \<Rightarrow> 'a::len word" where
  "bm_mask sh bit_no = push_bit (take_bit sh bit_no) 1"

definition bm_set_bit :: "nat \<Rightarrow> 'a::len word list \<Rightarrow> nat \<Rightarrow> 'a word list" where
  "bm_set_bit sh bm b = bm[bm_index sh b := bm ! bm_index sh b OR bm_mask sh b]"

definition bm_clear_bit :: "nat \<Rightarrow> 'a::len word list \<Rightarrow> nat \<Rightarrow> 'a word list" where
  "bm_clear_bit sh bm b = bm[bm_index sh b := bm ! bm_index sh b AND NOT (bm_mask sh b)]"

definition bm_bit_set :: "nat \<Rightarrow> 'a::len word list \<Rightarrow> nat \<Rightarrow> bool" where
  "bm_bit_set sh bm b \<longleftrightarrow> bm ! bm_index sh b AND bm_mask sh b \<noteq> 0"

definition bm_bit_clear :: "nat \<Rightarrow> 'a::len word list \<Rightarrow> nat \<Rightarrow> bool" where
  "bm_bit_clear sh bm b \<longleftrightarrow> \<not> bm_bit_set sh bm b"

subsection \<open>Bit reversal and sums\<close>

fun reverse_bits_loop :: "nat \<Rightarrow> 'a::len word \<Rightarrow> 'b::len word \<Rightarrow> 'b word" where
  "reverse_bits_loop 0 data ret = ret"
| "reverse_bits_loop (Suc i) data ret =
     reverse_bits_loop i (drop_bit 1 data)
       (let ret = push_bit 1 ret in if data AND 1 \<noteq> 0 then ret OR 1 else ret)"

definition reverse_u8 :: "u8 \<Rightarrow> u8" where
  "reverse_u8 data = reverse_bits_loop 8 data (0 :: u8)"

definition reverse_u16 :: "u16 \<Rightarrow> u16" where
  "reverse_u16 data = ucast (reverse_bits_loop 16 data (0 :: u32))"

fun checksum_u8_loop :: "u32 \<Rightarrow> buf \<Rightarrow> int \<Rightarrow> u32 option" where
  "checksum_u8_loop sm [] len = (if len \<noteq> 0 then None else Some sm)"
| "checksum_u8_loop sm (d # ds) len =
     (if len \<noteq> 0 then checksum_u8_loop (sm + ucast d) ds (len - 1) else Some sm)"

definition checksum_u8 :: "buf \<Rightarrow> int \<Rightarrow> u8 option" where
  "checksum_u8 data len = map_option ucast (checksum_u8_loop 0 data len)"

fun checksum_u16_loop :: "u32 \<Rightarrow> buf \<Rightarrow> int \<Rightarrow> u32 option" where
  "checksum_u16_loop sm (a # b # ds) len =
     (if len \<noteq> 0 then checksum_u16_loop (sm + ucast (get16 [a, b])) ds (len - 2) else Some sm)"
| "checksum_u16_loop sm _ len = (if len \<noteq> 0 then None else Some sm)"

definition checksum_u16 :: "buf \<Rightarrow> int \<Rightarrow> u16 option" where
  "checksum_u16 data len = map_option ucast (checksum_u16_loop 0 data len)"

subsection \<open>Memory blocks\<close>

text \<open>\<open>mem_copy\<close> and \<open>mem_set\<close> return the distance to the end of what they wrote.\<close>

fun mem_copy :: "buf \<Rightarrow> buf \<Rightarrow> int \<Rightarrow> (buf \<times> nat) option" where
  "mem_copy (d # ds) (s # ss) len =
     (if len \<noteq> 0 then emit s (mem_copy ds ss (len - 1)) else Some (d # ds, 0))"
| "mem_copy dest src len = (if len \<noteq> 0 then None else Some (dest, 0))"

fun mem_set :: "buf \<Rightarrow> int \<Rightarrow> u8 \<Rightarrow> (buf \<times> nat) option" where
  "mem_set [] len data = (if len \<noteq> 0 then None else Some ([], 0))"
| "mem_set (d # ds) len data =
     (if len \<noteq> 0 then emit data (mem_set ds (len - 1) data) else Some (d # ds, 0))"

fun mem_comp :: "buf \<Rightarrow> buf \<Rightarrow> int \<Rightarrow> int option" where
  "mem_comp (a # as) (b # bs) len =
     (if len \<noteq> 0 then
        (if a < b then Some (- 1) else if a > b then Some 1 else mem_comp as bs (len - 1))
      else Some 0)"
| "mem_comp _ _ len = (if len \<noteq> 0 then None else Some 0)"

fun mem_search :: "buf \<Rightarrow> int \<Rightarrow> u8 \<Rightarrow> nat option option" where
  "mem_search [] len data = (if len \<noteq> 0 then None else Some None)"
| "mem_search (c # cs) len data =
     (if len \<noteq> 0 then
        (if c = data then Some (Some 0)
         else map_option (map_option Suc) (mem_search cs (len - 1) data))
      else Some None)"

fun mem_search_s_loop :: "buf \<Rightarrow> int \<Rightarrow> buf \<Rightarrow> int \<Rightarrow> nat option option" where
  "mem_search_s_loop pos len str str_len =
     (if len \<ge> str_len then
        (case mem_comp pos str str_len of
           None \<Rightarrow> None
         | Some r \<Rightarrow>
             if r = 0 then Some (Some 0)
             else (case pos of
                     [] \<Rightarrow> None
                   | _ # pos' \<Rightarrow>
                       map_option (map_option Suc) (mem_search_s_loop pos' (len - 1) str str_len)))
      else Some None)"

declare mem_search_s_loop.simps [simp del]

definition mem_search_s :: "buf \<Rightarrow> int \<Rightarrow> buf \<Rightarrow> nat option option" where
  "mem_search_s buff len str = do {
     str_len \<leftarrow> string_length str;
     mem_search_s_loop buff len str (int str_len) }"

subsection \<open>The command interpreter\<close>

definition CMD_ARG_MAX_CNT :: nat where "CMD_ARG_MAX_CNT = 8"
definition CMD_NOT_FOUND :: int where "CMD_NOT_FOUND = 3"

text \<open>A command line is cut in place; \<open>argv\<close> holds offsets into the buffer.\<close>

definition cmd_blank :: "u8 \<Rightarrow> bool" where
  "cmd_blank c \<longleftrightarrow> c = 32 \<or> c = 9"

definition cmd_term :: "u8 \<Rightarrow> bool" where
  "cmd_term c \<longleftrightarrow> c = 0 \<or> c = 13 \<or> c = 10"

fun cmd_tok_end :: "buf \<Rightarrow> nat option" where
  "cmd_tok_end [] = None"
| "cmd_tok_end (c # cs) =
     (if c \<noteq> 0 \<and> c \<noteq> 32 \<and> c \<noteq> 9 \<and> c \<noteq> 13 \<and> c \<noteq> 10 then map_option Suc (cmd_tok_end cs) else Some 0)"

fun cmd_skip :: "buf \<Rightarrow> nat option" where
  "cmd_skip [] = None"
| "cmd_skip (c # cs) = (if c = 32 \<or> c = 9 then map_option Suc (cmd_skip cs) else Some 0)"

lemma cmd_tok_end_less: "cmd_tok_end p = Some n \<Longrightarrow> n < length p"
  by (induction p arbitrary: n) (auto split: if_splits)

function cmd_parse :: "buf \<Rightarrow> nat \<Rightarrow> nat list \<Rightarrow> (buf \<times> nat list) option" where
  "cmd_parse mem start argv =
     (case cmd_tok_end (drop start mem) of
        None \<Rightarrow> None
      | Some n \<Rightarrow>
          let pos = start + n; argv = (if pos \<noteq> start then argv @ [start] else argv) in
          if mem ! pos = 0 \<or> mem ! pos = 13 \<or> mem ! pos = 10 \<or> length argv = CMD_ARG_MAX_CNT then
            Some (mem[pos := 0], argv)
          else
            (let mem = mem[pos := 0] in
             case cmd_skip (drop (pos + 1) mem) of
               None \<Rightarrow> None
             | Some k \<Rightarrow> cmd_parse mem (pos + 1 + k) argv))"
  by pat_completeness auto
termination
  by (relation "measure (\<lambda>(mem, start, argv). length mem - start)")
     (auto dest!: cmd_tok_end_less)

declare cmd_parse.simps [simp del]

text \<open>
  The search of the command table: the end of the table is an entry without an id, here the
  end of the list. The functions of the table are code of other components; they receive the
  arguments and return the result of the command. With no word on the line \<open>argv[0]\<close> is read
  before it was written.
\<close>

type_synonym command_entry = "buf \<times> (buf \<Rightarrow> nat list \<Rightarrow> int) option"

fun cmd_dispatch :: "command_entry list \<Rightarrow> buf \<Rightarrow> nat list \<Rightarrow> int option" where
  "cmd_dispatch [] mem argv = Some CMD_NOT_FOUND"
| "cmd_dispatch ((cid, f) # rest) mem argv =
     (if argv = [] then None
      else (case string_comp cid (drop (argv ! 0) mem) of
              None \<Rightarrow> None
            | Some r \<Rightarrow>
                (case f of
                   Some g \<Rightarrow> if r = 0 then Some (g mem argv) else cmd_dispatch rest mem argv
                 | None \<Rightarrow> cmd_dispatch rest mem argv)))"

definition command_execute :: "buf \<Rightarrow> command_entry list \<Rightarrow> int option" where
  "command_execute cmd_buffer cmd_table = do {
     (mem, argv) \<leftarrow> cmd_parse cmd_buffer 0 [];
     cmd_dispatch cmd_table mem argv }"

subsection \<open>Averages\<close>

text \<open>The sum is a \<open>long long\<close>, which 2^32 values of 32 bits do not exceed; the division truncates.\<close>

fun average_loop :: "int \<Rightarrow> int list \<Rightarrow> nat \<Rightarrow> int option" where
  "average_loop sm array 0 = Some sm"
| "average_loop sm [] (Suc n) = None"
| "average_loop sm (x # xs) (Suc n) = average_loop (sm + x) xs n"

definition average :: "int list \<Rightarrow> nat \<Rightarrow> int option" where
  "average array cnt = do {
     sm \<leftarrow> average_loop 0 array cnt;
     if cnt = 0 then None else Some (sm sdiv int cnt) }"

subsection \<open>Facts on the macros\<close>

lemma and_255: "n AND 255 = take_bit 8 (n :: 'a::len word)"
proof -
  have "(255 :: 'a word) = mask 8" by (simp add: mask_eq_exp_minus_1)
  then show ?thesis by (simp only: take_bit_eq_mask)
qed

lemma make_u32_bytes: "make_u32 (byte_0 n) (byte_1 n) (byte_2 n) (byte_3 n) = n"
proof (rule bit_word_eqI)
  fix i assume "i < LENGTH(32)"
  then have "i < 8 \<or> 8 \<le> i \<and> i < 16 \<or> 16 \<le> i \<and> i < 24 \<or> 24 \<le> i \<and> i < 32" by auto
  then show "bit (make_u32 (byte_0 n) (byte_1 n) (byte_2 n) (byte_3 n)) i = bit n i"
    unfolding make_u32_def byte_0_def byte_1_def byte_2_def byte_3_def and_255
    by (auto simp: bit_simps)
qed

lemma bm_index_less:
  "LENGTH('a::len) = 2 ^ sh \<Longrightarrow> bm_index sh b < length (bm :: 'a word list) \<longleftrightarrow> b < LENGTH('a) * length bm"
  by (simp add: bm_index_def drop_bit_eq_div less_mult_imp_div_less div_less_iff_less_mult mult.commute)

lemma bm_index_inj:
  "bm_index sh b = bm_index sh b' \<Longrightarrow> take_bit sh b = take_bit sh b' \<Longrightarrow> b = b'"
  by (metis bits_ident bm_index_def)

lemma bit_bm_mask:
  "LENGTH('a::len) = 2 ^ sh \<Longrightarrow> bit (bm_mask sh b :: 'a word) i \<longleftrightarrow> i = take_bit sh b"
  by (auto simp: bm_mask_def bit_simps)

lemma bm_bit_set_iff:
  assumes "LENGTH('a::len) = 2 ^ sh"
  shows "bm_bit_set sh (bm :: 'a word list) b \<longleftrightarrow> bit (bm ! bm_index sh b) (take_bit sh b)"
  using assms by (auto simp: bm_bit_set_def word_neq_zero_iff_bit bit_and_iff bit_bm_mask
      dest: bit_imp_le_length)

text \<open>After \<open>set\<close> or \<open>clear\<close> exactly the named bit has the new value.\<close>

lemma bm_update:
  assumes w: "LENGTH('a::len) = 2 ^ sh" and i: "b < LENGTH('a) * length bm"
    and j: "b' < LENGTH('a) * length bm"
  shows "bm_bit_set sh (bm_set_bit sh (bm :: 'a word list) b) b' \<longleftrightarrow> b' = b \<or> bm_bit_set sh bm b'"
    and "bm_bit_set sh (bm_clear_bit sh bm b) b' \<longleftrightarrow> b' \<noteq> b \<and> bm_bit_set sh bm b'"
proof -
  have "bm_index sh b < length bm" "bm_index sh b' < length bm"
    using i j bm_index_less [OF w] by blast+
  moreover have "take_bit sh b' < LENGTH('a)" using w by simp
  moreover have "bm_index sh b' = bm_index sh b \<Longrightarrow> take_bit sh b' = take_bit sh b \<longleftrightarrow> b' = b"
    using bm_index_inj by blast
  ultimately show "bm_bit_set sh (bm_set_bit sh bm b) b' \<longleftrightarrow> b' = b \<or> bm_bit_set sh bm b'"
    and "bm_bit_set sh (bm_clear_bit sh bm b) b' \<longleftrightarrow> b' \<noteq> b \<and> bm_bit_set sh bm b'"
    by (auto simp: bm_bit_set_iff [OF w] bm_set_bit_def bm_clear_bit_def bit_or_iff bit_and_iff
        bit_not_iff bit_bm_mask [OF w] nth_list_update)
qed

lemma BCD_list: "\<forall>n \<in> set [0..<100]. from_BCD (to_BCD (of_nat n)) = of_nat n"
  by code_simp

lemma BCD_roundtrip:
  assumes "n < 100"
  shows "from_BCD (to_BCD n) = n"
proof -
  have "unat n < 100" using assms by (simp add: word_less_nat_alt)
  then have "unat n \<in> set [0..<100]" by simp
  with BCD_list have "from_BCD (to_BCD (of_nat (unat n))) = of_nat (unat n)" by (rule bspec)
  then show ?thesis by simp
qed

subsection \<open>Facts on reversal and blocks\<close>

lemma bit_reverse_bits_loop:
  fixes data :: "'a::len word" and ret :: "'b::len word"
  assumes "i < LENGTH('b)"
  shows "bit (reverse_bits_loop n data ret) i
    \<longleftrightarrow> (if i < n then bit data (n - Suc i) else bit ret (i - n))"
  using assms
proof (induction n arbitrary: data ret)
  case (Suc n)
  have odd: "data AND 1 \<noteq> 0 \<longleftrightarrow> bit data 0" by (simp add: and_one_eq bit_0 odd_iff_mod_2_eq_one)
  have "bit (let r = push_bit 1 ret in if data AND 1 \<noteq> 0 then r OR 1 else r) j
    \<longleftrightarrow> (if j = 0 then bit data 0 else bit ret (j - 1))" if "j < LENGTH('b)" for j
    using that unfolding odd Let_def
    by (cases j) (simp_all only: bit_or_iff bit_push_bit_iff bit_1_iff possible_bit_word if_distrib [of bit] if_distribR,
      auto)
  with Suc show ?case
    by (auto simp: bit_drop_bit_eq Suc_diff_Suc not_less le_Suc_eq)
qed simp

lemma reverse_u8_bit: "i < 8 \<Longrightarrow> bit (reverse_u8 d) i = bit d (7 - i)"
  by (simp add: reverse_u8_def bit_reverse_bits_loop)

lemma reverse_u16_bit: "i < 16 \<Longrightarrow> bit (reverse_u16 d) i = bit d (15 - i)"
  by (simp add: reverse_u16_def bit_ucast_iff bit_reverse_bits_loop)

lemma mem_copy_eq [pyro_mem]:
  assumes "n \<le> length dest" and "n \<le> length src"
  shows "mem_copy dest src (int n) = Some (take n src @ drop n dest, n)"
  using assms
proof (induction n arbitrary: dest src)
  case 0
  then show ?case by (cases dest; cases src) auto
next
  case (Suc n)
  then show ?case by (cases dest; cases src) auto
qed

lemma mem_set_eq [pyro_mem]:
  "n \<le> length dest \<Longrightarrow> mem_set dest (int n) v = Some (replicate n v @ drop n dest, n)"
proof (induction n arbitrary: dest)
  case 0
  then show ?case by (cases dest) auto
next
  case (Suc n)
  then show ?case by (cases dest) auto
qed

lemma mem_comp_zero [pyro_mem]:
  assumes "n \<le> length a" and "n \<le> length b"
  shows "mem_comp a b (int n) = Some 0 \<longleftrightarrow> take n a = take n b"
  using assms
proof (induction n arbitrary: a b)
  case 0
  then show ?case by (cases a; cases b) auto
next
  case (Suc n)
  then show ?case by (cases a; cases b) auto
qed

subsection \<open>The words of a command line\<close>

text \<open>The reference: the words of a line are its maximal runs of characters that are not blank.\<close>

fun cmd_words :: "buf \<Rightarrow> buf \<Rightarrow> buf list" where
  "cmd_words acc [] = (if acc = [] then [] else [acc])"
| "cmd_words acc (c # cs) =
     (if cmd_blank c then (if acc = [] then cmd_words [] cs else acc # cmd_words [] cs)
      else cmd_words (acc @ [c]) cs)"

definition cmd_line :: "buf \<Rightarrow> buf" where
  "cmd_line = takeWhile (\<lambda>c. \<not> cmd_term c)"

lemma cmd_tok_end_split:
  assumes "\<exists>c \<in> set p. cmd_term c"
  obtains w c r where "p = w @ c # r" "cmd_tok_end p = Some (length w)"
    "\<forall>x \<in> set w. \<not> cmd_blank x \<and> \<not> cmd_term x" "cmd_blank c \<or> cmd_term c"
proof -
  have "\<exists>w c r. p = w @ c # r \<and> cmd_tok_end p = Some (length w)
    \<and> (\<forall>x \<in> set w. \<not> cmd_blank x \<and> \<not> cmd_term x) \<and> (cmd_blank c \<or> cmd_term c)"
    using assms
  proof (induction p)
    case (Cons a p)
    show ?case
    proof (cases "cmd_blank a \<or> cmd_term a")
      case True
      then show ?thesis by (intro exI [of _ "[]"]) (auto simp: cmd_blank_def cmd_term_def)
    next
      case False
      then obtain w c r where "p = w @ c # r" "cmd_tok_end p = Some (length w)"
        "\<forall>x \<in> set w. \<not> cmd_blank x \<and> \<not> cmd_term x" "cmd_blank c \<or> cmd_term c"
        using Cons by auto
      with False show ?thesis
        by (intro exI [of _ "a # w"] exI [of _ c] exI [of _ r]) (simp add: cmd_blank_def cmd_term_def)
    qed
  qed simp
  then show ?thesis using that by blast
qed

lemma cmd_skip_split:
  assumes "\<exists>c \<in> set p. cmd_term c"
  obtains bl r where "p = bl @ r" "cmd_skip p = Some (length bl)" "\<forall>x \<in> set bl. cmd_blank x"
    "\<exists>c \<in> set r. cmd_term c"
proof -
  have "\<exists>bl r. p = bl @ r \<and> cmd_skip p = Some (length bl) \<and> (\<forall>x \<in> set bl. cmd_blank x)
    \<and> (\<exists>c \<in> set r. cmd_term c)"
    using assms
  proof (induction p)
    case (Cons a p)
    show ?case
    proof (cases "cmd_blank a")
      case True
      then obtain bl r where "p = bl @ r" "cmd_skip p = Some (length bl)" "\<forall>x \<in> set bl. cmd_blank x"
        "\<exists>c \<in> set r. cmd_term c"
        using Cons by (auto simp: cmd_blank_def cmd_term_def)
      with True show ?thesis by (intro exI [of _ "a # bl"] exI [of _ r]) (auto simp: cmd_blank_def)
    next
      case False
      then show ?thesis using Cons.prems
        by (intro exI [of _ "[]"] exI [of _ "a # p"]) (auto simp: cmd_blank_def)
    qed
  qed simp
  then show ?thesis using that by blast
qed

lemma blank_not_term: "cmd_blank c \<Longrightarrow> \<not> cmd_term c"
  by (auto simp: cmd_blank_def cmd_term_def)

lemma cmd_words_nonblank:
  "\<forall>x \<in> set w. \<not> cmd_blank x \<Longrightarrow> cmd_words acc (w @ p) = cmd_words (acc @ w) p"
  by (induction w arbitrary: acc) auto

lemma cmd_words_blanks: "\<forall>x \<in> set bl. cmd_blank x \<Longrightarrow> cmd_words [] (bl @ p) = cmd_words [] p"
  by (induction bl) auto

lemma cmd_line_append: "\<forall>x \<in> set w. \<not> cmd_term x \<Longrightarrow> cmd_line (w @ p) = w @ cmd_line p"
  by (induction w) (auto simp: cmd_line_def)

lemma cmd_line_Cons: "cmd_line (c # p) = (if cmd_term c then [] else c # cmd_line p)"
  by (simp add: cmd_line_def)

lemma cmd_parse_words:
  assumes "length pre = start" and "\<exists>c \<in> set p. cmd_term c" and "length argv < CMD_ARG_MAX_CNT"
  shows "\<exists>p' new. cmd_parse (pre @ p) start argv = Some (pre @ p', argv @ new) \<and>
     map (\<lambda>a. c_string (drop a (pre @ p'))) new =
     map Some (take (CMD_ARG_MAX_CNT - length argv) (cmd_words [] (cmd_line p)))"
  using assms
proof (induction "length p" arbitrary: pre p start argv rule: less_induct)
  case less
  obtain w c r where p: "p = w @ c # r" and te: "cmd_tok_end p = Some (length w)"
    and w: "\<forall>x \<in> set w. \<not> cmd_blank x \<and> \<not> cmd_term x" and c: "cmd_blank c \<or> cmd_term c"
    using cmd_tok_end_split [OF less.prems(2)] by blast
  define argv' where "argv' = (if w = [] then argv else argv @ [start])"
  define mem1 where "mem1 = pre @ w @ 0 # r"
  define pos where "pos = start + length w"
  have upd: "(pre @ p)[pos := 0] = mem1" and nth: "(pre @ p) ! pos = c"
    and tl: "drop (pos + 1) mem1 = r" and av: "(if pos \<noteq> start then argv @ [start] else argv) = argv'"
    using less.prems(1)
    by (simp_all add: p mem1_def argv'_def pos_def nth_append list_update_append)
  have dr: "drop start (pre @ p) = p" using less.prems(1) by simp
  have nul: "0 \<notin> set w" using w by (auto simp: cmd_term_def)
  have line: "cmd_line p = w @ cmd_line (c # r)" using w by (simp add: p cmd_line_append)
  have step: "cmd_parse (pre @ p) start argv =
     (if cmd_term c \<or> length argv' = CMD_ARG_MAX_CNT then Some (mem1, argv')
      else case cmd_skip r of None \<Rightarrow> None
           | Some k \<Rightarrow> cmd_parse mem1 (pos + 1 + k) argv')"
    by (subst cmd_parse.simps)
       (simp only: dr te option.case Let_def av upd nth tl
         cmd_term_def disj_assoc flip: pos_def)
  show ?case
  proof (cases "cmd_term c \<or> length argv' = CMD_ARG_MAX_CNT")
    case True
    have words: "map Some (take (CMD_ARG_MAX_CNT - length argv) (cmd_words [] (cmd_line p)))
        = (if w = [] then [] else [Some w])"
    proof (cases "cmd_term c")
      case t: True
      then have "cmd_words [] (cmd_line p) = (if w = [] then [] else [w])"
        using w cmd_words_nonblank [of w "[]" "[]"] by (simp add: line cmd_line_Cons)
      then show ?thesis using less.prems(3) by simp
    next
      case False
      then have "w \<noteq> []" "CMD_ARG_MAX_CNT - length argv = 1"
        using True less.prems(3) by (auto simp: argv'_def split: if_splits)
      moreover have "cmd_blank c" using c False by simp
      ultimately show ?thesis
        using w False by (simp add: line cmd_line_Cons cmd_words_nonblank)
    qed
    show ?thesis
      using less.prems(1) True nul
      by (intro exI [of _ "w @ 0 # r"] exI [of _ "if w = [] then [] else [start]"])
         (auto simp: step words mem1_def argv'_def)
  next
    case False
    then have b: "cmd_blank c" and t: "\<not> cmd_term c" using c by auto
    have "\<exists>c \<in> set r. cmd_term c"
      using less.prems(2) w t by (auto simp: p)
    then obtain bl q where r: "r = bl @ q" and sk: "cmd_skip r = Some (length bl)"
      and bl: "\<forall>x \<in> set bl. cmd_blank x" and q: "\<exists>c \<in> set q. cmd_term c"
      using cmd_skip_split by blast
    let ?pre = "pre @ w @ 0 # bl"
    have mem1: "mem1 = ?pre @ q" by (simp add: mem1_def r)
    have len: "length argv' < CMD_ARG_MAX_CNT" "length argv \<le> length argv'"
      using False less.prems(3) by (auto simp: argv'_def split: if_splits)
    have "length q < length p" by (simp add: p r)
    from less.hyps [OF this refl q len(1), of ?pre] obtain p' new
      where IH: "cmd_parse (?pre @ q) (length ?pre) argv' = Some (?pre @ p', argv' @ new)"
        "map (\<lambda>a. c_string (drop a (?pre @ p'))) new =
         map Some (take (CMD_ARG_MAX_CNT - length argv') (cmd_words [] (cmd_line q)))"
      by blast
    have "cmd_line p = w @ c # bl @ cmd_line q"
      using t bl by (simp add: line r cmd_line_append [of "c # bl", simplified] blank_not_term)
    then have words: "cmd_words [] (cmd_line p) = (if w = [] then [] else [w]) @ cmd_words [] (cmd_line q)"
      using w b bl by (simp add: cmd_words_nonblank cmd_words_blanks)
    have "pos + 1 + length bl = length ?pre" using less.prems(1) by (simp add: pos_def)
    then have run: "cmd_parse (pre @ p) start argv = Some (?pre @ p', argv' @ new)"
      using False IH(1) by (simp add: step sk mem1 add.assoc)
    show ?thesis
    proof (cases "w = []")
      case True
      then show ?thesis using run IH(2)
        by (intro exI [of _ "w @ 0 # bl @ p'"] exI [of _ new]) (simp add: argv'_def words)
    next
      case ne: False
      have "CMD_ARG_MAX_CNT - length argv = Suc (CMD_ARG_MAX_CNT - length argv')"
        using len(1) ne by (simp add: argv'_def)
      then show ?thesis using run IH(2) ne nul less.prems(1)
        by (intro exI [of _ "w @ 0 # bl @ p'"] exI [of _ "start # new"])
           (simp add: argv'_def words)
    qed
  qed
qed

lemma cmd_dispatch_find:
  assumes "argv \<noteq> []" and "c_string (drop (argv ! 0) mem) = Some w"
    and "\<forall>(cid, f) \<in> set table. c_string cid \<noteq> None"
  shows "cmd_dispatch table mem argv =
    (case find (\<lambda>(cid, f). c_string cid = Some w \<and> f \<noteq> None) table of
       Some (cid, Some g) \<Rightarrow> Some (g mem argv)
     | _ \<Rightarrow> Some CMD_NOT_FOUND)"
  using assms(3)
proof (induction table)
  case (Cons e table)
  obtain cid f where e: "e = (cid, f)" by fastforce
  obtain i where i: "c_string cid = Some i" using Cons.prems e by auto
  obtain r where r: "string_comp cid (drop (argv ! 0) mem) = Some r" "r = 0 \<longleftrightarrow> i = w"
    using string_comp_eq [OF i assms(2)] by auto
  then show ?case using Cons assms(1) by (cases f) (auto simp: e i)
qed simp

subsection \<open>Averages lie between the bounds of the values\<close>

lemma average_loop_take:
  "n \<le> length xs \<Longrightarrow> average_loop s xs n = Some (s + sum_list (take n xs))"
  by (induction s xs n rule: average_loop.induct) auto

lemma sum_list_bounds:
  assumes "\<forall>x \<in> set xs. lo \<le> x \<and> x \<le> (hi :: int)"
  shows "int (length xs) * lo \<le> sum_list xs \<and> sum_list xs \<le> int (length xs) * hi"
  using assms by (induction xs) (auto simp: algebra_simps)

lemma sdiv_bounds:
  assumes "k > 0" and "k * lo \<le> (s :: int)" and "s \<le> k * hi"
  shows "lo \<le> s sdiv k \<and> s sdiv k \<le> hi"
proof (cases "s \<ge> 0")
  case True
  then have "s sdiv k = s div k"
    using assms(1) by (cases "s = 0") (simp_all add: signed_divide_int_def)
  then show ?thesis
    using assms by (metis nonzero_mult_div_cancel_left less_irrefl zdiv_mono1)
next
  case False
  then have d: "s sdiv k = - ((- s) div k)"
    using assms(1) by (simp add: signed_divide_int_def)
  have "k * (- hi) \<le> - s" "- s \<le> k * (- lo)" using assms(2,3) by simp_all
  then have "- hi \<le> (- s) div k" "(- s) div k \<le> - lo"
    using assms(1) by (metis nonzero_mult_div_cancel_left less_irrefl zdiv_mono1)+
  then show ?thesis using d by simp
qed

lemma average_bounds:
  assumes "0 < n" and "n \<le> length xs" and "\<forall>x \<in> set (take n xs). lo \<le> x \<and> x \<le> hi"
  shows "\<exists>a. average xs n = Some a \<and> lo \<le> a \<and> a \<le> hi"
  using assms sum_list_bounds [OF assms(3)] sdiv_bounds [of "int n" lo "sum_list (take n xs)" hi]
  by (auto simp: average_def average_loop_take)

subsection \<open>Properties\<close>

text \<open>on every line that ends inside its buffer and has a word, \<open>command_execute\<close> cuts the line
  into at most eight words and runs the first command of the table whose name is the first
  word, with the words of the line as its arguments; without one it reports that.\<close>

theorem command_execute_runs_named_command:
  assumes "\<exists>c \<in> set cmd_buffer. cmd_term c" and "cmd_words [] (cmd_line cmd_buffer) = w # ws"
    and "\<forall>(cid, f) \<in> set table. c_string cid \<noteq> None"
  shows "\<exists>mem argv. map (\<lambda>a. c_string (drop a mem)) argv = map Some (take CMD_ARG_MAX_CNT (w # ws))
    \<and> command_execute cmd_buffer table =
      (case find (\<lambda>(cid, f). c_string cid = Some w \<and> f \<noteq> None) table of
         Some (cid, Some g) \<Rightarrow> Some (g mem argv)
       | _ \<Rightarrow> Some CMD_NOT_FOUND)"
proof -
  obtain mem argv where run: "cmd_parse cmd_buffer 0 [] = Some (mem, argv)"
    and words: "map (\<lambda>a. c_string (drop a mem)) argv = map Some (take CMD_ARG_MAX_CNT (w # ws))"
    using cmd_parse_words [of "[]" 0 cmd_buffer "[]"] assms(1,2) by (auto simp: CMD_ARG_MAX_CNT_def)
  then have "argv \<noteq> []" "c_string (drop (argv ! 0) mem) = Some w"
    by (cases argv; simp add: CMD_ARG_MAX_CNT_def)+
  from cmd_dispatch_find [OF this assms(3)] show ?thesis
    using run words by (auto simp: command_execute_def)
qed

theorem command_execute_runs_named_command_witness:
  "command_execute (cstr ''tm 12'') [(cstr ''tm'', Some (\<lambda>mem argv. int (length argv)))] = Some 2"
proof -
  have h: "\<exists>c \<in> set (cstr ''tm 12''). cmd_term c"
    "cmd_words [] (cmd_line (cstr ''tm 12'')) = bytes ''tm'' # [bytes ''12'']"
    "c_string (cstr ''tm'') = Some (bytes ''tm'')"
    by code_simp+
  obtain mem argv where
    m: "map (\<lambda>a. c_string (drop a mem)) argv = map Some (take CMD_ARG_MAX_CNT [bytes ''tm'', bytes ''12''])"
    and r: "command_execute (cstr ''tm 12'') [(cstr ''tm'', Some (\<lambda>mem argv. int (length argv)))]
      = Some (int (length argv))"
    using command_execute_runs_named_command [OF h(1,2),
        of "[(cstr ''tm'', Some (\<lambda>mem argv. int (length argv)))]"] h(3) by auto
  have "length argv = 2" using arg_cong [OF m, of length] by (simp add: CMD_ARG_MAX_CNT_def)
  then show ?thesis using r by simp
qed

end
