(* ===== verification/Proto_Base.thy ===== *)
theory Proto_Base
  imports Hq_Crc Hq_Generic
begin

text \<open>
  The binary protocol of \<open>src/app/proto/proto_base.c\<close> and its command table: checking the
  packets of a receive buffer, running their handlers and building the replies.

  A header is the packed structure of nine bytes; the model keeps it as a record and reads it
  from and writes it to the buffer with \<open>head_of_bytes\<close> and \<open>head_bytes\<close>. The pointer
  \<open>parse->data\<close> is the list of bytes it points at, \<open>None\<close> when it is null. The reply goes to a
  buffer \<open>tx\<close> at an offset, and \<open>outlen\<close> is the variable the callers accumulate lengths in.
\<close>

subsection \<open>Data\<close>

definition PROT_SOP :: u8 where "PROT_SOP = 35"
definition PROT_OP_RD :: u8 where "PROT_OP_RD = 0"
definition PROT_OP_WR :: u8 where "PROT_OP_WR = 1"
definition PROT_OP_NACK :: u8 where "PROT_OP_NACK = 9"
definition PROT_OP_ACK :: u8 where "PROT_OP_ACK = 10"
definition DEV_ADDR_ANY :: u16 where "DEV_ADDR_ANY = 0"

record proto_base_head =
  sop :: u8
  dev_id :: u16
  cmd :: u8
  op_type :: u8
  data_len :: u16
  crc :: u16

definition head_size :: nat where "head_size = 9"

definition head_bytes :: "proto_base_head \<Rightarrow> buf" where
  "head_bytes h = sop h # le16 (dev_id h) @ [cmd h, op_type h] @ le16 (data_len h) @ le16 (crc h)"

definition head_of_bytes :: "buf \<Rightarrow> proto_base_head" where
  "head_of_bytes b = \<lparr>sop = b ! 0, dev_id = get16 [b ! 1, b ! 2], cmd = b ! 3, op_type = b ! 4,
     data_len = get16 [b ! 5, b ! 6], crc = get16 [b ! 7, b ! 8]\<rparr>"

text \<open>The port a packet came from is passed through unchanged and has the type \<open>'p\<close>.\<close>

record 'p parse_base =
  header :: "proto_base_head option"
  instr_len :: u16
  error :: u8
  data :: "buf option"
  port :: "'p option"

definition parse_zero :: "'p parse_base" where
  "parse_zero = \<lparr>header = None, instr_len = 0, error = 0, data = None, port = None\<rparr>"

subsection \<open>Operations\<close>

text \<open>
  The comparison of \<open>inlen\<close> with a \<open>sizeof\<close> is one of unsigned numbers.
\<close>

definition check_packet_base :: "'p parse_base \<Rightarrow> buf \<Rightarrow> int \<Rightarrow> (int \<times> 'p parse_base) option" where
  "check_packet_base parse inbuf inlen =
     (if (word_of_int inlen :: u32) < of_nat head_size then Some (0, parse\<lparr>error := 2\<rparr>)
      else if inbuf = [] then None
      else if inbuf ! 0 \<noteq> PROT_SOP then Some (0, parse\<lparr>error := 3\<rparr>)
      else do {
        let h = head_of_bytes inbuf;
        let parse = parse\<lparr>header := Some h, instr_len := of_nat head_size, data := Some (drop head_size inbuf)\<rparr>;
        c \<leftarrow> crc16_RTU inbuf (int head_size);
        if c \<noteq> 0 then Some (0, parse\<lparr>error := 1, header := None\<rparr>)
        else if inlen - uint (instr_len parse) < uint (data_len h) + 2 then Some (0, parse\<lparr>error := 4\<rparr>)
        else if data_len h > 0 then do {
          let parse = parse\<lparr>instr_len := instr_len parse + (data_len h + 2)\<rparr>;
          d \<leftarrow> crc16_RTU (drop head_size inbuf) (uint (data_len h) + 2);
          if d \<noteq> 0 then Some (0, parse\<lparr>error := 1, header := None\<rparr>) else Some (1, parse) }
        else Some (1, parse) })"

text \<open>\<open>mem_copy (tx + off, src, n)\<close>.\<close>

definition copy_to :: "buf \<Rightarrow> nat \<Rightarrow> buf \<Rightarrow> nat \<Rightarrow> buf option" where
  "copy_to tx off src n =
     (if off \<le> length tx then
        map_option (\<lambda>(m, _). take off tx @ m) (mem_copy (drop off tx) src (int n))
      else None)"

definition proto_base_build_pkt ::
  "'p parse_base \<Rightarrow> buf \<Rightarrow> nat \<Rightarrow> int \<Rightarrow> ('p parse_base \<times> buf \<times> int) option" where
  "proto_base_build_pkt parse tx off outlen = do {
     h \<leftarrow> header parse;
     let h = h\<lparr>crc := crc_rtu (take (head_size - 2) (head_bytes h))\<rparr>;
     tx \<leftarrow> copy_to tx off (head_bytes h) head_size;
     let off = off + head_size;
     let outlen = outlen + int head_size;
     let (h, d) =
       (if error parse \<noteq> 0 then (h\<lparr>op_type := PROT_OP_NACK, data_len := 1\<rparr>, Some [error parse])
        else (h, data parse));
     let parse = parse\<lparr>header := Some h, data := d\<rparr>;
     (case d of
        Some d' \<Rightarrow>
          if data_len h \<noteq> 0 then do {
            let n = unat (data_len h);
            tx \<leftarrow> copy_to tx off d' n;
            data_crc \<leftarrow> crc16_RTU d' (int n);
            tx \<leftarrow> copy_to tx (off + n) (le16 data_crc) 2;
            Some (parse, tx, outlen + int n + 2) }
          else Some (parse, tx, outlen)
      | None \<Rightarrow> Some (parse, tx, outlen)) }"

definition proto_base_unicast_pkt :: "proto_base_head \<Rightarrow> bool" where
  "proto_base_unicast_pkt h = (if dev_id h = DEV_ADDR_ANY then False else True)"

text \<open>
  A handler of the command table receives the packet, the reply buffer with the offset it may
  write at, the accumulated length and the state of the device, and returns the last three
  updated. Its return value is not used.
\<close>

type_synonym ('p, 's) base_handler =
  "'p parse_base \<Rightarrow> buf \<Rightarrow> nat \<Rightarrow> int \<Rightarrow> 's \<Rightarrow> (buf \<times> int \<times> 's) option"

fun base_branch_cmd :: "(u8 \<times> ('p, 's) base_handler option) list \<Rightarrow> ('p, 's) base_handler" where
  "base_branch_cmd [] parse tx off outlen st = Some (tx, outlen, st)"
| "base_branch_cmd ((c, hnd) # rest) parse tx off outlen st =
     (case header parse of
        None \<Rightarrow> None
      | Some h \<Rightarrow>
          if c = cmd h then
            (case hnd of Some f \<Rightarrow> f parse tx off outlen st | None \<Rightarrow> Some (tx, outlen, st))
          else base_branch_cmd rest parse tx off outlen st)"

definition base_instr_handler :: "(u8 \<times> ('p, 's) base_handler option) list \<Rightarrow> ('p, 's) base_handler" where
  "base_instr_handler table = base_branch_cmd table"

text \<open>
  The loop over the receive buffer. It need not end: a packet whose length overflows the
  16 bits of \<open>instr_len\<close> may advance by nothing, which is the value \<open>None\<close>.
\<close>

partial_function (option) base_pkt_process ::
  "('p, 's) base_handler \<Rightarrow> buf \<Rightarrow> int \<Rightarrow> buf \<Rightarrow> nat \<Rightarrow> int \<Rightarrow> 'p \<Rightarrow> 's \<Rightarrow> (buf \<times> int \<times> 's) option" where
  "base_pkt_process handler inbuf inlen tx off outlen comm_port st =
     (if inlen > 0 then
        Option.bind (check_packet_base parse_zero inbuf inlen) (\<lambda>(ok, parse).
          if ok \<noteq> 0 then
            Option.bind (handler (parse\<lparr>port := Some comm_port\<rparr>) tx off outlen st) (\<lambda>(tx, outlen, st).
              base_pkt_process handler (drop (unat (instr_len parse)) inbuf) (inlen - uint (instr_len parse))
                tx (off + nat outlen) outlen comm_port st)
          else if error parse \<noteq> 1 then Some (tx, outlen, st)
          else base_pkt_process handler (drop (unat (instr_len parse)) inbuf) (inlen - uint (instr_len parse))
                 tx off outlen comm_port st)
      else Some (tx, outlen, st))"

subsection \<open>Headers as bytes\<close>

lemma length_head_bytes [simp]: "length (head_bytes h) = head_size"
  by (simp add: head_bytes_def head_size_def)

lemma get16_le16_list: "get16 [ucast w, ucast (drop_bit 8 w)] = w"
  using get16_le16 [of w] by (simp add: le16_def)

lemma head_of_head_bytes [simp]: "head_of_bytes (head_bytes h @ r) = h"
  by (simp add: head_of_bytes_def head_bytes_def le16_def get16_le16_list)

lemma head_of_bytes_take: "head_size \<le> length b \<Longrightarrow> head_of_bytes (take head_size b @ r) = head_of_bytes b"
  by (simp add: head_of_bytes_def head_size_def nth_append)

lemma copy_to_eq [pyro_mem]:
  assumes "off + n \<le> length tx" and "n \<le> length src"
  shows "copy_to tx off src n = Some (overwrite tx off (take n src))"
  using assms by (simp add: copy_to_def mem_copy_eq overwrite_def add.commute)

subsection \<open>Well-formed packets\<close>

text \<open>
  A packet to be sent: a header with the start character and a payload of at least one byte
  whose length is in the header. \<open>encode\<close> is the reference of its bytes.
\<close>

record packet =
  pk_dev :: u16
  pk_cmd :: u8
  pk_op :: u8
  pk_data :: buf

definition packet_ok :: "packet \<Rightarrow> bool" where
  "packet_ok p \<longleftrightarrow> 0 < length (pk_data p) \<and> length (pk_data p) < 65525"

definition pk_head :: "packet \<Rightarrow> proto_base_head" where
  "pk_head p =
     (let h = \<lparr>sop = PROT_SOP, dev_id = pk_dev p, cmd = pk_cmd p, op_type = pk_op p,
                data_len = of_nat (length (pk_data p)), crc = 0\<rparr>
      in h\<lparr>crc := crc_rtu (take 7 (head_bytes h))\<rparr>)"

definition encode :: "packet \<Rightarrow> buf" where
  "encode p = head_bytes (pk_head p) @ pk_data p @ le16 (crc_rtu (pk_data p))"

definition decoded :: "packet \<Rightarrow> buf \<Rightarrow> 'p parse_base \<Rightarrow> 'p parse_base" where
  "decoded p rest parse = parse\<lparr>header := Some (pk_head p), instr_len := of_nat (length (encode p)),
     data := Some (pk_data p @ le16 (crc_rtu (pk_data p)) @ rest)\<rparr>"

lemma take_head_bytes:
  "take 7 (head_bytes h) = sop h # le16 (dev_id h) @ [cmd h, op_type h] @ le16 (data_len h)"
  by (simp add: head_bytes_def le16_def)

lemma head_bytes_split: "head_bytes h = take 7 (head_bytes h) @ le16 (crc h)"
  by (simp add: head_bytes_def le16_def)

lemma pk_head_crc: "crc_rtu (head_bytes (pk_head p)) = 0"
proof -
  have "crc (pk_head p) = crc_rtu (take 7 (head_bytes (pk_head p)))"
    by (simp add: pk_head_def Let_def take_head_bytes)
  then show ?thesis using head_bytes_split [of "pk_head p"] crc_rtu_residue by metis
qed

lemma length_encode: "length (encode p) = 11 + length (pk_data p)"
  by (simp add: encode_def head_size_def)

lemma pk_head_fields [simp]:
  "sop (pk_head p) = PROT_SOP" "dev_id (pk_head p) = pk_dev p" "cmd (pk_head p) = pk_cmd p"
  "op_type (pk_head p) = pk_op p" "data_len (pk_head p) = of_nat (length (pk_data p))"
  by (simp_all add: pk_head_def Let_def)

lemma unat_data_len: "packet_ok p \<Longrightarrow> unat (data_len (pk_head p)) = length (pk_data p)"
  unfolding packet_ok_def pk_head_fields by (subst unsigned_of_nat) (simp add: take_bit_nat_eq_self)

lemma encode_nth_0: "encode p ! 0 = PROT_SOP" "encode p \<noteq> []"
  by (simp_all add: encode_def head_bytes_def)

lemma check_packet_eq:
  assumes L: "9 \<le> L" "L < 2 ^ 31" "L \<le> length b" and n: "n = unat (data_len (head_of_bytes b))"
    and base: "base = parse\<lparr>header := Some (head_of_bytes b), instr_len := 9, data := Some (drop 9 b)\<rparr>"
  shows "check_packet_base parse b (int L) = Some
    (if b ! 0 \<noteq> PROT_SOP then (0, parse\<lparr>error := 3\<rparr>)
     else if crc_rtu (take 9 b) \<noteq> 0 then (0, base\<lparr>error := 1, header := None\<rparr>)
     else if L < n + 11 then (0, base\<lparr>error := 4\<rparr>)
     else if n = 0 then (1, base)
     else if crc_rtu (take (n + 2) (drop 9 b)) \<noteq> 0
       then (0, base\<lparr>instr_len := 11 + data_len (head_of_bytes b), error := 1, header := None\<rparr>)
     else (1, base\<lparr>instr_len := 11 + data_len (head_of_bytes b)\<rparr>))"
proof -
  have "uint (of_nat L :: u32) = int L"
    using L by (subst unsigned_of_nat) (simp add: take_bit_nat_eq_self)
  then have l9: "\<not> (of_nat L :: u32) < 9" using L by (simp add: word_less_def)
  have crc1: "crc16_RTU b 9 = Some (crc_rtu (take 9 b))"
    using crc16_RTU_take [of 9 b] L by simp
  have u: "uint (data_len (head_of_bytes b)) = int n" unfolding n by (simp only: of_nat_unat)
  have crc2: "L \<ge> n + 11 \<Longrightarrow> crc16_RTU (drop 9 b) (int n + 2) = Some (crc_rtu (take (n + 2) (drop 9 b)))"
    using crc16_RTU_take [of "n + 2" "drop 9 b"] L by (simp add: add.commute)
  have pos: "data_len (head_of_bytes b) > 0 \<longleftrightarrow> n \<noteq> 0"
    unfolding n by (simp add: word_neq_0_conv [symmetric] unat_eq_zero)
  have ne: "b \<noteq> []" using L by auto
  show ?thesis
  proof (cases "L < n + 11")
    case True
    then have "int L - 9 < int n + 2" by simp
    then show ?thesis
      using l9 ne True by (simp add: check_packet_base_def head_size_def crc1 u base Let_def)
  next
    case False
    then have "\<not> int L - 9 < int n + 2" "crc16_RTU (drop 9 b) (int n + 2) = Some (crc_rtu (take (n + 2) (drop 9 b)))"
      using crc2 by simp_all
    then show ?thesis
      using l9 ne False by (simp add: check_packet_base_def head_size_def crc1 u base pos Let_def)
  qed
qed

lemma encode_parts:
  "head_of_bytes (encode p @ rest) = pk_head p" "take 9 (encode p) = head_bytes (pk_head p)"
  "drop 9 (encode p) = pk_data p @ le16 (crc_rtu (pk_data p))"
  "(encode p @ rest) ! 0 = PROT_SOP"
  using encode_nth_0 [of p] by (simp_all add: encode_def nth_append head_size_def)

lemma check_packet_encode:
  assumes ok: "packet_ok p" and len: "length (encode p @ rest) = L" "L < 2 ^ 31"
  shows "check_packet_base parse (encode p @ rest) (int L) = Some (1, decoded p rest parse)"
proof -
  note parts = encode_parts(1) [of p rest] encode_parts(2-) [of p] unat_data_len [OF ok, unfolded pk_head_fields]
  show ?thesis
    using ok len
    by (subst check_packet_eq [OF _ _ _ refl refl])
       (simp_all add: length_encode parts pk_head_crc crc_rtu_residue packet_ok_def decoded_def add.commute)
qed

subsection \<open>Building packets\<close>

lemma build_pkt_encode:
  assumes h: "header parse = Some h" "sop h = PROT_SOP" "error parse = 0" and d: "data parse = Some d"
    and n: "n = unat (data_len h)" "0 < n" "n \<le> length d"
    and tx: "off + 11 + n \<le> length tx"
    and p: "p = \<lparr>pk_dev = dev_id h, pk_cmd = cmd h, pk_op = op_type h, pk_data = take n d\<rparr>"
  shows "proto_base_build_pkt parse tx off outlen =
    Some (parse\<lparr>header := Some (pk_head p)\<rparr>, overwrite tx off (encode p), outlen + int (11 + n))"
proof -
  have hd: "h\<lparr>crc := crc_rtu (take 7 (head_bytes h))\<rparr> = pk_head p"
    using h n by (simp add: pk_head_def p take_head_bytes)
  have dl: "data_len h \<noteq> 0" using n by auto
  have c: "crc16_RTU d (int n) = Some (crc_rtu (take n d))" using n(3) by (rule crc16_RTU_take)
  have len: "length (encode p) = 11 + n" using n by (simp add: length_encode p)
  define tx1 where "tx1 = overwrite tx off (head_bytes (pk_head p))"
  define tx2 where "tx2 = overwrite tx1 (off + head_size) (take n d)"
  define tx3 where "tx3 = overwrite tx2 (off + head_size + n) (le16 (crc_rtu (take n d)))"
  have l: "length tx1 = length tx" "length tx2 = length tx"
    using tx n by (simp_all add: tx1_def tx2_def head_size_def)
  have s1: "copy_to tx off (head_bytes (pk_head p)) head_size = Some tx1"
    using tx by (subst copy_to_eq) (simp_all add: head_size_def tx1_def)
  have s2: "copy_to tx1 (off + head_size) d n = Some tx2"
    using tx n l by (subst copy_to_eq) (simp_all add: head_size_def tx2_def)
  have s3: "copy_to tx2 (off + head_size + n) (le16 (crc_rtu (take n d))) 2 = Some tx3"
    using tx n l by (subst copy_to_eq) (simp_all add: head_size_def tx3_def)
  have "tx2 = overwrite tx off (head_bytes (pk_head p) @ take n d)"
    unfolding tx2_def tx1_def using tx n by (subst overwrite_append) (simp_all add: head_size_def)
  then have "tx3 = overwrite tx off ((head_bytes (pk_head p) @ take n d) @ le16 (crc_rtu (take n d)))"
    unfolding tx3_def using tx n by (simp only:) (subst overwrite_append; simp add: head_size_def)
  then have tx3: "tx3 = overwrite tx off (encode p)" by (simp add: encode_def p)
  have "data parse = Some d \<Longrightarrow> parse\<lparr>header := Some (pk_head p), data := Some d\<rparr> = parse\<lparr>header := Some (pk_head p)\<rparr>"
    by (cases parse) simp
  moreover have "data_len (pk_head p) = data_len h" using n by (simp add: p)
  moreover have "head_size - 2 = 7" "int head_size = 9" by (simp_all add: head_size_def)
  moreover have "crc16_RTU d (uint (data_len h)) = Some (crc_rtu (take n d))"
    using c n(1) by simp
  ultimately show ?thesis
    using h d dl s2 s3 tx3 unfolding n(1)
    by (simp add: proto_base_build_pkt_def hd s1 Let_def del: pk_head_fields(5))
qed

subsection \<open>Acceptance\<close>

text \<open>What a received buffer must satisfy for its first packet to be accepted.\<close>

definition base_valid :: "buf \<Rightarrow> bool" where
  "base_valid b \<longleftrightarrow>
     (let n = unat (data_len (head_of_bytes b)) in
      b ! 0 = PROT_SOP \<and> crc_rtu (take 9 b) = 0 \<and> n + 11 \<le> length b
      \<and> (n = 0 \<or> crc_rtu (take (n + 2) (drop 9 b)) = 0))"

lemma check_packet_accepts:
  assumes "9 \<le> length b" and "length b < 2 ^ 31"
  shows "map_option fst (check_packet_base parse b (int (length b))) = Some (if base_valid b then 1 else 0)"
  using assms by (subst check_packet_eq [OF _ _ _ refl refl]) (auto simp: base_valid_def Let_def)

text \<open>Two neighbouring bytes of a checked region are changed: the checksum of the region changes.\<close>

lemma burst_in_region:
  assumes "length b = length b'" and "Suc i < k" and "k \<le> length b"
    and diff: "\<And>j. j \<noteq> i \<Longrightarrow> j \<noteq> Suc i \<Longrightarrow> j < length b \<Longrightarrow> b ! j = b' ! j"
    and "b \<noteq> b'"
  shows "crc_rtu (take k b) \<noteq> crc_rtu (take k b')"
proof
  assume eq: "crc_rtu (take k b) = crc_rtu (take k b')"
  have split: "take k x = take i x @ [x ! i, x ! Suc i] @ drop (i + 2) (take k x)" if "length x = length b" for x :: buf
  proof -
    have "take k x = take i (take k x) @ take k x ! i # drop (Suc i) (take k x)"
      using assms(2,3) that by (intro id_take_nth_drop) simp
    also have "drop (Suc i) (take k x) = take k x ! Suc i # drop (Suc (Suc i)) (take k x)"
      using assms(2,3) that by (intro Cons_nth_drop_Suc [symmetric]) simp
    finally show ?thesis using assms(2) by (simp add: min_def)
  qed
  have "take i b = take i b'"
    using assms(1-3) diff by (intro nth_equalityI) auto
  moreover have "drop (i + 2) (take k b) = drop (i + 2) (take k b')"
    using assms(1-3) diff by (intro nth_equalityI) auto
  ultimately have "b ! i = b' ! i \<and> b ! Suc i = b' ! Suc i"
    using eq rtu.burst_detected split [of b] split [of b'] assms(1) unfolding crc_rtu_def by metis
  then have "b = b'" using diff assms(1) by (intro nth_equalityI) (auto, metis)
  then show False using assms(5) by simp
qed

lemma base_valid_burst:
  assumes v: "base_valid b" and len: "length b = length b'" and ne: "b \<noteq> b'"
    and n: "n = unat (data_len (head_of_bytes b))"
    and i: "Suc i < 9 \<or> 9 \<le> i \<and> 0 < n \<and> Suc i < n + 11"
    and diff: "\<And>j. j \<noteq> i \<Longrightarrow> j \<noteq> Suc i \<Longrightarrow> j < length b \<Longrightarrow> b ! j = b' ! j"
  shows "\<not> base_valid b'"
proof (cases "Suc i < 9")
  case True
  have "crc_rtu (take 9 b) \<noteq> crc_rtu (take 9 b')"
    using v burst_in_region [OF len True _ diff ne] by (simp add: base_valid_def Let_def)
  then show ?thesis using v by (auto simp: base_valid_def Let_def)
next
  case False
  then have i: "9 \<le> i" "0 < n" "Suc i < n + 11" using i by auto
  have L: "n + 11 \<le> length b" using v n by (simp add: base_valid_def Let_def)
  have "b ! k = b' ! k" if "k < 9" for k using diff [of k] that i(1) L by simp
  then have h: "head_of_bytes b' = head_of_bytes b" by (simp add: head_of_bytes_def)
  have "drop 9 b \<noteq> drop 9 b'"
  proof
    assume d: "drop 9 b = drop 9 b'"
    have "take 9 b = take 9 b'" using len diff i(1) by (intro nth_equalityI) auto
    then show False using d ne by (metis append_take_drop_id)
  qed
  then have "crc_rtu (take (n + 2) (drop 9 b)) \<noteq> crc_rtu (take (n + 2) (drop 9 b'))"
    using i L len diff
    by (intro burst_in_region [of _ _ "i - 9"]) (auto simp: Suc_diff_le)
  then show ?thesis using v i n h by (auto simp: base_valid_def Let_def)
qed

subsection \<open>The loop over the receive buffer\<close>

fun run_packets :: "('p, 's) base_handler \<Rightarrow> packet list \<Rightarrow> buf \<Rightarrow> nat \<Rightarrow> int \<Rightarrow> 'p \<Rightarrow> 's \<Rightarrow> (buf \<times> int \<times> 's) option" where
  "run_packets handler [] tx off outlen comm_port st = Some (tx, outlen, st)"
| "run_packets handler (p # ps) tx off outlen comm_port st =
     Option.bind (handler ((decoded p (concat (map encode ps)) parse_zero)\<lparr>port := Some comm_port\<rparr>) tx off outlen st)
       (\<lambda>(tx, outlen, st). run_packets handler ps tx (off + nat outlen) outlen comm_port st)"

lemma unat_instr_len: "packet_ok p \<Longrightarrow> unat (instr_len (decoded p r parse)) = length (encode p)"
  by (simp add: decoded_def packet_ok_def length_encode unsigned_of_nat take_bit_nat_eq_self del: of_nat_add)

lemma uint_instr_len: "packet_ok p \<Longrightarrow> uint (instr_len (decoded p r parse)) = int (length (encode p))"
  by (metis of_nat_unat unat_instr_len)

lemma base_pkt_process_stream:
  assumes "\<forall>p \<in> set ps. packet_ok p" and "length (concat (map encode ps)) < 2 ^ 31"
  shows "base_pkt_process handler (concat (map encode ps)) (int (length (concat (map encode ps)))) tx off outlen comm_port st
    = run_packets handler ps tx off outlen comm_port st"
  using assms
proof (induction ps arbitrary: tx off outlen st)
  case Nil
  then show ?case by (subst base_pkt_process.simps) simp
next
  case (Cons p ps)
  let ?r = "concat (map encode ps)"
  have ok: "packet_ok p" and L: "length (encode p @ ?r) < 2 ^ 31" "length ?r < 2 ^ 31"
    using Cons.prems by simp_all
  have chk: "check_packet_base parse_zero (encode p @ ?r) (int (length (encode p @ ?r))) = Some (1, decoded p ?r parse_zero)"
    using check_packet_encode [OF ok refl L(1)] .
  have pos: "int (length (encode p @ ?r)) > 0" by (simp add: length_encode)
  have IH: "base_pkt_process handler ?r (int (length ?r)) tx off outlen comm_port st
    = run_packets handler ps tx off outlen comm_port st" for tx off outlen st
    using Cons.IH Cons.prems L by simp
  show ?case
    by (subst base_pkt_process.simps)
       (use pos in \<open>simp add: chk [simplified] unat_instr_len [OF ok] uint_instr_len [OF ok] IH case_prod_unfold\<close>)
qed


subsection \<open>Properties\<close>

text \<open>C10: a reply that is built without an error and with a payload is accepted by the receiving side,
  which finds the same header fields and the same payload.\<close>

theorem build_then_check_roundtrip:
  assumes "header parse = Some h" and "sop h = PROT_SOP" and "error parse = 0" and "data parse = Some d"
    and "n = unat (data_len h)" and "0 < n" and "n < 65525" and "n \<le> length d"
    and "off + 11 + n \<le> length tx"
  shows "\<exists>parse' tx' h'. proto_base_build_pkt parse tx off outlen = Some (parse', tx', outlen + int (11 + n))
    \<and> check_packet_base parse_zero (seg off (11 + n) tx') (int (11 + n)) =
        Some (1, (parse_zero :: 'p parse_base)\<lparr>header := Some h', instr_len := of_nat (11 + n),
                  data := Some (take n d @ le16 (crc_rtu (take n d)))\<rparr>)
    \<and> dev_id h' = dev_id h \<and> cmd h' = cmd h \<and> op_type h' = op_type h \<and> data_len h' = data_len h"
proof -
  define p where "p = \<lparr>pk_dev = dev_id h, pk_cmd = cmd h, pk_op = op_type h, pk_data = take n d\<rparr>"
  have len: "length (encode p) = 11 + n" using assms by (simp add: length_encode p_def)
  have ok: "packet_ok p" using assms by (simp add: packet_ok_def p_def)
  have b: "proto_base_build_pkt parse tx off outlen =
    Some (parse\<lparr>header := Some (pk_head p)\<rparr>, overwrite tx off (encode p), outlen + int (11 + n))"
    by (rule build_pkt_encode) (use assms p_def in auto)
  have s: "seg off (11 + n) (overwrite tx off (encode p)) = encode p"
    using assms len by simp
  have "check_packet_base parse_zero (encode p) (int (11 + n)) = Some (1, decoded p [] (parse_zero :: 'p parse_base))"
    using check_packet_encode [OF ok, of "[]" "11 + n" parse_zero] len assms(7) by simp
  moreover have "decoded p [] (parse_zero :: 'p parse_base) = parse_zero\<lparr>header := Some (pk_head p),
      instr_len := of_nat (11 + n), data := Some (take n d @ le16 (crc_rtu (take n d)))\<rparr>"
    by (simp only: decoded_def len) (simp add: p_def)
  moreover have "data_len (pk_head p) = data_len h" using assms by (simp add: p_def)
  ultimately show ?thesis
    using b s by (intro exI [of _ "parse\<lparr>header := Some (pk_head p)\<rparr>"]
        exI [of _ "overwrite tx off (encode p)"] exI [of _ "pk_head p"]) (simp add: p_def)
qed

theorem build_then_check_roundtrip_witness:
  "\<exists>parse' tx' h'.
    proto_base_build_pkt \<lparr>header = Some \<lparr>sop = 35, dev_id = 1, cmd = 51, op_type = 1, data_len = 3, crc = 0\<rparr>,
      instr_len = 0, error = 0, data = Some [7, 8, 9], port = None :: nat option\<rparr> (replicate 20 0) 2 0
      = Some (parse', tx', 0 + int (11 + 3))
    \<and> check_packet_base parse_zero (seg 2 (11 + 3) tx') (int (11 + 3)) =
        Some (1, (parse_zero :: nat parse_base)\<lparr>header := Some h', instr_len := of_nat (11 + 3),
                  data := Some (take 3 [7, 8, 9] @ le16 (crc_rtu (take 3 [7, 8, 9])))\<rparr>)
    \<and> dev_id h' = 1 \<and> cmd h' = 51 \<and> op_type h' = 1 \<and> data_len h' = 3"
  using build_then_check_roundtrip [of "\<lparr>header = Some \<lparr>sop = 35, dev_id = 1, cmd = 51, op_type = 1, data_len = 3, crc = 0\<rparr>,
      instr_len = 0, error = 0, data = Some [7, 8, 9], port = None :: nat option\<rparr>"
      "\<lparr>sop = 35, dev_id = 1, cmd = 51, op_type = 1, data_len = 3, crc = 0\<rparr>" "[7, 8, 9]" 3 2 "replicate 20 0" 0]
  by (simp add: PROT_SOP_def)

text \<open>C9: a buffer with an acceptable first packet in which two neighbouring bytes of the header, or
  two neighbouring bytes of the payload with its checksum, are changed is not accepted.\<close>

theorem check_packet_rejects_bursts:
  assumes "9 \<le> length b" and "length b < 2 ^ 31"
    and "map_option fst (check_packet_base parse b (int (length b))) = Some 1"
    and "length b' = length b" and "b' \<noteq> b" and "n = unat (data_len (head_of_bytes b))"
    and "Suc i < 9 \<or> 9 \<le> i \<and> 0 < n \<and> Suc i < n + 11"
    and "\<forall>j < length b. j \<noteq> i \<longrightarrow> j \<noteq> Suc i \<longrightarrow> b ! j = b' ! j"
  shows "map_option fst (check_packet_base parse b' (int (length b'))) = Some 0"
proof -
  have v: "base_valid b"
    using check_packet_accepts [OF assms(1,2), of parse] assms(3) by (auto split: if_splits)
  have "\<not> base_valid b'"
    by (rule base_valid_burst [OF v _ _ assms(6,7)]) (use assms(4,5,8) in auto)
  then show ?thesis using check_packet_accepts [of b' parse] assms(1,2,4) by simp
qed

theorem check_packet_rejects_bursts_witness:
  "map_option fst (check_packet_base (parse_zero :: nat parse_base)
     ((encode \<lparr>pk_dev = 1, pk_cmd = 50, pk_op = 1, pk_data = [1, 2]\<rparr>)[3 := 53]) 13) = Some 0"
proof -
  let ?p = "\<lparr>pk_dev = 1, pk_cmd = 50, pk_op = 1, pk_data = [1, 2]\<rparr>"
  have L: "length (encode ?p) = 13" by (simp add: length_encode)
  have c: "encode ?p ! 3 = 50" by (simp add: encode_def head_bytes_def nth_append le16_def)
  have ok: "packet_ok ?p" by (simp add: packet_ok_def)
  have "check_packet_base (parse_zero :: nat parse_base) (encode ?p) (int (length (encode ?p)))
      = Some (1, decoded ?p [] parse_zero)"
    using check_packet_encode [OF ok, of "[]" "length (encode ?p)" parse_zero] L by simp
  moreover have "(encode ?p)[3 := 53] \<noteq> encode ?p"
  proof
    assume "(encode ?p)[3 := 53] = encode ?p"
    then have "(encode ?p)[3 := 53] ! 3 = encode ?p ! 3" by (rule arg_cong)
    then show False using L by (simp add: c)
  qed
  ultimately show ?thesis
    using check_packet_rejects_bursts [of "encode ?p" "parse_zero :: nat parse_base" "(encode ?p)[3 := 53]" _ 3] L by simp
qed

text \<open>C4: on a receive buffer that holds well-formed packets one after the other, the loop runs the
  handler of each packet in their order, each with its own header and payload.\<close>

theorem base_pkt_process_runs_packets_in_order:
  assumes "\<forall>p \<in> set ps. packet_ok p" and "length (concat (map encode ps)) < 2 ^ 31"
  shows "base_pkt_process handler (concat (map encode ps)) (int (length (concat (map encode ps))))
      tx off outlen comm_port st
    = run_packets handler ps tx off outlen comm_port st"
  using assms by (rule base_pkt_process_stream)

theorem base_pkt_process_runs_packets_in_order_witness:
  "base_pkt_process (\<lambda>parse tx off outlen st. Some (tx, outlen, st @ [cmd (the (header parse))]))
     (concat (map encode [\<lparr>pk_dev = 1, pk_cmd = 50, pk_op = 1, pk_data = [1]\<rparr>, \<lparr>pk_dev = 1, pk_cmd = 53, pk_op = 0, pk_data = [2, 3]\<rparr>]))
     25 [] 0 0 (0 :: nat) [] = Some ([], 0, [50, 53])"
  using base_pkt_process_runs_packets_in_order
    [of "[\<lparr>pk_dev = 1, pk_cmd = 50, pk_op = 1, pk_data = [1]\<rparr>, \<lparr>pk_dev = 1, pk_cmd = 53, pk_op = 0, pk_data = [2, 3]\<rparr>]"
      "\<lambda>parse tx off outlen st. Some (tx, outlen, st @ [cmd (the (header parse))])" "[]" 0 0 "0 :: nat" "[]"]
  by (simp add: packet_ok_def length_encode decoded_def)



text \<open>a reply with an error code is sent with the header as it was before the code set the
  negative acknowledge and the length one: the header on the wire keeps the operation and the
  payload length of the request while one byte of payload and its checksum follow.\<close>

theorem error_reply_header_is_stale:
  assumes "header parse = Some h" and "error parse \<noteq> 0" and "off + 12 \<le> length tx"
  shows "\<exists>parse'. proto_base_build_pkt parse tx off outlen = Some (parse',
      overwrite tx off (head_bytes (h\<lparr>crc := crc_rtu (take 7 (head_bytes h))\<rparr>)
        @ [error parse] @ le16 (crc_rtu [error parse])), outlen + 12)
    \<and> header parse' = Some (h\<lparr>crc := crc_rtu (take 7 (head_bytes h)), op_type := PROT_OP_NACK, data_len := 1\<rparr>)"
proof -
  define hb where "hb = head_bytes (h\<lparr>crc := crc_rtu (take 7 (head_bytes h))\<rparr>)"
  have hb: "length hb = 9" by (simp add: hb_def head_size_def)
  have hs: "head_size = 9" by (simp add: head_size_def)
  have "copy_to tx off hb 9 = Some (overwrite tx off hb)"
    using assms(3) by (simp add: copy_to_eq hb)
  moreover have "copy_to (overwrite tx off hb) (off + 9) [error parse] 1 = Some (overwrite tx off (hb @ [error parse]))"
    using assms(3) hb by (simp add: copy_to_eq overwrite_append)
  moreover have "copy_to (overwrite tx off (hb @ [error parse])) (10 + off) (le16 (crc_rtu [error parse])) 2
     = Some (overwrite tx off (hb @ [error parse] @ le16 (crc_rtu [error parse])))"
    using assms(3) hb by (simp add: copy_to_eq overwrite_append)
  moreover have "crc16_RTU [error parse] 1 = Some (crc_rtu [error parse])"
    using crc16_RTU_take [of 1 "[error parse]"] by simp
  ultimately show ?thesis
    using assms(1,2) by (simp add: proto_base_build_pkt_def hs Let_def flip: hb_def)
qed

theorem error_reply_header_is_stale_witness:
  "\<exists>parse'. proto_base_build_pkt \<lparr>header = Some \<lparr>sop = 35, dev_id = 1, cmd = 52, op_type = 10, data_len = 0, crc = 0\<rparr>,
      instr_len = 0, error = 2, data = None, port = None :: nat option\<rparr> (replicate 12 0) 0 0 = Some (parse',
      overwrite (replicate 12 0) 0 (head_bytes \<lparr>sop = 35, dev_id = 1, cmd = 52, op_type = 10, data_len = 0,
         crc = crc_rtu [35, 1, 0, 52, 10, 0, 0]\<rparr> @ [2] @ le16 (crc_rtu [2])), 12)"
  using error_reply_header_is_stale [of "\<lparr>header = Some \<lparr>sop = 35, dev_id = 1, cmd = 52, op_type = 10, data_len = 0, crc = 0\<rparr>,
      instr_len = 0, error = 2, data = None, port = None :: nat option\<rparr>"
      "\<lparr>sop = 35, dev_id = 1, cmd = 52, op_type = 10, data_len = 0, crc = 0\<rparr>" 0 "replicate 12 0" 0]
  by (auto simp: head_bytes_def le16_def)

end
