(* ===== verification/Fifo.thy ===== *)
theory Fifo
  imports Pyro_Prelude
begin

text \<open>
  The contract of a bounded first-in first-out queue, what clients may conclude from it, and
  the facts on arrays used as rings that the queues of the firmware need to meet it.
\<close>

subsection \<open>The interface\<close>

locale bounded_fifo =
  fixes cap :: nat
    and inv :: "'q \<Rightarrow> bool"
    and contents :: "'q \<Rightarrow> 'a list"
    and enc :: "'m \<Rightarrow> 'a"
    and push :: "'m \<Rightarrow> 'q \<Rightarrow> 'q"
    and pop :: "'q \<Rightarrow> 'a option \<times> 'q"
  assumes cap: "inv q \<Longrightarrow> length (contents q) \<le> cap"
    and push_inv: "inv q \<Longrightarrow> length (contents q) < cap \<Longrightarrow> inv (push x q)"
    and push_contents: "inv q \<Longrightarrow> length (contents q) < cap \<Longrightarrow> contents (push x q) = contents q @ [enc x]"
    and pop_inv: "inv q \<Longrightarrow> inv (snd (pop q))"
    and pop_empty: "inv q \<Longrightarrow> contents q = [] \<Longrightarrow> pop q = (None, q)"
    and pop_contents: "inv q \<Longrightarrow> contents q = y # ys \<Longrightarrow> fst (pop q) = Some y \<and> contents (snd (pop q)) = ys"
begin

lemma push_all:
  "inv q \<Longrightarrow> length (contents q) + length xs \<le> cap \<Longrightarrow>
   inv (fold push xs q) \<and> contents (fold push xs q) = contents q @ map enc xs"
proof (induction xs arbitrary: q)
  case (Cons x xs)
  then show ?case using push_inv [of q x] push_contents [of q x] Cons.IH [of "push x q"] by simp
qed simp

lemma pop_all:
  assumes "inv q" and "i < length (contents q)"
  shows "fst (pop (((\<lambda>q. snd (pop q)) ^^ i) q)) = Some (contents q ! i)"
proof -
  have "inv (((\<lambda>q. snd (pop q)) ^^ i) q) \<and> contents (((\<lambda>q. snd (pop q)) ^^ i) q) = drop i (contents q)"
    using assms(2)
  proof (induction i)
    case (Suc i)
    then have IH: "inv (((\<lambda>q. snd (pop q)) ^^ i) q)" "contents (((\<lambda>q. snd (pop q)) ^^ i) q) = drop i (contents q)"
      by simp_all
    have "drop i (contents q) = contents q ! i # drop (Suc i) (contents q)"
      using Suc.prems by (simp add: Cons_nth_drop_Suc)
    then show ?case using pop_contents [OF IH(1)] pop_inv [OF IH(1)] IH(2) by simp
  qed (use assms in simp)
  moreover have "drop i (contents q) = contents q ! i # drop (Suc i) (contents q)"
    using assms(2) by (simp add: Cons_nth_drop_Suc)
  ultimately show ?thesis using pop_contents by simp
qed

text \<open>\<open>enc\<close> is what the queue stores for an item. What is pushed into an empty queue comes out in the same order.\<close>

lemma fifo_order:
  assumes "inv q" and "contents q = []" and "length xs \<le> cap" and "i < length xs"
  shows "fst (pop (((\<lambda>q. snd (pop q)) ^^ i) (fold push xs q))) = Some (enc (xs ! i))"
  using push_all [OF assms(1), of xs] pop_all [of "fold push xs q" i] assms by simp

end

subsection \<open>Arrays as rings\<close>

definition ring_list :: "'a list \<Rightarrow> nat \<Rightarrow> nat \<Rightarrow> 'a list" where
  "ring_list a h n = map (\<lambda>i. a ! ((h + i) mod length a)) [0..<n]"

text \<open>A pointer that is moved forward and wraps at the end of the array.\<close>

definition ring_next :: "nat \<Rightarrow> nat \<Rightarrow> nat" where
  "ring_next sz p = (if Suc p = sz then 0 else Suc p)"

lemma ring_next_mod: "p < sz \<Longrightarrow> ring_next sz p = Suc p mod sz"
  by (auto simp: ring_next_def)

lemma ring_next_less [simp]: "p < sz \<Longrightarrow> ring_next sz p < sz"
  by (auto simp: ring_next_def)

lemma length_ring_list [simp]: "length (ring_list a h n) = n"
  by (simp add: ring_list_def)

lemma ring_list_ConsD: "ring_list a h n = x # xs \<Longrightarrow> \<exists>k. n = Suc k"
  by (cases n) (simp_all add: ring_list_def)

lemma ring_list_0 [simp]: "ring_list a h 0 = []"
  by (simp add: ring_list_def)

lemma ring_push:
  assumes "n < length a" and "t = (h + n) mod length a"
  shows "ring_list (a[t := x]) h (Suc n) = ring_list a h n @ [x]"
proof -
  have "t \<noteq> (h + i) mod length a" if "i < n" for i
    using ring_index_inj [of i "length a" n h] assms that by (metis less_trans nat_neq_iff)
  moreover have "t < length a" unfolding assms(2) using assms(1) by (intro mod_less_divisor) auto
  ultimately show ?thesis unfolding ring_list_def
    by (auto simp: nth_list_update_neq simp flip: assms(2))
qed

lemma ring_pop:
  assumes "h < length a"
  shows "ring_list a h (Suc n) = a ! h # ring_list a (ring_next (length a) h) n"
proof -
  have "[0..<Suc n] = 0 # map Suc [0..<n]" by (simp add: map_Suc_upt upt_conv_Cons del: upt_Suc)
  moreover have "(h + Suc i) mod length a = (ring_next (length a) h + i) mod length a" for i
    using assms by (simp add: ring_next_mod mod_add_left_eq)
  ultimately show ?thesis using assms by (simp add: ring_list_def o_def del: upt_Suc)
qed

lemma ring_tail_push:
  "t = (h + n) mod sz \<Longrightarrow> 0 < sz \<Longrightarrow> ring_next sz t = (h + Suc n) mod (sz :: nat)"
  by (simp add: ring_next_mod mod_Suc_eq)

lemma ring_tail_pop:
  "t = (h + Suc n) mod sz \<Longrightarrow> h < sz \<Longrightarrow> t = (ring_next sz h + n) mod (sz :: nat)"
  by (simp add: ring_next_mod mod_add_left_eq)

end
