(* ===== verification/Arch_Message.thy ===== *)
theory Arch_Message
  imports Fifo
begin

text \<open>
  The message queue \<open>src/app/arch/message.c\<close>: a ring of fifty words with a read and a write
  pointer (kept as indices) and a counter.
\<close>

definition MSG_QUEUE_SIZE :: nat where "MSG_QUEUE_SIZE = 50"
definition MSG_NONE :: u32 where "MSG_NONE = 0"

definition msg_type :: "u32 \<Rightarrow> u32" where "msg_type msg = drop_bit 24 msg AND 0x000F"
definition msg_value :: "u32 \<Rightarrow> u32" where "msg_value msg = msg AND 0x0FFF"
definition msg_make :: "u32 \<Rightarrow> u32 \<Rightarrow> u32" where "msg_make ty value = push_bit 24 ty OR value"

record msg_queue =
  msg_data :: "u32 list"
  mq_head :: nat
  mq_tail :: nat
  mq_count :: nat


definition msg_flush_queue :: "msg_queue \<Rightarrow> msg_queue" where
  "msg_flush_queue q = q\<lparr>mq_head := 0, mq_tail := 0, mq_count := 0\<rparr>"

definition msg_count :: "msg_queue \<Rightarrow> nat" where
  "msg_count q = mq_count q"

definition msg_queue_empty :: "msg_queue \<Rightarrow> bool" where
  "msg_queue_empty q \<longleftrightarrow> msg_count q = 0"

definition msg_queue_full :: "msg_queue \<Rightarrow> bool" where
  "msg_queue_full q \<longleftrightarrow> msg_count q = MSG_QUEUE_SIZE"

definition msg_enqueue :: "u32 \<Rightarrow> u32 \<Rightarrow> msg_queue \<Rightarrow> msg_queue" where
  "msg_enqueue ty value q =
     (let q = q\<lparr>msg_data := (msg_data q)[mq_tail q := msg_make ty value]\<rparr>;
          q = q\<lparr>mq_tail := Suc (mq_tail q)\<rparr>;
          q = (if mq_tail q = MSG_QUEUE_SIZE then q\<lparr>mq_tail := 0\<rparr> else q)
      in if mq_count q < MSG_QUEUE_SIZE then q\<lparr>mq_count := mq_count q + 1\<rparr> else q)"

definition msg_dequeue :: "msg_queue \<Rightarrow> u32 \<times> msg_queue" where
  "msg_dequeue q =
     (if msg_queue_empty q then (MSG_NONE, q)
      else
        let msg = msg_data q ! mq_head q;
            q = q\<lparr>mq_head := Suc (mq_head q)\<rparr>;
            q = (if mq_head q = MSG_QUEUE_SIZE then q\<lparr>mq_head := 0\<rparr> else q)
        in (msg, q\<lparr>mq_count := mq_count q - 1\<rparr>))"

subsection \<open>The ring as a queue\<close>

definition msg_inv :: "msg_queue \<Rightarrow> bool" where
  "msg_inv q \<longleftrightarrow> length (msg_data q) = MSG_QUEUE_SIZE \<and> mq_head q < MSG_QUEUE_SIZE
     \<and> mq_count q \<le> MSG_QUEUE_SIZE \<and> mq_tail q = (mq_head q + mq_count q) mod MSG_QUEUE_SIZE"

definition msg_list :: "msg_queue \<Rightarrow> u32 list" where
  "msg_list q = ring_list (msg_data q) (mq_head q) (mq_count q)"


lemma size_pos [simp]: "0 < MSG_QUEUE_SIZE"
  by (simp add: MSG_QUEUE_SIZE_def)

lemma length_msg_list [simp]: "length (msg_list q) = mq_count q"
  by (simp add: msg_list_def)


lemma msg_enqueue_alt:
  "mq_tail q < MSG_QUEUE_SIZE \<Longrightarrow> msg_enqueue ty v q =
     q\<lparr>msg_data := (msg_data q)[mq_tail q := msg_make ty v], mq_tail := ring_next MSG_QUEUE_SIZE (mq_tail q),
       mq_count := (if mq_count q < MSG_QUEUE_SIZE then Suc (mq_count q) else mq_count q)\<rparr>"
  by (simp add: msg_enqueue_def Let_def ring_next_def)

lemma msg_dequeue_alt:
  "msg_dequeue q = (if mq_count q = 0 then (MSG_NONE, q)
     else (msg_data q ! mq_head q,
           q\<lparr>mq_head := ring_next MSG_QUEUE_SIZE (mq_head q), mq_count := mq_count q - 1\<rparr>))"
  by (simp add: msg_dequeue_def Let_def ring_next_def msg_queue_empty_def msg_count_def)


lemma msg_flush_inv: "msg_inv q \<Longrightarrow> msg_inv (msg_flush_queue q) \<and> msg_list (msg_flush_queue q) = []"
  by (simp add: msg_inv_def msg_flush_queue_def msg_list_def)






subsection \<open>Properties\<close>



text \<open>a message that is put into a full queue replaces the oldest one and is delivered next,
  before the messages that were waiting, because the read pointer is not moved.\<close>

theorem msg_enqueue_full_overtakes:
  assumes "msg_inv q" and "msg_queue_full q"
  shows "fst (msg_dequeue (msg_enqueue ty v q)) = msg_make ty v
    \<and> \<not> msg_inv (msg_enqueue ty v q)"
proof -
  have t: "mq_tail q = mq_head q" "mq_tail q < MSG_QUEUE_SIZE" "mq_count q = MSG_QUEUE_SIZE"
    using assms by (auto simp: msg_inv_def msg_queue_full_def msg_count_def)
  have "ring_next MSG_QUEUE_SIZE (mq_head q) \<noteq> mq_head q"
    by (simp add: ring_next_def MSG_QUEUE_SIZE_def)
  then show ?thesis
    using assms t by (simp add: msg_enqueue_alt msg_dequeue_alt msg_inv_def)
qed

theorem msg_enqueue_full_overtakes_witness:
  "fst (msg_dequeue (msg_enqueue 3 9 \<lparr>msg_data = replicate 50 1, mq_head = 7, mq_tail = 7, mq_count = 50\<rparr>)) = 0x03000009"
  using msg_enqueue_full_overtakes [of "\<lparr>msg_data = replicate 50 1, mq_head = 7, mq_tail = 7, mq_count = 50\<rparr>" 3 9]
  by (simp add: msg_inv_def msg_queue_full_def msg_count_def MSG_QUEUE_SIZE_def msg_make_def)

end
