(* ===== verification/Arch_Agent.thy ===== *)
theory Arch_Agent
  imports Fifo
begin

text \<open>
  The agents \<open>src/app/arch/agent.c\<close>, which run functions that other tasks and interrupts
  post to them, and the software timers \<open>src/app/arch/ostimer.c\<close>, which post functions
  periodically. A function entry has the type \<open>'f\<close> (a null entry is \<open>None\<close>) and its
  argument the type \<open>'a\<close>.

  The counting semaphore of the operating system is a counter between zero and its maximum:
  giving fails at the maximum, taking waits at zero.
\<close>

definition AGENT_QUEUE_SIZE :: nat where "AGENT_QUEUE_SIZE = 32"
definition AGENT_PRIO_HI :: nat where "AGENT_PRIO_HI = 0"
definition AGENT_PRIO_MD :: nat where "AGENT_PRIO_MD = 1"
definition AGENT_PRIO_LO :: nat where "AGENT_PRIO_LO = 2"
definition AGENT_PRIO_CNT :: nat where "AGENT_PRIO_CNT = 3"
definition OSTIMER_COUNT :: nat where "OSTIMER_COUNT = 11"

text \<open>The stack sizes of \<open>AGENT_INFO\<close>.\<close>

definition AGENT_INFO_stk :: "nat list" where
  "AGENT_INFO_stk = [1024, 512, 512]"

type_synonym ('f, 'a) agent_func = "'f option \<times> 'a"

record ('f, 'a) agent_queue =
  aq_sem :: nat
  aq_array :: "('f, 'a) agent_func list"
  aq_head :: nat
  aq_tail :: nat
  aq_count :: nat

subsection \<open>One queue\<close>

definition agent_clear :: "('f, 'a) agent_queue \<Rightarrow> ('f, 'a) agent_queue" where
  "agent_clear q = q\<lparr>aq_count := 0, aq_head := 0, aq_tail := 0\<rparr>"

text \<open>The critical section of \<open>agent_post\<close> behind the test for a full queue.\<close>

definition agent_enqueue :: "('f, 'a) agent_func \<Rightarrow> ('f, 'a) agent_queue \<Rightarrow> ('f, 'a) agent_queue" where
  "agent_enqueue f q =
     (let q = q\<lparr>aq_array := (aq_array q)[aq_tail q := f]\<rparr>;
          q = q\<lparr>aq_tail := Suc (aq_tail q)\<rparr>;
          q = (if aq_tail q = AGENT_QUEUE_SIZE then q\<lparr>aq_tail := 0\<rparr> else q)
      in q\<lparr>aq_count := Suc (aq_count q)\<rparr>)"

definition sem_give :: "('f, 'a) agent_queue \<Rightarrow> bool \<times> ('f, 'a) agent_queue" where
  "sem_give q = (if aq_sem q < AGENT_QUEUE_SIZE then (True, q\<lparr>aq_sem := Suc (aq_sem q)\<rparr>) else (False, q))"

definition sem_take :: "('f, 'a) agent_queue \<Rightarrow> ('f, 'a) agent_queue option" where
  "sem_take q = (if aq_sem q > 0 then Some (q\<lparr>aq_sem := aq_sem q - 1\<rparr>) else None)"

text \<open>The critical section of \<open>agent_task\<close>.\<close>

definition agent_dequeue :: "('f, 'a) agent_queue \<Rightarrow> ('f, 'a) agent_func option \<times> ('f, 'a) agent_queue" where
  "agent_dequeue q =
     (if aq_count q > 0 then
        let f = aq_array q ! aq_head q;
            q = q\<lparr>aq_head := Suc (aq_head q)\<rparr>;
            q = (if aq_head q = AGENT_QUEUE_SIZE then q\<lparr>aq_head := 0\<rparr> else q)
        in (Some f, q\<lparr>aq_count := aq_count q - 1\<rparr>)
      else (None, q))"

definition agent_post_queue :: "('f, 'a) agent_func \<Rightarrow> ('f, 'a) agent_queue \<Rightarrow> int \<times> ('f, 'a) agent_queue" where
  "agent_post_queue f q =
     (if aq_count q = AGENT_QUEUE_SIZE then (- 1, q)
      else (let (ok, q) = sem_give (agent_enqueue f q) in if ok then (0, q) else (- 1, q)))"

subsection \<open>The agents\<close>

type_synonym ('f, 'a) agents = "('f, 'a) agent_queue list"

text \<open>\<open>created i\<close> tells whether the operating system created the task of agent \<open>i\<close>.\<close>

fun agent_init_loop :: "(nat \<Rightarrow> bool) \<Rightarrow> nat \<Rightarrow> nat list \<Rightarrow> ('f, 'a) agents \<Rightarrow> int \<times> ('f, 'a) agents" where
  "agent_init_loop created i [] qs = (0, qs)"
| "agent_init_loop created i (stk # info) qs =
     (if stk < 64 then agent_init_loop created (Suc i) info qs
      else if \<not> created i then (- 1, qs)
      else agent_init_loop created (Suc i) info (qs[i := (agent_clear (qs ! i))\<lparr>aq_sem := 0\<rparr>]))"

definition agent_init :: "(nat \<Rightarrow> bool) \<Rightarrow> ('f, 'a) agents \<Rightarrow> int \<times> ('f, 'a) agents" where
  "agent_init created qs = agent_init_loop created 0 AGENT_INFO_stk qs"

definition agent_flush :: "nat \<Rightarrow> ('f, 'a) agents \<Rightarrow> ('f, 'a) agents option" where
  "agent_flush prio qs = (if prio < length qs then Some (qs[prio := agent_clear (qs ! prio)]) else None)"

text \<open>Posting from an interrupt and from a task differ in how the section is protected.\<close>

definition agent_post :: "nat \<Rightarrow> 'f option \<Rightarrow> 'a \<Rightarrow> ('f, 'a) agents \<Rightarrow> (int \<times> ('f, 'a) agents) option" where
  "agent_post prio func arg qs =
     (if prio < length qs then
        let (ret, q) = agent_post_queue (func, arg) (qs ! prio) in Some (ret, qs[prio := q])
      else None)"

text \<open>One round of the endless loop of \<open>agent_task\<close>: what it calls, and \<open>None\<close> while it waits.\<close>

definition agent_task_round ::
  "('f, 'a) agent_queue \<Rightarrow> (('f, 'a) agent_func option \<times> ('f, 'a) agent_queue) option" where
  "agent_task_round q = do {
     q \<leftarrow> sem_take q;
     let (f, q) = agent_dequeue q;
     Some (case f of Some (Some entry, arg) \<Rightarrow> Some (Some entry, arg) | _ \<Rightarrow> None, q) }"

subsection \<open>The software timers\<close>

record ('f, 'a) ostimer_item =
  ot_func :: "'f option"
  ot_arg :: 'a
  ot_prio :: int
  ot_start :: u32
  ot_period :: u32
  ot_enable :: int

type_synonym ('f, 'a) timers = "('f, 'a) ostimer_item list"

definition ostimer_register ::
  "nat \<Rightarrow> 'f option \<Rightarrow> 'a \<Rightarrow> int \<Rightarrow> int \<Rightarrow> ('f, 'a) timers \<Rightarrow> ('f, 'a) timers option" where
  "ostimer_register i func arg prio period ts =
     (if i < length ts then
        Some (ts[i := \<lparr>ot_func = func, ot_arg = arg, ot_prio = prio, ot_start = 0,
                        ot_period = word_of_int period, ot_enable = 0\<rparr>])
      else None)"

text \<open>A priority indexes the array of the agents; a wrong one is outside of it.\<close>

definition post_item :: "('f, 'a) ostimer_item \<Rightarrow> ('f, 'a) agents \<Rightarrow> ('f, 'a) agents option" where
  "post_item it qs =
     (if ot_prio it < 0 then None
      else map_option snd (agent_post (nat (ot_prio it)) (ot_func it) (ot_arg it) qs))"

definition ostimer_open ::
  "u32 \<Rightarrow> nat \<Rightarrow> bool \<Rightarrow> ('f, 'a) timers \<Rightarrow> ('f, 'a) agents \<Rightarrow> (('f, 'a) timers \<times> ('f, 'a) agents) option" where
  "ostimer_open tick i now ts qs =
     (if i < length ts then
        let it = ts ! i in
        if ot_func it \<noteq> None \<and> ot_period it > 0 then do {
          let it = it\<lparr>ot_start := tick, ot_enable := 1\<rparr>;
          qs \<leftarrow> (if now then post_item it qs else Some qs);
          Some (ts[i := it], qs) }
        else Some (ts, qs)
      else None)"

definition ostimer_close :: "nat \<Rightarrow> ('f, 'a) timers \<Rightarrow> ('f, 'a) timers option" where
  "ostimer_close i ts = (if i < length ts then Some (ts[i := (ts ! i)\<lparr>ot_enable := 0\<rparr>]) else None)"

definition ostimer_set_period :: "nat \<Rightarrow> u32 \<Rightarrow> ('f, 'a) timers \<Rightarrow> ('f, 'a) timers option" where
  "ostimer_set_period i period ts =
     (if i < length ts then
        Some (if ot_enable (ts ! i) \<noteq> 0 then ts[i := (ts ! i)\<lparr>ot_period := period\<rparr>] else ts)
      else None)"

definition ostimer_restart :: "u32 \<Rightarrow> nat \<Rightarrow> ('f, 'a) timers \<Rightarrow> ('f, 'a) timers option" where
  "ostimer_restart tick i ts =
     (if i < length ts then
        Some (if ot_enable (ts ! i) \<noteq> 0 then ts[i := (ts ! i)\<lparr>ot_start := tick\<rparr>] else ts)
      else None)"

definition ostimer_set_prio :: "nat \<Rightarrow> int \<Rightarrow> ('f, 'a) timers \<Rightarrow> ('f, 'a) timers option" where
  "ostimer_set_prio i prio ts =
     (if i < length ts then
        Some (if ot_prio (ts ! i) \<ge> 0 \<and> ot_prio (ts ! i) < int AGENT_PRIO_CNT
              then ts[i := (ts ! i)\<lparr>ot_prio := prio\<rparr>] else ts)
      else None)"

text \<open>One scan of \<open>ostimer_task\<close> over the list at a tick.\<close>

fun ostimer_scan :: "u32 \<Rightarrow> ('f, 'a) timers \<Rightarrow> ('f, 'a) agents \<Rightarrow> (('f, 'a) timers \<times> ('f, 'a) agents) option" where
  "ostimer_scan tick [] qs = Some ([], qs)"
| "ostimer_scan tick (it # its) qs =
     (if ot_enable it \<noteq> 0 \<and> tick - ot_start it \<ge> ot_period it then do {
        qs \<leftarrow> post_item it qs;
        (its', qs) \<leftarrow> ostimer_scan tick its qs;
        Some (it\<lparr>ot_start := tick\<rparr> # its', qs) }
      else do {
        (its', qs) \<leftarrow> ostimer_scan tick its qs;
        Some (it # its', qs) })"

subsection \<open>The ring of an agent as a queue\<close>

definition agent_inv :: "('f, 'a) agent_queue \<Rightarrow> bool" where
  "agent_inv q \<longleftrightarrow> length (aq_array q) = AGENT_QUEUE_SIZE \<and> aq_head q < AGENT_QUEUE_SIZE
     \<and> aq_count q \<le> AGENT_QUEUE_SIZE \<and> aq_tail q = (aq_head q + aq_count q) mod AGENT_QUEUE_SIZE"

definition agent_list :: "('f, 'a) agent_queue \<Rightarrow> ('f, 'a) agent_func list" where
  "agent_list q = ring_list (aq_array q) (aq_head q) (aq_count q)"

lemma agent_size_pos [simp]: "0 < AGENT_QUEUE_SIZE"
  by (simp add: AGENT_QUEUE_SIZE_def)

lemma length_agent_list [simp]: "length (agent_list q) = aq_count q"
  by (simp add: agent_list_def)

lemma agent_inv_cap: "agent_inv q \<Longrightarrow> aq_count q \<le> AGENT_QUEUE_SIZE"
  by (simp add: agent_inv_def)

lemma agent_enqueue_alt:
  "agent_enqueue f q = q\<lparr>aq_array := (aq_array q)[aq_tail q := f],
     aq_tail := ring_next AGENT_QUEUE_SIZE (aq_tail q), aq_count := Suc (aq_count q)\<rparr>"
  by (simp add: agent_enqueue_def Let_def ring_next_def)

lemma agent_dequeue_alt:
  "agent_dequeue q = (if aq_count q = 0 then (None, q)
     else (Some (aq_array q ! aq_head q),
           q\<lparr>aq_head := ring_next AGENT_QUEUE_SIZE (aq_head q), aq_count := aq_count q - 1\<rparr>))"
  by (simp add: agent_dequeue_def Let_def ring_next_def)

lemma agent_enqueue_inv:
  assumes "agent_inv q" and "aq_count q < AGENT_QUEUE_SIZE"
  shows "agent_inv (agent_enqueue f q)" and "agent_list (agent_enqueue f q) = agent_list q @ [f]"
proof -
  show "agent_inv (agent_enqueue f q)"
    using assms ring_tail_push [of "aq_tail q" "aq_head q" "aq_count q" AGENT_QUEUE_SIZE]
    by (simp add: agent_enqueue_alt agent_inv_def)
  show "agent_list (agent_enqueue f q) = agent_list q @ [f]"
    using assms by (simp add: agent_enqueue_alt agent_list_def agent_inv_def ring_push)
qed

lemma agent_dequeue_inv:
  assumes "agent_inv q"
  shows "agent_inv (snd (agent_dequeue q))"
proof (cases "aq_count q")
  case (Suc n)
  then show ?thesis
    using assms ring_tail_pop [of "aq_tail q" "aq_head q" n AGENT_QUEUE_SIZE]
    by (simp add: agent_dequeue_alt agent_inv_def)
qed (use assms in \<open>simp add: agent_dequeue_alt\<close>)

lemma agent_dequeue_list:
  assumes "agent_inv q" and "agent_list q = x # xs"
  shows "fst (agent_dequeue q) = Some x \<and> agent_list (snd (agent_dequeue q)) = xs"
proof -
  obtain n where n: "aq_count q = Suc n"
    using assms(2) unfolding agent_list_def by (blast dest: ring_list_ConsD)
  then show ?thesis
    using assms ring_pop [of "aq_head q" "aq_array q" n]
    by (simp add: agent_dequeue_alt agent_list_def agent_inv_def)
qed

lemma agent_clear_inv: "agent_inv q \<Longrightarrow> agent_inv (agent_clear q) \<and> agent_list (agent_clear q) = []"
  by (simp add: agent_inv_def agent_clear_def agent_list_def)

lemma agent_dequeue_empty: "agent_list q = [] \<Longrightarrow> agent_dequeue q = (None, q)"
  by (auto simp: agent_dequeue_alt agent_list_def ring_list_def)

interpretation aq: bounded_fifo AGENT_QUEUE_SIZE agent_inv agent_list "\<lambda>f. f" agent_enqueue agent_dequeue
  by unfold_locales
     (auto simp: agent_inv_cap agent_enqueue_inv agent_dequeue_inv agent_dequeue_list agent_dequeue_empty)

subsection \<open>Interleaving of posters, flushes and the agent\<close>

text \<open>
  Between the critical section of a post and its give, and between the take of the agent and its
  critical section, other tasks run. \<open>pending\<close> counts the posts that have not given yet;
  \<open>holding\<close> tells that the agent has taken and not dequeued yet.
\<close>

record ('f, 'a) agent_sys =
  sys_queue :: "('f, 'a) agent_queue"
  pending :: nat
  holding :: bool

inductive agent_step :: "('f, 'a) agent_sys \<Rightarrow> ('f, 'a) agent_sys \<Rightarrow> bool" where
  post: "aq_count (sys_queue s) \<noteq> AGENT_QUEUE_SIZE \<Longrightarrow>
     agent_step s (s\<lparr>sys_queue := agent_enqueue f (sys_queue s), pending := Suc (pending s)\<rparr>)"
| give: "pending s > 0 \<Longrightarrow>
     agent_step s (s\<lparr>sys_queue := snd (sem_give (sys_queue s)), pending := pending s - 1\<rparr>)"
| take: "\<not> holding s \<Longrightarrow> sem_take (sys_queue s) = Some q \<Longrightarrow>
     agent_step s (s\<lparr>sys_queue := q, holding := True\<rparr>)"
| dequeue: "holding s \<Longrightarrow>
     agent_step s (s\<lparr>sys_queue := snd (agent_dequeue (sys_queue s)), holding := False\<rparr>)"
| flush: "agent_step s (s\<lparr>sys_queue := agent_clear (sys_queue s)\<rparr>)"

definition agent_start :: "('f, 'a) agent_sys \<Rightarrow> bool" where
  "agent_start s \<longleftrightarrow> agent_inv (sys_queue s) \<and> aq_count (sys_queue s) = 0 \<and> aq_sem (sys_queue s) = 0
     \<and> pending s = 0 \<and> \<not> holding s"

definition agent_sys_inv :: "('f, 'a) agent_sys \<Rightarrow> bool" where
  "agent_sys_inv s \<longleftrightarrow> agent_inv (sys_queue s) \<and> aq_sem (sys_queue s) \<le> AGENT_QUEUE_SIZE
     \<and> aq_count (sys_queue s) \<le> aq_sem (sys_queue s) + pending s + (if holding s then 1 else 0)"

lemma sem_give_inv:
  "agent_inv q \<Longrightarrow> aq_sem q \<le> AGENT_QUEUE_SIZE \<Longrightarrow>
   agent_inv (snd (sem_give q)) \<and> aq_count (snd (sem_give q)) = aq_count q
   \<and> aq_sem (snd (sem_give q)) \<le> AGENT_QUEUE_SIZE
   \<and> (aq_sem (snd (sem_give q)) = Suc (aq_sem q) \<or> aq_sem (snd (sem_give q)) = AGENT_QUEUE_SIZE)"
  by (auto simp: sem_give_def agent_inv_def)

lemma agent_step_inv: "agent_step s t \<Longrightarrow> agent_sys_inv s \<Longrightarrow> agent_sys_inv t"
proof (induction rule: agent_step.induct)
  case (post s f)
  then have "aq_count (sys_queue s) < AGENT_QUEUE_SIZE"
    using agent_inv_cap [of "sys_queue s"] by (simp add: agent_sys_inv_def)
  then show ?case using post
    by (auto simp: agent_sys_inv_def agent_enqueue_inv) (simp_all add: agent_enqueue_alt split: if_splits)
next
  case (give s)
  then show ?case
    using sem_give_inv [of "sys_queue s"] agent_inv_cap [of "sys_queue s"] by (auto simp: agent_sys_inv_def)
next
  case (take s q)
  then show ?case by (auto simp: agent_sys_inv_def sem_take_def agent_inv_def split: if_splits)
next
  case (dequeue s)
  then show ?case using agent_dequeue_inv [of "sys_queue s"]
    by (auto simp: agent_sys_inv_def agent_dequeue_alt)
next
  case (flush s)
  then show ?case using agent_clear_inv [of "sys_queue s"]
    by (simp add: agent_sys_inv_def) (simp add: agent_clear_def)
qed

lemma agent_reach_inv: "agent_step\<^sup>*\<^sup>* s t \<Longrightarrow> agent_start s \<Longrightarrow> agent_sys_inv t"
proof (induction rule: rtranclp_induct)
  case base
  then show ?case by (simp add: agent_sys_inv_def agent_start_def)
next
  case (step t u)
  then show ?case using agent_step_inv by blast
qed

subsection \<open>The agent alone\<close>

fun agent_rounds :: "nat \<Rightarrow> ('f, 'a) agent_queue \<Rightarrow> (('f, 'a) agent_func option list \<times> ('f, 'a) agent_queue) option" where
  "agent_rounds 0 q = Some ([], q)"
| "agent_rounds (Suc n) q =
     (case agent_task_round q of
        None \<Rightarrow> None
      | Some (f, q) \<Rightarrow> map_option (\<lambda>(fs, q). (f # fs, q)) (agent_rounds n q))"

definition callable :: "('f, 'a) agent_func \<Rightarrow> ('f, 'a) agent_func option" where
  "callable f = (if fst f = None then None else Some f)"

lemma agent_round_pop:
  assumes "agent_inv q" and "agent_list q = x # xs" and "aq_count q \<le> aq_sem q"
  shows "\<exists>q'. agent_task_round q = Some (callable x, q') \<and> agent_inv q' \<and> agent_list q' = xs
    \<and> aq_count q' \<le> aq_sem q'"
proof -
  let ?q = "q\<lparr>aq_sem := aq_sem q - 1\<rparr>"
  have inv: "agent_inv ?q" and l: "agent_list ?q = x # xs"
    using assms(1,2) by (simp_all add: agent_inv_def agent_list_def)
  have c: "aq_count q = Suc (length xs)" using assms(2) by (metis length_Cons length_agent_list)
  then have "sem_take q = Some ?q" using assms(3) by (simp add: sem_take_def)
  moreover note agent_dequeue_list [OF inv l] agent_dequeue_inv [OF inv]
  moreover have "aq_count (snd (agent_dequeue ?q)) \<le> aq_sem (snd (agent_dequeue ?q))"
    using assms(3) c by (simp add: agent_dequeue_alt)
  ultimately show ?thesis
    by (cases "agent_dequeue ?q"; cases x)
       (auto simp: agent_task_round_def callable_def split: option.splits)
qed

lemma agent_rounds_run_all:
  assumes "agent_inv q" and "aq_count q \<le> aq_sem q"
  shows "\<exists>q'. agent_rounds (aq_count q) q = Some (map callable (agent_list q), q') \<and> aq_count q' = 0"
  using assms
proof (induction "aq_count q" arbitrary: q)
  case (Suc n)
  obtain x xs where l: "agent_list q = x # xs"
    using Suc.hyps(2) by (metis length_agent_list length_Suc_conv)
  obtain q1 where q1: "agent_task_round q = Some (callable x, q1)" "agent_inv q1" "agent_list q1 = xs"
    "aq_count q1 \<le> aq_sem q1"
    using agent_round_pop [OF Suc.prems(1) l Suc.prems(2)] by blast
  have "n = aq_count q1" using Suc.hyps(2) l q1(3) by (metis length_agent_list length_Cons nat.inject)
  from Suc.hyps(1) [OF this q1(2,4)] show ?case
    using Suc.hyps(2) [symmetric] l q1 \<open>n = aq_count q1\<close> by auto
qed (simp add: agent_list_def)

subsection \<open>Timers\<close>

text \<open>An item is due when its period has elapsed; the difference of the ticks wraps around.\<close>

definition timer_due :: "u32 \<Rightarrow> ('f, 'a) ostimer_item \<Rightarrow> bool" where
  "timer_due tick it \<longleftrightarrow> ot_enable it \<noteq> 0 \<and> tick - ot_start it \<ge> ot_period it"

definition prio_ok :: "('f, 'a) ostimer_item \<Rightarrow> bool" where
  "prio_ok it \<longleftrightarrow> 0 \<le> ot_prio it \<and> ot_prio it < int AGENT_PRIO_CNT"

definition post_to :: "('f, 'a) ostimer_item \<Rightarrow> ('f, 'a) agents \<Rightarrow> ('f, 'a) agents" where
  "post_to it qs = qs[nat (ot_prio it) := snd (agent_post_queue (ot_func it, ot_arg it) (qs ! nat (ot_prio it)))]"

lemma length_post_to [simp]: "length (post_to it qs) = length qs"
  by (simp add: post_to_def)

lemma post_item_eq: "prio_ok it \<Longrightarrow> length qs = AGENT_PRIO_CNT \<Longrightarrow> post_item it qs = Some (post_to it qs)"
  by (auto simp: post_item_def prio_ok_def agent_post_def post_to_def split: prod.splits)

lemma ostimer_scan_eq:
  assumes "\<forall>it \<in> set ts. prio_ok it" and "length qs = AGENT_PRIO_CNT"
  shows "ostimer_scan tick ts qs =
    Some (map (\<lambda>it. if timer_due tick it then it\<lparr>ot_start := tick\<rparr> else it) ts,
          fold post_to (filter (timer_due tick) ts) qs)"
  using assms
proof (induction ts arbitrary: qs)
  case (Cons it ts)
  then show ?case by (simp add: timer_due_def post_item_eq)
qed simp

lemma timer_due_after:
  assumes "e < 2 ^ 32"
  shows "timer_due (ot_start it + of_nat e) it \<longleftrightarrow> ot_enable it \<noteq> 0 \<and> unat (ot_period it) \<le> e"
proof -
  have "unat (of_nat e :: u32) = e" using assms by (subst unsigned_of_nat) (simp add: take_bit_nat_eq_self)
  then show ?thesis by (simp add: timer_due_def word_le_nat_alt)
qed

subsection \<open>Properties\<close>

text \<open>C11: however posts, flushes and the agent interleave, a function that waits in the queue of an
  agent is never stranded: when no post is under way and the agent is not in its section, the
  semaphore is at least the number of the waiting functions.\<close>

theorem agent_never_strands_functions:
  assumes "agent_start s" and "agent_step\<^sup>*\<^sup>* s t" and "pending t = 0" and "\<not> holding t"
  shows "aq_count (sys_queue t) \<le> aq_sem (sys_queue t) \<and> aq_sem (sys_queue t) \<le> AGENT_QUEUE_SIZE"
  using agent_reach_inv [OF assms(2,1)] assms(3,4) by (simp add: agent_sys_inv_def)

theorem agent_never_strands_functions_witness:
  "let q = \<lparr>aq_sem = 0, aq_array = replicate 32 (None :: nat option, 0 :: nat), aq_head = 0, aq_tail = 0, aq_count = 0\<rparr>;
       t = snd (sem_give (agent_enqueue (Some 5, 6) q))
   in aq_count t = 1 \<and> aq_count t \<le> aq_sem t"
proof -
  define q where "q = \<lparr>aq_sem = 0, aq_array = replicate 32 (None :: nat option, 0 :: nat), aq_head = 0, aq_tail = 0, aq_count = 0\<rparr>"
  define s where "s = \<lparr>sys_queue = q, pending = 0, holding = False\<rparr>"
  define t where "t = \<lparr>sys_queue = snd (sem_give (agent_enqueue (Some 5, 6) q)), pending = 0, holding = False\<rparr>"
  have "agent_step s \<lparr>sys_queue = agent_enqueue (Some 5, 6) q, pending = 1, holding = False\<rparr>"
    using agent_step.post [of s "(Some 5, 6)"] by (simp add: s_def q_def AGENT_QUEUE_SIZE_def)
  moreover have "agent_step \<lparr>sys_queue = agent_enqueue (Some 5, 6) q, pending = 1, holding = False\<rparr> t"
    using agent_step.give [of "\<lparr>sys_queue = agent_enqueue (Some 5, 6) q, pending = 1, holding = False\<rparr>"] by (simp add: t_def)
  ultimately have "agent_step\<^sup>*\<^sup>* s t" by (meson rtranclp.rtrancl_into_rtrancl rtranclp.rtrancl_refl)
  moreover have "agent_start s" by (simp add: agent_start_def s_def q_def agent_inv_def AGENT_QUEUE_SIZE_def)
  ultimately have "aq_count (sys_queue t) \<le> aq_sem (sys_queue t)"
    using agent_never_strands_functions [of s t] by (simp add: t_def)
  then show ?thesis
    by (simp add: t_def q_def Let_def sem_give_def agent_enqueue_def AGENT_QUEUE_SIZE_def)
qed

text \<open>an agent that is left alone calls every function of its queue, in the order in which they
  were posted, and then waits with an empty queue.\<close>

theorem agent_runs_functions_in_order:
  assumes "agent_inv q" and "aq_count q \<le> aq_sem q"
  shows "\<exists>q'. agent_rounds (aq_count q) q = Some (map callable (agent_list q), q') \<and> aq_count q' = 0"
  using assms by (rule agent_rounds_run_all)

theorem agent_runs_functions_in_order_witness:
  "\<exists>q'. agent_rounds 2 (agent_enqueue (Some 2, 20) (agent_enqueue (Some 1, 10)
      \<lparr>aq_sem = 2, aq_array = replicate 32 (None :: nat option, 0 :: nat), aq_head = 31, aq_tail = 31, aq_count = 0\<rparr>))
    = Some ([Some (Some 1, 10), Some (Some 2, 20)], q') \<and> aq_count q' = 0"
proof -
  let ?q = "agent_enqueue (Some 2, 20) (agent_enqueue (Some 1, 10)
      \<lparr>aq_sem = 2, aq_array = replicate 32 (None :: nat option, 0 :: nat), aq_head = 31, aq_tail = 31, aq_count = 0\<rparr>)"
  have q: "aq_count ?q = 2" "aq_sem ?q = 2" "agent_list ?q = [(Some 1, 10), (Some 2, 20)]" "agent_inv ?q"
    by code_simp+
  then show ?thesis using agent_runs_functions_in_order [of ?q] by (simp add: callable_def)
qed

text \<open>one scan of the timers posts exactly the functions of the due items, in the order of the
  list, to the agents of their priorities, and restarts exactly these items.\<close>

theorem ostimer_scan_posts_due_items:
  assumes "\<forall>it \<in> set ts. prio_ok it" and "length qs = AGENT_PRIO_CNT"
  shows "ostimer_scan tick ts qs =
    Some (map (\<lambda>it. if timer_due tick it then it\<lparr>ot_start := tick\<rparr> else it) ts,
          fold post_to (filter (timer_due tick) ts) qs)"
  using assms by (rule ostimer_scan_eq)

theorem ostimer_scan_posts_due_items_witness:
  "let q = \<lparr>aq_sem = 0, aq_array = replicate 32 (None :: nat option, 0 :: nat), aq_head = 0, aq_tail = 0, aq_count = 0\<rparr>;
       it = \<lparr>ot_func = Some 1, ot_arg = 7, ot_prio = 2, ot_start = 0xFFFFFFF0, ot_period = 32, ot_enable = 1\<rparr>
   in ostimer_scan 0x10 [it] [q, q, q] = Some ([it\<lparr>ot_start := 0x10\<rparr>], post_to it [q, q, q])"
  unfolding Let_def
  by (subst ostimer_scan_posts_due_items) (simp_all add: prio_ok_def AGENT_PRIO_CNT_def timer_due_def)

text \<open>a timer that was started at some tick is due after exactly its period, also when the tick
  counter wraps around in between: \<open>e\<close> ticks later it is due if and only if \<open>e\<close> is at
  least the period.\<close>

theorem ostimer_period_exact_over_wraparound:
  assumes "e < 2 ^ 32" and "ot_enable it \<noteq> 0" and "prio_ok it" and "length qs = AGENT_PRIO_CNT"
    and "tick = ot_start it + of_nat e"
  shows "ostimer_scan tick [it] qs =
    Some (if unat (ot_period it) \<le> e then ([it\<lparr>ot_start := tick\<rparr>], post_to it qs) else ([it], qs))"
  using ostimer_scan_eq [of "[it]" qs tick] timer_due_after [OF assms(1), of it] assms(2-5) by simp

theorem ostimer_period_exact_over_wraparound_witness:
  "let q = \<lparr>aq_sem = 0, aq_array = replicate 32 (None :: nat option, 0 :: nat), aq_head = 0, aq_tail = 0, aq_count = 0\<rparr>;
       it = \<lparr>ot_func = Some 1, ot_arg = 7, ot_prio = 0, ot_start = 0xFFFFFFFF, ot_period = 3, ot_enable = 1\<rparr>
   in ostimer_scan 1 [it] [q, q, q] = Some ([it], [q, q, q])"
  unfolding Let_def
  using ostimer_period_exact_over_wraparound [of 2 "\<lparr>ot_func = Some 1, ot_arg = 7, ot_prio = 0, ot_start = 0xFFFFFFFF, ot_period = 3, ot_enable = 1\<rparr>"
     "[\<lparr>aq_sem = 0, aq_array = replicate 32 (None :: nat option, 0 :: nat), aq_head = 0, aq_tail = 0, aq_count = 0\<rparr>,
       \<lparr>aq_sem = 0, aq_array = replicate 32 (None :: nat option, 0 :: nat), aq_head = 0, aq_tail = 0, aq_count = 0\<rparr>,
       \<lparr>aq_sem = 0, aq_array = replicate 32 (None :: nat option, 0 :: nat), aq_head = 0, aq_tail = 0, aq_count = 0\<rparr>]" 1]
  by (simp add: prio_ok_def AGENT_PRIO_CNT_def)

end
