(* ===== verification/Mail_Box.thy ===== *)
theory Mail_Box
  imports Fifo
begin

text \<open>
  The mailboxes of \<open>src/app/arch/mail_box.c\<close>. A mailbox is a queue of the operating system: the
  messages that wait and the number of places. The two allocations that can fail are the
  arguments \<open>heap_ok\<close> and \<open>queue_ok\<close>; the number of mailboxes is passed explicitly.
\<close>

definition MBOX_MAX_COUNT :: nat where "MBOX_MAX_COUNT = 8"
definition MBOX_CAPACITY :: nat where "MBOX_CAPACITY = 8"

record mbox =
  mb_size :: nat
  mb_items :: "u32 list"

definition mbox_init :: nat where "mbox_init = 0"

definition mbox_create :: "bool \<Rightarrow> bool \<Rightarrow> nat \<Rightarrow> nat \<Rightarrow> mbox option \<times> nat" where
  "mbox_create heap_ok queue_ok q_size mbox_count =
     (if mbox_count = MBOX_MAX_COUNT then (None, mbox_count)
      else if \<not> heap_ok then (None, mbox_count)
      else let q_size = (if q_size > MBOX_CAPACITY then MBOX_CAPACITY else q_size) in
        if \<not> queue_ok then (None, mbox_count)
        else (Some \<lparr>mb_size = q_size, mb_items = []\<rparr>, mbox_count + 1))"

definition mbox_delete :: "mbox option \<Rightarrow> nat \<Rightarrow> int \<times> nat" where
  "mbox_delete mb mbox_count =
     (case mb of
        None \<Rightarrow> (- 1, mbox_count)
      | Some _ \<Rightarrow> (0, if mbox_count > 0 then mbox_count - 1 else mbox_count))"

definition mbox_clear :: "mbox option \<Rightarrow> int \<times> mbox option" where
  "mbox_clear mb = (case mb of None \<Rightarrow> (- 1, None) | Some b \<Rightarrow> (0, Some (b\<lparr>mb_items := []\<rparr>)))"

definition mbox_post :: "mbox option \<Rightarrow> u32 \<Rightarrow> int \<times> mbox option" where
  "mbox_post mb msg =
     (case mb of
        None \<Rightarrow> (- 1, None)
      | Some b \<Rightarrow>
          if length (mb_items b) < mb_size b then (0, Some (b\<lparr>mb_items := mb_items b @ [msg]\<rparr>))
          else (- 1, Some b))"

text \<open>The message, zero if there is none before the time is over, with the error flag.\<close>

definition mbox_fetch :: "mbox option \<Rightarrow> u32 \<times> int \<times> mbox option" where
  "mbox_fetch mb =
     (case mb of
        None \<Rightarrow> (0, 1, None)
      | Some b \<Rightarrow>
          (case mb_items b of
             [] \<Rightarrow> (0, 1, Some b)
           | m # ms \<Rightarrow> (m, 0, Some (b\<lparr>mb_items := ms\<rparr>))))"

text \<open>A mailbox meets the queue interface: posts and fetches are those of a bounded queue.\<close>

definition mb_inv :: "nat \<Rightarrow> mbox option \<Rightarrow> bool" where
  "mb_inv n mb \<longleftrightarrow> (\<exists>b. mb = Some b \<and> mb_size b = n \<and> length (mb_items b) \<le> n)"

definition mb_list :: "mbox option \<Rightarrow> u32 list" where
  "mb_list mb = (case mb of None \<Rightarrow> [] | Some b \<Rightarrow> mb_items b)"

definition mb_pop :: "mbox option \<Rightarrow> u32 option \<times> mbox option" where
  "mb_pop mb = (let (m, err, mb) = mbox_fetch mb in (if err = 0 then Some m else None, mb))"

interpretation mbox: bounded_fifo n "mb_inv n" mb_list "\<lambda>m. m" "\<lambda>m mb. snd (mbox_post mb m)" mb_pop for n
  by unfold_locales
     (auto simp: mb_inv_def mb_list_def mb_pop_def mbox_post_def mbox_fetch_def Let_def split: list.splits)

lemma create_count: "mbox_count \<le> MBOX_MAX_COUNT \<Longrightarrow> snd (mbox_create h q n mbox_count) \<le> MBOX_MAX_COUNT"
  by (auto simp: mbox_create_def Let_def)

lemma create_inv:
  "fst (mbox_create h q n c) = Some b \<Longrightarrow> mb_inv (min n MBOX_CAPACITY) (Some b) \<and> mb_items b = []"
  by (auto simp: mbox_create_def mb_inv_def Let_def split: if_splits)

text \<open>Mailboxes that are created and never deleted run out after eight.\<close>

lemma create_runs_out:
  assumes "c \<le> MBOX_MAX_COUNT"
  shows "fst (mbox_create h q n (((\<lambda>c. snd (mbox_create True True n c)) ^^ (MBOX_MAX_COUNT - c)) c)) = None"
proof -
  have "((\<lambda>c. snd (mbox_create True True n c)) ^^ k) c = c + k" if "c + k \<le> MBOX_MAX_COUNT" for k
    using that by (induction k) (simp_all add: mbox_create_def Let_def)
  from this [of "MBOX_MAX_COUNT - c"] show ?thesis using assms by (simp add: mbox_create_def)
qed

end
