(* ===== verification/Storage.thy ===== *)
theory Storage
  imports Hq_Generic
begin

text \<open>
  Non-volatile memory: the flash driver \<open>src/bsp/periph/gd32_fmc.c\<close>, the EEPROM driver
  \<open>src/bsp/dev/eeprom.c\<close> and the storage layer \<open>src/app/arch/storage.c\<close>, with the checksum
  unit \<open>src/bsp/periph/gd32_crc.c\<close>.

  The two chips are the environment of this code. The flash is a map from addresses to bytes;
  erasing a page sets its bytes to 0xFF and programming can only clear bits. The EEPROM is a
  map from its 17-bit addresses to bytes; its address counter runs over the whole memory when
  reading and wraps inside a page when writing. The pin that the driver gives as the highest
  address bit is the lowest bit of the device address, which the driver leaves as it is.
  Addresses are natural numbers: no access of the firmware reaches the end of the 32-bit space.
\<close>

subsection \<open>The flash chip\<close>

type_synonym flash = "nat \<Rightarrow> u8"

definition FLASH_BASE :: nat where "FLASH_BASE = 0x08000000"
definition FMC_PAGE_SIZE :: nat where "FMC_PAGE_SIZE = 4096"
definition FMC_PAGE_MAX :: nat where "FMC_PAGE_MAX = 768"

definition mem_bytes :: "(nat \<Rightarrow> u8) \<Rightarrow> nat \<Rightarrow> nat \<Rightarrow> buf" where
  "mem_bytes f a n = map (\<lambda>i. f (a + i)) [0..<n]"

definition fmc_page_erase :: "flash \<Rightarrow> nat \<Rightarrow> flash" where
  "fmc_page_erase f a = (\<lambda>x. if x div FMC_PAGE_SIZE = a div FMC_PAGE_SIZE then 0xFF else f x)"

text \<open>\<open>ok a\<close> tells whether the controller accepts to program address \<open>a\<close>.\<close>

definition fmc_byte_program :: "(nat \<Rightarrow> bool) \<Rightarrow> flash \<Rightarrow> nat \<Rightarrow> u8 \<Rightarrow> flash option" where
  "fmc_byte_program ok f a v = (if ok a then Some (f(a := f a AND v)) else None)"

fun program_all :: "flash \<Rightarrow> nat \<Rightarrow> buf \<Rightarrow> flash" where
  "program_all f a [] = f"
| "program_all f a (v # vs) = program_all (f(a := f a AND v)) (a + 1) vs"

definition fmc_word_program :: "(nat \<Rightarrow> bool) \<Rightarrow> flash \<Rightarrow> nat \<Rightarrow> u32 \<Rightarrow> flash option" where
  "fmc_word_program ok f a w = (if ok a then Some (program_all f a (le32 w)) else None)"

subsection \<open>The flash driver\<close>

fun erase_loop :: "flash \<Rightarrow> nat \<Rightarrow> nat \<Rightarrow> flash" where
  "erase_loop f addr 0 = f"
| "erase_loop f addr (Suc n) = erase_loop (fmc_page_erase f addr) (addr + FMC_PAGE_SIZE) n"

definition gdf_erase_pages :: "flash \<Rightarrow> nat \<Rightarrow> nat \<Rightarrow> int \<times> flash" where
  "gdf_erase_pages f addr num =
     (let page_start = ((addr + 2 ^ 32 - FLASH_BASE) mod 2 ^ 32 div FMC_PAGE_SIZE) mod 2 ^ 16 in
      if addr mod FMC_PAGE_SIZE \<noteq> 0 then (- 1, f)
      else if page_start + num > FMC_PAGE_MAX then (- 2, f)
      else (0, erase_loop f addr num))"

text \<open>The loop that programs \<open>cnt\<close> words of the buffer; the source pointer is the rest of the buffer.\<close>

fun word_loop :: "(nat \<Rightarrow> bool) \<Rightarrow> flash \<Rightarrow> nat \<Rightarrow> buf \<Rightarrow> nat \<Rightarrow> (int \<times> flash) option" where
  "word_loop ok f addr src 0 = Some (0, f)"
| "word_loop ok f addr (a # b # c # d # src) (Suc cnt) =
     (case fmc_word_program ok f addr (get32 [a, b, c, d]) of
        None \<Rightarrow> Some (- 1, f)
      | Some f \<Rightarrow> word_loop ok f (addr + 4) src cnt)"
| "word_loop ok f addr src (Suc cnt) = None"

fun byte_loop :: "(nat \<Rightarrow> bool) \<Rightarrow> flash \<Rightarrow> nat \<Rightarrow> buf \<Rightarrow> nat \<Rightarrow> (int \<times> flash) option" where
  "byte_loop ok f addr buff 0 = Some (0, f)"
| "byte_loop ok f addr [] (Suc cnt) = None"
| "byte_loop ok f addr (v # buff) (Suc cnt) =
     (case fmc_byte_program ok f addr v of
        None \<Rightarrow> Some (- 1, f)
      | Some f \<Rightarrow> byte_loop ok f (addr + 1) buff cnt)"

definition gdf_write_data_by_byte :: "(nat \<Rightarrow> bool) \<Rightarrow> flash \<Rightarrow> nat \<Rightarrow> nat \<Rightarrow> buf \<Rightarrow> (int \<times> flash) option" where
  "gdf_write_data_by_byte ok f addr len buff = byte_loop ok f addr buff len"

definition gdf_write_data_by_word :: "(nat \<Rightarrow> bool) \<Rightarrow> flash \<Rightarrow> nat \<Rightarrow> nat \<Rightarrow> buf \<Rightarrow> (int \<times> flash) option" where
  "gdf_write_data_by_word ok f addr len buff = word_loop ok f addr buff (len div 4)"

definition gdf_write_data_by_page_fast :: "(nat \<Rightarrow> bool) \<Rightarrow> flash \<Rightarrow> nat \<Rightarrow> nat \<Rightarrow> buf \<Rightarrow> (int \<times> flash) option" where
  "gdf_write_data_by_page_fast ok f addr len buff = do {
     (r, f) \<leftarrow> word_loop ok f addr buff (len div 4);
     if r \<noteq> 0 then Some (r, f)
     else byte_loop ok f (addr + 4 * (len div 4)) (drop (len div 4 * 4) buff) (len mod 4) }"

text \<open>The result of the erase is not looked at.\<close>

definition gdf_write_data_by_page :: "(nat \<Rightarrow> bool) \<Rightarrow> flash \<Rightarrow> nat \<Rightarrow> nat \<Rightarrow> buf \<Rightarrow> (int \<times> flash) option" where
  "gdf_write_data_by_page ok f addr len buff =
     (let num = len div FMC_PAGE_SIZE;
          num = (if len mod FMC_PAGE_SIZE \<noteq> 0 then num + 1 else num);
          (_, f) = gdf_erase_pages f addr num
      in do {
        (r, f) \<leftarrow> word_loop ok f addr buff (len div 4);
        if r \<noteq> 0 then Some (r, f)
        else byte_loop ok f (addr + 4 * (len div 4)) (drop (len div 4 * 4) buff) (len mod 4) })"

definition gdf_read_data :: "flash \<Rightarrow> nat \<Rightarrow> nat \<Rightarrow> buf" where
  "gdf_read_data f addr len = mem_bytes f addr len"

definition flash_read :: "flash \<Rightarrow> nat \<Rightarrow> nat \<Rightarrow> int \<times> buf" where
  "flash_read f addr len = (0, mem_bytes f addr len)"

definition flash_write :: "(nat \<Rightarrow> bool) \<Rightarrow> flash \<Rightarrow> nat \<Rightarrow> buf \<Rightarrow> nat \<Rightarrow> (int \<times> flash) option" where
  "flash_write ok f addr buff len = do {
     (r, f) \<leftarrow> gdf_write_data_by_page ok f addr len buff;
     Some (if r \<noteq> 0 then (- 1, f) else (0, f)) }"

text \<open>The sector bases of \<open>gd32_fmc.h\<close> as offsets; the last sector takes the rest.\<close>

definition gdf_get_sector :: "nat \<Rightarrow> nat" where
  "gdf_get_sector addr =
     (let inside = (\<lambda>lo hi. addr < FLASH_BASE + hi \<and> addr \<ge> FLASH_BASE + lo) in
      if inside 0 0x4000 then 0
      else if inside 0x4000 0x8000 then 1
      else if inside 0x8000 0xC000 then 2
      else if inside 0xC000 0x10000 then 3
      else if inside 0x10000 0x20000 then 4
      else if inside 0x20000 0x40000 then 5
      else if inside 0x40000 0x60000 then 6
      else if inside 0x60000 0x80000 then 7
      else if inside 0x80000 0xA0000 then 8
      else if inside 0xA0000 0xC0000 then 9
      else if inside 0xC0000 0xE0000 then 10
      else 11)"

text \<open>The base of the sector with a number, and what erasing the sector leaves.\<close>

definition sector_base :: "nat \<Rightarrow> nat" where
  "sector_base n = FLASH_BASE + [0, 0x4000, 0x8000, 0xC000, 0x10000, 0x20000, 0x40000, 0x60000,
     0x80000, 0xA0000, 0xC0000, 0xE0000, 0x100000] ! n"

definition gdf_erase_sector :: "bool \<Rightarrow> flash \<Rightarrow> nat \<Rightarrow> int \<times> flash" where
  "gdf_erase_sector ready f n =
     (if \<not> ready then (- 1, f)
      else (0, \<lambda>x. if sector_base n \<le> x \<and> x < sector_base (Suc n) then 0xFF else f x))"

subsection \<open>The EEPROM chip and its driver\<close>

definition AT24C_PAGE_SIZE :: nat where "AT24C_PAGE_SIZE = 256"
definition EEPROM_MEM_SIZE :: nat where "EEPROM_MEM_SIZE = 0x20000"

text \<open>\<open>ee_nack\<close>: which of the coming bus transactions the chip does not acknowledge.\<close>

record eeprom =
  ee_mem :: "nat \<Rightarrow> u8"
  ee_nack :: "bool list"

definition ee_select :: "eeprom \<Rightarrow> bool \<times> eeprom" where
  "ee_select e = (case ee_nack e of [] \<Rightarrow> (True, e) | b # bs \<Rightarrow> (\<not> b, e\<lparr>ee_nack := bs\<rparr>))"

text \<open>The two address bytes that the driver sends; the device address selects the lower half.\<close>

definition ee_word_addr :: "nat \<Rightarrow> nat" where
  "ee_word_addr mem_addr = (let w = (of_nat mem_addr :: u32) in unat (byte_1 w) * 256 + unat (byte_0 w))"

definition ee_seq_read :: "eeprom \<Rightarrow> nat \<Rightarrow> nat \<Rightarrow> buf" where
  "ee_seq_read e a n = map (\<lambda>i. ee_mem e ((a + i) mod EEPROM_MEM_SIZE)) [0..<n]"

definition ee_page_addr :: "nat \<Rightarrow> nat \<Rightarrow> nat" where
  "ee_page_addr a i = a div AT24C_PAGE_SIZE * AT24C_PAGE_SIZE + (a + i) mod AT24C_PAGE_SIZE"

fun ee_page_store :: "(nat \<Rightarrow> u8) \<Rightarrow> nat \<Rightarrow> nat \<Rightarrow> buf \<Rightarrow> (nat \<Rightarrow> u8)" where
  "ee_page_store m a i [] = m"
| "ee_page_store m a i (v # vs) = ee_page_store (m(ee_page_addr a i := v)) a (Suc i) vs"

definition at24c_read :: "eeprom \<Rightarrow> nat \<Rightarrow> nat \<Rightarrow> nat \<times> buf \<times> eeprom" where
  "at24c_read e mem_addr len =
     (let (ack, e) = ee_select e in
      if \<not> ack then (0, [], e) else (len, ee_seq_read e (ee_word_addr mem_addr) len, e))"

definition write_in_page :: "eeprom \<Rightarrow> nat \<Rightarrow> buf \<Rightarrow> nat \<Rightarrow> nat \<times> eeprom" where
  "write_in_page e mem_addr buff len =
     (let (ack, e) = ee_select e in
      if \<not> ack then (0, e)
      else (len, e\<lparr>ee_mem := ee_page_store (ee_mem e) (ee_word_addr mem_addr) 0 (take len buff)\<rparr>))"

function at24c_write_loop :: "eeprom \<Rightarrow> nat \<Rightarrow> buf \<Rightarrow> nat \<Rightarrow> nat \<times> eeprom" where
  "at24c_write_loop e addr data remain =
     (if remain \<noteq> 0 then
        let sz = AT24C_PAGE_SIZE - addr mod AT24C_PAGE_SIZE;
            sz = (if sz > remain then remain else sz);
            (n, e) = write_in_page e addr data sz
        in if n \<noteq> sz then (remain, e) else at24c_write_loop e (addr + sz) (drop sz data) (remain - sz)
      else (remain, e))"
  by pat_completeness auto
termination
  by (relation "measure (\<lambda>(e, addr, data, remain). remain)")
     (auto simp: AT24C_PAGE_SIZE_def intro: mod_less_divisor)

declare at24c_write_loop.simps [simp del]

definition at24c_write :: "eeprom \<Rightarrow> nat \<Rightarrow> buf \<Rightarrow> nat \<Rightarrow> nat \<times> eeprom" where
  "at24c_write e mem_addr buff len =
     (let (remain, e) = at24c_write_loop e mem_addr buff len in (len - remain, e))"

subsection \<open>The storage layer\<close>

definition eeprom_read :: "eeprom \<Rightarrow> nat \<Rightarrow> nat \<Rightarrow> nat \<times> buf \<times> eeprom" where
  "eeprom_read e addr len = at24c_read e addr len"

definition eeprom_write :: "eeprom \<Rightarrow> nat \<Rightarrow> buf \<Rightarrow> nat \<Rightarrow> nat \<times> eeprom" where
  "eeprom_write e addr buff len = at24c_write e addr buff len"

text \<open>\<open>locked\<close> tells whether the mutex was obtained in time.\<close>

definition eeprom_read_lock :: "bool \<Rightarrow> eeprom \<Rightarrow> nat \<Rightarrow> nat \<Rightarrow> int \<times> buf \<times> eeprom" where
  "eeprom_read_lock locked e addr len =
     (if \<not> locked then (0, [], e)
      else (let (n, b, e) = eeprom_read e addr len in (if n > 0 then 0 else - 1, b, e)))"

definition eeprom_write_lock :: "bool \<Rightarrow> eeprom \<Rightarrow> nat \<Rightarrow> buf \<Rightarrow> nat \<Rightarrow> int \<times> eeprom" where
  "eeprom_write_lock locked e addr buff len =
     (if \<not> locked then (0, e)
      else (let (n, e) = eeprom_write e addr buff len in (if n > 0 then 0 else - 1, e)))"

definition EEPROM_TEST_ADDR :: nat where "EEPROM_TEST_ADDR = 131008"
definition MEM_TEST_SIZE :: nat where "MEM_TEST_SIZE = 64"

text \<open>The buffer keeps its zeros when nothing is read.\<close>

definition eeprom_test :: "eeprom \<Rightarrow> int \<times> eeprom" where
  "eeprom_test e =
     (let (_, e) = eeprom_write e EEPROM_TEST_ADDR (replicate MEM_TEST_SIZE 0x5A) MEM_TEST_SIZE;
          (len, b, e) = eeprom_read e EEPROM_TEST_ADDR MEM_TEST_SIZE
      in if len \<noteq> MEM_TEST_SIZE then (- 1, e)
         else (if list_all (\<lambda>v. v = 0x5A) b then 0 else - 1, e))"

subsection \<open>The checksum unit\<close>

datatype EndianMode = ENDIAN_LITTLE | ENDIAN_BIG

definition reverse_word :: "u32 \<Rightarrow> u32" where
  "reverse_word w = get32 (rev (le32 w))"

text \<open>
  \<open>unit c w\<close> is the data register of the unit after the word \<open>w\<close> is written while it holds
  \<open>c\<close>; a reset loads 0xFFFFFFFF. The words are fetched little-endian, as the core does.
\<close>

definition crc_feed :: "(u32 \<Rightarrow> u32 \<Rightarrow> u32) \<Rightarrow> EndianMode \<Rightarrow> u32 \<Rightarrow> u32 \<Rightarrow> u32" where
  "crc_feed unit en c w = unit c (if en = ENDIAN_BIG then reverse_word w else w)"

fun crc32_loop :: "(u32 \<Rightarrow> u32 \<Rightarrow> u32) \<Rightarrow> EndianMode \<Rightarrow> u32 \<Rightarrow> buf \<Rightarrow> nat \<Rightarrow> u32 option" where
  "crc32_loop unit en c addr len =
     (if len \<ge> 4 then
        if length addr < 4 then None
        else crc32_loop unit en (crc_feed unit en c (get32 addr)) (drop 4 addr) (len - 4)
      else if len > 0 then
        if length addr < 4 then None
        else Some (crc_feed unit en c
          (get32 addr AND (if len = 1 then 0xFF000000 else if len = 2 then 0xFFFF0000 else 0xFFFFFF00)))
      else Some c)"

declare crc32_loop.simps [simp del]

definition calculate_crc32 :: "(u32 \<Rightarrow> u32 \<Rightarrow> u32) \<Rightarrow> buf \<Rightarrow> nat \<Rightarrow> EndianMode \<Rightarrow> u32 option" where
  "calculate_crc32 unit addr len en = crc32_loop unit en 0xFFFFFFFF addr len"

text \<open>The unit as its manual has it: one division step per bit, polynomial 0x04C11DB7.\<close>

definition crc_unit :: "u32 \<Rightarrow> u32 \<Rightarrow> u32" where
  "crc_unit c w = ((\<lambda>c. if bit c 31 then push_bit 1 c XOR 0x04C11DB7 else push_bit 1 c) ^^ 32) (c XOR w)"

subsection \<open>What the flash driver leaves in the chip\<close>

definition store :: "(nat \<Rightarrow> u8) \<Rightarrow> nat \<Rightarrow> buf \<Rightarrow> (nat \<Rightarrow> u8)" where
  "store f a b = (\<lambda>x. if a \<le> x \<and> x < a + length b then b ! (x - a) else f x)"

lemma mem_bytes_store [simp]: "n = length b \<Longrightarrow> mem_bytes (store f a b) a n = b"
  by (auto simp: mem_bytes_def store_def intro!: nth_equalityI)

lemma mem_bytes_store_other:
  "a + n \<le> a' \<or> a' + length b \<le> a \<Longrightarrow> mem_bytes (store f a' b) a n = mem_bytes f a n"
  by (auto simp: mem_bytes_def store_def)

lemma length_mem_bytes [simp]: "length (mem_bytes f a n) = n"
  by (simp add: mem_bytes_def)

lemma mem_bytes_nth [simp]: "i < n \<Longrightarrow> mem_bytes f a n ! i = f (a + i)"
  by (simp add: mem_bytes_def)

lemma and_ff: "255 AND (v :: u8) = v"
proof -
  have "(255 :: u8) = - 1" by simp
  then show ?thesis by (simp only: and.left_neutral)
qed

lemma program_all_eq:
  "program_all f a vs = (\<lambda>x. if a \<le> x \<and> x < a + length vs then f x AND vs ! (x - a) else f x)"
proof (induction vs arbitrary: f a)
  case (Cons v vs)
  show ?case
  proof
    fix x
    show "program_all f a (v # vs) x = (if a \<le> x \<and> x < a + length (v # vs) then f x AND (v # vs) ! (x - a) else f x)"
      by (cases "x = a") (auto simp: Cons nth_Cons' Suc_le_eq)
  qed
qed (auto simp: fun_eq_iff)

lemma program_all_append: "program_all f a (xs @ ys) = program_all (program_all f a xs) (a + length xs) ys"
  by (induction xs arbitrary: f a) simp_all

lemma le32_get32: "le32 (get32 [a, b, c, d]) = [a, b, c, d]"
proof -
  have "bit (get32 [a, b, c, d]) n \<longleftrightarrow> (if n < 8 then bit a n else if n < 16 then bit b (n - 8)
      else if n < 24 then bit c (n - 16) else bit d (n - 24))" for n
    by (auto simp: get32_def bit_simps dest: bit_u8D)
  then show ?thesis
    by (auto simp: le32_def bit_simps intro!: bit_word_eqI dest: bit_u8D)
qed

lemma word_loop_eq:
  assumes "\<And>x. addr \<le> x \<Longrightarrow> x < addr + 4 * cnt \<Longrightarrow> ok x" and "4 * cnt \<le> length src"
  shows "word_loop ok f addr src cnt = Some (0, program_all f addr (take (4 * cnt) src))"
  using assms
proof (induction ok f addr src cnt rule: word_loop.induct)
  case (2 ok f addr a b c d src cnt)
  have "fmc_word_program ok f addr (get32 [a, b, c, d]) = Some (program_all f addr [a, b, c, d])"
    using "2.prems"(1) [of addr] by (simp add: fmc_word_program_def le32_get32)
  moreover from 2(1) [OF this] have "word_loop ok (program_all f addr [a, b, c, d]) (addr + 4) src cnt
      = Some (0, program_all (program_all f addr [a, b, c, d]) (addr + 4) (take (4 * cnt) src))"
    using "2.prems" by (simp del: program_all.simps)
  moreover have "program_all (program_all f addr [a, b, c, d]) (addr + 4) (take (4 * cnt) src)
      = program_all f addr ([a, b, c, d] @ take (4 * cnt) src)"
    using program_all_append [of f addr "[a, b, c, d]" "take (4 * cnt) src"]
    by (simp add: numeral_eq_Suc del: program_all.simps)
  moreover have "take (4 * Suc cnt) (a # b # c # d # src) = [a, b, c, d] @ take (4 * cnt) src"
    by (simp add: numeral_eq_Suc)
  ultimately show ?case by (simp del: program_all.simps mult_Suc_right)
qed (auto simp: take_Suc_conv_app_nth)

lemma byte_loop_eq:
  assumes "\<And>x. addr \<le> x \<Longrightarrow> x < addr + cnt \<Longrightarrow> ok x" and "cnt \<le> length buff"
  shows "byte_loop ok f addr buff cnt = Some (0, program_all f addr (take cnt buff))"
  using assms
  by (induction ok f addr buff cnt rule: byte_loop.induct) (auto simp: fmc_byte_program_def)

lemma erase_loop_eq:
  assumes "addr mod FMC_PAGE_SIZE = 0"
  shows "erase_loop f addr n = (\<lambda>x. if addr \<le> x \<and> x < addr + FMC_PAGE_SIZE * n then 0xFF else f x)"
  using assms
proof (induction n arbitrary: f addr)
  case (Suc n)
  have page: "x div FMC_PAGE_SIZE = addr div FMC_PAGE_SIZE \<longleftrightarrow> addr \<le> x \<and> x < addr + FMC_PAGE_SIZE" for x
    using Suc.prems by (auto simp: FMC_PAGE_SIZE_def)
  have "(addr + FMC_PAGE_SIZE) mod FMC_PAGE_SIZE = 0" using Suc.prems by simp
  from Suc.IH [OF this] show ?case
    by (auto simp: fmc_page_erase_def page fun_eq_iff)
qed (auto simp: fun_eq_iff)

definition page_count :: "nat \<Rightarrow> nat" where
  "page_count len = (if len mod FMC_PAGE_SIZE \<noteq> 0 then len div FMC_PAGE_SIZE + 1 else len div FMC_PAGE_SIZE)"

lemma page_count_covers: "len \<le> FMC_PAGE_SIZE * page_count len"
proof -
  have "len mod FMC_PAGE_SIZE < FMC_PAGE_SIZE" by (simp add: FMC_PAGE_SIZE_def)
  moreover have "len = FMC_PAGE_SIZE * (len div FMC_PAGE_SIZE) + len mod FMC_PAGE_SIZE" by simp
  ultimately have "len \<le> FMC_PAGE_SIZE * (len div FMC_PAGE_SIZE + 1)"
    by (metis add_mult_distrib2 less_imp_le mult.right_neutral nat_add_left_cancel_le)
  then show ?thesis by (auto simp: page_count_def)
qed

text \<open>The pages an address range needs lie inside the flash.\<close>

definition flash_range :: "nat \<Rightarrow> nat \<Rightarrow> bool" where
  "flash_range addr len \<longleftrightarrow> addr mod FMC_PAGE_SIZE = 0 \<and> FLASH_BASE \<le> addr
     \<and> addr + FMC_PAGE_SIZE * page_count len \<le> FLASH_BASE + FMC_PAGE_SIZE * FMC_PAGE_MAX"

lemma erase_pages_eq:
  assumes "flash_range addr len"
  shows "gdf_erase_pages f addr (page_count len) =
    (0, \<lambda>x. if addr \<le> x \<and> x < addr + FMC_PAGE_SIZE * page_count len then 0xFF else f x)"
proof -
  let ?ps = "((addr + 2 ^ 32 - FLASH_BASE) mod 2 ^ 32 div FMC_PAGE_SIZE) mod 2 ^ 16"
  have r: "addr mod FMC_PAGE_SIZE = 0" "FLASH_BASE \<le> addr"
    "addr + FMC_PAGE_SIZE * page_count len \<le> FLASH_BASE + FMC_PAGE_SIZE * FMC_PAGE_MAX"
    using assms by (simp_all add: flash_range_def)
  then have "addr + 2 ^ 32 - FLASH_BASE = (addr - FLASH_BASE) + 2 ^ 32" by simp
  moreover have "addr - FLASH_BASE \<le> FMC_PAGE_SIZE * FMC_PAGE_MAX" using r by simp
  then have le: "addr - FLASH_BASE < 2 ^ 32" "(addr - FLASH_BASE) div FMC_PAGE_SIZE < 2 ^ 16"
    by (simp_all add: FMC_PAGE_SIZE_def FMC_PAGE_MAX_def)
  ultimately have "(addr + 2 ^ 32 - FLASH_BASE) mod 2 ^ 32 = addr - FLASH_BASE"
    by (simp only: mod_add_self2 mod_less)
  then have ps: "?ps = (addr - FLASH_BASE) div FMC_PAGE_SIZE"
    using le(2) by (simp only: mod_less)
  have pos: "FMC_PAGE_SIZE \<noteq> 0" by (simp add: FMC_PAGE_SIZE_def)
  have "(addr - FLASH_BASE) div FMC_PAGE_SIZE + page_count len
      = (addr - FLASH_BASE + FMC_PAGE_SIZE * page_count len) div FMC_PAGE_SIZE"
    using pos by simp
  also have "\<dots> \<le> FMC_PAGE_SIZE * FMC_PAGE_MAX div FMC_PAGE_SIZE"
    using r by (intro div_le_mono) simp
  also have "\<dots> = FMC_PAGE_MAX" using pos by simp
  finally have "\<not> ?ps + page_count len > FMC_PAGE_MAX" unfolding ps by simp
  then show ?thesis
    using r(1) by (simp add: gdf_erase_pages_def Let_def erase_loop_eq)
qed

lemma page_write_eq:
  assumes r: "flash_range addr len" and ok: "\<And>x. addr \<le> x \<Longrightarrow> x < addr + len \<Longrightarrow> ok x"
    and len: "len \<le> length buff"
  shows "gdf_write_data_by_page ok f addr len buff =
    Some (0, store (\<lambda>x. if addr \<le> x \<and> x < addr + FMC_PAGE_SIZE * page_count len then 0xFF else f x) addr (take len buff))"
proof -
  let ?w = "len div 4"
  define g where "g = (\<lambda>x. if addr \<le> x \<and> x < addr + FMC_PAGE_SIZE * page_count len then 0xFF else f x)"
  have l: "len = 4 * ?w + len mod 4" by simp
  have split: "take len buff = take (4 * ?w) buff @ take (len mod 4) (drop (?w * 4) buff)"
    by (metis l mult.commute take_add)
  have "word_loop ok g addr buff ?w = Some (0, program_all g addr (take (4 * ?w) buff))"
    using ok len l by (intro word_loop_eq) auto
  moreover have m: "len mod 4 \<le> length (drop (?w * 4) buff)"
    using len by (simp add: diff_le_mono flip: minus_div_mult_eq_mod)
  moreover have "byte_loop ok h (addr + 4 * ?w) (drop (?w * 4) buff) (len mod 4)
      = Some (0, program_all h (addr + 4 * ?w) (take (len mod 4) (drop (?w * 4) buff)))" for h
    using ok m l by (intro byte_loop_eq) auto
  moreover have "program_all (program_all g addr (take (4 * ?w) buff)) (addr + 4 * ?w)
      (take (len mod 4) (drop (?w * 4) buff)) = program_all g addr (take len buff)"
    using len l unfolding split by (simp add: program_all_append)
  moreover have "program_all g addr (take len buff) = store g addr (take len buff)"
    using page_count_covers [of len] len
    by (auto simp: program_all_eq store_def g_def fun_eq_iff and_ff)
  moreover have "gdf_write_data_by_page ok f addr len buff = (let (_, f) = gdf_erase_pages f addr (page_count len) in do {
        (r, f) \<leftarrow> word_loop ok f addr buff (len div 4);
        if r \<noteq> 0 then Some (r, f)
        else byte_loop ok f (addr + 4 * (len div 4)) (drop (len div 4 * 4) buff) (len mod 4) })"
    by (simp add: gdf_write_data_by_page_def Let_def page_count_def)
  moreover have "gdf_erase_pages f addr (page_count len) = (0, g)"
    using erase_pages_eq [OF r] by (simp add: g_def)
  ultimately show ?thesis by (simp flip: g_def)
qed

lemma flash_write_eq:
  assumes "flash_range addr (length b)" and "\<And>x. addr \<le> x \<Longrightarrow> x < addr + length b \<Longrightarrow> ok x"
  shows "\<exists>f'. flash_write ok f addr b (length b) = Some (0, f') \<and> mem_bytes f' addr (length b) = b
    \<and> (\<forall>x. x < addr \<or> addr + FMC_PAGE_SIZE * page_count (length b) \<le> x \<longrightarrow> f' x = f x)"
proof -
  define g where "g = (\<lambda>x. if addr \<le> x \<and> x < addr + FMC_PAGE_SIZE * page_count (length b) then 0xFF else f x)"
  have "flash_write ok f addr b (length b) = Some (0, store g addr b)"
    using page_write_eq [OF assms(1), of ok b f] assms(2) by (simp add: flash_write_def g_def)
  moreover have "store g addr b x = f x"
    if "x < addr \<or> addr + FMC_PAGE_SIZE * page_count (length b) \<le> x" for x
    using that page_count_covers [of "length b"] by (auto simp: store_def g_def)
  ultimately show ?thesis by simp
qed

subsection \<open>What the EEPROM driver leaves in the chip\<close>

lemma ee_word_addr_mod: "ee_word_addr a = a mod 65536"
proof -
  let ?w = "of_nat a :: u32"
  have u: "unat ?w = a mod 2 ^ 32" by (simp add: unsigned_of_nat take_bit_eq_mod)
  have "unat (byte_0 ?w) = unat ?w mod 256" "unat (byte_1 ?w) = unat ?w div 256 mod 256"
    by (simp_all only: byte_0_def byte_1_def and_255 unsigned_take_bit_eq unsigned_drop_bit_eq)
       (simp_all add: take_bit_eq_mod drop_bit_eq_div unat_mod unat_div u)
  then have "ee_word_addr a = unat ?w div 256 mod 256 * 256 + unat ?w mod 256"
    by (simp add: ee_word_addr_def Let_def)
  also have "\<dots> = unat ?w mod 65536"
    using mod_mult2_eq [of "unat ?w" 256 256] by simp
  also have "\<dots> = a mod 65536"
    unfolding u by (simp add: mod_mod_cancel)
  finally show ?thesis .
qed

lemma page_addr_inside:
  assumes "a mod AT24C_PAGE_SIZE + i < AT24C_PAGE_SIZE"
  shows "ee_page_addr a i = a + i"
proof -
  have "(a + i) mod AT24C_PAGE_SIZE = a mod AT24C_PAGE_SIZE + i"
    using assms by (metis mod_add_left_eq mod_less)
  then show ?thesis by (simp add: ee_page_addr_def)
qed

lemma page_store_eq:
  assumes "a mod AT24C_PAGE_SIZE + i + length vs \<le> AT24C_PAGE_SIZE"
  shows "ee_page_store m a i vs = store m (a + i) vs"
  using assms
proof (induction vs arbitrary: m i)
  case (Cons v vs)
  have "ee_page_addr a i = a + i" using Cons.prems by (intro page_addr_inside) simp
  then have "ee_page_store m a i (v # vs) = store (m(a + i := v)) (a + Suc i) vs"
    using Cons by (simp add: fun_upd_def)
  also have "\<dots> = store m (a + i) (v # vs)"
    by (auto simp: store_def fun_eq_iff nth_Cons' Suc_le_eq)
  finally show ?case .
qed (auto simp: store_def fun_eq_iff)

lemma store_append: "store (store m a xs) (a + length xs) ys = store m a (xs @ ys)"
  by (auto simp: store_def fun_eq_iff nth_append)

lemma store_Nil [simp]: "store m a [] = m"
  by (auto simp: store_def fun_eq_iff)

lemma write_in_page_eq:
  assumes "ee_nack e = []" and "n \<le> length b" and "addr mod AT24C_PAGE_SIZE + n \<le> AT24C_PAGE_SIZE"
  shows "write_in_page e addr b n = (n, e\<lparr>ee_mem := store (ee_mem e) (addr mod 65536) (take n b)\<rparr>)"
proof -
  have "addr mod 65536 mod AT24C_PAGE_SIZE = addr mod AT24C_PAGE_SIZE"
    by (simp add: AT24C_PAGE_SIZE_def mod_mod_cancel)
  then have "ee_page_store (ee_mem e) (addr mod 65536) 0 (take n b) = store (ee_mem e) (addr mod 65536 + 0) (take n b)"
    using assms by (intro page_store_eq) simp
  then show ?thesis using assms by (simp add: write_in_page_def ee_select_def ee_word_addr_mod)
qed

lemma at24c_write_loop_eq:
  assumes "ee_nack e = []" and "n \<le> length b" and "addr mod 65536 + n \<le> 65536"
  shows "at24c_write_loop e addr b n = (0, e\<lparr>ee_mem := store (ee_mem e) (addr mod 65536) (take n b)\<rparr>)"
  using assms
proof (induction n arbitrary: e addr b rule: less_induct)
  case (less n)
  show ?case
  proof (cases "n = 0")
    case True
    then show ?thesis by (subst at24c_write_loop.simps) simp
  next
    case False
    define s where "s = min n (AT24C_PAGE_SIZE - addr mod AT24C_PAGE_SIZE)"
    have pg: "addr mod AT24C_PAGE_SIZE < AT24C_PAGE_SIZE" by (simp add: AT24C_PAGE_SIZE_def)
    have s: "0 < s" "s \<le> n" "addr mod AT24C_PAGE_SIZE + s \<le> AT24C_PAGE_SIZE"
      using False pg by (auto simp: s_def)
    define e1 where "e1 = e\<lparr>ee_mem := store (ee_mem e) (addr mod 65536) (take s b)\<rparr>"
    have w: "write_in_page e addr b s = (s, e1)"
      unfolding e1_def using less.prems s by (intro write_in_page_eq) auto
    have step: "at24c_write_loop e addr b n = at24c_write_loop e1 (addr + s) (drop s b) (n - s)"
    proof -
      have sz: "(if AT24C_PAGE_SIZE - addr mod AT24C_PAGE_SIZE > n then n
          else AT24C_PAGE_SIZE - addr mod AT24C_PAGE_SIZE) = s" by (auto simp: s_def)
      show ?thesis using False
        by (subst at24c_write_loop.simps) (simp only: Let_def sz w prod.case if_True if_False not_False_eq_True simp_thms)
    qed
    show ?thesis
    proof (cases "n = s")
      case True
      then show ?thesis unfolding step by (subst at24c_write_loop.simps) (simp add: e1_def)
    next
      case ne: False
      have m: "(addr + s) mod 65536 = addr mod 65536 + s"
      proof -
        have "addr mod 65536 + s < 65536" using less.prems(3) s ne by linarith
        then show ?thesis by (metis mod_add_left_eq mod_less)
      qed
      have "at24c_write_loop e1 (addr + s) (drop s b) (n - s) =
          (0, e1\<lparr>ee_mem := store (ee_mem e1) ((addr + s) mod 65536) (take (n - s) (drop s b))\<rparr>)"
        by (rule less.IH) (use less.prems s ne in \<open>simp_all add: e1_def m\<close>)
      moreover have "take n b = take s b @ take (n - s) (drop s b)"
        using s(2) by (metis le_add_diff_inverse take_add)
      moreover have "store (store (ee_mem e) (addr mod 65536) (take s b)) (addr mod 65536 + s) ys
          = store (ee_mem e) (addr mod 65536) (take s b @ ys)" for ys
        using store_append [of "ee_mem e" "addr mod 65536" "take s b" ys] less.prems(2) s(2) by (simp add: min_absorb2)
      ultimately show ?thesis
        unfolding step m by (simp add: e1_def)
    qed
  qed
qed

lemma at24c_write_eq:
  assumes "ee_nack e = []" and "n \<le> length b" and "addr mod 65536 + n \<le> 65536"
  shows "at24c_write e addr b n = (n, e\<lparr>ee_mem := store (ee_mem e) (addr mod 65536) (take n b)\<rparr>)"
  using at24c_write_loop_eq [OF assms] by (simp add: at24c_write_def)

lemma at24c_read_eq:
  assumes "ee_nack e = []" and "addr mod 65536 + n \<le> 65536"
  shows "at24c_read e addr n = (n, mem_bytes (ee_mem e) (addr mod 65536) n, e)"
  using assms
  by (auto simp: at24c_read_def ee_select_def ee_word_addr_mod ee_seq_read_def mem_bytes_def EEPROM_MEM_SIZE_def)

lemma ee_word_addr_alias [simp]: "ee_word_addr (addr + 65536) = ee_word_addr addr"
  by (simp add: ee_word_addr_mod)

lemma write_in_page_alias: "write_in_page e (addr + 65536) b n = write_in_page e addr b n"
  by (simp only: write_in_page_def ee_word_addr_alias)

lemma page_mod_alias: "(addr + 65536) mod AT24C_PAGE_SIZE = addr mod AT24C_PAGE_SIZE"
proof -
  have "(addr + 256 * 256) mod 256 = addr mod 256" by (rule mod_mult_self1)
  then show ?thesis by (simp add: AT24C_PAGE_SIZE_def)
qed

lemma at24c_write_loop_alias: "at24c_write_loop e (addr + 65536) b n = at24c_write_loop e addr b n"
proof (induction e addr b n rule: at24c_write_loop.induct)
  case (1 e addr b n)
  show ?case
  proof (cases "n = 0")
    case True
    then show ?thesis by (simp add: at24c_write_loop.simps)
  next
    case False
    define s where "s = (if AT24C_PAGE_SIZE - addr mod AT24C_PAGE_SIZE > n then n
      else AT24C_PAGE_SIZE - addr mod AT24C_PAGE_SIZE)"
    obtain k e' where w: "write_in_page e addr b s = (k, e')" by (cases "write_in_page e addr b s")
    have unfold: "at24c_write_loop e a b n = (case write_in_page e a b s of (k, e') \<Rightarrow>
        if k \<noteq> s then (n, e') else at24c_write_loop e' (a + s) (drop s b) (n - s))"
      if "a mod AT24C_PAGE_SIZE = addr mod AT24C_PAGE_SIZE" for a
      using False that by (subst at24c_write_loop.simps) (simp only: Let_def simp_thms if_True flip: s_def)
    have "at24c_write_loop e' (addr + 65536 + s) (drop s b) (n - s) = at24c_write_loop e' (addr + s) (drop s b) (n - s)"
      if "k = s"
      using "1.IH" [OF _ refl _ w [symmetric] refl] False that
      by (simp add: s_def ac_simps)
    then show ?thesis
      using unfold [of addr] unfold [OF page_mod_alias] w by (simp add: write_in_page_alias)
  qed
qed

lemma crc32_loop_step:
  "4 \<le> len \<Longrightarrow> length pre = 4 \<Longrightarrow>
    crc32_loop unit en c (pre @ b) len = crc32_loop unit en (crc_feed unit en c (get32 pre)) b (len - 4)"
  by (subst crc32_loop.simps) (auto simp: get32_def nth_append)

subsection \<open>Properties\<close>

text \<open>Writing a block to a page-aligned flash address succeeds and the block is read back; nothing
  outside of the erased pages changes.\<close>

theorem flash_write_then_read:
  assumes "flash_range addr (length b)" and "\<And>x. addr \<le> x \<Longrightarrow> x < addr + length b \<Longrightarrow> ok x"
  shows "\<exists>f'. flash_write ok f addr b (length b) = Some (0, f') \<and> flash_read f' addr (length b) = (0, b)
    \<and> (\<forall>x. x < addr \<or> addr + FMC_PAGE_SIZE * page_count (length b) \<le> x \<longrightarrow> f' x = f x)"
  using flash_write_eq [OF assms, where f = f] by (auto simp: flash_read_def)

theorem flash_write_then_read_witness:
  "\<exists>f'. flash_write (\<lambda>_. True) (\<lambda>_. 0) (FLASH_BASE + 0x8000) [1, 2, 3, 4, 5] (length [1, 2, 3, 4, 5 :: u8]) = Some (0, f')
    \<and> flash_read f' (FLASH_BASE + 0x8000) (length [1, 2, 3, 4, 5 :: u8]) = (0, [1, 2, 3, 4, 5])"
  using flash_write_then_read [of "FLASH_BASE + 0x8000" "[1, 2, 3, 4, 5]" "\<lambda>_. True" "\<lambda>_. 0"]
  by (auto simp: flash_range_def page_count_def FLASH_BASE_def FMC_PAGE_SIZE_def FMC_PAGE_MAX_def)

text \<open>C13: Below address 65536 a block written to an EEPROM that acknowledges is read back, whatever pages
  it crosses, and no other byte changes.\<close>

theorem eeprom_write_then_read:
  assumes "ee_nack e = []" and "addr + length b \<le> 65536"
  shows "\<exists>e'. eeprom_write e addr b (length b) = (length b, e')
    \<and> eeprom_read e' addr (length b) = (length b, b, e')
    \<and> (\<forall>x. x < addr \<or> addr + length b \<le> x \<longrightarrow> ee_mem e' x = ee_mem e x)"
proof (cases "b = []")
  case True
  then show ?thesis using assms
    by (auto simp: eeprom_write_def eeprom_read_def at24c_write_def at24c_write_loop.simps
      at24c_read_def ee_select_def ee_seq_read_def)
next
  case False
  then have m: "addr mod 65536 = addr" using assms(2) by (cases b) auto
  define e' where "e' = e\<lparr>ee_mem := store (ee_mem e) addr b\<rparr>"
  have "eeprom_write e addr b (length b) = (length b, e')"
    using at24c_write_eq [of e "length b" b addr] assms by (simp add: eeprom_write_def m e'_def)
  moreover have "eeprom_read e' addr (length b) = (length b, b, e')"
    using at24c_read_eq [of e' addr "length b"] assms by (simp add: eeprom_read_def m e'_def)
  moreover have "\<forall>x. x < addr \<or> addr + length b \<le> x \<longrightarrow> ee_mem e' x = ee_mem e x"
    by (auto simp: e'_def store_def)
  ultimately show ?thesis by blast
qed

theorem eeprom_write_then_read_witness:
  "\<exists>e'. eeprom_write \<lparr>ee_mem = \<lambda>_. 0, ee_nack = []\<rparr> 254 [1, 2, 3, 4] (length [1, 2, 3, 4 :: u8]) = (4, e')
    \<and> eeprom_read e' 254 (length [1, 2, 3, 4 :: u8]) = (4, [1, 2, 3, 4], e')"
  using eeprom_write_then_read [of "\<lparr>ee_mem = \<lambda>_. 0, ee_nack = []\<rparr>" 254 "[1, 2, 3, 4]"] by auto

text \<open>The driver sends only 16 address bits, so the upper half of the 128 KB chip is never reached: an
  access at \<open>addr + 65536\<close> is the access at \<open>addr\<close>, on every chip state.\<close>

theorem eeprom_upper_half_aliases_lower:
  "eeprom_write e (addr + 65536) b n = eeprom_write e addr b n
    \<and> eeprom_read e (addr + 65536) n = eeprom_read e addr n"
  by (simp only: eeprom_write_def eeprom_read_def at24c_write_def at24c_read_def at24c_write_loop_alias
    ee_word_addr_alias simp_thms)

text \<open>The EEPROM self test passes on a chip that acknowledges, but the 64 bytes it overwrites are those at
  65472, inside the state records, and not the test area at 131008.\<close>

theorem eeprom_test_overwrites_state_records:
  assumes "ee_nack e = []"
  shows "\<exists>e'. eeprom_test e = (0, e') \<and> mem_bytes (ee_mem e') 65472 64 = replicate 64 0x5A
    \<and> mem_bytes (ee_mem e') EEPROM_TEST_ADDR MEM_TEST_SIZE = mem_bytes (ee_mem e) EEPROM_TEST_ADDR MEM_TEST_SIZE"
proof -
  let ?b = "replicate MEM_TEST_SIZE (0x5A :: u8)"
  define e' where "e' = e\<lparr>ee_mem := store (ee_mem e) 65472 ?b\<rparr>"
  have c: "EEPROM_TEST_ADDR mod 65536 = 65472" "MEM_TEST_SIZE = 64" "EEPROM_TEST_ADDR = 131008"
    by (simp_all add: EEPROM_TEST_ADDR_def MEM_TEST_SIZE_def)
  have "eeprom_write e EEPROM_TEST_ADDR ?b MEM_TEST_SIZE = (MEM_TEST_SIZE, e')"
    using at24c_write_eq [of e MEM_TEST_SIZE ?b EEPROM_TEST_ADDR] assms by (simp add: eeprom_write_def c(1,2) e'_def)
  moreover have "eeprom_read e' EEPROM_TEST_ADDR MEM_TEST_SIZE = (MEM_TEST_SIZE, ?b, e')"
    using at24c_read_eq [of e' EEPROM_TEST_ADDR MEM_TEST_SIZE] assms by (simp add: eeprom_read_def c(1,2) e'_def)
  ultimately have "eeprom_test e = (0, e')" by (simp add: eeprom_test_def list_all_iff)
  moreover have "mem_bytes (ee_mem e') 65472 64 = replicate 64 0x5A"
    by (simp add: e'_def c(2))
  moreover have "mem_bytes (ee_mem e') EEPROM_TEST_ADDR MEM_TEST_SIZE = mem_bytes (ee_mem e) EEPROM_TEST_ADDR MEM_TEST_SIZE"
    by (simp add: e'_def c mem_bytes_store_other)
  ultimately show ?thesis by blast
qed

theorem eeprom_test_overwrites_state_records_witness:
  "\<exists>e'. eeprom_test \<lparr>ee_mem = \<lambda>_. 0, ee_nack = []\<rparr> = (0, e') \<and> mem_bytes (ee_mem e') 65472 64 = replicate 64 0x5A"
  using eeprom_test_overwrites_state_records [of "\<lparr>ee_mem = \<lambda>_. 0, ee_nack = []\<rparr>"] by auto

text \<open>When the length of a firmware image is not a multiple of four, the first of its last one to three
  bytes has no influence on the checksum that guards it, whatever the checksum unit computes.\<close>

theorem crc32_ignores_tail_byte:
  assumes "length pre = 4 * k" and "3 \<le> length post" and "r \<in> {1, 2, 3}"
  shows "calculate_crc32 unit (pre @ x # post) (4 * k + r) en = calculate_crc32 unit (pre @ y # post) (4 * k + r) en"
proof -
  have tail: "crc32_loop unit en c (x # post) r = crc32_loop unit en c (y # post) r" for c
  proof -
    have *: "get32 (x # post) AND m = get32 (y # post) AND m" if "\<And>i. i < 8 \<Longrightarrow> \<not> bit m i" for m
      using that by (intro bit_word_eqI) (auto simp: get32_def bit_simps dest: bit_u8D)
    have "get32 (x # post) AND (if r = 1 then 0xFF000000 else if r = 2 then 0xFFFF0000 else 0xFFFFFF00)
      = get32 (y # post) AND (if r = 1 then 0xFF000000 else if r = 2 then 0xFFFF0000 else 0xFFFFFF00)"
    proof (rule *)
      fix i :: nat assume "i < 8"
      then have "i \<in> {0, 1, 2, 3, 4, 5, 6, 7}" by auto
      then show "\<not> bit ((if r = 1 then 0xFF000000 else if r = 2 then 0xFFFF0000 else 0xFFFFFF00) :: u32) i"
        by auto
    qed
    then show ?thesis using assms(2,3) by (auto simp: crc32_loop.simps [of _ _ _ _ r])
  qed
  have "crc32_loop unit en c (pre @ x # post) (4 * k + r) = crc32_loop unit en c (pre @ y # post) (4 * k + r)" for c
    using assms(1)
  proof (induction k arbitrary: pre c)
    case (Suc k)
    define p q where "p = take 4 pre" and "q = drop 4 pre"
    have pq: "pre = p @ q" "length p = 4" "length q = 4 * k" using Suc.prems by (simp_all add: p_def q_def)
    have "crc32_loop unit en c (p @ q @ z # post) (4 * Suc k + r)
        = crc32_loop unit en (crc_feed unit en c (get32 p)) (q @ z # post) (4 * k + r)" for z
      using crc32_loop_step [of "4 * Suc k + r" p unit en c "q @ z # post"] pq(2) by simp
    then show ?case using Suc.IH [OF pq(3)] pq(1) by simp
  qed (use tail in simp)
  then show ?thesis by (simp add: calculate_crc32_def)
qed

theorem crc32_ignores_tail_byte_witness:
  "calculate_crc32 crc_unit [1, 2, 3, 4, 5, 0xFF, 0xFF, 0xFF] 5 ENDIAN_BIG =
   calculate_crc32 crc_unit [1, 2, 3, 4, 6, 0xFF, 0xFF, 0xFF] 5 ENDIAN_BIG"
  using crc32_ignores_tail_byte [of "[1, 2, 3, 4]" 1 "[0xFF, 0xFF, 0xFF]" 1 crc_unit 5 ENDIAN_BIG 6] by simp

end
