(* ===== verification/Para.thy ===== *)
theory Para
  imports Storage Hq_Crc
begin

text \<open>
  The parameter manager \<open>src/app/para/para.c\<close> with its table in \<open>para_cfg.c\<close>: fourteen groups of
  parameters, each with its own CRC, kept in RAM and in three storage areas (user and factory
  in flash, backup in EEPROM), and recovered group by group at start-up.

  The packed structure \<open>sys_para_t\<close> is the list of its 1778 bytes: the magic number, the groups
  one after the other and the array of CRC words. The default image \<open>SYS_DEF_PARA\<close> is the
  argument \<open>def_para\<close> of the operations that use it. \<open>world\<close> is what the operations change: the
  two chips, the attempts to take the EEPROM mutex that will time out, the variables of the
  module and the nesting of critical sections. Messages to the log are left out.
\<close>

subsection \<open>The parameter structure\<close>

definition PARAM_MAGIC :: u32 where "PARAM_MAGIC = 0x00080296"
definition PARA_TYPE_CNT :: nat where "PARA_TYPE_CNT = 14"
definition PARA_DEV :: nat where "PARA_DEV = 0"
definition PARA_PORT :: nat where "PARA_PORT = 1"

text \<open>The name of each group, its offset in the structure and its size.\<close>

definition PARA_INFO_TBL :: "(string \<times> nat \<times> nat) list" where
  "PARA_INFO_TBL =
     [(''dev'', 4, 31), (''port'', 35, 42), (''gain'', 77, 80), (''ana'', 157, 43), (''adc'', 200, 16),
      (''temp'', 216, 126), (''net'', 342, 80), (''record'', 422, 4), (''algo'', 426, 1156),
      (''burst'', 1582, 46), (''alarm'', 1628, 36), (''video'', 1664, 39), (''filter'', 1703, 19),
      (''heater'', 1722, 28)]"

definition para_offset :: "nat \<Rightarrow> nat" where "para_offset i = fst (snd (PARA_INFO_TBL ! i))"
definition para_size :: "nat \<Rightarrow> nat" where "para_size i = snd (snd (PARA_INFO_TBL ! i))"
definition crc_offset :: nat where "crc_offset = 1750"
definition sys_para_size :: nat where "sys_para_size = 1778"

definition get_magic :: "buf \<Rightarrow> u32" where "get_magic p = get32 (seg 0 4 p)"
definition set_magic :: "buf \<Rightarrow> buf" where "set_magic p = overwrite p 0 (le32 PARAM_MAGIC)"
definition get_crc :: "buf \<Rightarrow> nat \<Rightarrow> u16" where "get_crc p i = get16 (seg (crc_offset + 2 * i) 2 p)"
definition set_crc :: "buf \<Rightarrow> nat \<Rightarrow> u16 \<Rightarrow> buf" where "set_crc p i c = overwrite p (crc_offset + 2 * i) (le16 c)"
definition get_group :: "buf \<Rightarrow> nat \<Rightarrow> buf" where "get_group p i = seg (para_offset i) (para_size i) p"
definition set_group :: "buf \<Rightarrow> nat \<Rightarrow> buf \<Rightarrow> buf" where "set_group p i g = overwrite p (para_offset i) g"

definition dev_addr :: "buf \<Rightarrow> u8" where "dev_addr p = p ! para_offset PARA_DEV"
definition set_dev_addr :: "buf \<Rightarrow> u8 \<Rightarrow> buf" where "set_dev_addr p a = p[para_offset PARA_DEV := a]"
definition DEV_MAX_ADDR :: u8 where "DEV_MAX_ADDR = 32"
definition DEV_MIN_ADDR :: u8 where "DEV_MIN_ADDR = 0"

text \<open>\<open>(uint16_t)~crc16_RTU((uint8_t *)para + offset, size)\<close>.\<close>

definition group_crc :: "buf \<Rightarrow> nat \<Rightarrow> u16 option" where
  "group_crc p i = map_option (\<lambda>c. NOT c) (crc16_RTU (drop (para_offset i) p) (int (para_size i)))"

fun validate_loop :: "buf \<Rightarrow> nat \<Rightarrow> nat \<Rightarrow> u32 \<Rightarrow> u32 option" where
  "validate_loop para i 0 status = Some status"
| "validate_loop para i (Suc n) status = do {
     calc_crc \<leftarrow> group_crc para i;
     validate_loop para (Suc i) n (if calc_crc = get_crc para i then status OR push_bit i 1 else status) }"

definition pmm_validate_para :: "buf option \<Rightarrow> u32 option" where
  "pmm_validate_para p =
     (case p of
        None \<Rightarrow> Some 0
      | Some para \<Rightarrow>
          if get_magic para = PARAM_MAGIC then validate_loop para 0 PARA_TYPE_CNT (push_bit 31 1) else Some 0)"

fun recalculate_loop :: "buf \<Rightarrow> nat \<Rightarrow> nat \<Rightarrow> buf option" where
  "recalculate_loop para i 0 = Some para"
| "recalculate_loop para i (Suc n) = do {
     c \<leftarrow> group_crc para i;
     recalculate_loop (set_crc para i c) (Suc i) n }"

definition para_recalculate_all_crc :: "buf \<Rightarrow> buf option" where
  "para_recalculate_all_crc para = recalculate_loop (set_magic para) 0 PARA_TYPE_CNT"

subsection \<open>State and storage areas\<close>

datatype storage_type = STORAGE_TYPE_USER | STORAGE_TYPE_BACKUP | STORAGE_TYPE_FACTORY | STORAGE_TYPE_DEFAULT
datatype storage_media = STORAGE_MEDIA_INT_FLASH | STORAGE_MEDIA_EXT_EEPROM | STORAGE_MEDIA_SD_CARD | STORAGE_MEDIA_USB

record world =
  w_flash :: flash
  w_flash_ok :: "nat \<Rightarrow> bool"
  w_ee :: eeprom
  w_timeouts :: "bool list"
  sys_para :: buf
  temp_para :: buf
  crc_user :: "u16 list"
  crc_backup :: "u16 list"
  para_err_status :: "storage_type \<Rightarrow> u32"
  crit_nesting :: int

text \<open>\<open>eeprom_lock\<close>: whether the next attempt obtains the mutex.\<close>

definition eeprom_lock :: "world \<Rightarrow> bool \<times> world" where
  "eeprom_lock w = (case w_timeouts w of [] \<Rightarrow> (True, w) | b # bs \<Rightarrow> (\<not> b, w\<lparr>w_timeouts := bs\<rparr>))"

record storage_device =
  dev_type :: storage_type
  media :: storage_media
  address :: nat
  dev_read :: "world \<Rightarrow> nat \<Rightarrow> nat \<Rightarrow> int \<times> buf \<times> world"
  dev_write :: "world \<Rightarrow> nat \<Rightarrow> buf \<Rightarrow> nat \<Rightarrow> (int \<times> world) option"

definition world_flash_read :: "world \<Rightarrow> nat \<Rightarrow> nat \<Rightarrow> int \<times> buf \<times> world" where
  "world_flash_read w a n = (let (r, b) = flash_read (w_flash w) a n in (r, b, w))"

definition world_flash_write :: "world \<Rightarrow> nat \<Rightarrow> buf \<Rightarrow> nat \<Rightarrow> (int \<times> world) option" where
  "world_flash_write w a b n =
     map_option (\<lambda>(r, f). (r, w\<lparr>w_flash := f\<rparr>)) (flash_write (w_flash_ok w) (w_flash w) a b n)"

definition world_eeprom_read :: "world \<Rightarrow> nat \<Rightarrow> nat \<Rightarrow> int \<times> buf \<times> world" where
  "world_eeprom_read w a n =
     (let (l, w) = eeprom_lock w; (r, b, e) = eeprom_read_lock l (w_ee w) a n in (r, b, w\<lparr>w_ee := e\<rparr>))"

definition world_eeprom_write :: "world \<Rightarrow> nat \<Rightarrow> buf \<Rightarrow> nat \<Rightarrow> (int \<times> world) option" where
  "world_eeprom_write w a b n =
     (if length b < n then None
      else let (l, w) = eeprom_lock w; (r, e) = eeprom_write_lock l (w_ee w) a b n in Some (r, w\<lparr>w_ee := e\<rparr>))"

definition USER_PARA_ADDR :: nat where "USER_PARA_ADDR = FLASH_BASE + 0x8000"
definition FACTORY_PARA_ADDR :: nat where "FACTORY_PARA_ADDR = FLASH_BASE + 0x8000 + 0x4000"
definition BACKUP_PARA_ADDR :: nat where "BACKUP_PARA_ADDR = 0"

definition user_loc :: storage_device where
  "user_loc = \<lparr>dev_type = STORAGE_TYPE_USER, media = STORAGE_MEDIA_INT_FLASH, address = USER_PARA_ADDR,
     dev_read = world_flash_read, dev_write = world_flash_write\<rparr>"

definition backup_loc :: storage_device where
  "backup_loc = \<lparr>dev_type = STORAGE_TYPE_BACKUP, media = STORAGE_MEDIA_EXT_EEPROM, address = BACKUP_PARA_ADDR,
     dev_read = world_eeprom_read, dev_write = world_eeprom_write\<rparr>"

definition factory_loc :: storage_device where
  "factory_loc = \<lparr>dev_type = STORAGE_TYPE_FACTORY, media = STORAGE_MEDIA_INT_FLASH, address = FACTORY_PARA_ADDR,
     dev_read = world_flash_read, dev_write = world_flash_write\<rparr>"

definition ENTER_CRITICAL :: "world \<Rightarrow> world" where "ENTER_CRITICAL w = w\<lparr>crit_nesting := crit_nesting w + 1\<rparr>"
definition EXIT_CRITICAL :: "world \<Rightarrow> world" where "EXIT_CRITICAL w = w\<lparr>crit_nesting := crit_nesting w - 1\<rparr>"

subsection \<open>Saving\<close>

text \<open>The mask with the bits of all groups.\<close>

definition group_mask :: u32 where
  "group_mask = fold (\<lambda>i m. m OR push_bit i 1) [0..<PARA_TYPE_CNT] 0"

fun save_groups :: "(world \<Rightarrow> nat \<Rightarrow> buf \<Rightarrow> nat \<Rightarrow> (int \<times> world) option) \<Rightarrow> nat \<Rightarrow> u32 \<Rightarrow> nat \<Rightarrow> nat
    \<Rightarrow> world \<Rightarrow> (int \<times> world) option" where
  "save_groups wr addr para_state i 0 w = Some (0, w)"
| "save_groups wr addr para_state i (Suc n) w =
     (if bit para_state i then do {
        let src = sys_para w;
        (r, w) \<leftarrow> wr w (addr + para_offset i) (drop (para_offset i) src) (para_size i);
        if r \<noteq> 0 then Some (r, w) else do {
          (r, w) \<leftarrow> wr w (addr + crc_offset + 2 * i) (drop (crc_offset + 2 * i) src) 2;
          if r \<noteq> 0 then Some (r, w) else save_groups wr addr para_state (Suc i) n w } }
      else save_groups wr addr para_state (Suc i) n w)"

text \<open>All callers pass \<open>&sys_para\<close> as the source, so the CRCs of the source are recalculated too.\<close>

definition para_save_to_storage :: "world \<Rightarrow> storage_type \<Rightarrow> u32 \<Rightarrow> (int \<times> world) option" where
  "para_save_to_storage w type para_state =
     (case (case type of
              STORAGE_TYPE_USER \<Rightarrow> Some user_loc
            | STORAGE_TYPE_BACKUP \<Rightarrow> Some backup_loc
            | STORAGE_TYPE_FACTORY \<Rightarrow> Some factory_loc
            | STORAGE_TYPE_DEFAULT \<Rightarrow> None) of
        None \<Rightarrow> Some (- 1, w)
      | Some loc \<Rightarrow> do {
          p \<leftarrow> para_recalculate_all_crc (sys_para w);
          let w = w\<lparr>sys_para := p\<rparr>;
          if para_state AND group_mask = group_mask
          then dev_write loc w (address loc) (sys_para w) sys_para_size
          else if media loc = STORAGE_MEDIA_INT_FLASH
          then dev_write loc w (address loc) (sys_para w) sys_para_size
          else if media loc = STORAGE_MEDIA_EXT_EEPROM
          then save_groups (dev_write loc) (address loc) para_state 0 PARA_TYPE_CNT w
          else Some (0, w) })"

definition pmm_save_group :: "world \<Rightarrow> nat \<Rightarrow> world option" where
  "pmm_save_group w type = do {
     let w = ENTER_CRITICAL w;
     crc_calc \<leftarrow> group_crc (sys_para w) type;
     let w = w\<lparr>sys_para := set_crc (sys_para w) type crc_calc\<rparr>;
     let w = w\<lparr>sys_para := set_magic (sys_para w)\<rparr>;
     (_, w) \<leftarrow> para_save_to_storage w STORAGE_TYPE_USER (push_bit type 1);
     (_, w) \<leftarrow> para_save_to_storage w STORAGE_TYPE_BACKUP (push_bit type 1);
     Some (EXIT_CRITICAL w) }"

definition pmm_restore_to_default :: "buf \<Rightarrow> world \<Rightarrow> world option" where
  "pmm_restore_to_default def_para w = do {
     let w = ENTER_CRITICAL w;
     p \<leftarrow> para_recalculate_all_crc def_para;
     let w = w\<lparr>sys_para := p\<rparr>;
     (_, w) \<leftarrow> para_save_to_storage w STORAGE_TYPE_USER 0x7fffffff;
     (_, w) \<leftarrow> para_save_to_storage w STORAGE_TYPE_BACKUP 0x7fffffff;
     Some (EXIT_CRITICAL w) }"

definition pmm_save_to_factory :: "world \<Rightarrow> world option" where
  "pmm_save_to_factory w = do {
     let w = ENTER_CRITICAL w;
     (_, w) \<leftarrow> para_save_to_storage w STORAGE_TYPE_FACTORY 0x7fffffff;
     Some (EXIT_CRITICAL w) }"

definition pmm_save_to_backup :: "world \<Rightarrow> world option" where
  "pmm_save_to_backup w = do {
     let w = ENTER_CRITICAL w;
     (_, w) \<leftarrow> para_save_to_storage w STORAGE_TYPE_BACKUP 0x7fffffff;
     Some (EXIT_CRITICAL w) }"

definition repair_invalid_storage :: "world \<Rightarrow> u32 \<Rightarrow> world option" where
  "repair_invalid_storage w corrent_state = do {
     let st = para_err_status w;
     w \<leftarrow> (if st STORAGE_TYPE_USER \<noteq> corrent_state \<and> st STORAGE_TYPE_USER \<noteq> 0
       then map_option snd (para_save_to_storage w STORAGE_TYPE_USER (NOT (st STORAGE_TYPE_USER))) else Some w);
     (if st STORAGE_TYPE_BACKUP \<noteq> corrent_state \<and> st STORAGE_TYPE_BACKUP \<noteq> 0
       then map_option snd (para_save_to_storage w STORAGE_TYPE_BACKUP (NOT (st STORAGE_TYPE_BACKUP))) else Some w) }"

subsection \<open>Loading\<close>

fun restore_loop :: "buf \<Rightarrow> u32 \<Rightarrow> nat \<Rightarrow> nat \<Rightarrow> buf \<Rightarrow> u32 \<Rightarrow> buf \<times> u32" where
  "restore_loop temp status i 0 para needed = (para, needed)"
| "restore_loop temp status i (Suc n) para needed =
     (if bit needed i \<and> bit status i
      then restore_loop temp status (Suc i) n
        (set_crc (set_group para i (get_group temp i)) i (get_crc temp i)) (needed AND NOT (push_bit i 1))
      else restore_loop temp status (Suc i) n para needed)"

text \<open>Returns the result, the mask of the groups still needed, the validity of the area and the state.\<close>

definition try_restore_from_storage :: "world \<Rightarrow> storage_device \<Rightarrow> u32 \<Rightarrow> (int \<times> u32 \<times> u32 \<times> world) option" where
  "try_restore_from_storage w loc needed = do {
     let w = w\<lparr>temp_para := replicate sys_para_size 0\<rparr>;
     let (r, b, w) = dev_read loc w (address loc) sys_para_size;
     let w = w\<lparr>temp_para := overwrite (temp_para w) 0 b\<rparr>;
     if r \<noteq> 0 then Some (- 1, needed, 0, w) else do {
       status \<leftarrow> pmm_validate_para (Some (temp_para w));
       if \<not> bit status 31 then Some (- 1, needed, status, w) else do {
         let (para, needed) = restore_loop (temp_para w) status 0 PARA_TYPE_CNT (sys_para w) needed;
         let para = (if get_magic para \<noteq> PARAM_MAGIC then set_magic para else para);
         Some (0, needed, status, w\<lparr>sys_para := para\<rparr>) } } }"

definition crc_words :: "buf \<Rightarrow> u16 list" where
  "crc_words p = map (get_crc p) [0..<PARA_TYPE_CNT]"

definition set_status :: "world \<Rightarrow> storage_type \<Rightarrow> u32 \<Rightarrow> world" where
  "set_status w t st = w\<lparr>para_err_status := (para_err_status w)(t := st OR push_bit 31 1)\<rparr>"

definition para_init :: "buf \<Rightarrow> world \<Rightarrow> (int \<times> world) option" where
  "para_init def_para w = do {
     let w = w\<lparr>sys_para := def_para\<rparr>;
     let needed = group_mask;
     let corrent_mask = needed OR push_bit 31 1;
     (_, needed, st, w) \<leftarrow> try_restore_from_storage w user_loc needed;
     let w = set_status w STORAGE_TYPE_USER st;
     let w = w\<lparr>crc_user := crc_words (temp_para w)\<rparr>;
     (_, needed, st, w) \<leftarrow> try_restore_from_storage w backup_loc needed;
     let w = set_status w STORAGE_TYPE_BACKUP st;
     let w = w\<lparr>crc_backup := crc_words (temp_para w)\<rparr>;
     (_, needed, st, w) \<leftarrow> try_restore_from_storage w factory_loc needed;
     let w = set_status w STORAGE_TYPE_FACTORY st;
     w \<leftarrow> (if para_err_status w STORAGE_TYPE_USER = corrent_mask
       then (if \<exists>i<PARA_TYPE_CNT. crc_user w ! i \<noteq> crc_backup w ! i then pmm_save_to_backup w else Some w)
       else repair_invalid_storage w corrent_mask);
     w \<leftarrow> (if dev_addr (sys_para w) > DEV_MAX_ADDR \<or> dev_addr (sys_para w) < DEV_MIN_ADDR
       then pmm_save_group (w\<lparr>sys_para := set_dev_addr (sys_para w) (dev_addr def_para)\<rparr>) PARA_DEV
       else Some w);
     Some (0, w) }"

definition pmm_restore_to_factory :: "world \<Rightarrow> world option" where
  "pmm_restore_to_factory w = do {
     let w = ENTER_CRITICAL w;
     let needed = group_mask;
     let corrent_mask = needed OR push_bit 31 1;
     (_, _, st, w) \<leftarrow> try_restore_from_storage w factory_loc needed;
     if st \<noteq> corrent_mask then Some w else do {
       (_, w) \<leftarrow> para_save_to_storage w STORAGE_TYPE_USER 0x7fffffff;
       (_, w) \<leftarrow> para_save_to_storage w STORAGE_TYPE_BACKUP 0x7fffffff;
       Some (EXIT_CRITICAL w) } }"

text \<open>Which area \<open>dump_sys_para\<close> reports for a running group.\<close>

definition dump_source :: "world \<Rightarrow> nat \<Rightarrow> storage_type" where
  "dump_source w i =
     (if bit (para_err_status w STORAGE_TYPE_USER) i then STORAGE_TYPE_USER
      else if bit (para_err_status w STORAGE_TYPE_BACKUP) i then STORAGE_TYPE_BACKUP
      else if bit (para_err_status w STORAGE_TYPE_FACTORY) i then STORAGE_TYPE_FACTORY
      else STORAGE_TYPE_DEFAULT)"

text \<open>\<open>powerup_uart_para_get\<close> copies four fields of the port group: the bytes 0, 5-8, 41 and 9-40.\<close>

definition powerup_uart_para_get :: "flash \<Rightarrow> buf \<Rightarrow> (int \<times> buf) option" where
  "powerup_uart_para_get f para = do {
     let bsp_para = mem_bytes f USER_PARA_ADDR sys_para_size;
     c \<leftarrow> group_crc bsp_para PARA_PORT;
     if get_crc bsp_para PARA_PORT \<noteq> c then Some (- 1, para)
     else do {
       let g = get_group bsp_para PARA_PORT;
       Some (0, overwrite (overwrite (overwrite (overwrite para 0 (seg 0 1 g)) 5 (seg 5 4 g)) 41 (seg 41 1 g)) 9 (seg 9 32 g)) } }"

subsection \<open>The fields of the structure\<close>

named_theorems para_fields \<open>what a field holds after another or the same field is set\<close>

abbreviation image :: "buf \<Rightarrow> bool" where "image p \<equiv> length p = sys_para_size"

lemmas para_table_defs = PARA_TYPE_CNT_def para_offset_def para_size_def PARA_INFO_TBL_def crc_offset_def
  sys_para_size_def

lemma para_layout:
  assumes "i < PARA_TYPE_CNT"
  shows "4 \<le> para_offset i" "0 < para_size i" "para_offset i + para_size i \<le> crc_offset"
    "crc_offset + 2 * i + 2 \<le> sys_para_size"
proof -
  have "list_all (\<lambda>i. 4 \<le> para_offset i \<and> 0 < para_size i \<and> para_offset i + para_size i \<le> crc_offset
      \<and> crc_offset + 2 * i + 2 \<le> sys_para_size) [0..<PARA_TYPE_CNT]"
    by (simp add: para_table_defs upt_conv_Cons)
  then show "4 \<le> para_offset i" "0 < para_size i" "para_offset i + para_size i \<le> crc_offset"
    "crc_offset + 2 * i + 2 \<le> sys_para_size"
    using assms by (simp_all add: list_all_iff)
qed

lemma para_disjoint:
  assumes "i < PARA_TYPE_CNT" and "j < PARA_TYPE_CNT" and "i \<noteq> j"
  shows "para_offset i + para_size i \<le> para_offset j \<or> para_offset j + para_size j \<le> para_offset i"
proof -
  have "list_all (\<lambda>i. para_offset i + para_size i = para_offset (Suc i)) [0..<PARA_TYPE_CNT - 1]"
    by (simp add: para_table_defs upt_conv_Cons)
  then have step: "para_offset i + para_size i = para_offset (Suc i)" if "Suc i < PARA_TYPE_CNT" for i
    using that by (simp add: list_all_iff)
  have "para_offset i + para_size i \<le> para_offset j" if "i < j" "j < PARA_TYPE_CNT" for i j
    using that
  proof (induction j)
    case (Suc j)
    then show ?case using step [of j] by (cases "i = j") auto
  qed simp
  then show ?thesis using assms by (meson nat_neq_iff)
qed

lemma crc_offset_le: "crc_offset \<le> sys_para_size" "4 \<le> crc_offset"
  by (simp_all add: crc_offset_def sys_para_size_def)

lemma length_group [simp]: "image p \<Longrightarrow> i < PARA_TYPE_CNT \<Longrightarrow> length (get_group p i) = para_size i"
  using para_layout [of i] crc_offset_le by (simp add: get_group_def)

lemma image_set [simp]:
  "image p \<Longrightarrow> image (set_magic p)"
  "image p \<Longrightarrow> i < PARA_TYPE_CNT \<Longrightarrow> image (set_crc p i c)"
  "image p \<Longrightarrow> i < PARA_TYPE_CNT \<Longrightarrow> length g = para_size i \<Longrightarrow> image (set_group p i g)"
  using para_layout [of i] crc_offset_le
  by (simp_all add: set_magic_def set_crc_def set_group_def)

lemma get_magic_set [para_fields]:
  "image p \<Longrightarrow> get_magic (set_magic p) = PARAM_MAGIC"
  "image p \<Longrightarrow> i < PARA_TYPE_CNT \<Longrightarrow> get_magic (set_crc p i c) = get_magic p"
  "image p \<Longrightarrow> i < PARA_TYPE_CNT \<Longrightarrow> length g = para_size i \<Longrightarrow> get_magic (set_group p i g) = get_magic p"
  using para_layout [of i] crc_offset_le
  by (simp_all add: get_magic_def set_magic_def set_crc_def set_group_def seg_overwrite_before)

lemma get_crc_set [para_fields]:
  "image p \<Longrightarrow> i < PARA_TYPE_CNT \<Longrightarrow> get_crc (set_magic p) i = get_crc p i"
  "image p \<Longrightarrow> i < PARA_TYPE_CNT \<Longrightarrow> j < PARA_TYPE_CNT \<Longrightarrow> get_crc (set_crc p i c) j = (if i = j then c else get_crc p j)"
  "image p \<Longrightarrow> i < PARA_TYPE_CNT \<Longrightarrow> j < PARA_TYPE_CNT \<Longrightarrow> length g = para_size i \<Longrightarrow>
    get_crc (set_group p i g) j = get_crc p j"
proof -
  assume p: "image p" and i: "i < PARA_TYPE_CNT"
  note l = para_layout [OF i] crc_offset_le p
  show "get_crc (set_magic p) i = get_crc p i"
    unfolding get_crc_def set_magic_def using l by (simp add: seg_overwrite_after)
  assume j: "j < PARA_TYPE_CNT"
  note m = para_layout [OF j]
  show "get_crc (set_crc p i c) j = (if i = j then c else get_crc p j)"
  proof (cases "i = j")
    case True
    then show ?thesis unfolding get_crc_def set_crc_def using l by simp
  next
    case False
    then have "seg (crc_offset + 2 * j) 2 (overwrite p (crc_offset + 2 * i) (le16 c)) = seg (crc_offset + 2 * j) 2 p"
      using l m by (intro seg_overwrite_disjoint) auto
    then show ?thesis using False by (simp add: get_crc_def set_crc_def)
  qed
  assume "length g = para_size i"
  then show "get_crc (set_group p i g) j = get_crc p j"
    unfolding get_crc_def set_group_def using l m by (simp add: seg_overwrite_after)
qed

lemma get_group_set [para_fields]:
  "image p \<Longrightarrow> i < PARA_TYPE_CNT \<Longrightarrow> get_group (set_magic p) i = get_group p i"
  "image p \<Longrightarrow> i < PARA_TYPE_CNT \<Longrightarrow> j < PARA_TYPE_CNT \<Longrightarrow> get_group (set_crc p i c) j = get_group p j"
  "image p \<Longrightarrow> i < PARA_TYPE_CNT \<Longrightarrow> j < PARA_TYPE_CNT \<Longrightarrow> length g = para_size i \<Longrightarrow>
    get_group (set_group p i g) j = (if i = j then g else get_group p j)"
  using para_layout [of i] para_layout [of j] para_disjoint [of i j] crc_offset_le
  by (auto simp: get_group_def set_magic_def set_crc_def set_group_def seg_overwrite_after seg_overwrite_before
    intro!: seg_overwrite_disjoint)

text \<open>Two images with the same fields are the same: the fields cover the structure.\<close>

lemma group_crc_eq:
  assumes "image p" and "i < PARA_TYPE_CNT"
  shows "group_crc p i = Some (NOT (crc_rtu (get_group p i)))"
proof -
  have "para_size i \<le> length (drop (para_offset i) p)"
    using para_layout [OF assms(2)] crc_offset_le assms(1) by simp
  then show ?thesis by (simp add: group_crc_def crc16_RTU_take get_group_def seg_def)
qed

subsection \<open>Validation\<close>

definition group_ok :: "buf \<Rightarrow> nat \<Rightarrow> bool" where
  "group_ok p i \<longleftrightarrow> get_crc p i = NOT (crc_rtu (get_group p i))"

definition valid_groups :: "buf \<Rightarrow> nat \<Rightarrow> bool" where
  "valid_groups p i \<longleftrightarrow> get_magic p = PARAM_MAGIC \<and> group_ok p i"

lemma bit_push_one: "bit (push_bit i 1 :: u32) j \<longleftrightarrow> i = j \<and> j < 32"
  by (auto simp: bit_exp_iff possible_bit_def)

lemma bit_exp_u32 [simp]: "bit (2 ^ i :: u32) j \<longleftrightarrow> i = j \<and> j < 32"
  by (auto simp: bit_exp_iff possible_bit_def)

lemma validate_loop_bits:
  assumes "image p" and "i + n = PARA_TYPE_CNT"
  shows "\<exists>st. validate_loop p i n s = Some st \<and>
    (\<forall>j. bit st j \<longleftrightarrow> bit s j \<or> (i \<le> j \<and> j < PARA_TYPE_CNT \<and> group_ok p j))"
  using assms(2)
proof (induction n arbitrary: i s)
  case (Suc n)
  then have i: "i < PARA_TYPE_CNT" by simp
  then have i32: "i < 32" by (simp add: PARA_TYPE_CNT_def)
  let ?s = "if NOT (crc_rtu (get_group p i)) = get_crc p i then s OR push_bit i 1 else s"
  obtain st where st: "validate_loop p (Suc i) n ?s = Some st"
    and b: "\<And>j. bit st j \<longleftrightarrow> bit ?s j \<or> (Suc i \<le> j \<and> j < PARA_TYPE_CNT \<and> group_ok p j)"
    using Suc.IH [of "Suc i" ?s] Suc.prems by auto
  have "bit st j \<longleftrightarrow> bit s j \<or> (i \<le> j \<and> j < PARA_TYPE_CNT \<and> group_ok p j)" for j
    unfolding b using i i32 by (cases "j = i") (auto simp: bit_or_iff group_ok_def Suc_le_eq)
  then show ?case using st by (auto simp: group_crc_eq [OF assms(1) i])
qed auto

definition status_of :: "buf \<Rightarrow> u32" where
  "status_of p = the (pmm_validate_para (Some p))"

lemma validate_eq:
  assumes "image p"
  shows "pmm_validate_para (Some p) = Some (status_of p)"
    and "bit (status_of p) j \<longleftrightarrow> get_magic p = PARAM_MAGIC \<and> (j = 31 \<or> j < PARA_TYPE_CNT \<and> group_ok p j)"
proof -
  obtain st where st: "validate_loop p 0 PARA_TYPE_CNT (push_bit 31 1) = Some st"
    and b: "\<And>j. bit st j \<longleftrightarrow> (j = 31 \<or> j < PARA_TYPE_CNT \<and> group_ok p j)"
  proof -
    have "\<exists>st. validate_loop p 0 PARA_TYPE_CNT (push_bit 31 1) = Some st \<and>
        (\<forall>j. bit st j \<longleftrightarrow> bit (push_bit 31 1 :: u32) j \<or> (0 \<le> j \<and> j < PARA_TYPE_CNT \<and> group_ok p j))"
      by (rule validate_loop_bits [OF assms]) simp
    moreover have "31 = j \<and> j < 32 \<longleftrightarrow> j = 31" for j :: nat by auto
    ultimately show ?thesis using that unfolding bit_push_one by auto
  qed
  have *: "pmm_validate_para (Some p) = Some (if get_magic p = PARAM_MAGIC then st else 0)"
    by (simp only: pmm_validate_para_def option.case st) simp
  then show "pmm_validate_para (Some p) = Some (status_of p)" by (simp add: status_of_def)
  show "bit (status_of p) j \<longleftrightarrow> get_magic p = PARAM_MAGIC \<and> (j = 31 \<or> j < PARA_TYPE_CNT \<and> group_ok p j)"
    using * b by (simp add: status_of_def)
qed

lemma bit_group_mask: "bit group_mask j \<longleftrightarrow> j < PARA_TYPE_CNT"
proof -
  have "bit (fold (\<lambda>i m. m OR push_bit i 1) [0..<n] 0 :: u32) j \<longleftrightarrow> j < n" if "n \<le> 32" for n
    using that by (induction n) (auto simp: bit_or_iff)
  then show ?thesis by (simp add: group_mask_def PARA_TYPE_CNT_def)
qed

definition full_mask :: u32 where "full_mask = group_mask OR push_bit 31 1"

lemma status_full_iff:
  assumes "image p"
  shows "status_of p = full_mask \<longleftrightarrow> (\<forall>i<PARA_TYPE_CNT. valid_groups p i)"
proof
  assume *: "status_of p = full_mask"
  show "\<forall>i<PARA_TYPE_CNT. valid_groups p i"
  proof (intro allI impI)
    fix i assume "i < PARA_TYPE_CNT"
    then have "bit (status_of p) i" unfolding * by (simp only: full_mask_def bit_or_iff bit_group_mask simp_thms)
    then show "valid_groups p i" using \<open>i < PARA_TYPE_CNT\<close>
      by (auto simp: validate_eq [OF assms] valid_groups_def PARA_TYPE_CNT_def)
  qed
next
  assume *: "\<forall>i<PARA_TYPE_CNT. valid_groups p i"
  then have "valid_groups p 0" by (simp add: PARA_TYPE_CNT_def)
  then have "get_magic p = PARAM_MAGIC" by (simp add: valid_groups_def)
  then show "status_of p = full_mask"
    using * by (intro bit_word_eqI)
      (auto simp only: validate_eq [OF assms] full_mask_def bit_or_iff bit_group_mask bit_push_one valid_groups_def)
qed

lemma recalculate_loop_eq:
  assumes "image p" and "i + n = PARA_TYPE_CNT"
  shows "\<exists>q. recalculate_loop p i n = Some q \<and> image q \<and> get_magic q = get_magic p
    \<and> (\<forall>j<PARA_TYPE_CNT. get_group q j = get_group p j
      \<and> get_crc q j = (if i \<le> j then NOT (crc_rtu (get_group p j)) else get_crc p j))"
  using assms
proof (induction n arbitrary: p i)
  case (Suc n)
  then have i: "i < PARA_TYPE_CNT" by simp
  let ?p = "set_crc p i (NOT (crc_rtu (get_group p i)))"
  obtain q where q: "recalculate_loop ?p (Suc i) n = Some q" "image q" "get_magic q = get_magic ?p"
    "\<And>j. j < PARA_TYPE_CNT \<Longrightarrow> get_group q j = get_group ?p j
      \<and> get_crc q j = (if Suc i \<le> j then NOT (crc_rtu (get_group ?p j)) else get_crc ?p j)"
    using Suc.IH [of ?p "Suc i"] Suc.prems i by auto
  have "get_crc q j = (if i \<le> j then NOT (crc_rtu (get_group p j)) else get_crc p j)" if "j < PARA_TYPE_CNT" for j
    using q(4) [OF that] Suc.prems i that by (auto simp: para_fields Suc_le_eq)
  then show ?case
    using q Suc.prems i by (auto simp: group_crc_eq para_fields)
qed auto

definition resealed :: "buf \<Rightarrow> buf" where
  "resealed p = the (para_recalculate_all_crc p)"

lemma recalculate_eq:
  assumes "image p"
  shows "para_recalculate_all_crc p = Some (resealed p)" and "image (resealed p)"
    and "get_magic (resealed p) = PARAM_MAGIC"
    and "j < PARA_TYPE_CNT \<Longrightarrow> get_group (resealed p) j = get_group p j"
    and "j < PARA_TYPE_CNT \<Longrightarrow> get_crc (resealed p) j = NOT (crc_rtu (get_group p j))"
  using recalculate_loop_eq [of "set_magic p" 0 PARA_TYPE_CNT] assms
  by (auto simp: para_recalculate_all_crc_def resealed_def para_fields)

lemma resealed_valid: "image p \<Longrightarrow> i < PARA_TYPE_CNT \<Longrightarrow> valid_groups (resealed p) i"
  by (simp add: valid_groups_def group_ok_def recalculate_eq)

subsection \<open>Storage areas as an interface\<close>

text \<open>\<open>responsive\<close>: the flash accepts every program operation, the EEPROM acknowledges and its mutex is free.\<close>

definition responsive :: "world \<Rightarrow> bool" where
  "responsive w \<longleftrightarrow> (\<forall>x. w_flash_ok w x) \<and> ee_nack (w_ee w) = [] \<and> w_timeouts w = []"

definition user_img :: "world \<Rightarrow> buf" where
  "user_img w = mem_bytes (w_flash w) USER_PARA_ADDR sys_para_size"
definition factory_img :: "world \<Rightarrow> buf" where
  "factory_img w = mem_bytes (w_flash w) FACTORY_PARA_ADDR sys_para_size"
definition backup_img :: "world \<Rightarrow> buf" where
  "backup_img w = mem_bytes (ee_mem (w_ee w)) BACKUP_PARA_ADDR sys_para_size"

text \<open>The variables of the module, which no access to a chip changes.\<close>

definition ram :: "world \<Rightarrow> buf \<times> buf \<times> u16 list \<times> u16 list \<times> (storage_type \<Rightarrow> u32) \<times> int" where
  "ram w = (sys_para w, temp_para w, crc_user w, crc_backup w, para_err_status w, crit_nesting w)"

text \<open>
  What the manager relies on: a responsive area returns its image when it is read, and holds
  what was written to it, while the rest of the world stays as it is. \<open>img\<close> is the image of the
  area and \<open>rest\<close> what the write must not touch.
\<close>

locale para_area =
  fixes loc :: storage_device
    and img :: "world \<Rightarrow> buf"
    and rest :: "world \<Rightarrow> 'r"
  assumes img_image: "image (img w)"
    and img_ram: "img (w\<lparr>sys_para := sp\<rparr>) = img w" "img (w\<lparr>temp_para := tp\<rparr>) = img w"
    and area_read: "responsive w \<Longrightarrow> dev_read loc w (address loc) sys_para_size = (0, img w, w)"
    and area_write: "responsive w \<Longrightarrow> image b \<Longrightarrow> \<exists>w'. dev_write loc w (address loc) b sys_para_size = Some (0, w')
      \<and> responsive w' \<and> img w' = b \<and> rest w' = rest w \<and> ram w' = ram w"
begin

text \<open>Loading from a responsive area validates and merges exactly its image.\<close>

lemma restore_eq:
  assumes "responsive w"
  shows "try_restore_from_storage w loc needed = (let w1 = w\<lparr>temp_para := img w\<rparr>; st = status_of (img w) in
    if \<not> bit st 31 then Some (- 1, needed, st, w1)
    else let (p, n) = restore_loop (img w) st 0 PARA_TYPE_CNT (sys_para w) needed in
      Some (0, n, st, w1\<lparr>sys_para := (if get_magic p \<noteq> PARAM_MAGIC then set_magic p else p)\<rparr>))"
proof -
  let ?w = "w\<lparr>temp_para := replicate sys_para_size 0\<rparr>"
  have "responsive ?w" using assms by (simp add: responsive_def)
  then have rd: "dev_read loc ?w (address loc) sys_para_size = (0, img w, ?w)"
    by (simp add: area_read img_ram)
  have "overwrite (replicate sys_para_size 0) 0 (img w) = img w"
    using img_image [of w] by (simp add: overwrite_def)
  then show ?thesis
    using rd validate_eq(1) [OF img_image, of w]
    by (simp add: try_restore_from_storage_def Let_def case_prod_unfold)
qed

end

lemma mem_bytes_store_inside:
  assumes "base \<le> a" and "a + length b \<le> base + n"
  shows "mem_bytes (store m a b) base n = overwrite (mem_bytes m base n) (a - base) b"
  using assms
  by (intro nth_equalityI) (auto simp: store_def overwrite_def nth_append min_def add.commute)

lemma flash_area:
  assumes "responsive w" and "image b" and "a = FLASH_BASE + 4096 * k" and "k < 767"
  shows "\<exists>f'. world_flash_write w a b sys_para_size = Some (0, w\<lparr>w_flash := f'\<rparr>) \<and> mem_bytes f' a sys_para_size = b
    \<and> (\<forall>x. x < a \<or> a + 4096 \<le> x \<longrightarrow> f' x = w_flash w x)"
proof -
  have pc: "page_count (length b) = 1"
    using assms(2) by (simp add: page_count_def FMC_PAGE_SIZE_def sys_para_size_def)
  then have "flash_range a (length b)"
    using assms(3,4) by (simp add: flash_range_def FMC_PAGE_SIZE_def FMC_PAGE_MAX_def FLASH_BASE_def)
  from flash_write_eq [OF this, of "w_flash_ok w" "w_flash w"] obtain f' where
    "flash_write (w_flash_ok w) (w_flash w) a b (length b) = Some (0, f')" "mem_bytes f' a (length b) = b"
    "\<forall>x. x < a \<or> a + FMC_PAGE_SIZE \<le> x \<longrightarrow> f' x = w_flash w x"
    using assms(1) pc by (auto simp: responsive_def)
  then show ?thesis
    using assms(2) by (auto simp: world_flash_write_def FMC_PAGE_SIZE_def)
qed

interpretation user_area: para_area user_loc user_img "\<lambda>w. (factory_img w, w_ee w)"
proof
  fix w :: world and b :: buf assume r: "responsive w" and b: "image b"
  have "USER_PARA_ADDR = FLASH_BASE + 4096 * 8" by (simp add: USER_PARA_ADDR_def)
  from flash_area [OF r b this] obtain f' where
    "world_flash_write w USER_PARA_ADDR b sys_para_size = Some (0, w\<lparr>w_flash := f'\<rparr>)"
    "mem_bytes f' USER_PARA_ADDR sys_para_size = b"
    "\<And>x. USER_PARA_ADDR + 4096 \<le> x \<Longrightarrow> f' x = w_flash w x" by auto
  then show "\<exists>w'. dev_write user_loc w (address user_loc) b sys_para_size = Some (0, w') \<and> responsive w'
      \<and> user_img w' = b \<and> (factory_img w', w_ee w') = (factory_img w, w_ee w) \<and> ram w' = ram w"
    using r by (auto simp: user_loc_def user_img_def factory_img_def responsive_def ram_def mem_bytes_def
      USER_PARA_ADDR_def FACTORY_PARA_ADDR_def)
qed (simp_all add: user_loc_def user_img_def world_flash_read_def flash_read_def)

interpretation factory_area: para_area factory_loc factory_img "\<lambda>w. (user_img w, w_ee w)"
proof
  fix w :: world and b :: buf assume r: "responsive w" and b: "image b"
  have "FACTORY_PARA_ADDR = FLASH_BASE + 4096 * 12" by (simp add: FACTORY_PARA_ADDR_def)
  from flash_area [OF r b this] obtain f' where
    "world_flash_write w FACTORY_PARA_ADDR b sys_para_size = Some (0, w\<lparr>w_flash := f'\<rparr>)"
    "mem_bytes f' FACTORY_PARA_ADDR sys_para_size = b"
    "\<And>x. x < FACTORY_PARA_ADDR \<Longrightarrow> f' x = w_flash w x" by auto
  then show "\<exists>w'. dev_write factory_loc w (address factory_loc) b sys_para_size = Some (0, w') \<and> responsive w'
      \<and> factory_img w' = b \<and> (user_img w', w_ee w') = (user_img w, w_ee w) \<and> ram w' = ram w"
    using r by (auto simp: factory_loc_def user_img_def factory_img_def responsive_def ram_def mem_bytes_def
      USER_PARA_ADDR_def FACTORY_PARA_ADDR_def sys_para_size_def)
qed (simp_all add: factory_loc_def factory_img_def world_flash_read_def flash_read_def)

lemma eeprom_area_write:
  assumes "responsive w" and "a + n \<le> sys_para_size" and "n \<le> length b" and "0 < n"
  shows "\<exists>w'. world_eeprom_write w a b n = Some (0, w') \<and> responsive w'
    \<and> backup_img w' = overwrite (backup_img w) a (take n b) \<and> w_flash w' = w_flash w \<and> ram w' = ram w"
proof -
  let ?e = "w_ee w"
  let ?e' = "?e\<lparr>ee_mem := store (ee_mem ?e) a (take n b)\<rparr>"
  have a: "a mod 65536 = a" "a mod 65536 + n \<le> 65536" using assms(2,4) by (simp_all add: sys_para_size_def)
  have "at24c_write ?e a b n = (n, ?e')"
    using at24c_write_eq [of ?e n b a] a assms by (simp add: responsive_def)
  then have "world_eeprom_write w a b n = Some (0, w\<lparr>w_ee := ?e'\<rparr>)"
    using assms by (simp add: world_eeprom_write_def eeprom_lock_def responsive_def eeprom_write_lock_def
      eeprom_write_def Let_def)
  moreover have "mem_bytes (store (ee_mem ?e) a (take n b)) 0 sys_para_size = overwrite (mem_bytes (ee_mem ?e) 0 sys_para_size) a (take n b)"
    using mem_bytes_store_inside [of 0 a "take n b" sys_para_size "ee_mem ?e"] assms by simp
  ultimately show ?thesis
    using assms(1) by (auto simp: responsive_def backup_img_def BACKUP_PARA_ADDR_def ram_def)
qed

interpretation backup_area: para_area backup_loc backup_img w_flash
proof
  fix w :: world and b :: buf assume r: "responsive w" and b: "image b"
  have "0 < sys_para_size" by (simp add: sys_para_size_def)
  then obtain w' where "world_eeprom_write w 0 b sys_para_size = Some (0, w')" "responsive w'"
    "backup_img w' = overwrite (backup_img w) 0 (take sys_para_size b)" "w_flash w' = w_flash w" "ram w' = ram w"
    using eeprom_area_write [OF r, of 0 sys_para_size b] b by auto
  moreover have "overwrite (backup_img w) 0 b = b"
    using b by (simp add: overwrite_def backup_img_def)
  ultimately show "\<exists>w'. dev_write backup_loc w (address backup_loc) b sys_para_size = Some (0, w') \<and> responsive w'
      \<and> backup_img w' = b \<and> w_flash w' = w_flash w \<and> ram w' = ram w"
    using b by (simp add: backup_loc_def BACKUP_PARA_ADDR_def)
next
  fix w :: world assume r: "responsive w"
  have "at24c_read (w_ee w) 0 sys_para_size = (sys_para_size, mem_bytes (ee_mem (w_ee w)) 0 sys_para_size, w_ee w)"
    using at24c_read_eq [of "w_ee w" 0 sys_para_size] r by (simp add: responsive_def sys_para_size_def)
  then show "dev_read backup_loc w (address backup_loc) sys_para_size = (0, backup_img w, w)"
    using r by (simp add: backup_loc_def BACKUP_PARA_ADDR_def world_eeprom_read_def eeprom_lock_def responsive_def
      eeprom_read_lock_def eeprom_read_def backup_img_def sys_para_size_def Let_def)
qed (simp_all add: backup_img_def)

subsection \<open>Merging an area into the running parameters\<close>

lemma restore_loop_spec:
  assumes "image p" and "image t" and "i + n = PARA_TYPE_CNT"
  shows "\<exists>p' m'. restore_loop t st i n p m = (p', m') \<and> image p' \<and> get_magic p' = get_magic p
    \<and> (\<forall>j<PARA_TYPE_CNT. get_group p' j = (if i \<le> j \<and> bit m j \<and> bit st j then get_group t j else get_group p j)
      \<and> get_crc p' j = (if i \<le> j \<and> bit m j \<and> bit st j then get_crc t j else get_crc p j)
      \<and> (bit m' j \<longleftrightarrow> bit m j \<and> \<not> (i \<le> j \<and> bit st j)))"
  using assms
proof (induction n arbitrary: p m i)
  case (Suc n)
  then have i: "i < PARA_TYPE_CNT" "Suc i + n = PARA_TYPE_CNT" by simp_all
  show ?case
  proof (cases "bit m i \<and> bit st i")
    case True
    let ?p = "set_crc (set_group p i (get_group t i)) i (get_crc t i)"
    let ?m = "m AND NOT (push_bit i 1)"
    have b: "bit ?m j \<longleftrightarrow> bit m j \<and> j \<noteq> i" if "j < PARA_TYPE_CNT" for j
      using that by (auto simp: bit_and_iff bit_not_iff possible_bit_def PARA_TYPE_CNT_def)
    have "image ?p" using Suc.prems i by simp
    from Suc.IH [OF this Suc.prems(2) i(2), of ?m] obtain p' m' where r: "restore_loop t st (Suc i) n ?p ?m = (p', m')"
      "image p'" "get_magic p' = get_magic ?p"
      "\<And>j. j < PARA_TYPE_CNT \<Longrightarrow> get_group p' j = (if Suc i \<le> j \<and> bit ?m j \<and> bit st j then get_group t j else get_group ?p j)
        \<and> get_crc p' j = (if Suc i \<le> j \<and> bit ?m j \<and> bit st j then get_crc t j else get_crc ?p j)
        \<and> (bit m' j \<longleftrightarrow> bit ?m j \<and> \<not> (Suc i \<le> j \<and> bit st j))" by blast
    have "get_group p' j = (if i \<le> j \<and> bit m j \<and> bit st j then get_group t j else get_group p j)
        \<and> get_crc p' j = (if i \<le> j \<and> bit m j \<and> bit st j then get_crc t j else get_crc p j)
        \<and> (bit m' j \<longleftrightarrow> bit m j \<and> \<not> (i \<le> j \<and> bit st j))" if j: "j < PARA_TYPE_CNT" for j
      using r(4) [OF j] Suc.prems i True j b [OF j] by (cases "j = i") (auto simp: para_fields Suc_le_eq)
    then show ?thesis using r(1-3) Suc.prems i True by (auto simp: para_fields)
  next
    case False
    from Suc.IH [OF Suc.prems(1,2) i(2), of m] obtain p' m' where r: "restore_loop t st (Suc i) n p m = (p', m')"
      "image p'" "get_magic p' = get_magic p"
      "\<And>j. j < PARA_TYPE_CNT \<Longrightarrow> get_group p' j = (if Suc i \<le> j \<and> bit m j \<and> bit st j then get_group t j else get_group p j)
        \<and> get_crc p' j = (if Suc i \<le> j \<and> bit m j \<and> bit st j then get_crc t j else get_crc p j)
        \<and> (bit m' j \<longleftrightarrow> bit m j \<and> \<not> (Suc i \<le> j \<and> bit st j))" by blast
    have "get_group p' j = (if i \<le> j \<and> bit m j \<and> bit st j then get_group t j else get_group p j)
        \<and> get_crc p' j = (if i \<le> j \<and> bit m j \<and> bit st j then get_crc t j else get_crc p j)
        \<and> (bit m' j \<longleftrightarrow> bit m j \<and> \<not> (i \<le> j \<and> bit st j))" if j: "j < PARA_TYPE_CNT" for j
      using r(4) [OF j] False by (cases "j = i") (auto simp: Suc_le_eq)
    then show ?thesis using r(1-3) False by auto
  qed
qed auto

definition merge :: "buf \<Rightarrow> buf \<times> u32 \<Rightarrow> buf \<times> u32" where
  "merge t pm = (let st = status_of t in
     if \<not> bit st 31 then pm
     else let (p, m) = restore_loop t st 0 PARA_TYPE_CNT (fst pm) (snd pm) in
       (if get_magic p \<noteq> PARAM_MAGIC then set_magic p else p, m))"

lemma merge_spec:
  assumes "image p" and "image t"
  shows "image (fst (merge t (p, m)))"
    and "j < PARA_TYPE_CNT \<Longrightarrow> get_group (fst (merge t (p, m))) j = (if bit m j \<and> valid_groups t j then get_group t j else get_group p j)"
    and "j < PARA_TYPE_CNT \<Longrightarrow> bit (snd (merge t (p, m))) j \<longleftrightarrow> bit m j \<and> \<not> valid_groups t j"
proof -
  let ?st = "status_of t"
  obtain p' m' where r: "restore_loop t ?st 0 PARA_TYPE_CNT p m = (p', m')" "image p'" "get_magic p' = get_magic p"
    "\<And>j. j < PARA_TYPE_CNT \<Longrightarrow> get_group p' j = (if bit m j \<and> bit ?st j then get_group t j else get_group p j)
      \<and> (bit m' j \<longleftrightarrow> bit m j \<and> \<not> bit ?st j)"
    using restore_loop_spec [OF assms, of 0 PARA_TYPE_CNT ?st m] by auto
  have st: "bit ?st j \<longleftrightarrow> valid_groups t j" if "j < PARA_TYPE_CNT" for j
    using that by (auto simp: validate_eq [OF assms(2)] valid_groups_def PARA_TYPE_CNT_def)
  have mg: "valid_groups t j \<Longrightarrow> bit ?st 31" for j
    by (auto simp: validate_eq [OF assms(2)] valid_groups_def)
  show "image (fst (merge t (p, m)))" using r assms by (auto simp: merge_def Let_def)
  show "j < PARA_TYPE_CNT \<Longrightarrow> get_group (fst (merge t (p, m))) j = (if bit m j \<and> valid_groups t j then get_group t j else get_group p j)"
    using r st mg [of j] by (auto simp: merge_def Let_def para_fields)
  show "j < PARA_TYPE_CNT \<Longrightarrow> bit (snd (merge t (p, m))) j \<longleftrightarrow> bit m j \<and> \<not> valid_groups t j"
    using r st mg [of j] by (auto simp: merge_def Let_def)
qed

text \<open>The image a group is taken from when it is loaded: the first area in which it is valid.\<close>

definition first_valid :: "buf \<Rightarrow> world \<Rightarrow> nat \<Rightarrow> buf" where
  "first_valid def_para w i =
     (if valid_groups (user_img w) i then user_img w
      else if valid_groups (backup_img w) i then backup_img w
      else if valid_groups (factory_img w) i then factory_img w
      else def_para)"

definition loaded :: "buf \<Rightarrow> world \<Rightarrow> buf" where
  "loaded def_para w = fst (merge (factory_img w) (merge (backup_img w) (merge (user_img w) (def_para, group_mask))))"

lemma loaded_spec:
  assumes "image def_para"
  shows "image (loaded def_para w)"
    and "i < PARA_TYPE_CNT \<Longrightarrow> get_group (loaded def_para w) i = get_group (first_valid def_para w i) i"
proof -
  obtain p1 m1 where 1: "merge (user_img w) (def_para, group_mask) = (p1, m1)" by fastforce
  obtain p2 m2 where 2: "merge (backup_img w) (p1, m1) = (p2, m2)" by fastforce
  note s1 = merge_spec [OF assms user_area.img_image [of w], where m = group_mask, unfolded 1 fst_conv snd_conv]
  note s2 = merge_spec [OF s1(1) backup_area.img_image [of w], where m = m1, unfolded 2 fst_conv snd_conv]
  note s3 = merge_spec [OF s2(1) factory_area.img_image [of w], where m = m2]
  have l: "loaded def_para w = fst (merge (factory_img w) (p2, m2))" by (simp add: loaded_def 1 2)
  show "image (loaded def_para w)" unfolding l by (rule s3(1))
  show "i < PARA_TYPE_CNT \<Longrightarrow> get_group (loaded def_para w) i = get_group (first_valid def_para w i) i"
    unfolding l using s1 s2 s3 by (simp add: first_valid_def bit_group_mask)
qed

subsection \<open>Saving\<close>

lemma full_mask_iff: "m AND group_mask = group_mask \<longleftrightarrow> (\<forall>i<PARA_TYPE_CNT. bit m i)"
proof
  assume "m AND group_mask = group_mask"
  then show "\<forall>i<PARA_TYPE_CNT. bit m i" by (metis bit_and_iff bit_group_mask)
next
  assume "\<forall>i<PARA_TYPE_CNT. bit m i"
  then show "m AND group_mask = group_mask" by (intro bit_word_eqI) (auto simp: bit_and_iff bit_group_mask)
qed

lemma ram_D: "ram w' = ram w \<Longrightarrow> sys_para w' = sys_para w \<and> temp_para w' = temp_para w \<and> crc_user w' = crc_user w
    \<and> crc_backup w' = crc_backup w \<and> para_err_status w' = para_err_status w \<and> crit_nesting w' = crit_nesting w"
  by (simp add: ram_def)

lemma responsive_ram [simp]:
  "responsive (w\<lparr>sys_para := p\<rparr>) = responsive w"
  "responsive (w\<lparr>temp_para := p\<rparr>) = responsive w"
  "responsive (w\<lparr>crc_user := c\<rparr>) = responsive w"
  "responsive (w\<lparr>crc_backup := c\<rparr>) = responsive w"
  "responsive (w\<lparr>para_err_status := s\<rparr>) = responsive w"
  "responsive (w\<lparr>crit_nesting := k\<rparr>) = responsive w"
  by (simp_all add: responsive_def)

lemma images_ram [simp]:
  "user_img (w\<lparr>sys_para := p\<rparr>) = user_img w" "backup_img (w\<lparr>sys_para := p\<rparr>) = backup_img w" "factory_img (w\<lparr>sys_para := p\<rparr>) = factory_img w"
  "user_img (w\<lparr>temp_para := p\<rparr>) = user_img w" "backup_img (w\<lparr>temp_para := p\<rparr>) = backup_img w" "factory_img (w\<lparr>temp_para := p\<rparr>) = factory_img w"
  "user_img (w\<lparr>crc_user := c\<rparr>) = user_img w" "backup_img (w\<lparr>crc_user := c\<rparr>) = backup_img w" "factory_img (w\<lparr>crc_user := c\<rparr>) = factory_img w"
  "user_img (w\<lparr>crc_backup := c\<rparr>) = user_img w" "backup_img (w\<lparr>crc_backup := c\<rparr>) = backup_img w" "factory_img (w\<lparr>crc_backup := c\<rparr>) = factory_img w"
  "user_img (w\<lparr>para_err_status := s\<rparr>) = user_img w" "backup_img (w\<lparr>para_err_status := s\<rparr>) = backup_img w" "factory_img (w\<lparr>para_err_status := s\<rparr>) = factory_img w"
  "user_img (w\<lparr>crit_nesting := k\<rparr>) = user_img w" "backup_img (w\<lparr>crit_nesting := k\<rparr>) = backup_img w" "factory_img (w\<lparr>crit_nesting := k\<rparr>) = factory_img w"
  by (simp_all add: user_img_def backup_img_def factory_img_def)

lemma backup_img_ee: "w_ee w' = w_ee w \<Longrightarrow> backup_img w' = backup_img w"
  by (simp add: backup_img_def)

lemma flash_imgs: "w_flash w' = w_flash w \<Longrightarrow> user_img w' = user_img w \<and> factory_img w' = factory_img w"
  by (simp add: user_img_def factory_img_def)

lemma save_user:
  assumes "responsive w" and "image (sys_para w)"
  shows "\<exists>w'. para_save_to_storage w STORAGE_TYPE_USER m = Some (0, w') \<and> responsive w'
    \<and> user_img w' = resealed (sys_para w) \<and> factory_img w' = factory_img w \<and> w_ee w' = w_ee w
    \<and> ram w' = ram (w\<lparr>sys_para := resealed (sys_para w)\<rparr>)"
proof -
  let ?w = "w\<lparr>sys_para := resealed (sys_para w)\<rparr>"
  have r: "responsive ?w" "image (sys_para ?w)" using assms recalculate_eq(2) by simp_all
  have "media user_loc = STORAGE_MEDIA_INT_FLASH" by (simp add: user_loc_def)
  then have "para_save_to_storage w STORAGE_TYPE_USER m = dev_write user_loc ?w (address user_loc) (sys_para ?w) sys_para_size"
    using recalculate_eq(1) [OF assms(2)] by (simp add: para_save_to_storage_def Let_def)
  then show ?thesis using user_area.area_write [OF r] by auto
qed

lemma save_factory:
  assumes "responsive w" and "image (sys_para w)"
  shows "\<exists>w'. para_save_to_storage w STORAGE_TYPE_FACTORY m = Some (0, w') \<and> responsive w'
    \<and> factory_img w' = resealed (sys_para w) \<and> user_img w' = user_img w \<and> w_ee w' = w_ee w
    \<and> ram w' = ram (w\<lparr>sys_para := resealed (sys_para w)\<rparr>)"
proof -
  let ?w = "w\<lparr>sys_para := resealed (sys_para w)\<rparr>"
  have r: "responsive ?w" "image (sys_para ?w)" using assms recalculate_eq(2) by simp_all
  have "media factory_loc = STORAGE_MEDIA_INT_FLASH" by (simp add: factory_loc_def)
  then have "para_save_to_storage w STORAGE_TYPE_FACTORY m = dev_write factory_loc ?w (address factory_loc) (sys_para ?w) sys_para_size"
    using recalculate_eq(1) [OF assms(2)] by (simp add: para_save_to_storage_def Let_def)
  then show ?thesis using factory_area.area_write [OF r] by auto
qed

lemma backup_write_group:
  assumes "responsive w" and "image p" and "i < PARA_TYPE_CNT"
  shows "\<exists>w'. world_eeprom_write w (para_offset i) (drop (para_offset i) p) (para_size i) = Some (0, w') \<and> responsive w'
    \<and> backup_img w' = set_group (backup_img w) i (get_group p i) \<and> w_flash w' = w_flash w \<and> ram w' = ram w"
  using eeprom_area_write [OF assms(1), of "para_offset i" "para_size i" "drop (para_offset i) p"]
    para_layout [OF assms(3)] crc_offset_le assms(2)
  by (simp add: set_group_def get_group_def seg_def)

lemma backup_write_crc:
  assumes "responsive w" and "image p" and "i < PARA_TYPE_CNT"
  shows "\<exists>w'. world_eeprom_write w (crc_offset + 2 * i) (drop (crc_offset + 2 * i) p) 2 = Some (0, w') \<and> responsive w'
    \<and> backup_img w' = set_crc (backup_img w) i (get_crc p i) \<and> w_flash w' = w_flash w \<and> ram w' = ram w"
proof -
  have "length (seg (crc_offset + 2 * i) 2 p) = 2"
    using para_layout [OF assms(3)] assms(2) by simp
  then have "le16 (get_crc p i) = take 2 (drop (crc_offset + 2 * i) p)"
    unfolding get_crc_def by (simp add: le16_get16) (simp add: seg_def)
  then show ?thesis
    using eeprom_area_write [OF assms(1), of "crc_offset + 2 * i" 2 "drop (crc_offset + 2 * i) p"]
      para_layout [OF assms(3)] assms(2)
    by (simp add: set_crc_def)
qed

lemma save_groups_spec:
  assumes "responsive w" and "image (sys_para w)" and "i + n = PARA_TYPE_CNT"
  shows "\<exists>w'. save_groups world_eeprom_write 0 m i n w = Some (0, w') \<and> responsive w'
    \<and> w_flash w' = w_flash w \<and> ram w' = ram w \<and> get_magic (backup_img w') = get_magic (backup_img w)
    \<and> (\<forall>j<PARA_TYPE_CNT.
      get_group (backup_img w') j = get_group (if i \<le> j \<and> bit m j then sys_para w else backup_img w) j
      \<and> get_crc (backup_img w') j = get_crc (if i \<le> j \<and> bit m j then sys_para w else backup_img w) j)"
  using assms
proof (induction n arbitrary: w i)
  case (Suc n)
  then have i: "i < PARA_TYPE_CNT" "Suc i + n = PARA_TYPE_CNT" by simp_all
  note bi = backup_area.img_image [of w]
  show ?case
  proof (cases "bit m i")
    case True
    obtain w1 where 1: "world_eeprom_write w (para_offset i) (drop (para_offset i) (sys_para w)) (para_size i) = Some (0, w1)"
      "responsive w1" "backup_img w1 = set_group (backup_img w) i (get_group (sys_para w) i)"
      "w_flash w1 = w_flash w" "ram w1 = ram w"
      using backup_write_group [OF Suc.prems(1,2) i(1)] by blast
    obtain w2 where 2: "world_eeprom_write w1 (crc_offset + 2 * i) (drop (crc_offset + 2 * i) (sys_para w)) 2 = Some (0, w2)"
      "responsive w2" "backup_img w2 = set_crc (backup_img w1) i (get_crc (sys_para w) i)"
      "w_flash w2 = w_flash w" "ram w2 = ram w"
      using backup_write_crc [OF 1(2) Suc.prems(2) i(1)] 1(4,5) by auto
    have sp: "sys_para w2 = sys_para w" using ram_D [OF 2(5)] by simp
    obtain w' where r: "save_groups world_eeprom_write 0 m (Suc i) n w2 = Some (0, w')" "responsive w'"
      "w_flash w' = w_flash w" "ram w' = ram w" "get_magic (backup_img w') = get_magic (backup_img w2)"
      "\<And>j. j < PARA_TYPE_CNT \<Longrightarrow>
        get_group (backup_img w') j = get_group (if Suc i \<le> j \<and> bit m j then sys_para w else backup_img w2) j
        \<and> get_crc (backup_img w') j = get_crc (if Suc i \<le> j \<and> bit m j then sys_para w else backup_img w2) j"
      using Suc.IH [of w2 "Suc i"] 2(2,4,5) sp Suc.prems i by auto
    have e: "save_groups world_eeprom_write 0 m i (Suc n) w = Some (0, w')"
      using True 1(1) 2(1) r(1) by (simp add: Let_def)
    have f: "get_magic (backup_img w2) = get_magic (backup_img w)"
      "\<And>j. j < PARA_TYPE_CNT \<Longrightarrow> get_group (backup_img w2) j = get_group (if j = i then sys_para w else backup_img w) j"
      "\<And>j. j < PARA_TYPE_CNT \<Longrightarrow> get_crc (backup_img w2) j = get_crc (if j = i then sys_para w else backup_img w) j"
      unfolding 2(3) 1(3) using bi Suc.prems(2) i by (simp_all add: para_fields)
    have "get_group (backup_img w') j = get_group (if i \<le> j \<and> bit m j then sys_para w else backup_img w) j
        \<and> get_crc (backup_img w') j = get_crc (if i \<le> j \<and> bit m j then sys_para w else backup_img w) j"
      if "j < PARA_TYPE_CNT" for j
      using r(6) [OF that] f(2,3) [OF that] True by (cases "j = i") (auto simp: Suc_le_eq)
    then show ?thesis using e r(2-5) f(1) by auto
  next
    case False
    obtain w' where r: "save_groups world_eeprom_write 0 m (Suc i) n w = Some (0, w')" "responsive w'"
      "w_flash w' = w_flash w" "ram w' = ram w" "get_magic (backup_img w') = get_magic (backup_img w)"
      "\<And>j. j < PARA_TYPE_CNT \<Longrightarrow>
        get_group (backup_img w') j = get_group (if Suc i \<le> j \<and> bit m j then sys_para w else backup_img w) j
        \<and> get_crc (backup_img w') j = get_crc (if Suc i \<le> j \<and> bit m j then sys_para w else backup_img w) j"
      using Suc.IH [of w "Suc i"] Suc.prems i by auto
    have "get_group (backup_img w') j = get_group (if i \<le> j \<and> bit m j then sys_para w else backup_img w) j
        \<and> get_crc (backup_img w') j = get_crc (if i \<le> j \<and> bit m j then sys_para w else backup_img w) j"
      if "j < PARA_TYPE_CNT" for j
      using r(6) [OF that] False by (cases "j = i") (auto simp: Suc_le_eq)
    then show ?thesis using r(1-5) False by auto
  qed
qed auto

text \<open>
  Saving to the backup area: the groups of the mask, or everything when the mask is full, are
  those of the running parameters with fresh CRCs.
\<close>

lemma save_backup:
  assumes "responsive w" and "image (sys_para w)"
  shows "\<exists>w'. para_save_to_storage w STORAGE_TYPE_BACKUP m = Some (0, w') \<and> responsive w'
    \<and> w_flash w' = w_flash w \<and> ram w' = ram (w\<lparr>sys_para := resealed (sys_para w)\<rparr>)
    \<and> ((\<forall>i<PARA_TYPE_CNT. bit m i) \<longrightarrow> backup_img w' = resealed (sys_para w))
    \<and> (get_magic (backup_img w) = PARAM_MAGIC \<longrightarrow> get_magic (backup_img w') = PARAM_MAGIC)
    \<and> (\<forall>j<PARA_TYPE_CNT. get_group (backup_img w') j = get_group (if bit m j then sys_para w else backup_img w) j
      \<and> get_crc (backup_img w') j = get_crc (if bit m j then resealed (sys_para w) else backup_img w) j)"
proof -
  let ?w = "w\<lparr>sys_para := resealed (sys_para w)\<rparr>"
  have r: "responsive ?w" "image (sys_para ?w)" using assms recalculate_eq(2) by simp_all
  have b: "media backup_loc = STORAGE_MEDIA_EXT_EEPROM" "dev_write backup_loc = world_eeprom_write" "address backup_loc = 0"
    by (simp_all add: backup_loc_def BACKUP_PARA_ADDR_def)
  have e: "para_save_to_storage w STORAGE_TYPE_BACKUP m =
    (if \<forall>i<PARA_TYPE_CNT. bit m i then dev_write backup_loc ?w (address backup_loc) (sys_para ?w) sys_para_size
     else save_groups world_eeprom_write 0 m 0 PARA_TYPE_CNT ?w)"
    using recalculate_eq(1) [OF assms(2)] b by (auto simp: para_save_to_storage_def Let_def full_mask_iff)
  show ?thesis
  proof (cases "\<forall>i<PARA_TYPE_CNT. bit m i")
    case True
    then show ?thesis
      using e backup_area.area_write [OF r] recalculate_eq [OF assms(2)] by auto
  next
    case False
    then show ?thesis
      using e save_groups_spec [OF r, of 0 PARA_TYPE_CNT m] recalculate_eq [OF assms(2)] by auto
  qed
qed

lemma save_group_spec:
  assumes "responsive w" and "image (sys_para w)" and "t < PARA_TYPE_CNT"
  shows "\<exists>w'. pmm_save_group w t = Some w' \<and> responsive w' \<and> image (sys_para w')
    \<and> factory_img w' = factory_img w \<and> crit_nesting w' = crit_nesting w \<and> para_err_status w' = para_err_status w
    \<and> (\<forall>j<PARA_TYPE_CNT. get_group (sys_para w') j = get_group (sys_para w) j
      \<and> get_group (user_img w') j = get_group (sys_para w) j \<and> valid_groups (user_img w') j
      \<and> get_group (backup_img w') j = get_group (if j = t then sys_para w else backup_img w) j
      \<and> (get_magic (backup_img w) = PARAM_MAGIC \<and> (j = t \<or> valid_groups (backup_img w) j) \<longrightarrow> valid_groups (backup_img w') j))"
proof -
  define p where "p = set_magic (set_crc (sys_para w) t (NOT (crc_rtu (get_group (sys_para w) t))))"
  define w0 where "w0 = w\<lparr>crit_nesting := crit_nesting w + 1, sys_para := p\<rparr>"
  have p: "image p" "\<And>j. j < PARA_TYPE_CNT \<Longrightarrow> get_group p j = get_group (sys_para w) j"
    using assms by (simp_all add: p_def para_fields)
  have r0: "responsive w0" "image (sys_para w0)" "sys_para w0 = p" using assms p by (simp_all add: w0_def)
  obtain w1 where 1: "para_save_to_storage w0 STORAGE_TYPE_USER (push_bit t 1) = Some (0, w1)" "responsive w1"
    "user_img w1 = resealed p" "factory_img w1 = factory_img w" "w_ee w1 = w_ee w"
    "ram w1 = ram (w0\<lparr>sys_para := resealed p\<rparr>)"
    using save_user [OF r0(1,2), of "push_bit t 1"] r0(3) by (auto simp: w0_def)
  have s1: "sys_para w1 = resealed p" using ram_D [OF 1(6)] by simp
  have i1: "image (sys_para w1)" unfolding s1 using p(1) by (rule recalculate_eq(2))
  obtain w2 where 2: "para_save_to_storage w1 STORAGE_TYPE_BACKUP (push_bit t 1) = Some (0, w2)" "responsive w2"
    "w_flash w2 = w_flash w1" "ram w2 = ram (w1\<lparr>sys_para := resealed (resealed p)\<rparr>)"
    "get_magic (backup_img w1) = PARAM_MAGIC \<Longrightarrow> get_magic (backup_img w2) = PARAM_MAGIC"
    "\<And>j. j < PARA_TYPE_CNT \<Longrightarrow> get_group (backup_img w2) j = get_group (if t = j \<and> j < 32 then resealed p else backup_img w1) j
      \<and> get_crc (backup_img w2) j = get_crc (if t = j \<and> j < 32 then resealed (resealed p) else backup_img w1) j"
    using save_backup [OF 1(2) i1, of "push_bit t 1", unfolded s1 bit_push_one] by blast
  have t32: "t < 32" using assms(3) by (simp add: PARA_TYPE_CNT_def)
  have b1: "backup_img w1 = backup_img w" by (rule backup_img_ee [OF 1(5)])
  have f2: "user_img w2 = resealed p" "factory_img w2 = factory_img w"
    using flash_imgs [OF 2(3)] 1(3,4) by simp_all
  have rs: "image (resealed p)" "image (resealed (resealed p))"
    "\<And>j. j < PARA_TYPE_CNT \<Longrightarrow> get_group (resealed (resealed p)) j = get_group (sys_para w) j"
    "\<And>j. j < PARA_TYPE_CNT \<Longrightarrow> get_group (resealed p) j = get_group (sys_para w) j"
    using recalculate_eq p by simp_all
  have "pmm_save_group w t = Some (EXIT_CRITICAL w2)"
    using group_crc_eq [OF assms(2,3)] 1(1) 2(1)
    by (simp add: pmm_save_group_def ENTER_CRITICAL_def Let_def w0_def p_def)
  moreover have "sys_para w2 = resealed (resealed p)" "crit_nesting w2 = crit_nesting w + 1" "para_err_status w2 = para_err_status w"
    using ram_D [OF 2(4)] ram_D [OF 1(6)] by (simp_all add: w0_def)
  moreover have "valid_groups (resealed p) j" if "j < PARA_TYPE_CNT" for j
    using resealed_valid [OF p(1) that] .
  moreover have "get_magic (backup_img w) = PARAM_MAGIC \<Longrightarrow> j = t \<or> valid_groups (backup_img w) j \<Longrightarrow> valid_groups (backup_img w2) j"
    if "j < PARA_TYPE_CNT" for j
    using 2(5) 2(6) [OF that] b1 rs that recalculate_eq(5) [OF rs(1) that] t32
    by (cases "j = t") (auto simp: valid_groups_def group_ok_def)
  moreover have "get_group (backup_img w2) j = get_group (if j = t then sys_para w else backup_img w) j" if "j < PARA_TYPE_CNT" for j
    using 2(6) [OF that] b1 rs(4) [OF that] t32 by (cases "j = t") auto
  ultimately show ?thesis using 2(2) f2 rs by (auto simp: EXIT_CRITICAL_def)
qed

subsection \<open>Start-up\<close>

definition status_bits :: "world \<Rightarrow> storage_type \<Rightarrow> u32" where
  "status_bits w t = (case t of
     STORAGE_TYPE_USER \<Rightarrow> status_of (user_img w) OR push_bit 31 1
   | STORAGE_TYPE_BACKUP \<Rightarrow> status_of (backup_img w) OR push_bit 31 1
   | STORAGE_TYPE_FACTORY \<Rightarrow> status_of (factory_img w) OR push_bit 31 1
   | STORAGE_TYPE_DEFAULT \<Rightarrow> para_err_status w STORAGE_TYPE_DEFAULT)"

definition after_load :: "buf \<Rightarrow> world \<Rightarrow> world" where
  "after_load def_para w = w\<lparr>sys_para := loaded def_para w, temp_para := factory_img w,
     crc_user := crc_words (user_img w), crc_backup := crc_words (backup_img w), para_err_status := status_bits w\<rparr>"

context para_area
begin

lemma restore_merge:
  assumes "responsive w"
  shows "\<exists>r. try_restore_from_storage w loc needed = Some (r, snd (merge (img w) (sys_para w, needed)), status_of (img w),
    w\<lparr>temp_para := img w, sys_para := fst (merge (img w) (sys_para w, needed))\<rparr>)"
proof -
  have "w\<lparr>temp_para := img w\<rparr> = w\<lparr>temp_para := img w, sys_para := sys_para w\<rparr>" by simp
  then show ?thesis
    by (cases "restore_loop (img w) (status_of (img w)) 0 PARA_TYPE_CNT (sys_para w) needed")
       (auto simp: restore_eq [OF assms] merge_def Let_def)
qed

end

text \<open>What follows the three loads.\<close>

definition settle :: "buf \<Rightarrow> world \<Rightarrow> (int \<times> world) option" where
  "settle def_para w = do {
     w \<leftarrow> (if para_err_status w STORAGE_TYPE_USER = full_mask
       then (if \<exists>i<PARA_TYPE_CNT. crc_user w ! i \<noteq> crc_backup w ! i then pmm_save_to_backup w else Some w)
       else repair_invalid_storage w full_mask);
     w \<leftarrow> (if dev_addr (sys_para w) > DEV_MAX_ADDR \<or> dev_addr (sys_para w) < DEV_MIN_ADDR
       then pmm_save_group (w\<lparr>sys_para := set_dev_addr (sys_para w) (dev_addr def_para)\<rparr>) PARA_DEV
       else Some w);
     Some (0, w) }"

lemma para_init_eq:
  assumes "responsive w"
  shows "para_init def_para w = settle def_para (after_load def_para w)"
proof -
  define w0 where "w0 = w\<lparr>sys_para := def_para\<rparr>"
  obtain p1 m1 where m1: "merge (user_img w) (def_para, group_mask) = (p1, m1)" by fastforce
  obtain p2 m2 where m2: "merge (backup_img w) (p1, m1) = (p2, m2)" by fastforce
  define w1 where "w1 = set_status (w0\<lparr>temp_para := user_img w, sys_para := p1\<rparr>) STORAGE_TYPE_USER (status_of (user_img w))
    \<lparr>crc_user := crc_words (user_img w)\<rparr>"
  define w2 where "w2 = set_status (w1\<lparr>temp_para := backup_img w, sys_para := p2\<rparr>) STORAGE_TYPE_BACKUP (status_of (backup_img w))
    \<lparr>crc_backup := crc_words (backup_img w)\<rparr>"
  have i: "user_img w0 = user_img w" "backup_img w1 = backup_img w" "factory_img w2 = factory_img w" "sys_para w1 = p1" "sys_para w2 = p2"
    by (simp_all add: w0_def w1_def w2_def set_status_def)
  have r: "responsive w0" "responsive w1" "responsive w2"
    using assms by (simp_all add: w0_def w1_def w2_def set_status_def)
  from user_area.restore_merge [OF r(1), of group_mask] obtain r1 where
    1: "try_restore_from_storage w0 user_loc group_mask = Some (r1, m1, status_of (user_img w), w0\<lparr>temp_para := user_img w, sys_para := p1\<rparr>)"
    using m1 i(1) by (auto simp: w0_def)
  from backup_area.restore_merge [OF r(2), of m1] obtain r2 where
    2: "try_restore_from_storage w1 backup_loc m1 = Some (r2, m2, status_of (backup_img w), w1\<lparr>temp_para := backup_img w, sys_para := p2\<rparr>)"
    using m2 i by auto
  from factory_area.restore_merge [OF r(3), of m2] obtain r3 m3 where
    3: "try_restore_from_storage w2 factory_loc m2 = Some (r3, m3, status_of (factory_img w),
      w2\<lparr>temp_para := factory_img w, sys_para := loaded def_para w\<rparr>)"
    using m1 m2 i by (auto simp: loaded_def)
  have "set_status (w2\<lparr>temp_para := factory_img w, sys_para := loaded def_para w\<rparr>) STORAGE_TYPE_FACTORY (status_of (factory_img w))
      = after_load def_para w"
    by (auto simp: after_load_def w2_def w1_def w0_def set_status_def status_bits_def fun_eq_iff split: storage_type.splits)
  moreover have "set_status (w0\<lparr>temp_para := user_img w, sys_para := p1\<rparr>) STORAGE_TYPE_USER (status_of (user_img w))
      \<lparr>crc_user := crc_words (temp_para (set_status (w0\<lparr>temp_para := user_img w, sys_para := p1\<rparr>) STORAGE_TYPE_USER (status_of (user_img w))))\<rparr> = w1"
    by (simp add: w1_def set_status_def)
  moreover have "set_status (w1\<lparr>temp_para := backup_img w, sys_para := p2\<rparr>) STORAGE_TYPE_BACKUP (status_of (backup_img w))
      \<lparr>crc_backup := crc_words (temp_para (set_status (w1\<lparr>temp_para := backup_img w, sys_para := p2\<rparr>) STORAGE_TYPE_BACKUP (status_of (backup_img w))))\<rparr> = w2"
    by (simp add: w2_def set_status_def)
  ultimately show ?thesis
    unfolding para_init_def Let_def full_mask_def [symmetric] w0_def [symmetric] 1
    by (simp only: bind.bind_lunit prod.case 2 3 settle_def)
qed

lemma user_status_full: "para_err_status (after_load def_para w) STORAGE_TYPE_USER = full_mask \<longleftrightarrow> (\<forall>i<PARA_TYPE_CNT. valid_groups (user_img w) i)"
proof -
  have "status_of p OR push_bit 31 1 = full_mask \<longleftrightarrow> (\<forall>i<PARA_TYPE_CNT. valid_groups p i)" if "image p" for p
  proof -
    have 31: "\<not> 31 < PARA_TYPE_CNT" by (simp add: PARA_TYPE_CNT_def)
    have "status_of p OR push_bit 31 1 = full_mask \<longleftrightarrow> (\<forall>i<PARA_TYPE_CNT. bit (status_of p) i)"
    proof
      assume *: "status_of p OR push_bit 31 1 = full_mask"
      show "\<forall>i<PARA_TYPE_CNT. bit (status_of p) i"
      proof (intro allI impI)
        fix i assume "i < PARA_TYPE_CNT"
        then have "bit full_mask i" "i \<noteq> 31" using 31 by (auto simp only: full_mask_def bit_or_iff bit_group_mask)
        then show "bit (status_of p) i" unfolding * [symmetric] bit_or_iff bit_push_one by auto
      qed
    next
      assume "\<forall>i<PARA_TYPE_CNT. bit (status_of p) i"
      then show "status_of p OR push_bit 31 1 = full_mask"
        by (intro bit_word_eqI)
           (auto simp only: full_mask_def bit_or_iff bit_push_one bit_group_mask validate_eq(2) [OF that])
    qed
    also have "\<dots> \<longleftrightarrow> (\<forall>i<PARA_TYPE_CNT. valid_groups p i)"
      using 31 by (auto simp: validate_eq(2) [OF that] valid_groups_def)
    finally show ?thesis .
  qed
  from this [OF user_area.img_image] show ?thesis by (simp only: after_load_def status_bits_def) (simp add: status_bits_def)
qed

lemma status_bit:
  assumes "j < PARA_TYPE_CNT"
  shows "bit (status_bits w STORAGE_TYPE_USER) j \<longleftrightarrow> valid_groups (user_img w) j"
    and "bit (status_bits w STORAGE_TYPE_BACKUP) j \<longleftrightarrow> valid_groups (backup_img w) j"
    and "bit (status_bits w STORAGE_TYPE_FACTORY) j \<longleftrightarrow> valid_groups (factory_img w) j"
proof -
  have j: "j \<noteq> 31" using assms by (simp add: PARA_TYPE_CNT_def)
  have "bit (status_of p OR push_bit 31 1) j \<longleftrightarrow> valid_groups p j" if "image p" for p
    using j assms unfolding bit_or_iff bit_push_one by (auto simp: validate_eq(2) [OF that] valid_groups_def)
  then show "bit (status_bits w STORAGE_TYPE_USER) j \<longleftrightarrow> valid_groups (user_img w) j"
    and "bit (status_bits w STORAGE_TYPE_BACKUP) j \<longleftrightarrow> valid_groups (backup_img w) j"
    and "bit (status_bits w STORAGE_TYPE_FACTORY) j \<longleftrightarrow> valid_groups (factory_img w) j"
    using user_area.img_image backup_area.img_image factory_area.img_image
    by (simp_all only: status_bits_def storage_type.case)
qed

lemma status_nonzero: "status_bits w STORAGE_TYPE_USER \<noteq> 0" "status_bits w STORAGE_TYPE_BACKUP \<noteq> 0"
proof -
  have "bit (status_bits w STORAGE_TYPE_USER) 31" "bit (status_bits w STORAGE_TYPE_BACKUP) 31"
    by (simp_all only: status_bits_def storage_type.case bit_or_iff bit_push_one) simp_all
  then show "status_bits w STORAGE_TYPE_USER \<noteq> 0" "status_bits w STORAGE_TYPE_BACKUP \<noteq> 0" by auto
qed

text \<open>Bringing the backup area up to the running parameters.\<close>

lemma backup_repaired:
  assumes "responsive w" and "image (sys_para w)"
    and mask: "\<And>j. j < PARA_TYPE_CNT \<Longrightarrow> \<not> valid_groups (backup_img w) j \<Longrightarrow> bit m j"
  shows "\<exists>w'. para_save_to_storage w STORAGE_TYPE_BACKUP m = Some (0, w') \<and> responsive w' \<and> image (sys_para w')
    \<and> w_flash w' = w_flash w \<and> ram w' = ram (w\<lparr>sys_para := resealed (sys_para w)\<rparr>)
    \<and> (\<forall>j<PARA_TYPE_CNT. valid_groups (backup_img w') j)"
proof -
  obtain w' where w': "para_save_to_storage w STORAGE_TYPE_BACKUP m = Some (0, w')" "responsive w'"
    "w_flash w' = w_flash w" "ram w' = ram (w\<lparr>sys_para := resealed (sys_para w)\<rparr>)"
    "(\<forall>i<PARA_TYPE_CNT. bit m i) \<longrightarrow> backup_img w' = resealed (sys_para w)"
    "get_magic (backup_img w) = PARAM_MAGIC \<longrightarrow> get_magic (backup_img w') = PARAM_MAGIC"
    "\<And>j. j < PARA_TYPE_CNT \<Longrightarrow> get_group (backup_img w') j = get_group (if bit m j then sys_para w else backup_img w) j
      \<and> get_crc (backup_img w') j = get_crc (if bit m j then resealed (sys_para w) else backup_img w) j"
    using save_backup [OF assms(1,2), of m] by blast
  have "valid_groups (backup_img w') j" if j: "j < PARA_TYPE_CNT" for j
  proof (cases "get_magic (backup_img w) = PARAM_MAGIC")
    case True
    then show ?thesis
      using w'(6) w'(7) [OF j] mask [OF j] recalculate_eq(5) [OF assms(2) j]
      by (auto simp: valid_groups_def group_ok_def split: if_splits)
  next
    case False
    then have "\<forall>i<PARA_TYPE_CNT. bit m i" using mask by (auto simp: valid_groups_def)
    then show ?thesis using w'(5) resealed_valid [OF assms(2) j] by simp
  qed
  moreover have "image (sys_para w')" using ram_D [OF w'(4)] recalculate_eq(2) [OF assms(2)] by simp
  ultimately show ?thesis using w' by blast
qed

definition backup_current :: "world \<Rightarrow> bool" where
  "backup_current w \<longleftrightarrow> (\<forall>i<PARA_TYPE_CNT. valid_groups (user_img w) i \<and> get_crc (user_img w) i = get_crc (backup_img w) i)"

definition settled :: "buf \<Rightarrow> world \<Rightarrow> world \<Rightarrow> bool" where
  "settled def_para w w' \<longleftrightarrow> responsive w' \<and> image (sys_para w') \<and> para_err_status w' = status_bits w
    \<and> factory_img w' = factory_img w \<and> crit_nesting w' = crit_nesting w
    \<and> (\<forall>j<PARA_TYPE_CNT. get_group (sys_para w') j = get_group (first_valid def_para w j) j
      \<and> get_group (user_img w') j = get_group (first_valid def_para w j) j \<and> valid_groups (user_img w') j)
    \<and> (if backup_current w then w_ee w' = w_ee w else \<forall>j<PARA_TYPE_CNT. valid_groups (backup_img w') j)"

lemma after_load_simps:
  assumes "responsive w" and "image def_para"
  shows "responsive (after_load def_para w)" "sys_para (after_load def_para w) = loaded def_para w"
    "user_img (after_load def_para w) = user_img w" "backup_img (after_load def_para w) = backup_img w"
    "factory_img (after_load def_para w) = factory_img w" "crit_nesting (after_load def_para w) = crit_nesting w"
    "w_ee (after_load def_para w) = w_ee w" "para_err_status (after_load def_para w) = status_bits w"
    "w_flash (after_load def_para w) = w_flash w"
    "image (sys_para (after_load def_para w))"
  using assms loaded_spec(1) by (simp_all add: after_load_def)

lemma repair_settles:
  assumes "responsive w" and "image def_para" and "\<not> (\<forall>i<PARA_TYPE_CNT. valid_groups (user_img w) i)"
  shows "\<exists>w'. repair_invalid_storage (after_load def_para w) full_mask = Some w' \<and> settled def_para w w'"
proof -
  let ?u = "after_load def_para w"
  let ?q = "resealed (loaded def_para w)"
  note a = after_load_simps [OF assms(1,2)]
  note l = loaded_spec [OF assms(2), where w = w]
  have u: "status_bits w STORAGE_TYPE_USER \<noteq> full_mask" using user_status_full [of def_para w] assms(3) a(8) by simp
  obtain w1 where 1: "para_save_to_storage ?u STORAGE_TYPE_USER (NOT (status_bits w STORAGE_TYPE_USER)) = Some (0, w1)"
    "responsive w1" "user_img w1 = ?q" "factory_img w1 = factory_img w" "w_ee w1 = w_ee w" "ram w1 = ram (?u\<lparr>sys_para := ?q\<rparr>)"
    using save_user [OF a(1) a(10), of "NOT (status_bits w STORAGE_TYPE_USER)"] a by auto
  have s1: "sys_para w1 = ?q" "para_err_status w1 = status_bits w" "crit_nesting w1 = crit_nesting w" "backup_img w1 = backup_img w"
    using ram_D [OF 1(6)] a backup_img_ee [OF 1(5)] by simp_all
  have q: "image ?q" "\<And>j. j < PARA_TYPE_CNT \<Longrightarrow> get_group ?q j = get_group (first_valid def_para w j) j"
    "\<And>j. j < PARA_TYPE_CNT \<Longrightarrow> valid_groups ?q j"
    using recalculate_eq [OF l(1)] l(2) resealed_valid [OF l(1)] by simp_all
  have qq: "\<And>j. j < PARA_TYPE_CNT \<Longrightarrow> get_group (resealed ?q) j = get_group (first_valid def_para w j) j"
    using recalculate_eq(4) [OF q(1)] q(2) by simp
  have nb: "\<not> backup_current w" using assms(3) by (auto simp: backup_current_def)
  show ?thesis
  proof (cases "status_bits w STORAGE_TYPE_BACKUP = full_mask")
    case True
    have "valid_groups (backup_img w) j" if "j < PARA_TYPE_CNT" for j
      using status_bit(2) [OF that, of w] that unfolding True by (simp only: full_mask_def bit_or_iff bit_group_mask simp_thms)
    then show ?thesis
      using True 1 s1 q u nb status_nonzero [of w] a(8)
      by (auto simp: repair_invalid_storage_def Let_def settled_def)
  next
    case False
    have "bit (NOT (status_bits w STORAGE_TYPE_BACKUP)) j" if "j < PARA_TYPE_CNT" "\<not> valid_groups (backup_img w1) j" for j
      using that status_bit(2) [OF that(1), of w] s1(4) by (simp add: bit_not_iff PARA_TYPE_CNT_def)
    then obtain w2 where 2: "para_save_to_storage w1 STORAGE_TYPE_BACKUP (NOT (status_bits w STORAGE_TYPE_BACKUP)) = Some (0, w2)"
      "responsive w2" "image (sys_para w2)" "w_flash w2 = w_flash w1" "ram w2 = ram (w1\<lparr>sys_para := resealed ?q\<rparr>)"
      "\<forall>j<PARA_TYPE_CNT. valid_groups (backup_img w2) j"
      using backup_repaired [OF 1(2), of "NOT (status_bits w STORAGE_TYPE_BACKUP)"] s1(1) q(1) by auto
    have "repair_invalid_storage ?u full_mask = Some w2"
      using 1(1) 2(1) u False status_nonzero [of w] a(8) by (simp add: repair_invalid_storage_def Let_def)
    moreover have "settled def_para w w2"
      using ram_D [OF 2(5)] 2 flash_imgs [OF 2(4)] 1(3,4) s1 q qq nb by (simp add: settled_def)
    ultimately show ?thesis by blast
  qed
qed

lemma bit_all_groups: "j < PARA_TYPE_CNT \<Longrightarrow> bit (0x7fffffff :: u32) j"
proof -
  have "(0x7fffffff :: u32) = mask 31" by (simp add: mask_eq_exp_minus_1)
  then show "j < PARA_TYPE_CNT \<Longrightarrow> bit (0x7fffffff :: u32) j"
    by (simp only: bit_mask_iff) (simp add: PARA_TYPE_CNT_def possible_bit_def)
qed

lemma valid_user_settles:
  assumes "responsive w" and "image def_para" and v: "\<forall>i<PARA_TYPE_CNT. valid_groups (user_img w) i"
  shows "\<exists>w'. (if \<exists>i<PARA_TYPE_CNT. crc_user (after_load def_para w) ! i \<noteq> crc_backup (after_load def_para w) ! i
      then pmm_save_to_backup (after_load def_para w) else Some (after_load def_para w)) = Some w' \<and> settled def_para w w'"
proof -
  let ?u = "after_load def_para w"
  note a = after_load_simps [OF assms(1,2)]
  note l = loaded_spec [OF assms(2), where w = w]
  have fv: "get_group (first_valid def_para w j) j = get_group (user_img w) j" if "j < PARA_TYPE_CNT" for j
    using v that by (simp add: first_valid_def)
  have d: "(\<exists>i<PARA_TYPE_CNT. crc_user ?u ! i \<noteq> crc_backup ?u ! i) \<longleftrightarrow> \<not> backup_current w"
    using v by (auto simp: after_load_def crc_words_def backup_current_def)
  show ?thesis
  proof (cases "backup_current w")
    case True
    then show ?thesis unfolding d using a l fv v by (simp add: settled_def)
  next
    case False
    let ?w = "ENTER_CRITICAL ?u"
    have e: "responsive ?w" "image (sys_para ?w)" "sys_para ?w = loaded def_para w" using a by (simp_all add: ENTER_CRITICAL_def)
    obtain w1 where 1: "para_save_to_storage ?w STORAGE_TYPE_BACKUP 0x7fffffff = Some (0, w1)"
      "responsive w1" "image (sys_para w1)" "w_flash w1 = w_flash ?w" "ram w1 = ram (?w\<lparr>sys_para := resealed (sys_para ?w)\<rparr>)"
      "\<forall>j<PARA_TYPE_CNT. valid_groups (backup_img w1) j"
      using backup_repaired [OF e(1,2), of "0x7fffffff"] bit_all_groups by blast
    have "pmm_save_to_backup ?u = Some (EXIT_CRITICAL w1)"
      using 1(1) by (simp add: pmm_save_to_backup_def Let_def)
    moreover have "user_img ?w = user_img w" "factory_img ?w = factory_img w" "para_err_status ?w = status_bits w" "crit_nesting ?w = crit_nesting w + 1"
      using a by (simp_all add: ENTER_CRITICAL_def)
    moreover have "get_group (resealed (loaded def_para w)) j = get_group (user_img w) j" if "j < PARA_TYPE_CNT" for j
      using recalculate_eq(4) [OF l(1) that] l(2) [OF that] fv [OF that] by simp
    ultimately show ?thesis
      unfolding d using False ram_D [OF 1(5)] 1 flash_imgs [OF 1(4)] fv v e(3) by (simp add: settled_def EXIT_CRITICAL_def)
  qed
qed

lemma settle_first_stage:
  assumes "responsive w" and "image def_para"
  shows "\<exists>w'. settled def_para w w' \<and> para_init def_para w = do {
     w'' \<leftarrow> (if dev_addr (sys_para w') > DEV_MAX_ADDR \<or> dev_addr (sys_para w') < DEV_MIN_ADDR
       then pmm_save_group (w'\<lparr>sys_para := set_dev_addr (sys_para w') (dev_addr def_para)\<rparr>) PARA_DEV
       else Some w');
     Some (0, w'') }"
proof (cases "\<forall>i<PARA_TYPE_CNT. valid_groups (user_img w) i")
  case True
  then have u: "para_err_status (after_load def_para w) STORAGE_TYPE_USER = full_mask" using user_status_full [of def_para w] by blast
  obtain w' where "settled def_para w w'"
    "(if \<exists>i<PARA_TYPE_CNT. crc_user (after_load def_para w) ! i \<noteq> crc_backup (after_load def_para w) ! i
      then pmm_save_to_backup (after_load def_para w) else Some (after_load def_para w)) = Some w'"
    using valid_user_settles [OF assms True] by blast
  then show ?thesis
    by (intro exI [of _ w'] conjI) (simp_all only: para_init_eq [OF assms(1)] settle_def u if_True bind.bind_lunit simp_thms)
next
  case False
  then have u: "(para_err_status (after_load def_para w) STORAGE_TYPE_USER = full_mask) = False" using user_status_full [of def_para w] by blast
  obtain w' where "settled def_para w w'" "repair_invalid_storage (after_load def_para w) full_mask = Some w'"
    using repair_settles [OF assms False] by blast
  then show ?thesis
    by (intro exI [of _ w'] conjI) (simp_all only: para_init_eq [OF assms(1)] settle_def u if_False bind.bind_lunit)
qed

text \<open>The device address is the first byte of the first group.\<close>

lemma dev_addr_group: "image p \<Longrightarrow> dev_addr p = get_group p PARA_DEV ! 0"
  by (simp add: dev_addr_def get_group_def seg_def para_table_defs PARA_DEV_def)

lemma set_dev_addr_fields:
  assumes "image p"
  shows "image (set_dev_addr p a)" "get_group (set_dev_addr p a) PARA_DEV = (get_group p PARA_DEV)[0 := a]"
    "\<And>j. j < PARA_TYPE_CNT \<Longrightarrow> j \<noteq> PARA_DEV \<Longrightarrow> get_group (set_dev_addr p a) j = get_group p j"
proof -
  show "image (set_dev_addr p a)" using assms by (simp add: set_dev_addr_def)
  show "get_group (set_dev_addr p a) PARA_DEV = (get_group p PARA_DEV)[0 := a]"
    by (simp add: set_dev_addr_def get_group_def seg_def para_table_defs PARA_DEV_def drop_update_swap take_update_swap)
  fix j assume j: "j < PARA_TYPE_CNT" "j \<noteq> PARA_DEV"
  have "para_offset PARA_DEV = 4" "PARA_DEV < PARA_TYPE_CNT" by (simp_all add: para_table_defs PARA_DEV_def)
  then have "para_offset PARA_DEV < para_offset j"
    using para_disjoint [of PARA_DEV j] para_layout [OF j(1)] para_layout [of PARA_DEV] j by auto
  then show "get_group (set_dev_addr p a) j = get_group p j"
    by (simp add: set_dev_addr_def get_group_def seg_def drop_update_cancel)
qed

definition checked_group :: "buf \<Rightarrow> world \<Rightarrow> nat \<Rightarrow> buf" where
  "checked_group def_para w i = (let g = get_group (first_valid def_para w i) i in
     if i = PARA_DEV \<and> g ! 0 > DEV_MAX_ADDR then g[0 := dev_addr def_para] else g)"

lemma para_init_spec:
  assumes "responsive w" and "image def_para"
  shows "\<exists>w'. para_init def_para w = Some (0, w') \<and> responsive w' \<and> image (sys_para w')
    \<and> para_err_status w' = status_bits w \<and> crit_nesting w' = crit_nesting w \<and> factory_img w' = factory_img w
    \<and> (\<forall>j<PARA_TYPE_CNT. get_group (sys_para w') j = checked_group def_para w j
      \<and> get_group (user_img w') j = checked_group def_para w j \<and> valid_groups (user_img w') j)
    \<and> (\<not> backup_current w \<longrightarrow> (\<forall>j<PARA_TYPE_CNT. valid_groups (backup_img w') j))
    \<and> (backup_current w \<and> \<not> get_group (user_img w) PARA_DEV ! 0 > DEV_MAX_ADDR \<longrightarrow> w_ee w' = w_ee w)"
proof -
  obtain w1 where s: "settled def_para w w1" and e: "para_init def_para w = do {
     w'' \<leftarrow> (if dev_addr (sys_para w1) > DEV_MAX_ADDR \<or> dev_addr (sys_para w1) < DEV_MIN_ADDR
       then pmm_save_group (w1\<lparr>sys_para := set_dev_addr (sys_para w1) (dev_addr def_para)\<rparr>) PARA_DEV
       else Some w1);
     Some (0, w'') }" using settle_first_stage [OF assms] by blast
  note s' = s [unfolded settled_def]
  have D: "PARA_DEV < PARA_TYPE_CNT" by (simp add: PARA_DEV_def PARA_TYPE_CNT_def)
  have da: "dev_addr (sys_para w1) = get_group (first_valid def_para w PARA_DEV) PARA_DEV ! 0"
    using s' D by (simp add: dev_addr_group)
  have mn: "\<not> dev_addr (sys_para w1) < DEV_MIN_ADDR" by (simp add: DEV_MIN_ADDR_def)
  have bc: "backup_current w \<Longrightarrow> first_valid def_para w PARA_DEV = user_img w"
    using D by (simp add: backup_current_def first_valid_def)
  show ?thesis
  proof (cases "dev_addr (sys_para w1) > DEV_MAX_ADDR")
    case False
    then have "checked_group def_para w j = get_group (first_valid def_para w j) j" for j
      using da by (auto simp: checked_group_def Let_def)
    moreover have "para_init def_para w = Some (0, w1)" using e False mn by simp
    ultimately show ?thesis using s' by auto
  next
    case True
    let ?p = "set_dev_addr (sys_para w1) (dev_addr def_para)"
    let ?w = "w1\<lparr>sys_para := ?p\<rparr>"
    have i1: "image (sys_para w1)" using s' by simp
    have g: "get_group ?p j = checked_group def_para w j" if "j < PARA_TYPE_CNT" for j
      using set_dev_addr_fields [OF i1, where a = "dev_addr def_para"] s' that True da
      by (cases "j = PARA_DEV") (simp_all add: checked_group_def Let_def)
    have ?thesis if "pmm_save_group ?w PARA_DEV = Some w2" "responsive w2 \<and> image (sys_para w2)
      \<and> factory_img w2 = factory_img ?w \<and> crit_nesting w2 = crit_nesting ?w \<and> para_err_status w2 = para_err_status ?w
      \<and> (\<forall>j<PARA_TYPE_CNT. get_group (sys_para w2) j = get_group (sys_para ?w) j
        \<and> get_group (user_img w2) j = get_group (sys_para ?w) j \<and> valid_groups (user_img w2) j
        \<and> get_group (backup_img w2) j = get_group (if j = PARA_DEV then sys_para ?w else backup_img ?w) j
        \<and> (get_magic (backup_img ?w) = PARAM_MAGIC \<and> (j = PARA_DEV \<or> valid_groups (backup_img ?w) j) \<longrightarrow> valid_groups (backup_img w2) j))" for w2
    proof -
      have "para_init def_para w = Some (0, w2)" using e True that(1) by simp
      moreover have "valid_groups (backup_img w2) j" if "\<not> backup_current w" "j < PARA_TYPE_CNT" for j
      proof -
        have "\<forall>j<PARA_TYPE_CNT. valid_groups (backup_img w1) j" using s' that by simp
        moreover from this have "get_magic (backup_img w1) = PARAM_MAGIC" using D by (auto simp: valid_groups_def)
        ultimately show ?thesis using \<open>responsive w2 \<and> _\<close> that by simp
      qed
      ultimately show ?thesis using that(2) s' g True da bc by auto
    qed
    then show ?thesis using save_group_spec [of ?w PARA_DEV] s' set_dev_addr_fields(1) [OF i1] D by auto
  qed
qed

text \<open>Writing the running parameters to the user and the backup area.\<close>

lemma save_both:
  assumes "responsive w" and "image (sys_para w)"
  shows "\<exists>w1 w2. para_save_to_storage w STORAGE_TYPE_USER 0x7fffffff = Some (0, w1)
    \<and> para_save_to_storage w1 STORAGE_TYPE_BACKUP 0x7fffffff = Some (0, w2)
    \<and> crit_nesting w2 = crit_nesting w
    \<and> (\<forall>i<PARA_TYPE_CNT. get_group (sys_para w2) i = get_group (sys_para w) i
      \<and> valid_groups (user_img w2) i \<and> get_group (user_img w2) i = get_group (sys_para w) i
      \<and> valid_groups (backup_img w2) i \<and> get_group (backup_img w2) i = get_group (sys_para w) i)"
proof -
  let ?q = "resealed (sys_para w)"
  obtain w1 where 1: "para_save_to_storage w STORAGE_TYPE_USER 0x7fffffff = Some (0, w1)" "responsive w1"
    "user_img w1 = ?q" "ram w1 = ram (w\<lparr>sys_para := ?q\<rparr>)"
    using save_user [OF assms, of "0x7fffffff"] by blast
  have s1: "sys_para w1 = ?q" "crit_nesting w1 = crit_nesting w" using ram_D [OF 1(4)] by simp_all
  have q: "image ?q" "\<And>i. i < PARA_TYPE_CNT \<Longrightarrow> get_group ?q i = get_group (sys_para w) i"
    "\<And>i. i < PARA_TYPE_CNT \<Longrightarrow> valid_groups ?q i"
    using recalculate_eq [OF assms(2)] resealed_valid [OF assms(2)] by simp_all
  obtain w2 where 2: "para_save_to_storage w1 STORAGE_TYPE_BACKUP 0x7fffffff = Some (0, w2)"
    "w_flash w2 = w_flash w1" "ram w2 = ram (w1\<lparr>sys_para := resealed ?q\<rparr>)"
    "(\<forall>i<PARA_TYPE_CNT. bit (0x7fffffff :: u32) i) \<longrightarrow> backup_img w2 = resealed ?q"
    using save_backup [OF 1(2), of "0x7fffffff", unfolded s1, OF q(1)] by blast
  have "backup_img w2 = resealed ?q" using 2(4) bit_all_groups by blast
  then show ?thesis
    using 1(1,3) 2(1,2) ram_D [OF 2(3)] s1 q recalculate_eq(4) [OF q(1)] resealed_valid [OF q(1)] flash_imgs [OF 2(2)]
    by auto
qed

subsection \<open>A world with given images\<close>

definition sample_world :: "buf \<Rightarrow> buf \<Rightarrow> buf \<Rightarrow> world" where
  "sample_world u b f = \<lparr>w_flash = store (store (\<lambda>_. 0) USER_PARA_ADDR u) FACTORY_PARA_ADDR f, w_flash_ok = \<lambda>_. True,
     w_ee = \<lparr>ee_mem = store (\<lambda>_. 0) BACKUP_PARA_ADDR b, ee_nack = []\<rparr>, w_timeouts = [], sys_para = u, temp_para = [],
     crc_user = [], crc_backup = [], para_err_status = \<lambda>_. 0, crit_nesting = 0\<rparr>"

lemma sample_world_images:
  assumes "image u" and "image b" and "image f"
  shows "user_img (sample_world u b f) = u" "backup_img (sample_world u b f) = b" "factory_img (sample_world u b f) = f"
    "responsive (sample_world u b f)" "sys_para (sample_world u b f) = u"
  using assms mem_bytes_store_other [of USER_PARA_ADDR sys_para_size FACTORY_PARA_ADDR f]
  by (simp_all add: sample_world_def user_img_def backup_img_def factory_img_def responsive_def
    USER_PARA_ADDR_def FACTORY_PARA_ADDR_def sys_para_size_def)

definition zero_para :: buf where "zero_para = replicate sys_para_size 0"

lemma zero_para: "image zero_para" "i < PARA_TYPE_CNT \<Longrightarrow> get_group zero_para i = replicate (para_size i) 0"
  using para_layout [of i] crc_offset_le by (simp_all add: zero_para_def get_group_def seg_def)

lemma dev_lt: "PARA_DEV < PARA_TYPE_CNT" "PARA_PORT < PARA_TYPE_CNT"
  by (simp_all add: PARA_DEV_def PARA_PORT_def PARA_TYPE_CNT_def)

subsection \<open>Properties\<close>

text \<open>The validation word has bit 31 exactly when the magic number is right, and bit \<open>i\<close> exactly when
  moreover the CRC word of group \<open>i\<close> is the inverted CRC of the bytes of the group; recalculating all
  CRCs makes every group valid and changes no group.\<close>

theorem validation_reflects_crcs:
  assumes "length para = sys_para_size"
  shows "\<exists>st. pmm_validate_para (Some para) = Some st
    \<and> (\<forall>i. bit st i \<longleftrightarrow> get_magic para = PARAM_MAGIC \<and> (i = 31 \<or> i < PARA_TYPE_CNT \<and> get_crc para i = NOT (crc_rtu (get_group para i))))
    \<and> (\<exists>q. para_recalculate_all_crc para = Some q \<and> pmm_validate_para (Some q) = Some (group_mask OR push_bit 31 1)
      \<and> (\<forall>i<PARA_TYPE_CNT. get_group q i = get_group para i))"
proof -
  have "status_of (resealed para) = full_mask"
    using status_full_iff [OF recalculate_eq(2) [OF assms]] resealed_valid [OF assms] by blast
  then have "pmm_validate_para (Some (resealed para)) = Some (group_mask OR push_bit 31 1)"
    using validate_eq(1) [OF recalculate_eq(2) [OF assms]] by (simp only: full_mask_def)
  then show ?thesis
    using validate_eq [OF assms] recalculate_eq(1,4) [OF assms] unfolding group_ok_def by blast
qed

theorem validation_reflects_crcs_witness:
  "\<exists>q. para_recalculate_all_crc zero_para = Some q \<and> pmm_validate_para (Some q) = Some (group_mask OR push_bit 31 1)"
  using validation_reflects_crcs [OF zero_para(1)] by blast

text \<open>C3: At start-up every group is taken from the first of the user, backup and factory areas in which it is
  valid, and from the defaults otherwise; only a device address above 32 is replaced. The source that the
  parameter dump reports for a group is the one it was taken from.\<close>

theorem para_init_takes_first_valid_group:
  assumes "responsive w" and "length def_para = sys_para_size"
  shows "\<exists>w'. para_init def_para w = Some (0, w') \<and> (\<forall>i<PARA_TYPE_CNT.
      get_group (sys_para w') i = checked_group def_para w i
      \<and> first_valid def_para w i = (case dump_source w' i of STORAGE_TYPE_USER \<Rightarrow> user_img w
          | STORAGE_TYPE_BACKUP \<Rightarrow> backup_img w | STORAGE_TYPE_FACTORY \<Rightarrow> factory_img w | STORAGE_TYPE_DEFAULT \<Rightarrow> def_para))"
  using para_init_spec [OF assms] status_bit [of _ w]
  by (auto simp: dump_source_def first_valid_def)

theorem para_init_takes_first_valid_group_witness:
  "\<exists>w'. para_init zero_para (sample_world zero_para (resealed zero_para) zero_para) = Some (0, w')
    \<and> get_group (sys_para w') PARA_PORT = replicate 42 0"
proof -
  let ?w = "sample_world zero_para (resealed zero_para) zero_para"
  have i: "image zero_para" "image (resealed zero_para)" using zero_para(1) recalculate_eq(2) by simp_all
  note im = sample_world_images [OF i(1) i(2) i(1)]
  have "get_magic zero_para \<noteq> PARAM_MAGIC"
    by (simp add: zero_para_def get_magic_def seg_def sys_para_size_def get32_def PARAM_MAGIC_def)
  then have "first_valid zero_para ?w PARA_PORT = resealed zero_para"
    using im resealed_valid [OF i(1) dev_lt(2)] by (simp add: first_valid_def valid_groups_def)
  then have "checked_group zero_para ?w PARA_PORT = replicate 42 0"
    using recalculate_eq(4) [OF i(1) dev_lt(2)] zero_para(2) [OF dev_lt(2)]
    by (simp add: checked_group_def para_size_def PARA_INFO_TBL_def PARA_PORT_def PARA_DEV_def)
  then show ?thesis
    using para_init_takes_first_valid_group [OF im(4) i(1)] dev_lt(2) by auto
qed

text \<open>C25: After start-up the user area holds the running parameters with every group valid; every group of the
  backup area is valid too unless the user area was entirely valid and the CRC words of the two areas agreed.\<close>

theorem para_init_repairs_storage:
  assumes "responsive w" and "length def_para = sys_para_size"
  shows "\<exists>w'. para_init def_para w = Some (0, w')
    \<and> (\<forall>i<PARA_TYPE_CNT. valid_groups (user_img w') i \<and> get_group (user_img w') i = get_group (sys_para w') i)
    \<and> (\<not> backup_current w \<longrightarrow> (\<forall>i<PARA_TYPE_CNT. valid_groups (backup_img w') i))"
  using para_init_spec [OF assms] by auto

theorem para_init_repairs_storage_witness:
  "\<exists>w'. para_init zero_para (sample_world zero_para zero_para zero_para) = Some (0, w')
    \<and> valid_groups (user_img w') PARA_PORT \<and> valid_groups (backup_img w') PARA_PORT"
proof -
  let ?w = "sample_world zero_para zero_para zero_para"
  note im = sample_world_images [OF zero_para(1) zero_para(1) zero_para(1)]
  have "get_magic zero_para \<noteq> PARAM_MAGIC"
    by (simp add: zero_para_def get_magic_def seg_def sys_para_size_def get32_def PARAM_MAGIC_def)
  then have "\<not> backup_current ?w" using im dev_lt by (auto simp: backup_current_def valid_groups_def)
  then show ?thesis using para_init_repairs_storage [OF im(4) zero_para(1)] dev_lt by blast
qed

text \<open>When the user area is valid and the CRC words of both areas agree, the backup area is left as it is
  whatever its groups hold: damage to the data of the backup is not repaired at start-up.\<close>

theorem para_init_misses_damaged_backup:
  assumes "responsive w" and "length def_para = sys_para_size"
    and "\<forall>i<PARA_TYPE_CNT. valid_groups (user_img w) i" and "dev_addr (user_img w) \<le> DEV_MAX_ADDR"
    and "\<forall>i<PARA_TYPE_CNT. get_crc (user_img w) i = get_crc (backup_img w) i"
  shows "\<exists>w'. para_init def_para w = Some (0, w') \<and> backup_img w' = backup_img w"
proof -
  have "backup_current w" using assms(3,5) by (simp add: backup_current_def)
  moreover have "\<not> get_group (user_img w) PARA_DEV ! 0 > DEV_MAX_ADDR"
    using assms(4) dev_addr_group [OF user_area.img_image, of w] by simp
  ultimately show ?thesis using para_init_spec [OF assms(1,2)] backup_img_ee by blast
qed

theorem para_init_misses_damaged_backup_witness:
  "\<exists>w'. para_init zero_para (sample_world (resealed zero_para) (set_group (resealed zero_para) PARA_PORT (replicate 42 1)) zero_para)
      = Some (0, w') \<and> \<not> valid_groups (backup_img w') PARA_PORT"
proof -
  let ?b = "set_group (resealed zero_para) PARA_PORT (replicate 42 1)"
  let ?w = "sample_world (resealed zero_para) ?b zero_para"
  have sz: "para_size PARA_PORT = 42" by (simp add: para_size_def PARA_INFO_TBL_def PARA_PORT_def)
  have i: "image zero_para" "image (resealed zero_para)" "image ?b"
    using zero_para(1) recalculate_eq(2) dev_lt sz by simp_all
  note im = sample_world_images [OF i(2) i(3) i(1)]
  have c: "get_crc ?b j = get_crc (resealed zero_para) j" if "j < PARA_TYPE_CNT" for j
    using that i dev_lt sz by (simp add: para_fields)
  have "dev_addr (resealed zero_para) = 0"
    using recalculate_eq(4) [OF i(1) dev_lt(1)] zero_para(2) [OF dev_lt(1)] para_layout(2) [OF dev_lt(1)]
    by (simp add: dev_addr_group [OF i(2)])
  then have "\<exists>w'. para_init zero_para ?w = Some (0, w') \<and> backup_img w' = ?b"
    using para_init_misses_damaged_backup [OF im(4) i(1)] im c resealed_valid [OF i(1)] by simp
  moreover have "crc_rtu (replicate 42 1) \<noteq> crc_rtu (replicate 42 0)" by code_simp
  then have "\<not> valid_groups ?b PARA_PORT"
    using c [OF dev_lt(2)] recalculate_eq(5) [OF i(1) dev_lt(2)] zero_para(2) [OF dev_lt(2)] i dev_lt sz
    by (auto simp: valid_groups_def group_ok_def para_fields dest: arg_cong [where f = "\<lambda>x. NOT x"])
  ultimately show ?thesis by metis
qed

text \<open>C5: Parameters survive a restart: after a group is saved, a start-up from the same chips, whatever the
  RAM holds, runs with exactly the parameters that were running when the group was saved.\<close>

theorem saved_parameters_survive_restart:
  assumes "responsive w" and "length (sys_para w) = sys_para_size" and "dev_addr (sys_para w) \<le> DEV_MAX_ADDR"
    and "t < PARA_TYPE_CNT" and "length def_para = sys_para_size"
  shows "\<exists>w1. pmm_save_group w t = Some w1 \<and> (\<forall>w2. w_flash w2 = w_flash w1 \<and> w_ee w2 = w_ee w1 \<and> responsive w2 \<longrightarrow>
    (\<exists>w3. para_init def_para w2 = Some (0, w3) \<and> (\<forall>i<PARA_TYPE_CNT. get_group (sys_para w3) i = get_group (sys_para w) i)))"
proof -
  obtain w1 where 1: "pmm_save_group w t = Some w1"
    "\<And>i. i < PARA_TYPE_CNT \<Longrightarrow> get_group (user_img w1) i = get_group (sys_para w) i \<and> valid_groups (user_img w1) i"
    using save_group_spec [OF assms(1,2,4)] by blast
  have "get_group (sys_para w) PARA_DEV ! 0 \<le> DEV_MAX_ADDR" using assms(3) dev_addr_group [OF assms(2)] by simp
  then have "checked_group def_para w2 i = get_group (sys_para w) i"
    if "w_flash w2 = w_flash w1" "i < PARA_TYPE_CNT" for w2 i
    using 1(2) [OF that(2)] flash_imgs [OF that(1)] dev_lt by (auto simp: checked_group_def first_valid_def Let_def)
  then show ?thesis using 1(1) para_init_spec [OF _ assms(5)] by metis
qed

theorem saved_parameters_survive_restart_witness:
  "\<exists>w1. pmm_save_group (sample_world zero_para zero_para zero_para) PARA_PORT = Some w1"
proof -
  note im = sample_world_images [OF zero_para(1) zero_para(1) zero_para(1)]
  have "dev_addr zero_para = 0"
    using zero_para(2) [OF dev_lt(1)] para_layout(2) [OF dev_lt(1)] by (simp add: dev_addr_group [OF zero_para(1)])
  then show ?thesis using saved_parameters_survive_restart [OF im(4) _ _ dev_lt(2) zero_para(1)] im(5) zero_para(1) by auto
qed

text \<open>Restoring the factory settings copies a fully valid factory area to the running parameters and to the
  user and backup areas; otherwise no area changes, but the critical section that was entered is never left.\<close>

theorem restore_to_factory_outcome:
  assumes "responsive w" and "length (sys_para w) = sys_para_size"
  shows "\<exists>w'. pmm_restore_to_factory w = Some w' \<and>
    (if \<forall>i<PARA_TYPE_CNT. valid_groups (factory_img w) i
     then crit_nesting w' = crit_nesting w \<and> (\<forall>i<PARA_TYPE_CNT. get_group (sys_para w') i = get_group (factory_img w) i
       \<and> valid_groups (user_img w') i \<and> get_group (user_img w') i = get_group (factory_img w) i
       \<and> valid_groups (backup_img w') i \<and> get_group (backup_img w') i = get_group (factory_img w) i)
     else crit_nesting w' = crit_nesting w + 1 \<and> w_flash w' = w_flash w \<and> w_ee w' = w_ee w)"
proof -
  let ?w = "ENTER_CRITICAL w"
  let ?p = "fst (merge (factory_img w) (sys_para w, group_mask))"
  have e: "responsive ?w" "sys_para ?w = sys_para w" "factory_img ?w = factory_img w" "crit_nesting ?w = crit_nesting w + 1"
    "w_flash ?w = w_flash w" "w_ee ?w = w_ee w"
    using assms by (simp_all add: ENTER_CRITICAL_def)
  define w1 where "w1 = ?w\<lparr>temp_para := factory_img w, sys_para := ?p\<rparr>"
  obtain r m where r: "try_restore_from_storage ?w factory_loc group_mask = Some (r, m, status_of (factory_img w), w1)"
    using factory_area.restore_merge [OF e(1), of group_mask] e by (auto simp: w1_def)
  have full: "status_of (factory_img w) = full_mask \<longleftrightarrow> (\<forall>i<PARA_TYPE_CNT. valid_groups (factory_img w) i)"
    by (rule status_full_iff [OF factory_area.img_image])
  show ?thesis
  proof (cases "\<forall>i<PARA_TYPE_CNT. valid_groups (factory_img w) i")
    case True
    have p: "image ?p" "\<And>i. i < PARA_TYPE_CNT \<Longrightarrow> get_group ?p i = get_group (factory_img w) i"
      using merge_spec [OF assms(2) factory_area.img_image] True bit_group_mask by simp_all
    have w1: "responsive w1" "sys_para w1 = ?p" "crit_nesting w1 = crit_nesting w + 1" using e by (simp_all add: w1_def)
    from save_both [OF w1(1)] obtain w2 w3 where 2: "para_save_to_storage w1 STORAGE_TYPE_USER 0x7fffffff = Some (0, w2)"
      "para_save_to_storage w2 STORAGE_TYPE_BACKUP 0x7fffffff = Some (0, w3)" "crit_nesting w3 = crit_nesting w + 1"
      "\<And>i. i < PARA_TYPE_CNT \<Longrightarrow> get_group (sys_para w3) i = get_group (factory_img w) i
        \<and> valid_groups (user_img w3) i \<and> get_group (user_img w3) i = get_group (factory_img w) i
        \<and> valid_groups (backup_img w3) i \<and> get_group (backup_img w3) i = get_group (factory_img w) i"
      using w1 p by auto
    have "pmm_restore_to_factory w = Some (EXIT_CRITICAL w3)"
      using r full True 2(1,2) unfolding pmm_restore_to_factory_def Let_def full_mask_def [symmetric] by simp
    then show ?thesis using True 2(3,4) by (simp add: EXIT_CRITICAL_def)
  next
    case False
    have "pmm_restore_to_factory w = Some w1"
      using r full False unfolding pmm_restore_to_factory_def Let_def full_mask_def [symmetric] by auto
    then show ?thesis using False e by (simp add: w1_def)
  qed
qed

theorem restore_to_factory_outcome_witness:
  "\<exists>w'. pmm_restore_to_factory (sample_world zero_para zero_para zero_para) = Some w' \<and> crit_nesting w' = 1"
proof -
  note im = sample_world_images [OF zero_para(1) zero_para(1) zero_para(1)]
  have "get_magic zero_para \<noteq> PARAM_MAGIC"
    by (simp add: zero_para_def get_magic_def seg_def sys_para_size_def get32_def PARAM_MAGIC_def)
  then have n: "(\<forall>i<PARA_TYPE_CNT. valid_groups (factory_img (sample_world zero_para zero_para zero_para)) i) = False"
    using im dev_lt by (auto simp: valid_groups_def)
  have c: "crit_nesting (sample_world zero_para zero_para zero_para) = 0" by (simp add: sample_world_def)
  have "length (sys_para (sample_world zero_para zero_para zero_para)) = sys_para_size" using im(5) zero_para(1) by simp
  from restore_to_factory_outcome [OF im(4) this] show ?thesis unfolding n c if_False by auto
qed

end
