(* ===== verification/Upgrade.thy ===== *)
theory Upgrade
  imports Proto_Base Arch_Agent Storage Mail_Box
begin

text \<open>
  Firmware upgrade: the commands of \<open>src/app/sys/upgrade.c\<close> that receive an image over the binary
  protocol, their branch in \<open>src/app/proto/proto_base_cfg.c\<close>, and the bootloader
  \<open>src/app/boot_main.c\<close> that installs it.

  The state holds the flash, the information structure, the mailbox, the timers and agents that
  the commands stop, start and post to, and the request for a reset. \<open>unit\<close> is the checksum
  unit, \<open>ok\<close> tells which addresses the flash controller programs. A port is a pointer, its value
  a \<open>u32\<close>.
\<close>

subsection \<open>Data\<close>

definition FW_DATA_SECT_1 :: nat where "FW_DATA_SECT_1 = 6"
definition FW_DATA_SECT_2 :: nat where "FW_DATA_SECT_2 = 7"
definition APP_ENTRY_ADDR :: nat where "APP_ENTRY_ADDR = FLASH_BASE + 0x10000"
definition SPECAL_PRODUCT_NUM :: buf where "SPECAL_PRODUCT_NUM = bytes ''LED102-v3''"


definition UG_STATE_TRANS :: u8 where "UG_STATE_TRANS = 2"
definition UG_STATE_CANCELED :: u8 where "UG_STATE_CANCELED = 3"
definition UG_STATE_FINISHED :: u8 where "UG_STATE_FINISHED = 7"


record fw_info =
  major_ver :: u8
  minor_ver :: u8
  serial_ver :: u8
  img_size :: u32
  seg_size :: u16
  seg_count :: u16
  img_crc32 :: u32
  status :: u8
  img_addr :: u32
  source :: u32
  seg_idx :: u16
  rsvd1 :: "u8 \<times> u8"
  crc32 :: u32

text \<open>The packed structure of 32 bytes; its first 15 bytes are the structure \<open>fw_notify_t\<close>.\<close>

definition fw_notify_bytes :: "fw_info \<Rightarrow> buf" where
  "fw_notify_bytes i = [major_ver i, minor_ver i, serial_ver i] @ le32 (img_size i) @ le16 (seg_size i)
     @ le16 (seg_count i) @ le32 (img_crc32 i)"

definition fw_body_bytes :: "fw_info \<Rightarrow> buf" where
  "fw_body_bytes i = fw_notify_bytes i @ [status i] @ le32 (img_addr i) @ le32 (source i) @ le16 (seg_idx i)
     @ [fst (rsvd1 i), snd (rsvd1 i)]"

definition fw_info_bytes :: "fw_info \<Rightarrow> buf" where
  "fw_info_bytes i = fw_body_bytes i @ le32 (crc32 i)"



definition fw_info_of :: "buf \<Rightarrow> fw_info" where
  "fw_info_of b = \<lparr>major_ver = b ! 0, minor_ver = b ! 1, serial_ver = b ! 2, img_size = get32 (drop 3 b),
     seg_size = get16 (drop 7 b), seg_count = get16 (drop 9 b), img_crc32 = get32 (drop 11 b), status = b ! 15,
     img_addr = get32 (drop 16 b), source = get32 (drop 20 b), seg_idx = get16 (drop 24 b),
     rsvd1 = (b ! 26, b ! 27), crc32 = get32 (drop 28 b)\<rparr>"

text \<open>The functions that are posted to agents: the upgrade task and those of the timers.\<close>

datatype task_fn = Upgrade_Task | Timer_Fn nat

record up_state =
  u_flash :: flash
  fw :: fw_info
  xfer_mb :: "mbox option"
  mbox_count :: nat
  timers :: "(task_fn, u32) timers"
  agents :: "(task_fn, u32) agents"
  os_tick :: u32
  reset_requested :: bool






subsection \<open>The commands\<close>








subsection \<open>The upgrade task\<close>

definition upgrade_init :: "up_state \<Rightarrow> int \<times> up_state" where
  "upgrade_init st =
     (let (mb, n) = mbox_create True True 2 (mbox_count st); st = st\<lparr>xfer_mb := mb, mbox_count := n\<rparr>
      in if mb = None then (- 1, st) else (0, st))"

text \<open>The task up to the first request for a segment: the result of the initialisation is not used.\<close>

definition upgrade_task_start :: "bool \<Rightarrow> up_state \<Rightarrow> up_state" where
  "upgrade_task_start ready st =
     (let st = snd (upgrade_init st);
          st = st\<lparr>fw := (fw st)\<lparr>status := UG_STATE_TRANS\<rparr>\<rparr>;
          st = st\<lparr>xfer_mb := snd (mbox_clear (xfer_mb st))\<rparr>;
          st = st\<lparr>u_flash := snd (gdf_erase_sector ready (u_flash st) FW_DATA_SECT_1)\<rparr>
      in st\<lparr>u_flash := snd (gdf_erase_sector ready (u_flash st) FW_DATA_SECT_2)\<rparr>)"

text \<open>
  The loop: before a request is built its command is stored through the header pointer of a
  structure that was just cleared, a store through the null pointer. It is undefined, and the
  rest of the round is not modelled.
\<close>

definition request_round :: "up_state \<Rightarrow> up_state option" where
  "request_round st = (let parse = (parse_zero :: u32 parse_base) in do { h \<leftarrow> header parse; Some st })"

definition upgrade_task :: "bool \<Rightarrow> up_state \<Rightarrow> up_state option" where
  "upgrade_task ready st = do {
     let st = upgrade_task_start ready st;
     st \<leftarrow> (if seg_idx (fw st) < seg_count (fw st)
        then (if status (fw st) = UG_STATE_CANCELED then Some st else request_round st)
        else Some st);
     Some (st\<lparr>fw := (fw st)\<lparr>status := UG_STATE_FINISHED\<rparr>\<rparr>) }"

subsection \<open>The bootloader\<close>






text \<open>Where \<open>start_app\<close> takes the stack pointer and the entry of the application from.\<close>

definition start_app :: "flash \<Rightarrow> u32 \<times> u32" where
  "start_app f = (get32 (mem_bytes f APP_ENTRY_ADDR 4), get32 (mem_bytes f (APP_ENTRY_ADDR + 4) 4))"

subsection \<open>The structures as bytes\<close>

lemma get_prefix [simp]: "get32 (le32 w @ r) = w" "get16 (le16 v @ r) = v"
  using get32_le32 [of w] get16_le16 [of v]
  by (simp_all add: get32_def get16_def nth_append)

lemma get_whole: "get32 (le32 w) = w" "get16 (le16 v) = v" by simp_all

lemma fw_info_of_bytes [simp]: "fw_info_of (fw_info_bytes i) = i"
  by (simp add: fw_info_of_def fw_info_bytes_def fw_body_bytes_def fw_notify_bytes_def nth_append)

lemma length_fw_bytes [simp]: "length (fw_notify_bytes i) = 15" "length (fw_body_bytes i) = 28" "length (fw_info_bytes i) = 32"
  by (simp_all add: fw_info_bytes_def fw_body_bytes_def fw_notify_bytes_def)


subsection \<open>Checksums of whole words\<close>










subsection \<open>Writing to erased flash\<close>








subsection \<open>The bootloader\<close>




subsection \<open>An upgrade as the host performs it\<close>












lemma mem_comp_0 [simp]: "mem_comp a b 0 = Some 0"
  by (cases a; cases b) simp_all
















subsection \<open>Properties\<close>


text \<open>An image of 1048 bytes in one segment, and the announcement of it.\<close>

definition sample_image :: buf where
  "sample_image = replicate 0x40C 0 @ SPECAL_PRODUCT_NUM @ replicate 3 0"

definition sample_notify :: fw_info where
  "sample_notify = \<lparr>major_ver = 1, minor_ver = 0, serial_ver = 51, img_size = 1048, seg_size = 1048, seg_count = 1,
     img_crc32 = the (calculate_crc32 crc_unit sample_image 1048 ENDIAN_BIG), status = 0, img_addr = 0, source = 0,
     seg_idx = 0, rsvd1 = (0, 0), crc32 = 0\<rparr>"

definition sample_state :: up_state where
  "sample_state = \<lparr>u_flash = \<lambda>_. 0, fw = sample_notify, xfer_mb = None, mbox_count = 0,
     timers = replicate 11 \<lparr>ot_func = None, ot_arg = 0, ot_prio = 0, ot_start = 0, ot_period = 0, ot_enable = 0\<rparr>,
     agents = replicate 3 \<lparr>aq_sem = 0, aq_array = replicate 32 (None, 0), aq_head = 0, aq_tail = 0, aq_count = 0\<rparr>,
     os_tick = 0, reset_requested = False\<rparr>"









text \<open>The upgrade task cannot request a segment: as soon as there is one to request it stores through a null
  pointer, in every state.\<close>

theorem upgrade_task_stores_through_null:
  assumes "seg_idx (fw st) < seg_count (fw st)"
  shows "upgrade_task ready st = None"
proof -
  have "fw (upgrade_task_start ready st) = (fw st)\<lparr>status := UG_STATE_TRANS\<rparr>"
    by (simp add: upgrade_task_start_def upgrade_init_def Let_def case_prod_unfold)
  then show ?thesis using assms
    by (simp add: upgrade_task_def request_round_def parse_zero_def UG_STATE_TRANS_def UG_STATE_CANCELED_def)
qed

theorem upgrade_task_stores_through_null_witness: "upgrade_task True sample_state = None"
  by (rule upgrade_task_stores_through_null) (simp add: sample_state_def sample_notify_def)

end
