(* ===== verification/Rtc.thy ===== *)
theory Rtc
  imports Hq_Generic
begin

text \<open>
  The calendar of \<open>src/bsp/periph/gd32_rtc.c\<close>: conversion between seconds since 1970 and calendar
  time, the weekday, and the date and time registers in BCD.

  The fields of \<open>rtc_time_t\<close> are natural numbers; a store into one reduces the value to its
  width. Arithmetic on \<open>uint32_t\<close> is written on integers with the reduction where a value can
  leave the range. The two flags of the clock hardware that can time out are arguments.
\<close>

definition START_YEAR :: nat where "START_YEAR = 1970"

definition month_offset :: "int list" where
  "month_offset = [0, 31, 59, 90, 120, 151, 181, 212, 243, 273, 304, 334]"

definition leap_year :: "nat \<Rightarrow> bool" where
  "leap_year y \<longleftrightarrow> y mod 4 = 0 \<and> y \<noteq> 2100"

definition days_in_year :: "nat \<Rightarrow> nat" where
  "days_in_year y = (if leap_year y then 366 else 365)"

record rtc_time =
  year :: nat
  month :: nat
  mday :: nat
  wday :: nat
  hour :: nat
  minute :: nat
  second :: nat

definition gd32_rtc_time_to_sec :: "rtc_time \<Rightarrow> u32" where
  "gd32_rtc_time_to_sec t =
     (let (y, m) = (if month t \<le> 2 then ((int (year t) - 1) mod 2 ^ 32, int (month t) + 10)
                    else (int (year t), int (month t) - 2));
          day = y div 4 - y div 100 + y div 400 + 367 * m div 12 + int (mday t);
          day = day + (y * 365 - 719499)
      in word_of_int (((day * 24 + int (hour t)) * 60 + int (minute t)) * 60 + int (second t)))"

text \<open>The loop over the years, and the one over the months of the year.\<close>

function year_loop :: "nat \<Rightarrow> nat \<Rightarrow> nat \<times> nat" where
  "year_loop i day = (if day \<ge> days_in_year i then year_loop (Suc i) (day - days_in_year i) else (i, day))"
  by pat_completeness auto
termination
  by (relation "measure snd") (auto simp: days_in_year_def)

declare year_loop.simps [simp del]

fun month_loop :: "nat list \<Rightarrow> nat \<Rightarrow> nat \<Rightarrow> (nat \<times> nat) option" where
  "month_loop [] i day = None"
| "month_loop (m # ms) i day = (if day \<ge> m then month_loop ms (Suc i) (day - m) else Some (i, day))"

definition month_days :: "nat \<Rightarrow> nat list" where
  "month_days y = [31, if leap_year y then 29 else 28, 31, 30, 31, 30, 31, 31, 30, 31, 30, 31]"

text \<open>It is called for years from 1970 on only, where no dividend is negative.\<close>

definition gregorian_day :: "rtc_time \<Rightarrow> rtc_time" where
  "gregorian_day t =
     (let last_year = int (year t) - 1;
          leaps_day = last_year div 4 - last_year div 100 + last_year div 400;
          day = (if year t mod 4 = 0 \<and> (year t mod 100 \<noteq> 0 \<or> year t mod 400 = 0) \<and> month t > 2 then 1 else 0);
          day = day + (last_year * 365 + leaps_day + month_offset ! (month t - 1) + int (mday t))
      in t\<lparr>wday := nat (day mod 7) mod 256\<rparr>)"

definition gd32_rtc_sec_to_time :: "u32 \<Rightarrow> rtc_time option" where
  "gd32_rtc_sec_to_time sec =
     (let day = unat sec div 86400; hms = unat sec mod 86400;
          (y, day) = year_loop START_YEAR day;
          y = y mod 2 ^ 16
      in do {
        (i, day) \<leftarrow> month_loop (month_days y) 0 day;
        Some (gregorian_day \<lparr>year = y, month = Suc i mod 256, mday = Suc day mod 256, wday = 0,
          hour = hms div 3600 mod 256, minute = hms mod 3600 div 60 mod 256, second = hms mod 3600 mod 60 mod 256\<rparr>) })"

definition gd32_rtc_diff_time :: "rtc_time \<Rightarrow> rtc_time \<Rightarrow> int" where
  "gd32_rtc_diff_time t1 t2 = sint (gd32_rtc_time_to_sec t2 - gd32_rtc_time_to_sec t1)"

subsection \<open>The registers\<close>

record rtc_regs =
  RTC_TIME :: u32
  RTC_DATE :: u32

definition gd32_rtc_set_time :: "bool \<Rightarrow> bool \<Rightarrow> rtc_time \<Rightarrow> rtc_regs \<Rightarrow> int \<times> rtc_regs" where
  "gd32_rtc_set_time init_ok sync_ok t r =
     (if \<not> init_ok then (- 1, r)
      else
        let r = r\<lparr>RTC_DATE := push_bit 16 (to_BCD (of_nat (year t) - 2000)) OR push_bit 8 (to_BCD (of_nat (month t)))
                OR to_BCD (of_nat (mday t)),
              RTC_TIME := push_bit 16 (to_BCD (of_nat (hour t))) OR push_bit 8 (to_BCD (of_nat (minute t)))
                OR to_BCD (of_nat (second t))\<rparr>
        in (if sync_ok then 0 else - 1, r))"

definition gd32_rtc_get_time :: "bool \<Rightarrow> rtc_regs \<Rightarrow> rtc_time option" where
  "gd32_rtc_get_time sync_ok r =
     (if \<not> sync_ok then None
      else let tr = RTC_TIME r; dr = RTC_DATE r in
        Some \<lparr>year = unat (from_BCD (drop_bit 16 dr AND 0xFF) + 2000) mod 2 ^ 16,
          month = unat (from_BCD (drop_bit 8 dr AND 0x1F)) mod 256,
          mday = unat (from_BCD (dr AND 0x3F)) mod 256,
          wday = unat (drop_bit 13 dr AND 0x07),
          hour = unat (from_BCD (drop_bit 16 tr AND 0x3F)) mod 256,
          minute = unat (from_BCD (drop_bit 8 tr AND 0x7F)) mod 256,
          second = unat (from_BCD (tr AND 0x7F)) mod 256\<rparr>)"

definition gd32_rtc_set_second :: "bool \<Rightarrow> bool \<Rightarrow> u32 \<Rightarrow> rtc_regs \<Rightarrow> (int \<times> rtc_regs) option" where
  "gd32_rtc_set_second init_ok sync_ok val r = do {
     t \<leftarrow> gd32_rtc_sec_to_time val;
     Some (gd32_rtc_set_time init_ok sync_ok t r) }"

definition gd32_rtc_get_second :: "bool \<Rightarrow> rtc_regs \<Rightarrow> u32" where
  "gd32_rtc_get_second sync_ok r =
     (case gd32_rtc_get_time sync_ok r of None \<Rightarrow> 0 | Some t \<Rightarrow> gd32_rtc_time_to_sec t)"

subsection \<open>The calendar\<close>

text \<open>The day on which a year begins, counted from the first of January 1970.\<close>

fun year_start :: "nat \<Rightarrow> nat" where
  "year_start 0 = 0"
| "year_start (Suc y) = (if Suc y \<le> 1970 then 0 else year_start y + days_in_year y)"

lemma year_start_Suc: "1970 \<le> y \<Longrightarrow> year_start (Suc y) = year_start y + days_in_year y"
  by simp

declare year_start.simps(2) [simp del]

lemma year_start_1970: "year_start 1970 = 0"
proof -
  have "(1970 :: nat) = Suc 1969" by simp
  then show ?thesis by (simp only: year_start.simps(2)) simp
qed

text \<open>The leap days up to the end of a year, as both conversions count them.\<close>

definition leaps :: "nat \<Rightarrow> int" where
  "leaps y = int y div 4 - int y div 100 + int y div 400"

lemma leaps_Suc:
  assumes "1970 \<le> Suc x" and "Suc x < 2200"
  shows "leaps (Suc x) = leaps x + (if leap_year (Suc x) then 1 else 0)"
proof -
  have e: "leaps z = int (z div 4) - int (z div 100) + int (z div 400)" for z
    by (simp add: leaps_def zdiv_int)
  have c: "Suc x mod 100 = 0 \<longleftrightarrow> Suc x = 2000 \<or> Suc x = 2100"
  proof
    assume "Suc x mod 100 = 0"
    then have q: "Suc x = 100 * (Suc x div 100)" by (metis add_0_right mult_div_mod_eq)
    then have "19 < Suc x div 100" "Suc x div 100 < 22" using assms by linarith+
    then have "Suc x div 100 = 20 \<or> Suc x div 100 = 21" by linarith
    then show "Suc x = 2000 \<or> Suc x = 2100" using q by auto
  qed auto
  have d: "Suc x mod 400 = 0 \<longleftrightarrow> Suc x = 2000"
  proof
    assume "Suc x mod 400 = 0"
    then have "Suc x mod 100 = 0" using mod_mod_cancel [of 100 400 "Suc x"] by simp
    with c \<open>Suc x mod 400 = 0\<close> show "Suc x = 2000" by auto
  qed auto
  have "Suc x mod 4 = 0" if "Suc x = 2000 \<or> Suc x = 2100" using that by auto
  then show ?thesis
    unfolding e by (auto simp: div_Suc c d leap_year_def)
qed

lemma year_start_formula:
  "1970 \<le> y \<Longrightarrow> y \<le> 2106 \<Longrightarrow> leaps (y - 1) + 365 * (int y - 1) = int (year_start y) + 719162"
proof (induction y rule: dec_induct)
  case base
  show ?case by (simp add: year_start_1970 leaps_def)
next
  case (step y)
  obtain x where x: "y = Suc x" using step.hyps by (cases y) auto
  have "leaps y = leaps x + (if leap_year y then 1 else 0)" unfolding x using step.hyps step.prems x by (intro leaps_Suc) auto
  then show ?case
    using step year_start_Suc [OF step.hyps(1)] by (auto simp: x days_in_year_def split: if_splits)
qed

lemma year_loop_spec:
  assumes "1970 \<le> i" and "year_loop i day = (y, d)"
  shows "i \<le> y \<and> year_start i + day = year_start y + d \<and> d < days_in_year y"
  using assms
proof (induction i day rule: year_loop.induct)
  case (1 i day)
  show ?case
  proof (cases "day \<ge> days_in_year i")
    case True
    then have "year_loop (Suc i) (day - days_in_year i) = (y, d)" using "1.prems"(2) by (simp add: year_loop.simps [of i])
    then show ?thesis using "1.IH" [OF True] "1.prems"(1) year_start_Suc [OF "1.prems"(1)] True by simp
  next
    case False
    then show ?thesis using "1.prems" by (simp add: year_loop.simps [of i])
  qed
qed

lemma year_start_mono: "1970 \<le> i \<Longrightarrow> i \<le> j \<Longrightarrow> year_start i \<le> year_start j"
proof (induction j)
  case (Suc j)
  then show ?case using year_start_Suc [of j] by (cases "i = Suc j") auto
qed simp

lemma year_bound:
  assumes "1970 \<le> y" and "year_start y \<le> 49710"
  shows "y \<le> 2106"
proof (rule ccontr)
  assume "\<not> y \<le> 2106"
  then have "year_start 2107 \<le> year_start y" using assms by (intro year_start_mono) simp_all
  moreover have "year_start 2106 = 49673" using year_start_formula [of 2106] by (simp add: leaps_def)
  moreover have "year_start 2107 = year_start 2106 + 365"
    using year_start_Suc [of 2106] by (simp add: days_in_year_def leap_year_def)
  ultimately show False using assms(2) by simp
qed

lemma month_loop_spec:
  "day < sum_list ms \<Longrightarrow> \<exists>k d. month_loop ms i day = Some (i + k, d) \<and> k < length ms \<and> d < ms ! k \<and> day = sum_list (take k ms) + d"
proof (induction ms arbitrary: i day)
  case (Cons m ms)
  show ?case
  proof (cases "day \<ge> m")
    case True
    then have "day - m < sum_list ms" using Cons.prems by auto
    from Cons.IH [OF this, of "Suc i"] obtain k d
      where "month_loop ms (Suc i) (day - m) = Some (Suc i + k, d)" "k < length ms" "d < ms ! k" "day - m = sum_list (take k ms) + d"
      by blast
    then show ?thesis using True by (intro exI [of _ "Suc k"] exI [of _ d]) simp
  next
    case False
    then show ?thesis by (intro exI [of _ 0] exI [of _ day]) simp
  qed
qed simp

lemma month_days_sum: "sum_list (month_days y) = days_in_year y" "length (month_days y) = 12" "k < 12 \<Longrightarrow> month_days y ! k \<le> 31"
proof -
  show "sum_list (month_days y) = days_in_year y" "length (month_days y) = 12"
    by (simp_all add: month_days_def days_in_year_def)
  have "\<forall>m \<in> set (month_days y). m \<le> 31" by (simp add: month_days_def)
  moreover have "length (month_days y) = 12" by (simp add: month_days_def)
  ultimately show "k < 12 \<Longrightarrow> month_days y ! k \<le> 31" using nth_mem [of k "month_days y"] by auto
qed

text \<open>Both formulas for the position of a month agree with the table of the months.\<close>

lemma month_position:
  assumes "k < 12"
  shows "Suc k \<le> 2 \<Longrightarrow> 367 * (int (Suc k) + 10) div 12 = int (sum_list (take k (month_days y))) + 336"
    and "\<not> Suc k \<le> 2 \<Longrightarrow> int (days_in_year y) + 367 * (int (Suc k) - 2) div 12 = int (sum_list (take k (month_days y))) + 336"
    and "month_offset ! k + (if leap_year y \<and> Suc k > 2 then 1 else 0) = int (sum_list (take k (month_days y)))"
proof -
  have "k = 0 \<or> k = 1 \<or> k = 2 \<or> k = 3 \<or> k = 4 \<or> k = 5 \<or> k = 6 \<or> k = 7 \<or> k = 8 \<or> k = 9 \<or> k = 10 \<or> k = 11"
    using assms by (simp add: numeral_eq_Suc less_Suc_eq)
  then show "Suc k \<le> 2 \<Longrightarrow> 367 * (int (Suc k) + 10) div 12 = int (sum_list (take k (month_days y))) + 336"
    and "\<not> Suc k \<le> 2 \<Longrightarrow> int (days_in_year y) + 367 * (int (Suc k) - 2) div 12 = int (sum_list (take k (month_days y))) + 336"
    and "month_offset ! k + (if leap_year y \<and> Suc k > 2 then 1 else 0) = int (sum_list (take k (month_days y)))"
    by (auto simp: month_days_def days_in_year_def month_offset_def)
qed

lemma gregorian_leap:
  assumes "1970 \<le> y" and "y < 2200"
  shows "y mod 4 = 0 \<and> (y mod 100 \<noteq> 0 \<or> y mod 400 = 0) \<longleftrightarrow> leap_year y"
proof -
  have "y = 2000 \<or> y = 2100" if "y mod 100 = 0"
  proof -
    have q: "y = 100 * (y div 100)" using that by (metis add_0_right mult_div_mod_eq)
    then have "19 < y div 100" "y div 100 < 22" using assms by linarith+
    then have "y div 100 = 20 \<or> y div 100 = 21" by linarith
    then show ?thesis using q by auto
  qed
  then show ?thesis by (cases "y mod 100 = 0") (auto simp: leap_year_def)
qed

text \<open>
  The conversion from seconds: the fields of the result, with the day counted from the start of
  its year, and the weekday.
\<close>

lemma sec_to_time_fields:
  fixes sec :: u32
  defines "D \<equiv> unat sec div 86400" and "r \<equiv> unat sec mod 86400"
  obtains y k e w where
    "gd32_rtc_sec_to_time sec = Some \<lparr>year = y, month = Suc k, mday = Suc e, wday = (D + 4) mod 7,
       hour = r div 3600, minute = r mod 3600 div 60, second = r mod 60\<rparr>"
    "1970 \<le> y" "y \<le> 2106" "k < 12" "e < month_days y ! k" "D = year_start y + sum_list (take k (month_days y)) + e"
    "sum_list (take k (month_days y)) + e < days_in_year y"
proof -
  obtain y d where yd: "year_loop 1970 D = (y, d)" by fastforce
  have D: "D \<le> 49710" unfolding D_def using unsigned_less [of sec, where 'a = nat] by simp
  have s: "1970 \<le> y" "D = year_start y + d" "d < days_in_year y"
    using year_loop_spec [OF _ yd] year_start_1970 by auto
  have y: "y \<le> 2106" using s D by (intro year_bound) simp_all
  obtain k e where m: "month_loop (month_days y) 0 d = Some (k, e)" "k < 12" "e < month_days y ! k" "d = sum_list (take k (month_days y)) + e"
    using month_loop_spec [of d "month_days y" 0] s(3) by (auto simp: month_days_sum)
  have e: "e < 31" using m(2,3) month_days_sum(3) [of k y] by simp
  have r: "r < 86400" "r mod 3600 mod 60 = r mod 60" unfolding r_def using mod_mod_cancel [of 60 3600 "unat sec mod 86400"] by simp_all
  have small: "y mod 65536 = y" "Suc k mod 256 = Suc k" "Suc e mod 256 = Suc e" "r div 3600 mod 256 = r div 3600"
    "r mod 3600 div 60 mod 256 = r mod 3600 div 60" "r mod 60 mod 256 = r mod 60"
    using y m(2) e r(1) by (auto intro!: mod_less simp: less_mult_imp_div_less)
  have x: "gd32_rtc_sec_to_time sec = Some (gregorian_day \<lparr>year = y, month = Suc k, mday = Suc e, wday = 0,
      hour = r div 3600, minute = r mod 3600 div 60, second = r mod 60\<rparr>)"
    unfolding gd32_rtc_sec_to_time_def
    by (simp add: START_YEAR_def yd m(1) small r(2) D_def [symmetric] r_def [symmetric])
  define q where "q = (if y mod 4 = 0 \<and> (y mod 100 \<noteq> 0 \<or> y mod 400 = 0) \<and> Suc k > 2 then 1 else 0)
      + ((int y - 1) * 365 + leaps (y - 1) + month_offset ! k + int (Suc e))"
  have q: "q = int D + 719163"
    using year_start_formula [OF s(1) y] month_position(3) [OF m(2), of y] gregorian_leap [of y] s(1,2) y m(4)
    unfolding q_def by (auto split: if_splits)
  have "int D + 719163 = int (D + 4) + 102737 * 7" by simp
  then have "q mod 7 = int ((D + 4) mod 7)" unfolding q by (simp only: mod_mult_self1 zmod_int of_nat_numeral)
  moreover have "(D + 4) mod 7 < 7" by simp
  ultimately have w: "nat (q mod 7) mod 256 = (D + 4) mod 7" by simp
  have "int (y - 1) = int y - 1" using s(1) by simp
  then have "gregorian_day t = t\<lparr>wday := nat (q mod 7) mod 256\<rparr>" if "year t = y" "month t = Suc k" "mday t = Suc e" for t
    unfolding gregorian_day_def Let_def q_def leaps_def that by (simp only: diff_Suc_1)
  then have "gd32_rtc_sec_to_time sec = Some \<lparr>year = y, month = Suc k, mday = Suc e, wday = (D + 4) mod 7,
      hour = r div 3600, minute = r mod 3600 div 60, second = r mod 60\<rparr>"
    unfolding x w by simp
  then show thesis using that s y m by simp
qed

lemma time_to_sec_value:
  assumes "1970 \<le> year t" and "year t \<le> 2106" and "month t = Suc k" and "k < 12" and "mday t = Suc e"
  shows "gd32_rtc_time_to_sec t = of_nat (((year_start (year t) + sum_list (take k (month_days (year t))) + e) * 24 + hour t) * 3600
    + minute t * 60 + second t)"
proof -
  let ?y = "year t" and ?n = "year_start (year t) + sum_list (take k (month_days (year t))) + e"
  obtain x where x: "?y = Suc x" using assms(1) by (cases "?y") auto
  note pos = month_position [OF assms(4), of ?y]
  have ys: "leaps x + 365 * int x = int (year_start ?y) + 719162"
    using year_start_formula [OF assms(1,2)] by (simp add: x)
  have lp: "leaps ?y + 365 = leaps x + int (days_in_year ?y)"
    using leaps_Suc [of x] assms(1,2) by (auto simp: x days_in_year_def)
  define day where "day = (let (y, m) = (if month t \<le> 2 then ((int ?y - 1) mod 2 ^ 32, int (month t) + 10) else (int ?y, int (month t) - 2))
     in y div 4 - y div 100 + y div 400 + 367 * m div 12 + int (mday t) + (y * 365 - 719499))"
  have "day = int ?n"
  proof (cases "Suc k \<le> 2")
    case True
    have "int x < 2 ^ 32" using assms(2) x by simp
    then have "day = leaps x + 367 * (int (Suc k) + 10) div 12 + int (Suc e) + (int x * 365 - 719499)"
      using True assms(3,5) by (simp add: day_def leaps_def x)
    then show ?thesis using pos(1) [OF True] ys by simp
  next
    case False
    then have "day = leaps ?y + 367 * (int (Suc k) - 2) div 12 + int (Suc e) + (int ?y * 365 - 719499)"
      using assms(3,5) by (simp add: day_def leaps_def)
    then show ?thesis using pos(2) [OF False] ys lp by (simp add: x)
  qed
  moreover have "gd32_rtc_time_to_sec t = word_of_int (((day * 24 + int (hour t)) * 60 + int (minute t)) * 60 + int (second t))"
    by (simp add: gd32_rtc_time_to_sec_def day_def Let_def split: prod.splits if_splits)
  moreover have "((int ?n * 24 + int (hour t)) * 60 + int (minute t)) * 60 + int (second t)
      = int ((?n * 24 + hour t) * 3600 + minute t * 60 + second t)" by (simp add: algebra_simps)
  ultimately show ?thesis by simp
qed

lemma sec_to_time_valid:
  obtains t n where "gd32_rtc_sec_to_time s = Some t" "gd32_rtc_time_to_sec t = s" "1 \<le> month t" "month t \<le> 12"
    "1 \<le> mday t" "mday t \<le> month_days (year t) ! (month t - 1)" "hour t < 24" "minute t < 60" "second t < 60"
    "wday t = (unat s div 86400 + 4) mod 7" "1970 \<le> year t" "unat s div 86400 = year_start (year t) + n" "n < days_in_year (year t)"
proof -
  define D r where "D = unat s div 86400" and "r = unat s mod 86400"
  obtain y k e where t: "gd32_rtc_sec_to_time s = Some \<lparr>year = y, month = Suc k, mday = Suc e, wday = (D + 4) mod 7,
       hour = r div 3600, minute = r mod 3600 div 60, second = r mod 60\<rparr>"
    and b: "1970 \<le> y" "y \<le> 2106" "k < 12" "e < month_days y ! k" and d: "D = year_start y + sum_list (take k (month_days y)) + e"
      "sum_list (take k (month_days y)) + e < days_in_year y"
    using sec_to_time_fields [of s] unfolding D_def r_def by metis
  let ?t = "\<lparr>year = y, month = Suc k, mday = Suc e, wday = (D + 4) mod 7, hour = r div 3600, minute = r mod 3600 div 60, second = r mod 60\<rparr>"
  have N: "(D * 24 + r div 3600) * 3600 + r mod 3600 div 60 * 60 + r mod 60 = unat s"
  proof -
    have "r mod 3600 mod 60 = r mod 60" using mod_mod_cancel [of 60 3600 r] by simp
    then have "r div 3600 * 3600 + r mod 3600 div 60 * 60 + r mod 60 = r"
      using div_mult_mod_eq [of r 3600] div_mult_mod_eq [of "r mod 3600" 60] by linarith
    moreover have "D * 86400 + r = unat s" unfolding D_def r_def by simp
    ultimately show ?thesis by simp
  qed
  have "gd32_rtc_time_to_sec ?t = of_nat ((D * 24 + r div 3600) * 3600 + r mod 3600 div 60 * 60 + r mod 60)"
    using time_to_sec_value [of ?t k e] b by (simp only: rtc_time.simps d(1) [symmetric])
  then have T: "gd32_rtc_time_to_sec ?t = s" unfolding N by simp
  have "r < 86400" by (simp add: r_def)
  then have "r div 3600 < 24" "r mod 3600 div 60 < 60" by (auto simp: less_mult_imp_div_less)
  then show thesis
    using b d by (intro that [OF t T, of "sum_list (take k (month_days y)) + e"]) (simp_all add: D_def)
qed


subsection \<open>The date and time registers\<close>

lemma pack_fields:
  fixes a b c :: u32
  assumes "take_bit 8 a = a" "take_bit 8 b = b" "take_bit 8 c = c"
  shows "take_bit 8 (drop_bit 16 (push_bit 16 a OR push_bit 8 b OR c)) = a"
    and "take_bit 8 (drop_bit 8 (push_bit 16 a OR push_bit 8 b OR c)) = b"
    and "take_bit 8 (push_bit 16 a OR push_bit 8 b OR c) = c"
proof -
  have bits: "bit x n \<Longrightarrow> n < 8" if "take_bit 8 x = x" for x :: u32 and n
    using that by (metis bit_take_bit_iff)
  note a = bits [OF assms(1)] and b = bits [OF assms(2)] and c = bits [OF assms(3)]
  show "take_bit 8 (drop_bit 16 (push_bit 16 a OR push_bit 8 b OR c)) = a"
    by (rule bit_word_eqI) (auto simp: bit_simps dest: a b c)
  show "take_bit 8 (drop_bit 8 (push_bit 16 a OR push_bit 8 b OR c)) = b"
    by (rule bit_word_eqI) (auto simp: bit_simps dest: a b c)
  show "take_bit 8 (push_bit 16 a OR push_bit 8 b OR c) = c"
    by (rule bit_word_eqI) (auto simp: bit_simps dest: a b c)
qed

lemma BCD_bits_list:
  "\<forall>n \<in> set [0..<100]. to_BCD (of_nat n) AND 0xFF = to_BCD (of_nat n)"
  "\<forall>n \<in> set [0..<80]. to_BCD (of_nat n) AND 0x7F = to_BCD (of_nat n)"
  "\<forall>n \<in> set [0..<40]. to_BCD (of_nat n) AND 0x3F = to_BCD (of_nat n)"
  "\<forall>n \<in> set [0..<20]. to_BCD (of_nat n) AND 0x1F = to_BCD (of_nat n)"
  by code_simp+

lemma BCD_bits:
  "n < 100 \<Longrightarrow> take_bit 8 (to_BCD (of_nat n)) = to_BCD (of_nat n)"
  "n < 80 \<Longrightarrow> take_bit 7 (to_BCD (of_nat n)) = to_BCD (of_nat n)"
  "n < 40 \<Longrightarrow> take_bit 6 (to_BCD (of_nat n)) = to_BCD (of_nat n)"
  "n < 20 \<Longrightarrow> take_bit 5 (to_BCD (of_nat n)) = to_BCD (of_nat n)"
  using BCD_bits_list by (simp_all add: take_bit_eq_mask mask_eq_exp_minus_1)

lemma BCD_value: "n < 100 \<Longrightarrow> from_BCD (to_BCD (of_nat n)) = of_nat n"
  by (rule BCD_list [rule_format]) simp

lemma mask_field:
  fixes x f :: u32
  assumes "take_bit 8 x = f" and "take_bit j f = f" and "j \<le> 8"
  shows "x AND mask j = f"
  using assms by (metis min_absorb1 take_bit_eq_mask take_bit_take_bit)

lemma weekday_bits:
  fixes x :: u32
  assumes "take_bit 8 (drop_bit 8 x) = f" and "take_bit 5 f = f"
  shows "drop_bit 13 x AND mask 3 = 0"
proof (rule bit_word_eqI)
  fix n
  have "\<not> bit x (13 + n)" if "n < 3"
  proof -
    have "bit x (13 + n) = bit f (5 + n)" using that by (simp add: assms(1) [symmetric] bit_simps)
    also have "bit f (5 + n) = bit (take_bit 5 f) (5 + n)" by (simp only: assms(2))
    also have "\<dots> = False" by (simp only: bit_take_bit_iff) simp
    finally show ?thesis by simp
  qed
  then show "bit (drop_bit 13 x AND mask 3) n = bit (0 :: u32) n" by (auto simp: bit_simps)
qed

lemma registers_roundtrip:
  assumes "2000 \<le> year t" "year t < 2100" "month t < 20" "mday t < 40" "hour t < 40" "minute t < 80" "second t < 80"
  shows "gd32_rtc_get_time True (snd (gd32_rtc_set_time True ok t r)) = Some (t\<lparr>wday := 0\<rparr>)"
proof -
  define n where "n = year t - 2000"
  have n: "year t = n + 2000" "n < 100" using assms(1,2) by (simp_all add: n_def)
  have y: "(of_nat (year t) :: u32) - 2000 = of_nat n" by (simp add: n(1))
  define D where "D = push_bit 16 (to_BCD (of_nat n)) OR push_bit 8 (to_BCD (of_nat (month t))) OR to_BCD (of_nat (mday t))"
  define T where "T = push_bit 16 (to_BCD (of_nat (hour t))) OR push_bit 8 (to_BCD (of_nat (minute t))) OR to_BCD (of_nat (second t))"
  have Db: "take_bit 8 (drop_bit 16 D) = to_BCD (of_nat n)" "take_bit 8 (drop_bit 8 D) = to_BCD (of_nat (month t))" "take_bit 8 D = to_BCD (of_nat (mday t))"
    unfolding D_def by (intro pack_fields BCD_bits(1); use n assms in simp)+
  have Tb: "take_bit 8 (drop_bit 16 T) = to_BCD (of_nat (hour t))" "take_bit 8 (drop_bit 8 T) = to_BCD (of_nat (minute t))" "take_bit 8 T = to_BCD (of_nat (second t))"
    unfolding T_def by (intro pack_fields BCD_bits(1); use assms in simp)+
  have m: "(0xFF :: u32) = mask 8" "(0x7F :: u32) = mask 7" "(0x3F :: u32) = mask 6" "(0x1F :: u32) = mask 5" "(7 :: u32) = mask 3"
    by (simp_all add: mask_eq_exp_minus_1)
  have f: "drop_bit 16 D AND 0xFF = to_BCD (of_nat n)" "drop_bit 8 D AND 0x1F = to_BCD (of_nat (month t))"
    "D AND 0x3F = to_BCD (of_nat (mday t))" "drop_bit 13 D AND 7 = 0"
    "drop_bit 16 T AND 0x3F = to_BCD (of_nat (hour t))" "drop_bit 8 T AND 0x7F = to_BCD (of_nat (minute t))"
    "T AND 0x7F = to_BCD (of_nat (second t))"
    unfolding m by (rule mask_field [OF Db(1)] mask_field [OF Db(2)] mask_field [OF Db(3)] weekday_bits [OF Db(2)]
      mask_field [OF Tb(1)] mask_field [OF Tb(2)] mask_field [OF Tb(3)]; use BCD_bits n assms in simp)+
  have u: "unat (of_nat k :: u32) = k" if "k < 3000" for k using that by (simp add: unat_of_nat)
  have "snd (gd32_rtc_set_time True ok t r) = r\<lparr>RTC_DATE := D, RTC_TIME := T\<rparr>"
    by (simp add: gd32_rtc_set_time_def Let_def y D_def T_def)
  moreover have "unat (of_nat n + 2000 :: u32) = n + 2000" using u [of "n + 2000"] n(2) by simp
  ultimately show ?thesis
    using n assms by (simp add: gd32_rtc_get_time_def f BCD_value u)
qed

lemma year_of_day:
  assumes "1970 \<le> y" and "n < days_in_year y" and "1970 \<le> z" 
  shows "year_start z \<le> year_start y + n \<longleftrightarrow> z \<le> y"
proof
  assume a: "year_start z \<le> year_start y + n"
  show "z \<le> y"
  proof (rule ccontr)
    assume "\<not> z \<le> y"
    then have "year_start (Suc y) \<le> year_start z" using assms(1) by (intro year_start_mono) simp_all
    then show False using a assms(1,2) year_start_Suc by simp
  qed
qed (use assms year_start_mono [of z y] in simp)

text \<open>A clock that is set to a number of seconds in the years 2000 to 2099 and read before it moves on gives the same
  number: the BCD fields of the registers do not disturb one another.\<close>

theorem rtc_clock_roundtrip:
  assumes "946684800 \<le> s" and "s < 4102444800"
  shows "\<exists>v r'. gd32_rtc_set_second True ok s r = Some (v, r') \<and> gd32_rtc_get_second True r' = s"
proof -
  obtain t n where t: "gd32_rtc_sec_to_time s = Some t" "gd32_rtc_time_to_sec t = s" "month t \<le> 12"
    "mday t \<le> month_days (year t) ! (month t - 1)" "1 \<le> month t" "hour t < 24" "minute t < 60" "second t < 60"
    and y: "1970 \<le> year t" "unat s div 86400 = year_start (year t) + n" "n < days_in_year (year t)"
    by (rule sec_to_time_valid [of s])
  have "year_start 2000 = 10957" "year_start 2100 = 47482"
    using year_start_formula [of 2000] year_start_formula [of 2100] by (simp_all add: leaps_def)
  moreover have "10957 \<le> unat s div 86400" "unat s div 86400 < 47482"
    using assms by (auto simp: word_le_nat_alt word_less_nat_alt)
  ultimately have "2000 \<le> year t" "year t < 2100"
    using year_of_day [OF y(1,3), of 2000] year_of_day [OF y(1,3), of 2100] y(2) by auto
  moreover have "mday t \<le> 31" using t(3-5) month_days_sum(3) [of "month t - 1" "year t"] by linarith
  ultimately have g: "gd32_rtc_get_time True (snd (gd32_rtc_set_time True ok t r)) = Some (t\<lparr>wday := 0\<rparr>)"
    using t by (intro registers_roundtrip) simp_all
  have "gd32_rtc_time_to_sec (t\<lparr>wday := 0\<rparr>) = s"
    unfolding t(2) [symmetric] by (cases t) (simp add: gd32_rtc_time_to_sec_def)
  then show ?thesis
    using g t(1) by (intro exI [of _ "fst (gd32_rtc_set_time True ok t r)"] exI [of _ "snd (gd32_rtc_set_time True ok t r)"])
      (simp add: gd32_rtc_set_second_def gd32_rtc_get_second_def)
qed

theorem rtc_clock_roundtrip_witness:
  "\<exists>v r'. gd32_rtc_set_second True True 1735689599 \<lparr>RTC_TIME = 0, RTC_DATE = 0\<rparr> = Some (v, r')
     \<and> gd32_rtc_get_second True r' = 1735689599"
  by (rule rtc_clock_roundtrip) simp_all

end
