(* ===== verification/Event_Record.thy ===== *)
theory Event_Record
  imports Proto_Base Arch_Agent Storage Rtc
begin

text \<open>
  The event records of \<open>src/app/record/record.c\<close> and \<open>record_cfg.c\<close>: two rings of records in the
  EEPROM with an index each, the commands that read and stop them and the tasks that save them.

  Addresses are natural numbers. \<open>lk\<close> tells for every access of an operation, counted from 0,
  whether the EEPROM's mutex was obtained. A result of the EEPROM is compared with a size after its
  conversion to \<open>uint32_t\<close>, as the usual arithmetic conversions demand.
\<close>

subsection \<open>Configuration\<close>

definition REC_INTVAL_MIN :: u32 where "REC_INTVAL_MIN = 300"
definition REC_TYPE_BBOX :: nat where "REC_TYPE_BBOX = 0"
definition REC_TYPE_STATE :: nat where "REC_TYPE_STATE = 1"
definition REC_TYPE_CNT :: nat where "REC_TYPE_CNT = 2"
definition REC_REQ_MAX_COUNT :: u32 where "REC_REQ_MAX_COUNT = 20"
definition REC_INDEX_ADDR :: nat where "REC_INDEX_ADDR = 4096"
definition OSTIMER_RECORD_TASK :: nat where "OSTIMER_RECORD_TASK = 5"

definition REC_SIZE :: "nat list" where "REC_SIZE = [26, 5]"
definition REC_CAPACITY :: "nat list" where "REC_CAPACITY = [(63360 - 4352) div 26, (131008 - 63360) div 5]"
definition REC_START_ADDR :: "nat list" where "REC_START_ADDR = [4352, 63360]"
definition REC_END_ADDR :: "nat list" where
  "REC_END_ADDR = [4352 + (63360 - 4352) div 26 * 26, 63360 + (131008 - 63360) div 5 * 5]"

definition REC_TYPE_NAME :: "buf list" where "REC_TYPE_NAME = [bytes ''BlackBox'', bytes ''WorkState'']"
definition REC_TITLE :: "buf list" where
  "REC_TITLE = [bytes ''| num | time |dev_state | reboot_cnt | '' @ [13, 10],
     bytes ''| num | time_sec | start_state | env_temp | '' @ [13, 10]]"

subsection \<open>Data\<close>

record record_index =
  head_num :: u32
  tail_num :: u32
  rec_count :: u32
  idx_rsvd :: u16
  idx_crc :: u16

definition index_body :: "record_index \<Rightarrow> buf" where
  "index_body x = le32 (head_num x) @ le32 (tail_num x) @ le32 (rec_count x) @ le16 (idx_rsvd x)"

definition index_bytes :: "record_index \<Rightarrow> buf" where
  "index_bytes x = index_body x @ le16 (idx_crc x)"

definition index_of :: "buf \<Rightarrow> record_index" where
  "index_of b = \<lparr>head_num = get32 b, tail_num = get32 (drop 4 b), rec_count = get32 (drop 8 b),
     idx_rsvd = get16 (drop 12 b), idx_crc = get16 (drop 14 b)\<rparr>"

definition index_zero :: record_index where
  "index_zero = \<lparr>head_num = 0, tail_num = 0, rec_count = 0, idx_rsvd = 0, idx_crc = 0\<rparr>"

record record_stop =
  stop_type :: u8
  stop_start :: u32
  stop_duration :: u32

record record_info =
  info_size :: nat
  info_capacity :: nat
  info_name :: buf
  info_title :: buf
  first_num :: u32
  last_num :: u32
  info_count :: u32

datatype rec_fn = Bbox_Record_Task | Other_Fn nat

record rec_state =
  rec_index :: "record_index list"
  rec_stop :: "record_stop list"
  rec_addr :: "nat list"
  rec_buffer :: buf
  rec_ee :: eeprom
  rec_timers :: "(rec_fn, u32) timers"
  record_error :: bool
  rec_regs :: rtc_regs
  sys_sec :: u32
  rec_dev_state :: u8

subsection \<open>Operations\<close>

definition load_index :: "bool \<Rightarrow> nat \<Rightarrow> record_index \<Rightarrow> eeprom \<Rightarrow> int \<times> record_index \<times> eeprom" where
  "load_index locked i idx e =
     (let (ret, b, e) = eeprom_read_lock locked e (REC_INDEX_ADDR + 16 * i) 16;
          idx = (if b = [] then idx else index_of b)
      in if (word_of_int ret :: u32) = 16 \<and> crc_rtu (index_body idx) = idx_crc idx then (0, idx, e) else (- 1, idx, e))"

definition save_index :: "bool \<Rightarrow> nat \<Rightarrow> record_index \<Rightarrow> eeprom \<Rightarrow> int \<times> record_index \<times> eeprom" where
  "save_index locked i idx e =
     (let idx = idx\<lparr>idx_crc := crc_rtu (index_body idx)\<rparr>;
          (_, e) = eeprom_write_lock locked e (REC_INDEX_ADDR + 16 * i) (index_bytes idx) 16
      in (0, idx, e))"

definition record_position :: "nat \<Rightarrow> u32 \<Rightarrow> nat" where
  "record_position ty num = REC_START_ADDR ! ty + unat num mod REC_CAPACITY ! ty * REC_SIZE ! ty"

text \<open>The loop of \<open>record_init\<close> over the types, with the result so far.\<close>

fun init_loop :: "(nat \<Rightarrow> bool) \<Rightarrow> nat list \<Rightarrow> int \<Rightarrow> rec_state \<Rightarrow> int \<times> rec_state" where
  "init_loop lk [] ret st = (ret, st)"
| "init_loop lk (i # is) ret st =
     (let (r, idx, e) = load_index (lk i) i (rec_index st ! i) (rec_ee st);
          idx = (if r \<noteq> 0 then index_zero else idx);
          ret = (if r \<noteq> 0 then - 1 else ret);
          st = st\<lparr>rec_index := (rec_index st)[i := idx], rec_ee := e,
                 record_error := record_error st \<or> r \<noteq> 0,
                 rec_addr := (rec_addr st)[i := record_position i (tail_num idx)]\<rparr>
      in init_loop lk is ret st)"

definition record_init :: "(nat \<Rightarrow> bool) \<Rightarrow> u32 \<Rightarrow> rec_state \<Rightarrow> (int \<times> rec_state) option" where
  "record_init lk interval st =
     (if interval < REC_INTVAL_MIN then Some (- 1, st)
      else do {
        ts \<leftarrow> ostimer_register OSTIMER_RECORD_TASK (Some Bbox_Record_Task) 0 (int AGENT_PRIO_LO) (uint interval) (rec_timers st);
        let st = st\<lparr>rec_timers := ts,
          rec_stop := map (\<lambda>i. \<lparr>stop_type = if i = REC_TYPE_BBOX then of_nat REC_TYPE_BBOX
              else if i = REC_TYPE_STATE then of_nat REC_TYPE_STATE else 0xFF,
            stop_start = 0, stop_duration = 0\<rparr>) [0..<REC_TYPE_CNT]\<rparr>;
        Some (init_loop lk [0..<REC_TYPE_CNT] 0 st) })"

fun clear_loop :: "(nat \<Rightarrow> bool) \<Rightarrow> nat list \<Rightarrow> rec_state \<Rightarrow> rec_state" where
  "clear_loop lk [] st = st"
| "clear_loop lk (i # is) st =
     (let (_, idx, e) = save_index (lk i) i index_zero (rec_ee st)
      in clear_loop lk is (st\<lparr>rec_index := (rec_index st)[i := idx], rec_ee := e,
           rec_addr := (rec_addr st)[i := REC_START_ADDR ! i]\<rparr>))"

definition record_clear :: "(nat \<Rightarrow> bool) \<Rightarrow> rec_state \<Rightarrow> rec_state" where
  "record_clear lk st = clear_loop lk [0..<REC_TYPE_CNT] st"

definition record_get_info :: "nat \<Rightarrow> rec_state \<Rightarrow> record_info option" where
  "record_get_info ty st =
     (if ty < REC_TYPE_CNT then
        let idx = rec_index st ! ty in
        Some \<lparr>info_size = REC_SIZE ! ty, info_capacity = REC_CAPACITY ! ty, info_name = REC_TYPE_NAME ! ty,
          info_title = REC_TITLE ! ty, first_num = head_num idx,
          last_num = (if tail_num idx = 0 then 0 else tail_num idx - 1), info_count = rec_count idx\<rparr>
      else None)"

definition record_is_stop :: "nat \<Rightarrow> rec_state \<Rightarrow> bool" where
  "record_is_stop ty st =
     (let info = rec_stop st ! ty; now_sec = sys_sec st in
      if stop_duration info = - 1 then True
      else if stop_duration info > 0 then now_sec < stop_start info + stop_duration info
      else False)"

definition record_read :: "bool \<Rightarrow> nat \<Rightarrow> u32 \<Rightarrow> eeprom \<Rightarrow> int \<times> buf \<times> eeprom" where
  "record_read locked ty num e =
     (let (ret, b, e) = eeprom_read_lock locked e (record_position ty num) (REC_SIZE ! ty)
      in (if (word_of_int ret :: u32) = of_nat (REC_SIZE ! ty) then 0 else - 1, b, e))"

text \<open>
  The loop of \<open>record_load\<close>: \<open>n\<close> records have been read into the buffer, of which \<open>room\<close> bytes are
  left from \<open>pos\<close> on. No record type has size 0.
\<close>

function load_loop :: "(nat \<Rightarrow> bool) \<Rightarrow> nat \<Rightarrow> u32 \<Rightarrow> nat \<Rightarrow> u32 \<Rightarrow> nat \<Rightarrow> buf \<Rightarrow> nat \<Rightarrow> eeprom \<Rightarrow> u32 \<times> buf \<times> eeprom" where
  "load_loop lk ty count addr n pos buff room e =
     (if room \<ge> REC_SIZE ! ty \<and> 0 < REC_SIZE ! ty then
        let (ret, b, e) = eeprom_read_lock (lk (unat n)) e addr (REC_SIZE ! ty);
            buff = overwrite buff pos b
        in if (word_of_int ret :: u32) \<noteq> of_nat (REC_SIZE ! ty) then (n, buff, e)
           else
             let addr = addr + REC_SIZE ! ty;
                 addr = (if addr = REC_END_ADDR ! ty then REC_START_ADDR ! ty else addr);
                 n = n + 1
             in if n = count then (n, buff, e)
                else load_loop lk ty count addr n (pos + REC_SIZE ! ty) buff (room - REC_SIZE ! ty) e
      else (n, buff, e))"
  by pat_completeness auto
termination
  by (relation "measure (\<lambda>(lk, ty, count, addr, n, pos, buff, room, e). room)") auto

declare load_loop.simps [simp del]

definition record_load :: "(nat \<Rightarrow> bool) \<Rightarrow> nat \<Rightarrow> u32 \<Rightarrow> u32 \<Rightarrow> buf \<Rightarrow> nat \<Rightarrow> rec_state \<Rightarrow> u32 \<times> buf \<times> rec_state" where
  "record_load lk ty start count buff room st =
     (let count = (if count > rec_count (rec_index st ! ty) then rec_count (rec_index st ! ty) else count) in
      if count = 0 then (0, buff, st)
      else let (n, buff, e) = load_loop lk ty count (record_position ty start) 0 0 buff room (rec_ee st)
           in (n, buff, st\<lparr>rec_ee := e\<rparr>))"

text \<open>The part of \<open>record_save\<close> that moves the index and the address on.\<close>

definition advance_index :: "nat \<Rightarrow> record_index \<times> nat \<Rightarrow> record_index \<times> nat" where
  "advance_index ty = (\<lambda>(idx, addr).
     (let idx = idx\<lparr>tail_num := tail_num idx + 1\<rparr>;
          idx = (if tail_num idx \<ge> of_nat (REC_CAPACITY ! ty) then idx\<lparr>head_num := head_num idx + 1\<rparr> else idx);
          idx = (if rec_count idx < of_nat (REC_CAPACITY ! ty) then idx\<lparr>rec_count := rec_count idx + 1\<rparr> else idx);
          addr = addr + REC_SIZE ! ty;
          addr = (if addr = REC_END_ADDR ! ty then REC_START_ADDR ! ty else addr)
      in (idx, addr)))"

definition record_save :: "(nat \<Rightarrow> bool) \<Rightarrow> nat \<Rightarrow> buf \<Rightarrow> rec_state \<Rightarrow> int \<times> rec_state" where
  "record_save lk ty dat st =
     (let (len, e) = eeprom_write_lock (lk 0) (rec_ee st) (rec_addr st ! ty) dat (REC_SIZE ! ty);
          st = st\<lparr>rec_ee := e\<rparr>
      in if (word_of_int len :: u32) \<noteq> of_nat (REC_SIZE ! ty) then (- 1, st)
         else
           let (idx, addr) = advance_index ty (rec_index st ! ty, rec_addr st ! ty);
               (r, idx, e) = save_index (lk 1) ty idx (rec_ee st);
               st = st\<lparr>rec_index := (rec_index st)[ty := idx], rec_addr := (rec_addr st)[ty := addr], rec_ee := e\<rparr>
           in if r \<noteq> 0 then (- 1, st) else (0, st))"

subsection \<open>Commands\<close>

definition PROT_OP_RD2 :: u8 where "PROT_OP_RD2 = 2"

text \<open>The request and the head of its reply: a type, the first number and the count, in nine bytes.\<close>

definition req_bytes :: "u8 \<Rightarrow> u32 \<Rightarrow> u32 \<Rightarrow> buf" where
  "req_bytes ty first cnt = ty # le32 first @ le32 cnt"

fun read_loop :: "(nat \<Rightarrow> bool) \<Rightarrow> nat \<Rightarrow> u32 \<Rightarrow> nat \<Rightarrow> nat \<Rightarrow> nat \<Rightarrow> buf \<Rightarrow> eeprom \<Rightarrow> nat \<times> buf \<times> eeprom" where
  "read_loop lk ty first count 0 pos buff e = (count, buff, e)"
| "read_loop lk ty first count (Suc left) pos buff e =
     (let (ret, b, e) = record_read (lk count) ty (first + of_nat count) e; buff = overwrite buff pos b
      in if ret \<noteq> 0 then (count, buff, e)
         else read_loop lk ty first (Suc count) left (pos + REC_SIZE ! ty) buff e)"

definition cmd_get_record :: "(nat \<Rightarrow> bool) \<Rightarrow> u8 \<Rightarrow> buf \<Rightarrow> int \<Rightarrow> rec_state \<Rightarrow> (int \<times> rec_state) option" where
  "cmd_get_record lk op dat len st =
     (if op = PROT_OP_RD \<and> len = 1 then (if dat = [] then None else Some (0, st))
      else if op = PROT_OP_RD2 \<and> len = 9 then
        (if length dat < 9 then None
         else do {
           let ty = unat (dat ! 0);
           let first = get32 (drop 1 dat);
           let cnt = get32 (drop 5 dat);
           info \<leftarrow> record_get_info ty st;
           if cnt > 0 \<and> cnt \<le> REC_REQ_MAX_COUNT \<and> first > 0 then
             let cnt = (if cnt > info_count info then info_count info else cnt);
                 (n, buff, e) = read_loop lk ty first 0 (unat cnt) 9 (rec_buffer st) (rec_ee st)
             in Some (0, st\<lparr>rec_ee := e, rec_buffer := overwrite buff 0 (req_bytes (dat ! 0) first (of_nat n))\<rparr>)
           else Some (0, st) })
      else Some (0, st))"

definition cmd_stop_record :: "u8 \<Rightarrow> buf \<Rightarrow> int \<Rightarrow> rec_state \<Rightarrow> (int \<times> rec_state) option" where
  "cmd_stop_record op dat len st =
     (if length dat < 9 then None
      else
        let info = \<lparr>stop_type = dat ! 0, stop_start = get32 (drop 1 dat), stop_duration = get32 (drop 5 dat)\<rparr>;
            ty = unat (stop_type info)
        in if op = PROT_OP_RD \<and> len = 1 then (if ty < REC_TYPE_CNT then Some (0, st) else None)
           else if op = PROT_OP_WR \<and> len = 9 then
             (if ty < REC_TYPE_CNT then Some (0, st\<lparr>rec_stop := (rec_stop st)[ty := info]\<rparr>) else None)
           else Some (0, st))"

definition rtc_time_bytes :: "rtc_time \<Rightarrow> buf" where
  "rtc_time_bytes t = le16 (of_nat (year t)) @ map of_nat [month t, mday t, wday t, hour t, minute t, second t]"

definition rtc_time_of :: "buf \<Rightarrow> rtc_time" where
  "rtc_time_of b = \<lparr>year = unat (get16 b), month = unat (b ! 2), mday = unat (b ! 3), wday = unat (b ! 4),
     hour = unat (b ! 5), minute = unat (b ! 6), second = unat (b ! 7)\<rparr>"

definition cmd_time_record :: "(nat \<Rightarrow> bool) \<Rightarrow> bool \<Rightarrow> bool \<Rightarrow> u8 \<Rightarrow> buf \<Rightarrow> int \<Rightarrow> rec_state \<Rightarrow> (int \<times> rec_state) option" where
  "cmd_time_record lk init_ok sync_ok op dat len st =
     (if length dat < 8 then None
      else if op = PROT_OP_RD \<and> len = 0 then Some (0, st)
      else if op = PROT_OP_WR \<and> len = 8 then
        let (_, r) = gd32_rtc_set_time init_ok sync_ok (rtc_time_of dat) (rec_regs st)
        in Some (0, record_clear lk (st\<lparr>rec_regs := r\<rparr>))
      else Some (0, st))"

subsection \<open>The tasks\<close>

definition configTOTAL_HEAP_SIZE :: u32 where "configTOTAL_HEAP_SIZE = 80 * 1024"

text \<open>The sizes of the free heap, now and at the least, are arguments.\<close>

definition bbox_record_bytes :: "rtc_time \<Rightarrow> u32 \<Rightarrow> u32 \<Rightarrow> buf" where
  "bbox_record_bytes t free minimum =
     rtc_time_bytes t @ le16 0x66 @ le32 1 @ le32 configTOTAL_HEAP_SIZE @ le32 free @ le32 minimum"

definition bbox_record_task :: "(nat \<Rightarrow> bool) \<Rightarrow> u32 \<Rightarrow> u32 \<Rightarrow> rec_state \<Rightarrow> rec_state option" where
  "bbox_record_task lk free minimum st =
     (if record_error st then Some st
      else do {
        t \<leftarrow> gd32_rtc_sec_to_time (sys_sec st);
        Some (snd (record_save lk REC_TYPE_BBOX (bbox_record_bytes t free minimum) st)) })"

definition state_record_task :: "(nat \<Rightarrow> bool) \<Rightarrow> bool \<Rightarrow> rec_state \<Rightarrow> rec_state" where
  "state_record_task lk sync_ok st =
     (if record_error st then st
      else snd (record_save lk REC_TYPE_STATE (le32 (gd32_rtc_get_second sync_ok (rec_regs st)) @ [rec_dev_state st]) st))"

subsection \<open>The positions in the rings\<close>

lemma ring_config:
  assumes "ty < REC_TYPE_CNT"
  shows "0 < REC_SIZE ! ty" "REC_SIZE ! ty < 256" "0 < REC_CAPACITY ! ty" "REC_CAPACITY ! ty < 65536"
    "REC_END_ADDR ! ty = REC_START_ADDR ! ty + REC_CAPACITY ! ty * REC_SIZE ! ty"
proof -
  have "ty = 0 \<or> ty = 1" using assms by (auto simp: REC_TYPE_CNT_def)
  then show "0 < REC_SIZE ! ty" "REC_SIZE ! ty < 256" "0 < REC_CAPACITY ! ty" "REC_CAPACITY ! ty < 65536"
    "REC_END_ADDR ! ty = REC_START_ADDR ! ty + REC_CAPACITY ! ty * REC_SIZE ! ty"
    by (auto simp: REC_SIZE_def REC_CAPACITY_def REC_START_ADDR_def REC_END_ADDR_def)
qed

text \<open>The index and the address after \<open>n\<close> records.\<close>

definition index_after :: "nat \<Rightarrow> nat \<Rightarrow> record_index \<Rightarrow> record_index" where
  "index_after ty n x = x\<lparr>head_num := of_nat (if n < REC_CAPACITY ! ty then 0 else n + 1 - REC_CAPACITY ! ty),
     tail_num := of_nat n, rec_count := of_nat (min n (REC_CAPACITY ! ty))\<rparr>"

lemma advance_index_after:
  assumes ty: "ty < REC_TYPE_CNT" and n: "Suc n < 2 ^ 32"
  shows "advance_index ty (index_after ty n x, record_position ty (of_nat n)) = (index_after ty (Suc n) x, record_position ty (of_nat (Suc n)))"
proof -
  let ?c = "REC_CAPACITY ! ty" and ?z = "REC_SIZE ! ty"
  note cfg = ring_config [OF ty]
  have u: "unat (of_nat n :: u32) = n" "unat (of_nat (Suc n) :: u32) = Suc n" using n by (simp_all only: unat_of_nat) simp_all
  have c: "unat (of_nat ?c :: u32) = ?c" "unat (of_nat (min n ?c) :: u32) = min n ?c" using n cfg(4) by (simp_all add: unat_of_nat)
  have t: "(of_nat n :: u32) + 1 = of_nat (Suc n)" by simp
  have ge: "(of_nat ?c :: u32) \<le> of_nat (Suc n) \<longleftrightarrow> ?c \<le> Suc n" by (simp only: word_le_nat_alt c u)
  have lt: "(of_nat (min n ?c) :: u32) < of_nat ?c \<longleftrightarrow> n < ?c" by (simp only: word_less_nat_alt c) auto
  have lt2: "n < ?c \<Longrightarrow> (of_nat n :: u32) < of_nat ?c" by (simp only: word_less_nat_alt c u)
  have m: "n mod ?c < ?c" using cfg(3) by simp
  have "Suc (n mod ?c) * ?z = ?c * ?z \<longleftrightarrow> Suc (n mod ?c) = ?c" using cfg(1) by (simp only: mult_cancel2) simp
  then have a: "(if record_position ty (of_nat n) + ?z = REC_END_ADDR ! ty then REC_START_ADDR ! ty else record_position ty (of_nat n) + ?z)
      = record_position ty (of_nat (Suc n))"
    by (auto simp: record_position_def u(1) u(2) [unfolded of_nat_Suc] cfg(5) mod_Suc)
  have h: "(of_nat (if n < ?c then 0 else n + 1 - ?c) :: u32) + 1 = of_nat (Suc n + 1 - ?c)" if "?c \<le> Suc n"
  proof -
    have "(if n < ?c then 0 else n + 1 - ?c) + 1 = Suc n + 1 - ?c" using that by auto
    then show ?thesis by (metis of_nat_1 of_nat_add)
  qed
  have r: "(of_nat (min n ?c) :: u32) + 1 = of_nat (min (Suc n) ?c)" if "n < ?c"
    using that by (metis Suc_leI less_imp_le min_absorb1 t)
  have f: "advance_index ty (index_after ty n x, record_position ty (of_nat n)) = (index_after ty n x
      \<lparr>head_num := (if ?c \<le> Suc n then of_nat (if n < ?c then 0 else n + 1 - ?c) + 1 else of_nat (if n < ?c then 0 else n + 1 - ?c)),
       tail_num := of_nat (Suc n), rec_count := (if n < ?c then of_nat (min n ?c) + 1 else of_nat (min n ?c))\<rparr>,
      record_position ty (of_nat (Suc n)))"
    unfolding advance_index_def prod.case Let_def a index_after_def
    by (simp add: t lt lt2 ge del: of_nat_Suc)
  have "(if ?c \<le> Suc n then of_nat (if n < ?c then 0 else n + 1 - ?c) + 1 else of_nat (if n < ?c then 0 else n + 1 - ?c) :: u32)
      = of_nat (if Suc n < ?c then 0 else Suc n + 1 - ?c)" using h by (simp del: of_nat_Suc)
  moreover have "(if n < ?c then of_nat (min n ?c) + 1 else of_nat (min n ?c) :: u32) = of_nat (min (Suc n) ?c)"
    using r by (simp add: min_def del: of_nat_Suc)
  ultimately show ?thesis unfolding f by (simp add: index_after_def del: of_nat_Suc)
qed

lemma advance_n:
  assumes "ty < REC_TYPE_CNT" and "n < 2 ^ 32"
  shows "(advance_index ty ^^ n) (index_zero, REC_START_ADDR ! ty) = (index_after ty n index_zero, record_position ty (of_nat n))"
  using assms(2)
proof (induction n)
  case 0
  then show ?case using ring_config(3) [OF assms(1)] by (simp add: index_after_def index_zero_def record_position_def)
next
  case (Suc n)
  then show ?case using advance_index_after [OF assms(1), of n index_zero] by simp
qed

lemma position_in_ring:
  assumes "ty < REC_TYPE_CNT"
  shows "REC_START_ADDR ! ty \<le> record_position ty num \<and> record_position ty num + REC_SIZE ! ty \<le> REC_END_ADDR ! ty"
proof -
  note cfg = ring_config [OF assms]
  have "Suc (unat num mod REC_CAPACITY ! ty) \<le> REC_CAPACITY ! ty" using cfg(3) by (simp add: Suc_leI)
  then have "Suc (unat num mod REC_CAPACITY ! ty) * REC_SIZE ! ty \<le> REC_CAPACITY ! ty * REC_SIZE ! ty" by (rule mult_le_mono1)
  then show ?thesis by (simp add: record_position_def cfg(5))
qed

subsection \<open>What the comparison of results with sizes does\<close>

lemma lock_results:
  "fst (eeprom_read_lock lk e a n) \<in> {0, - 1}" "fst (eeprom_write_lock lk e a b n) \<in> {0, - 1}"
  by (auto simp: eeprom_read_lock_def eeprom_write_lock_def split: prod.splits)

lemma lock_result_size:
  assumes "ret = 0 \<or> ret = - 1" and "0 < n" and "n < 256"
  shows "(word_of_int ret :: u32) \<noteq> of_nat n"
proof
  assume a: "(word_of_int ret :: u32) = of_nat n"
  have "unat (of_nat n :: u32) = n" using assms(3) by (simp add: unat_of_nat)
  then have "n = unat (word_of_int ret :: u32)" using a by simp
  moreover have "unat (- 1 :: u32) = 0xFFFFFFFF" by (simp add: unsigned_minus_1_eq_mask mask_eq_exp_minus_1)
  ultimately show False using assms by auto
qed

lemma load_index_fails: "fst (load_index lk i idx e) = - 1"
proof -
  obtain ret b e' where r: "eeprom_read_lock lk e (REC_INDEX_ADDR + 16 * i) 16 = (ret, b, e')" by (metis prod_cases3)
  then have "ret = 0 \<or> ret = - 1" using lock_results(1) [of lk e "REC_INDEX_ADDR + 16 * i" 16] by auto
  then have "(word_of_int ret :: u32) \<noteq> 16" using lock_result_size [of ret 16] by simp
  then show ?thesis by (simp add: load_index_def r)
qed

lemma record_read_fails: "ty < REC_TYPE_CNT \<Longrightarrow> fst (record_read lk ty num e) = - 1"
proof -
  assume ty: "ty < REC_TYPE_CNT"
  obtain ret b e' where r: "eeprom_read_lock lk e (record_position ty num) (REC_SIZE ! ty) = (ret, b, e')" by (metis prod_cases3)
  then have "ret = 0 \<or> ret = - 1" using lock_results(1) [of lk e "record_position ty num" "REC_SIZE ! ty"] by auto
  then have "(word_of_int ret :: u32) \<noteq> of_nat (REC_SIZE ! ty)" using lock_result_size ring_config [OF ty] by blast
  then show ?thesis by (simp add: record_read_def r)
qed

lemma record_load_fails: "ty < REC_TYPE_CNT \<Longrightarrow> fst (record_load lk ty start cnt buff room st) = 0"
proof -
  assume ty: "ty < REC_TYPE_CNT"
  let ?a = "record_position ty start"
  obtain ret b e' where r: "eeprom_read_lock (lk 0) (rec_ee st) ?a (REC_SIZE ! ty) = (ret, b, e')" by (metis prod_cases3)
  then have "ret = 0 \<or> ret = - 1" using lock_results(1) [of "lk 0" "rec_ee st" ?a "REC_SIZE ! ty"] by auto
  then have "(word_of_int ret :: u32) \<noteq> of_nat (REC_SIZE ! ty)" using lock_result_size ring_config [OF ty] by blast
  then have "fst (load_loop lk ty c ?a 0 0 buff room (rec_ee st)) = 0" for c by (simp add: load_loop.simps r)
  then show ?thesis by (simp add: record_load_def Let_def case_prod_unfold)
qed

lemma record_save_fails:
  assumes "ty < REC_TYPE_CNT"
  shows "record_save lk ty dat st = (- 1, st\<lparr>rec_ee := snd (eeprom_write_lock (lk 0) (rec_ee st) (rec_addr st ! ty) dat (REC_SIZE ! ty))\<rparr>)"
proof -
  obtain ret e' where r: "eeprom_write_lock (lk 0) (rec_ee st) (rec_addr st ! ty) dat (REC_SIZE ! ty) = (ret, e')" by fastforce
  then have "ret = 0 \<or> ret = - 1" using lock_results(2) [of "lk 0" "rec_ee st" "rec_addr st ! ty" dat "REC_SIZE ! ty"] by auto
  then have "(word_of_int ret :: u32) \<noteq> of_nat (REC_SIZE ! ty)" using lock_result_size ring_config [OF assms] by blast
  then show ?thesis by (simp add: record_save_def r)
qed

lemma init_loop_fails:
  "fst (init_loop lk is ret st) = (if is = [] then ret else - 1)
   \<and> record_error (snd (init_loop lk is ret st)) = (record_error st \<or> is \<noteq> [])"
proof (induction "is" arbitrary: ret st)
  case (Cons i "is")
  obtain idx e where "load_index (lk i) i (rec_index st ! i) (rec_ee st) = (- 1, idx, e)"
    using load_index_fails [of "lk i" i "rec_index st ! i" "rec_ee st"] by (metis prod.collapse)
  then show ?case using Cons.IH by simp
qed simp

text \<open>The address at which the next record goes is always that from which \<open>record_read\<close> reads the record of this
  number, inside the ring, after any number of records below the range of the counter; the count
  saturates at the capacity. From the capacity on the first number is one too high, so that the oldest record of the full ring is
  not counted as present.\<close>

theorem record_ring_positions:
  assumes "ty < REC_TYPE_CNT" and "n < 2 ^ 32"
    and "(advance_index ty ^^ n) (index_zero, REC_START_ADDR ! ty) = (idx, addr)"
  shows "addr = record_position ty (tail_num idx) \<and> REC_START_ADDR ! ty \<le> addr \<and> addr + REC_SIZE ! ty \<le> REC_END_ADDR ! ty
    \<and> unat (tail_num idx) = n \<and> unat (rec_count idx) = min n (REC_CAPACITY ! ty)
    \<and> unat (head_num idx) = (if n < REC_CAPACITY ! ty then 0 else n + 1 - REC_CAPACITY ! ty)"
proof -
  have "idx = index_after ty n index_zero" "addr = record_position ty (of_nat n)"
    using advance_n [OF assms(1,2)] assms(3) by simp_all
  moreover have u: "unat (of_nat k :: u32) = k" if "k \<le> n" for k using that assms(2) by (simp add: unat_of_nat)
  define k where "k = (if n < REC_CAPACITY ! ty then 0 else n + 1 - REC_CAPACITY ! ty)"
  have "head_num (index_after ty n index_zero) = of_nat k" by (simp add: index_after_def k_def)
  moreover have "k \<le> n" using ring_config(3) [OF assms(1)] by (auto simp: k_def)
  ultimately show ?thesis
    using position_in_ring [OF assms(1), of "of_nat n"] by (simp add: u k_def [symmetric]) (simp add: index_after_def u)
qed

theorem record_ring_positions_witness:
  "\<exists>idx addr. (advance_index 1 ^^ 3) (index_zero, REC_START_ADDR ! 1) = (idx, addr) \<and> addr = 63375 \<and> unat (tail_num idx) = 3"
proof -
  obtain idx addr where e: "(advance_index 1 ^^ 3) (index_zero, REC_START_ADDR ! 1) = (idx, addr)" by fastforce
  then show ?thesis
    using record_ring_positions [OF _ _ e]
    by (simp add: REC_TYPE_CNT_def record_position_def REC_START_ADDR_def REC_CAPACITY_def REC_SIZE_def)
qed

text \<open>The results of the EEPROM functions, 0 or -1, are compared with numbers of bytes, so no index is ever loaded: with an
  admissible interval the initialisation fails and marks the records as defective, whereupon neither task saves anything;
  and a record is never reported as read, loaded or saved.\<close>

theorem records_never_work:
  assumes "REC_INTVAL_MIN \<le> interval" and "OSTIMER_RECORD_TASK < length (rec_timers st)" and "ty < REC_TYPE_CNT"
  shows "\<exists>st'. record_init lk interval st = Some (- 1, st')
    \<and> bbox_record_task lk2 free minimum st' = Some st' \<and> state_record_task lk3 sync_ok st' = st'
    \<and> fst (record_read b ty num e) = - 1 \<and> fst (record_load lk4 ty num cnt buff room st') = 0
    \<and> fst (record_save lk5 ty dat st') = - 1 \<and> rec_index (snd (record_save lk5 ty dat st')) = rec_index st'
    \<and> rec_addr (snd (record_save lk5 ty dat st')) = rec_addr st'"
proof -
  have "\<not> interval < REC_INTVAL_MIN" using assms(1) by simp
  then obtain st1 where i: "record_init lk interval st = Some (init_loop lk [0..<REC_TYPE_CNT] 0 st1)"
    using assms(2) by (auto simp: record_init_def ostimer_register_def Let_def)
  have ne: "[0..<REC_TYPE_CNT] \<noteq> []" by (simp add: REC_TYPE_CNT_def)
  have "init_loop lk [0..<REC_TYPE_CNT] 0 st1 = (- 1, snd (init_loop lk [0..<REC_TYPE_CNT] 0 st1))"
    using init_loop_fails [of lk "[0..<REC_TYPE_CNT]" 0 st1] ne by (metis prod.collapse)
  moreover have "record_error (snd (init_loop lk [0..<REC_TYPE_CNT] 0 st1))"
    using init_loop_fails [of lk "[0..<REC_TYPE_CNT]" 0 st1] ne by simp
  ultimately show ?thesis
    using i record_read_fails record_load_fails assms(3)
    by (intro exI [of _ "snd (init_loop lk [0..<REC_TYPE_CNT] 0 st1)"])
      (simp add: bbox_record_task_def state_record_task_def record_save_fails)
qed

definition sample_records :: rec_state where
  "sample_records = \<lparr>rec_index = replicate 2 index_zero, rec_stop = [], rec_addr = [0, 0], rec_buffer = replicate 552 0,
     rec_ee = \<lparr>ee_mem = (\<lambda>_. 0), ee_nack = []\<rparr>,
     rec_timers = replicate OSTIMER_COUNT \<lparr>ot_func = None, ot_arg = 0, ot_prio = 0, ot_start = 0, ot_period = 0, ot_enable = 0\<rparr>,
     record_error = False, rec_regs = \<lparr>RTC_TIME = 0, RTC_DATE = 0\<rparr>, sys_sec = 0, rec_dev_state = 0\<rparr>"

theorem records_never_work_witness:
  "\<exists>st'. record_init (\<lambda>_. True) 1000 sample_records = Some (- 1, st') \<and> state_record_task (\<lambda>_. True) True st' = st'"
proof -
  have "REC_INTVAL_MIN \<le> 1000" "OSTIMER_RECORD_TASK < length (rec_timers sample_records)" "REC_TYPE_BBOX < REC_TYPE_CNT"
    by (simp_all add: REC_INTVAL_MIN_def OSTIMER_RECORD_TASK_def OSTIMER_COUNT_def sample_records_def REC_TYPE_BBOX_def REC_TYPE_CNT_def)
  then show ?thesis
    using records_never_work [of 1000 sample_records REC_TYPE_BBOX "\<lambda>_. True" "\<lambda>_. True" 0 0 "\<lambda>_. True" True] by blast
qed

end
