(* ===== verification/Hq_Filter.thy ===== *)
theory Hq_Filter
  imports Hq_Generic "HOL-Library.Multiset"
begin

text \<open>
  The filters of \<open>src/lib/microlib/hq_filter.c\<close>: the trimmed mean over a sliding window with its selection
  algorithm, and the holding of peaks and valleys.

  An array of \<open>long long\<close> is a list of integers; a sum that leaves the range of 64 bits is undefined and
  gives \<open>None\<close>. The indices of the selection are integers as in the code; \<open>rnd n\<close> is the result
  of the \<open>n\<close>-th call of \<open>rand\<close>. Window sizes are natural numbers: the callers pass a \<open>uint16_t\<close> or a
  positive constant. The exponential average, which is floating-point arithmetic, is not modelled.
\<close>

definition FILTER_LEN_MAX :: nat where "FILTER_LEN_MAX = 500"

subsection \<open>Selection\<close>

definition swap :: "int list \<Rightarrow> int \<Rightarrow> int \<Rightarrow> int list" where
  "swap arr a b = (let temp = arr ! nat a; arr = arr[nat a := arr ! nat b] in arr[nat b := temp])"

text \<open>The loop of \<open>partition\<close> from \<open>j\<close> on, with \<open>n\<close> rounds left.\<close>

fun partition_loop :: "int list \<Rightarrow> int \<Rightarrow> int \<Rightarrow> int \<Rightarrow> nat \<Rightarrow> int list \<times> int" where
  "partition_loop arr pivot i j 0 = (arr, i)"
| "partition_loop arr pivot i j (Suc n) =
     (if arr ! nat j \<le> pivot then partition_loop (swap arr (i + 1) j) pivot (i + 1) (j + 1) n
      else partition_loop arr pivot i (j + 1) n)"

definition partition_arr :: "int list \<Rightarrow> int \<Rightarrow> int \<Rightarrow> int list \<times> int" where
  "partition_arr arr low high =
     (let pivot = arr ! nat high;
          (arr, i) = partition_loop arr pivot (low - 1) low (nat (high - low))
      in (swap arr (i + 1) high, i + 1))"

lemma partition_loop_bounds: "i \<le> snd (partition_loop arr pivot i j n) \<and> snd (partition_loop arr pivot i j n) \<le> i + int n"
proof (induction arr pivot i j n rule: partition_loop.induct)
  case (2 arr pivot i j n)
  then show ?case by (cases "arr ! nat j \<le> pivot") auto
qed simp

lemma partition_bounds:
  "low \<le> high \<Longrightarrow> low \<le> snd (partition_arr arr low high) \<and> snd (partition_arr arr low high) \<le> high"
  using partition_loop_bounds [of "low - 1" arr "arr ! nat high" low "nat (high - low)"]
  by (simp add: partition_arr_def Let_def case_prod_unfold)

function select_loop :: "(nat \<Rightarrow> nat) \<Rightarrow> nat \<Rightarrow> int list \<Rightarrow> int \<Rightarrow> int \<Rightarrow> int \<Rightarrow> int \<times> int list \<times> nat" where
  "select_loop rnd n arr low high k =
     (if low \<le> high then
        let random_index = low + int (rnd n) mod (high - low + 1);
            ap = partition_arr (swap arr random_index high) low high;
            left_size = snd ap - low + 1
        in if left_size = k then (fst ap ! nat (snd ap), fst ap, Suc n)
           else if k < left_size then select_loop rnd (Suc n) (fst ap) low (snd ap - 1) k
           else select_loop rnd (Suc n) (fst ap) (snd ap + 1) high (k - left_size)
      else (- 1, arr, n))"
  by pat_completeness auto
termination
proof (relation "measure (\<lambda>(rnd, n, arr, low, high, k). nat (high - low + 1))")
  fix rnd n arr low high random_index ap and k left_size :: int
  assume a: "low \<le> (high :: int)" "ap = partition_arr (swap arr random_index high) low high"
  have b: "low \<le> snd ap" "snd ap \<le> high" using partition_bounds [OF a(1)] a(2) by auto
  show "((rnd, Suc n, fst ap, low, snd ap - 1, k), rnd, n, arr, low, high, k)
      \<in> measure (\<lambda>(rnd, n, arr, low, high, k). nat (high - low + 1))" using b a(1) by auto
  show "((rnd, Suc n, fst ap, snd ap + 1, high, k - left_size), rnd, n, arr, low, high, k)
      \<in> measure (\<lambda>(rnd, n, arr, low, high, k). nat (high - low + 1))" using b a(1) by auto
qed simp

declare select_loop.simps [simp del]

text \<open>The value, the array and the number of calls of \<open>rand\<close> so far.\<close>

definition quick_select :: "(nat \<Rightarrow> nat) \<Rightarrow> nat \<Rightarrow> int list \<Rightarrow> int \<Rightarrow> int \<Rightarrow> int \<Rightarrow> int \<times> int list \<times> nat" where
  "quick_select rnd n arr low high k =
     (if k \<le> 0 \<or> k > high - low + 1 then (- 1, arr, n) else select_loop rnd n arr low high k)"

subsection \<open>The trimmed mean\<close>

definition add64 :: "int \<Rightarrow> int \<Rightarrow> int option" where
  "add64 a b = (if - (2 ^ 63) \<le> a + b \<and> a + b < 2 ^ 63 then Some (a + b) else None)"

text \<open>
  \<open>(int)(0.2f * 0.5f * size)\<close>: 0.2f is 13421773 / 2^26. The product with a size up to 500 is either
  more than a float's precision away from the next integer or just above one, so that its rounding does not
  change the integer part.
\<close>

definition num_to_remove :: "nat \<Rightarrow> nat" where
  "num_to_remove n = 13421773 * n div 2 ^ 27"

fun range_sum :: "int \<Rightarrow> int \<Rightarrow> int list \<Rightarrow> int \<Rightarrow> int \<Rightarrow> (int \<times> int) option" where
  "range_sum start stop [] sm cnt = Some (sm, cnt)"
| "range_sum start stop (x # xs) sm cnt =
     (if x \<ge> start \<and> x \<le> stop then do { sm \<leftarrow> add64 sm x; range_sum start stop xs sm (cnt + 1) }
      else range_sum start stop xs sm cnt)"

definition calculate_filtered_average :: "(nat \<Rightarrow> nat) \<Rightarrow> nat \<Rightarrow> int list \<Rightarrow> nat \<Rightarrow> (int \<times> int list \<times> nat) option" where
  "calculate_filtered_average rnd n dat sz =
     (let r = num_to_remove sz;
          (start, dat, n) = quick_select rnd n dat 0 (int sz - 1) (int r + 1);
          (stop, dat, n) = quick_select rnd n dat 0 (int sz - 1) (int sz - int r)
      in do {
        (sm, cnt) \<leftarrow> range_sum start stop (take sz dat) 0 0;
        Some (if cnt > 0 then sm sdiv cnt else - 1, dat, n) })"

subsection \<open>The sliding window\<close>

record slid_remove =
  sr_buff :: "int list"
  sr_front :: nat
  sr_sum :: int
  sr_count :: nat

fun window_sum :: "int list \<Rightarrow> int \<Rightarrow> int option" where
  "window_sum [] sm = Some sm"
| "window_sum (x # xs) sm = do { sm \<leftarrow> add64 sm x; window_sum xs sm }"

text \<open>The values at the \<open>n\<close> positions of the ring from \<open>front\<close> on, which the loops visit.\<close>

definition window :: "slid_remove \<Rightarrow> nat \<Rightarrow> int list" where
  "window s n = map (\<lambda>i. sr_buff s ! ((sr_front s + i) mod FILTER_LEN_MAX)) [0..<n]"

definition add_sample :: "slid_remove \<Rightarrow> nat \<Rightarrow> int \<Rightarrow> slid_remove" where
  "add_sample s sz new_data =
     (let s = (if sr_count s > sz
               then s\<lparr>sr_front := (sr_front s + (sr_count s - sz)) mod FILTER_LEN_MAX, sr_count := sz\<rparr> else s);
          s = s\<lparr>sr_buff := (sr_buff s)[(sr_front s + sr_count s) mod FILTER_LEN_MAX := new_data]\<rparr>
      in if sr_count s \<ge> sz then s\<lparr>sr_front := (sr_front s + 1) mod FILTER_LEN_MAX\<rparr>
         else s\<lparr>sr_count := sr_count s + 1\<rparr>)"

definition sliding_remove_average ::
  "(nat \<Rightarrow> nat) \<Rightarrow> nat \<Rightarrow> slid_remove \<Rightarrow> nat \<Rightarrow> int \<Rightarrow> int list \<Rightarrow> (int \<times> slid_remove \<times> int list \<times> nat) option" where
  "sliding_remove_average rnd n s sz new_data buff_copy =
     (let sz = (if sz > FILTER_LEN_MAX then FILTER_LEN_MAX else sz);
          s = add_sample s sz new_data
      in if sr_count s < sz then do {
           sm \<leftarrow> window_sum (window s (sr_count s)) 0;
           Some (sm sdiv int (sr_count s), s, buff_copy, n) }
         else do {
           let buff_copy = window s sz @ drop sz buff_copy;
           (filtered_volt, buff_copy, n) \<leftarrow> calculate_filtered_average rnd n buff_copy sz;
           if filtered_volt = - 1 then do {
             sm \<leftarrow> window_sum (window s sz) 0;
             if sz = 0 then None else Some (sm sdiv int sz, s, buff_copy, n) }
           else Some (filtered_volt, s, buff_copy, n) })"

subsection \<open>Holding\<close>

definition HOLDING_TIME_UPPER :: int where "HOLDING_TIME_UPPER = 300"

record slid_holding =
  sh_data :: int
  sh_count :: u32

definition peak_holding_fliter :: "slid_holding \<Rightarrow> int \<Rightarrow> int \<Rightarrow> int \<times> slid_holding" where
  "peak_holding_fliter s sz new_data =
     (if sz = HOLDING_TIME_UPPER \<and> sh_count s \<noteq> 0 then (sh_data s, s)
      else
        let s = (if sz = 0 then s\<lparr>sh_data := new_data, sh_count := 0\<rparr> else s) in
        if sh_count s = 0 then (new_data, s\<lparr>sh_data := new_data, sh_count := sh_count s + 1\<rparr>)
        else
          let s = (if sh_data s < new_data then s\<lparr>sh_data := new_data, sh_count := 1\<rparr> else s)
          in (sh_data s, s))"

definition valley_holding_fliter :: "slid_holding \<Rightarrow> int \<Rightarrow> int \<Rightarrow> int \<times> slid_holding" where
  "valley_holding_fliter s sz new_data =
     (if sz = HOLDING_TIME_UPPER \<and> sh_count s \<noteq> 0 then (sh_data s, s)
      else
        let s = (if sz = 0 then s\<lparr>sh_data := new_data, sh_count := 0\<rparr> else s) in
        if sh_count s = 0 then (new_data, s\<lparr>sh_data := new_data, sh_count := sh_count s + 1\<rparr>)
        else
          let s = (if sh_data s > new_data then s\<lparr>sh_data := new_data, sh_count := 1\<rparr> else s)
          in (sh_data s, s))"

subsection \<open>Partitioning\<close>

lemma swap_nat:
  "swap arr (int a) (int b) = arr[a := arr ! b, b := arr ! a]"
  by (simp add: swap_def)

lemma swap_facts:
  assumes "a < length arr" and "b < length arr"
  shows "length (swap arr (int a) (int b)) = length arr" "mset (swap arr (int a) (int b)) = mset arr"
    "swap arr (int a) (int b) ! a = arr ! b" "swap arr (int a) (int b) ! b = arr ! a"
    "x \<noteq> a \<Longrightarrow> x \<noteq> b \<Longrightarrow> swap arr (int a) (int b) ! x = arr ! x"
  using assms by (auto simp: swap_nat nth_list_update mset_swap)

definition same_outside :: "nat \<Rightarrow> nat \<Rightarrow> int list \<Rightarrow> int list \<Rightarrow> bool" where
  "same_outside l m xs ys \<longleftrightarrow> length ys = length xs \<and> mset ys = mset xs \<and> (\<forall>x. x < l \<or> m \<le> x \<longrightarrow> ys ! x = xs ! x)"

lemma same_outside_refl [simp]: "same_outside l m xs xs"
  by (simp add: same_outside_def)

lemma same_outside_trans:
  "same_outside l' m' xs ys \<Longrightarrow> same_outside l'' m'' ys zs \<Longrightarrow> l \<le> l' \<Longrightarrow> m' \<le> m \<Longrightarrow> l \<le> l'' \<Longrightarrow> m'' \<le> m
   \<Longrightarrow> same_outside l m xs zs"
  by (auto simp: same_outside_def)

lemma swap_same_outside:
  "l \<le> a \<Longrightarrow> a < m \<Longrightarrow> l \<le> b \<Longrightarrow> b < m \<Longrightarrow> m \<le> length arr \<Longrightarrow> same_outside l m arr (swap arr (int a) (int b))"
  by (auto simp: same_outside_def swap_facts)

lemma partition_loop_spec:
  assumes "l \<le> p" and "p \<le> q" and "q + n \<le> length arr"
    and "\<And>x. l \<le> x \<Longrightarrow> x < p \<Longrightarrow> arr ! x \<le> pivot" and "\<And>x. p \<le> x \<Longrightarrow> x < q \<Longrightarrow> pivot < arr ! x"
  shows "\<exists>arr' p'. partition_loop arr pivot (int p - 1) (int q) n = (arr', int p' - 1) \<and> p \<le> p' \<and> p' \<le> q + n
    \<and> same_outside l (q + n) arr arr' \<and> (\<forall>x. l \<le> x \<and> x < p' \<longrightarrow> arr' ! x \<le> pivot) \<and> (\<forall>x. p' \<le> x \<and> x < q + n \<longrightarrow> pivot < arr' ! x)"
  using assms
proof (induction n arbitrary: arr p q)
  case (Suc n)
  show ?case
  proof (cases "arr ! q \<le> pivot")
    case True
    let ?b = "swap arr (int p) (int q)"
    have l: "p < length arr" "q < length arr" using Suc.prems by simp_all
    note sw = swap_facts [OF l]
    have "?b ! x \<le> pivot" if "l \<le> x" "x < Suc p" for x
      using that Suc.prems(4) [of x] True Suc.prems(2) sw(3) sw(5) [of x] by (cases "x = p") auto
    moreover have "pivot < ?b ! x" if "Suc p \<le> x" "x < Suc q" for x
      using that Suc.prems(5) [of x] Suc.prems(5) [of p] sw(4) sw(5) [of x] by (cases "x = q") auto
    ultimately obtain arr' p' where r: "partition_loop ?b pivot (int (Suc p) - 1) (int (Suc q)) n = (arr', int p' - 1)"
      "Suc p \<le> p'" "p' \<le> Suc q + n" "same_outside l (Suc q + n) ?b arr'" "\<forall>x. l \<le> x \<and> x < p' \<longrightarrow> arr' ! x \<le> pivot"
      "\<forall>x. p' \<le> x \<and> x < Suc q + n \<longrightarrow> pivot < arr' ! x"
      using Suc.IH [of "Suc p" "Suc q" ?b] Suc.prems(1-3) sw(1) by auto
    moreover have "same_outside l (Suc q + n) arr arr'"
      using same_outside_trans [OF swap_same_outside [of l p "Suc q + n" q arr] r(4)] Suc.prems(1-3) by simp
    ultimately show ?thesis using True by (intro exI [of _ arr'] exI [of _ p']) (simp add: algebra_simps)
  next
    case False
    then have "pivot < arr ! x" if "p \<le> x" "x < Suc q" for x using that Suc.prems(5) [of x] by (cases "x = q") auto
    then obtain arr' p' where "partition_loop arr pivot (int p - 1) (int (Suc q)) n = (arr', int p' - 1)"
      "p \<le> p'" "p' \<le> Suc q + n" "same_outside l (Suc q + n) arr arr'" "\<forall>x. l \<le> x \<and> x < p' \<longrightarrow> arr' ! x \<le> pivot"
      "\<forall>x. p' \<le> x \<and> x < Suc q + n \<longrightarrow> pivot < arr' ! x"
      using Suc.IH [of p "Suc q" arr] Suc.prems by auto
    then show ?thesis using False by (intro exI [of _ arr'] exI [of _ p']) (simp add: algebra_simps)
  qed
qed auto

lemma partition_spec:
  assumes "l < m" and "m \<le> length arr"
  obtains arr' p where "partition_arr arr (int l) (int m - 1) = (arr', int p)" "l \<le> p" "p < m" "same_outside l m arr arr'"
    "\<And>x. l \<le> x \<Longrightarrow> x < p \<Longrightarrow> arr' ! x \<le> arr' ! p" "\<And>x. p < x \<Longrightarrow> x < m \<Longrightarrow> arr' ! p < arr' ! x"
proof -
  obtain h where h: "m = Suc h" using assms(1) by (cases m) auto
  let ?v = "arr ! h"
  obtain arr1 p where r: "partition_loop arr ?v (int l - 1) (int l) (h - l) = (arr1, int p - 1)" "l \<le> p" "p \<le> h"
    "same_outside l h arr arr1" "\<forall>x. l \<le> x \<and> x < p \<longrightarrow> arr1 ! x \<le> ?v" "\<forall>x. p \<le> x \<and> x < h \<longrightarrow> ?v < arr1 ! x"
    using partition_loop_spec [of l l l "h - l" arr ?v] assms h by auto
  have len: "p < length arr1" "h < length arr1" using r(3,4) assms(2) h by (simp_all add: same_outside_def)
  note sw = swap_facts [OF len]
  have v: "arr1 ! h = ?v" using r(4) by (simp add: same_outside_def)
  have "nat (int h - int l) = h - l" by simp
  then have e: "partition_arr arr (int l) (int m - 1) = (swap arr1 (int p) (int h), int p)"
    using r(1) by (simp add: partition_arr_def h)
  have "same_outside l m arr (swap arr1 (int p) (int h))"
    by (rule same_outside_trans [OF r(4) swap_same_outside [of l p m h]]) (use r(2,3) len h in auto)
  moreover have "swap arr1 (int p) (int h) ! x \<le> swap arr1 (int p) (int h) ! p" if "l \<le> x" "x < p" for x
    using that r(3,5) sw(3) sw(5) [of x] v by auto
  moreover have "swap arr1 (int p) (int h) ! p < swap arr1 (int p) (int h) ! x" if "p < x" "x < m" for x
    using that r(6) sw(3,4) sw(5) [of x] v h by (cases "x = h") auto
  ultimately show thesis using that [OF e] r(2,3) h by simp
qed

subsection \<open>The selection finds the order statistic\<close>

definition slice :: "nat \<Rightarrow> nat \<Rightarrow> int list \<Rightarrow> int list" where
  "slice l m xs = take (m - l) (drop l xs)"

lemma slice_split:
  assumes "l \<le> p" and "p < m" and "m \<le> length xs"
  shows "slice l m xs = slice l p xs @ xs ! p # slice (Suc p) m xs"
proof -
  have "m - l = (p - l) + (m - p)" using assms by simp
  then have "slice l m xs = take (p - l) (drop l xs) @ take (m - p) (drop (p - l) (drop l xs))"
    by (simp add: slice_def take_add)
  also have "drop (p - l) (drop l xs) = xs ! p # drop (Suc p) xs" using assms by (simp add: Cons_nth_drop_Suc)
  also have "take (m - p) (xs ! p # drop (Suc p) xs) = xs ! p # take (m - Suc p) (drop (Suc p) xs)"
  proof -
    obtain d where "m = Suc (p + d)" using less_imp_Suc_add [OF assms(2)] by auto
    then show ?thesis by (simp add: Suc_diff_le)
  qed
  finally show ?thesis by (simp add: slice_def)
qed

lemma mset_slice_cong:
  assumes "same_outside l m xs ys" and "l \<le> m" and "m \<le> length xs"
  shows "mset (slice l m ys) = mset (slice l m xs)"
proof -
  have split: "mset zs = mset (take l zs) + mset (slice l m zs) + mset (drop m zs)" if "m \<le> length zs" for zs
  proof -
    have "zs = take l zs @ slice l m zs @ drop (m - l) (drop l zs)" unfolding slice_def by (simp only: append_take_drop_id)
    then have "mset zs = mset (take l zs @ slice l m zs @ drop (m - l) (drop l zs))" by simp
    then show ?thesis using assms(2) by (simp add: add.assoc)
  qed
  have "take l ys = take l xs" "drop m ys = drop m xs"
    using assms by (auto simp: same_outside_def intro!: nth_equalityI)
  then show ?thesis using split [of xs] split [of ys] assms(1,3) by (simp add: same_outside_def)
qed

lemma set_slice: "x \<in> set (slice l m xs) \<Longrightarrow> \<exists>i. l \<le> i \<and> i < m \<and> x = xs ! i"
proof -
  assume "x \<in> set (slice l m xs)"
  then obtain j where "j < length (slice l m xs)" "x = slice l m xs ! j" by (metis in_set_conv_nth)
  then show ?thesis by (intro exI [of _ "l + j"]) (auto simp: slice_def)
qed

lemma sort_pivot:
  assumes "\<forall>x \<in> set L. x \<le> v" and "\<forall>x \<in> set R. v < (x :: int)"
  shows "sort (L @ v # R) = sort L @ v # sort R"
  by (rule properties_for_sort) (use assms in \<open>auto simp: sorted_append less_imp_le\<close>, use assms in force)

lemma select_loop_spec:
  assumes "l < m" and "m \<le> length arr" and "0 < k" and "k \<le> int m - int l"
  shows "\<exists>arr' n'. select_loop rnd n arr (int l) (int m - 1) k = (sort (slice l m arr) ! (nat k - 1), arr', n') \<and> same_outside l m arr arr'"
  using assms
proof (induction "m - l" arbitrary: n arr l m k rule: less_induct)
  case less
  define r where "r = l + rnd n mod (m - l)"
  have ri: "int l + int (rnd n) mod (int m - 1 - int l + 1) = int r"
    using less.prems(1) by (simp add: r_def zmod_int of_nat_diff)
  have r: "l \<le> r" "r < m" using less.prems(1) mod_less_divisor [of "m - l" "rnd n"] unfolding r_def by linarith+
  define arr1 where "arr1 = swap arr (int r) (int m - 1)"
  have e1: "int m - 1 = int (m - 1)" using less.prems(1) by simp
  have o1: "same_outside l m arr arr1"
    unfolding arr1_def e1 by (rule swap_same_outside) (use r less.prems in auto)
  then have len1: "m \<le> length arr1" using less.prems(2) by (simp add: same_outside_def)
  obtain arr2 p where p: "partition_arr arr1 (int l) (int m - 1) = (arr2, int p)" "l \<le> p" "p < m" "same_outside l m arr1 arr2"
    and le: "\<And>x. l \<le> x \<Longrightarrow> x < p \<Longrightarrow> arr2 ! x \<le> arr2 ! p" and gr: "\<And>x. p < x \<Longrightarrow> x < m \<Longrightarrow> arr2 ! p < arr2 ! x"
    using partition_spec [OF less.prems(1) len1] by metis
  have o2: "same_outside l m arr arr2" using same_outside_trans [OF o1 p(4)] by simp
  then have len2: "m \<le> length arr2" using less.prems(2) by (simp add: same_outside_def)
  let ?L = "slice l p arr2" and ?R = "slice (Suc p) m arr2" and ?v = "arr2 ! p"
  have lL: "length ?L = p - l" using p len2 by (simp add: slice_def)
  have "mset (slice l m arr2) = mset (slice l m arr)" using mset_slice_cong [OF o2] less.prems by simp
  then have "sort (slice l m arr) = sort (slice l m arr2)" by (metis mset_sort properties_for_sort sorted_sort)
  also have "\<dots> = sort ?L @ ?v # sort ?R"
    unfolding slice_split [OF p(2,3) len2] using le gr by (intro sort_pivot) (auto dest!: set_slice)
  finally have srt: "sort (slice l m arr) = sort ?L @ ?v # sort ?R" .
  have step: "select_loop rnd n arr (int l) (int m - 1) k =
     (if int p - int l + 1 = k then (?v, arr2, Suc n)
      else if k < int p - int l + 1 then select_loop rnd (Suc n) arr2 (int l) (int p - 1) k
      else select_loop rnd (Suc n) arr2 (int (Suc p)) (int m - 1) (k - (int p - int l + 1)))"
    unfolding select_loop.simps [of rnd n arr] Let_def ri arr1_def [symmetric] p(1) using less.prems(1) by (simp add: algebra_simps)
  consider "int p - int l + 1 = k" | "k < int p - int l + 1" | "int p - int l + 1 < k" by linarith
  then show ?case
  proof cases
    case 1
    then have "nat k - 1 = length (sort ?L)" using lL p(2) by simp
    then show ?thesis unfolding step srt using 1 o2 by (simp add: nth_append)
  next
    case 2
    have sm: "p - l < m - l" using p(2,3) by linarith
    obtain arr' n' where rec: "select_loop rnd (Suc n) arr2 (int l) (int p - 1) k = (sort ?L ! (nat k - 1), arr', n')" "same_outside l p arr2 arr'"
      using less.hyps [OF sm, of arr2 k "Suc n"] 2 p(2,3) len2 less.prems(3) by auto
    have "same_outside l m arr arr'" using same_outside_trans [OF o2 rec(2)] p(3) by simp
    moreover have "nat k - 1 < length (sort ?L)" using lL 2 less.prems(3) by simp
    ultimately show ?thesis unfolding step srt using 2 rec(1) by (simp add: nth_append)
  next
    case 3
    let ?k = "k - (int p - int l + 1)"
    have sm: "m - Suc p < m - l" using p(2,3) by linarith
    obtain arr' n' where rec: "select_loop rnd (Suc n) arr2 (int (Suc p)) (int m - 1) ?k = (sort ?R ! (nat ?k - 1), arr', n')"
      "same_outside (Suc p) m arr2 arr'"
      using less.hyps [OF sm, of arr2 ?k "Suc n"] 3 p(2,3) len2 less.prems(4) by auto
    have "same_outside l m arr arr'" using same_outside_trans [OF o2 rec(2)] p(2) by simp
    moreover have "(sort ?L @ ?v # sort ?R) ! (nat k - 1) = sort ?R ! (nat ?k - 1)"
    proof -
      have "nat k - 1 = length (sort ?L) + Suc (nat ?k - 1)" using lL 3 p(2) by simp
      then show ?thesis by (simp add: nth_append)
    qed
    ultimately show ?thesis unfolding step srt using 3 rec(1) by simp
  qed
qed

lemma quick_select_spec:
  assumes "sz \<le> length arr" and "1 \<le> k" and "k \<le> sz"
  shows "\<exists>arr' n'. quick_select rnd n arr 0 (int sz - 1) (int k) = (sort (take sz arr) ! (k - 1), arr', n') \<and> same_outside 0 sz arr arr'"
  using select_loop_spec [of 0 sz arr "int k" rnd n] assms by (auto simp: quick_select_def slice_def)

subsection \<open>The trimmed mean\<close>

text \<open>The values from the \<open>r\<close>-th smallest to the \<open>r\<close>-th largest, counted from 0, and their mean.\<close>

definition trimmed :: "nat \<Rightarrow> int list \<Rightarrow> int list" where
  "trimmed r xs = filter (\<lambda>x. sort xs ! r \<le> x \<and> x \<le> sort xs ! (length xs - 1 - r)) xs"

definition mean :: "int list \<Rightarrow> int" where
  "mean xs = sum_list xs sdiv int (length xs)"

lemma add64_small: "\<bar>a\<bar> + \<bar>b\<bar> < 2 ^ 63 \<Longrightarrow> add64 a b = Some (a + b)"
  by (auto simp: add64_def)

lemma range_sum_eq:
  assumes "\<forall>x \<in> set xs. \<bar>x\<bar> \<le> B" and "\<bar>sm\<bar> + int (length xs) * B < 2 ^ 63" and "0 \<le> B"
  shows "range_sum start stop xs sm cnt
    = Some (sm + sum_list (filter (\<lambda>x. start \<le> x \<and> x \<le> stop) xs), cnt + int (length (filter (\<lambda>x. start \<le> x \<and> x \<le> stop) xs)))"
  using assms
proof (induction xs arbitrary: sm cnt)
  case (Cons x xs)
  have x: "\<bar>x\<bar> \<le> B" "0 \<le> int (length xs) * B" using Cons.prems(1,3) by simp_all
  have l: "\<bar>sm\<bar> + (B + int (length xs) * B) < 2 ^ 63" using Cons.prems(2) by (simp add: algebra_simps)
  have "add64 sm x = Some (sm + x)" using x l by (intro add64_small) linarith
  moreover have "\<bar>sm + x\<bar> + int (length xs) * B < 2 ^ 63" "\<bar>sm\<bar> + int (length xs) * B < 2 ^ 63" using x l by linarith+
  ultimately show ?case using Cons.IH Cons.prems(1,3) by simp
qed simp

lemma window_sum_eq:
  assumes "\<forall>x \<in> set xs. \<bar>x\<bar> \<le> B" and "\<bar>sm\<bar> + int (length xs) * B < 2 ^ 63" and "0 \<le> B"
  shows "window_sum xs sm = Some (sm + sum_list xs)"
  using assms
proof (induction xs arbitrary: sm)
  case (Cons x xs)
  have x: "\<bar>x\<bar> \<le> B" "0 \<le> int (length xs) * B" using Cons.prems(1,3) by simp_all
  have l: "\<bar>sm\<bar> + (B + int (length xs) * B) < 2 ^ 63" using Cons.prems(2) by (simp add: algebra_simps)
  have "add64 sm x = Some (sm + x)" using x l by (intro add64_small) linarith
  moreover have "\<bar>sm + x\<bar> + int (length xs) * B < 2 ^ 63" using x l by linarith
  ultimately show ?case using Cons.IH Cons.prems(1,3) by simp
qed simp

lemma num_to_remove_le: "0 < n \<Longrightarrow> 2 * num_to_remove n < n"
proof -
  assume "0 < n"
  have "num_to_remove n * 2 ^ 27 \<le> 13421773 * n" unfolding num_to_remove_def by simp
  then show ?thesis using \<open>0 < n\<close> by simp
qed

lemma filtered_average_eq:
  assumes "0 < sz" and "sz \<le> length dat" and "\<forall>x \<in> set (take sz dat). \<bar>x\<bar> \<le> B" and "int sz * B < 2 ^ 63"
  shows "\<exists>dat' n'. calculate_filtered_average rnd n dat sz = Some (mean (trimmed (num_to_remove sz) (take sz dat)), dat', n')"
proof -
  let ?r = "num_to_remove sz" and ?W = "take sz dat"
  note r = num_to_remove_le [OF assms(1)]
  obtain d1 n1 where q1: "quick_select rnd n dat 0 (int sz - 1) (int ?r + 1) = (sort ?W ! ?r, d1, n1)" "same_outside 0 sz dat d1"
    using quick_select_spec [OF assms(2), of "?r + 1" rnd n] r by (auto simp: algebra_simps)
  have s: "int sz - int ?r = int (sz - ?r)" using r by simp
  have l1: "sz \<le> length d1" using q1(2) assms(2) by (simp add: same_outside_def)
  have k: "1 \<le> sz - ?r" "sz - ?r \<le> sz" using r by linarith+
  obtain d2 n2 where q2: "quick_select rnd n1 d1 0 (int sz - 1) (int sz - int ?r) = (sort (take sz d1) ! (sz - ?r - 1), d2, n2)"
    "same_outside 0 sz d1 d2"
    unfolding s using quick_select_spec [OF l1 k, of rnd n1] by auto
  have m1: "mset (take sz d1) = mset ?W" using mset_slice_cong [OF q1(2)] assms(2) by (simp add: slice_def)
  have m2: "mset (take sz d2) = mset ?W" using mset_slice_cong [OF q2(2)] l1 m1 by (simp add: slice_def)
  have s1: "sort (take sz d1) = sort ?W" using m1 by (metis mset_sort properties_for_sort sorted_sort)
  let ?P = "\<lambda>x. sort ?W ! ?r \<le> x \<and> x \<le> sort ?W ! (sz - ?r - 1)"
  have t: "trimmed ?r ?W = filter ?P ?W" using assms(2) by (simp add: trimmed_def min_absorb2 diff_commute)
  have f: "sum_list (filter ?P (take sz d2)) = sum_list (filter ?P ?W)" "length (filter ?P (take sz d2)) = length (filter ?P ?W)"
  proof -
    have m: "mset (filter ?P (take sz d2)) = mset (filter ?P ?W)" by (simp only: mset_filter m2)
    then show "length (filter ?P (take sz d2)) = length (filter ?P ?W)" by (rule mset_eq_length)
    show "sum_list (filter ?P (take sz d2)) = sum_list (filter ?P ?W)"
      using arg_cong [OF m, of sum_mset] by (simp only: sum_mset_sum_list)
  qed
  have "take sz dat \<noteq> []" using assms(1,2) by auto
  then obtain x where "x \<in> set (take sz dat)" by (metis list.set_sel(1))
  then have B: "0 \<le> B" using assms(3) abs_ge_zero [of x] by fastforce
  have "\<forall>x \<in> set (take sz d2). \<bar>x\<bar> \<le> B" using assms(3) m2 by (metis set_mset_mset)
  then have rs: "range_sum (sort ?W ! ?r) (sort ?W ! (sz - ?r - 1)) (take sz d2) 0 0 = Some (sum_list (trimmed ?r ?W), int (length (trimmed ?r ?W)))"
    using range_sum_eq [of "take sz d2" B 0 "sort ?W ! ?r" "sort ?W ! (sz - ?r - 1)" 0] assms(4) B f mset_eq_length [OF m2] assms(2)
    by (simp add: t)
  have "sort ?W ! ?r \<in> set (trimmed ?r ?W)"
  proof -
    have "sort ?W ! ?r \<in> set (sort ?W)" using r assms(2) by (intro nth_mem) simp
    moreover have "sort ?W ! ?r \<le> sort ?W ! (sz - ?r - 1)" using r assms(2) by (intro sorted_nth_mono) simp_all
    ultimately show ?thesis by (simp add: t)
  qed
  then have "0 < int (length (trimmed ?r ?W))" by (metis length_pos_if_in_set of_nat_0_less_iff)
  then show ?thesis unfolding calculate_filtered_average_def q1(1) Let_def prod.case q2(1) s1
    using rs by (simp add: mean_def)
qed

subsection \<open>The window\<close>

definition window_inv :: "slid_remove \<Rightarrow> bool" where
  "window_inv s \<longleftrightarrow> length (sr_buff s) = FILTER_LEN_MAX \<and> sr_front s < FILTER_LEN_MAX \<and> sr_count s \<le> FILTER_LEN_MAX"

text \<open>The samples that count, oldest first.\<close>

definition samples :: "slid_remove \<Rightarrow> int list" where
  "samples s = window s (sr_count s)"

lemma length_window [simp]: "length (window s n) = n"
  by (simp add: window_def)

lemma window_nth: "i < n \<Longrightarrow> window s n ! i = sr_buff s ! ((sr_front s + i) mod FILTER_LEN_MAX)"
  by (simp add: window_def)

lemma window_shift:
  "window (s\<lparr>sr_front := (sr_front s + d) mod FILTER_LEN_MAX\<rparr>) n = drop d (window s (d + n))"
  by (rule nth_equalityI) (auto simp: window_nth mod_add_left_eq add.assoc)

lemma window_write:
  assumes "length (sr_buff s) = FILTER_LEN_MAX" and "c < FILTER_LEN_MAX"
  shows "window (s\<lparr>sr_buff := (sr_buff s)[(sr_front s + c) mod FILTER_LEN_MAX := x]\<rparr>) (Suc c) = window s c @ [x]"
proof (rule nth_equalityI)
  fix i assume i: "i < length (window (s\<lparr>sr_buff := (sr_buff s)[(sr_front s + c) mod FILTER_LEN_MAX := x]\<rparr>) (Suc c))"
  have "(sr_front s + c) mod FILTER_LEN_MAX < FILTER_LEN_MAX" by (simp add: FILTER_LEN_MAX_def)
  moreover have "(sr_front s + c) mod FILTER_LEN_MAX \<noteq> (sr_front s + i) mod FILTER_LEN_MAX" if "i < c"
    using ring_index_inj [of i FILTER_LEN_MAX c "sr_front s"] that assms(2) by fastforce
  ultimately show "window (s\<lparr>sr_buff := (sr_buff s)[(sr_front s + c) mod FILTER_LEN_MAX := x]\<rparr>) (Suc c) ! i = (window s c @ [x]) ! i"
    using i assms(1) by (cases "i = c") (auto simp: window_nth nth_append)
qed simp

lemma window_write_full:
  assumes "length (sr_buff s) = FILTER_LEN_MAX" and "0 < n" and "n \<le> FILTER_LEN_MAX"
  shows "window (s\<lparr>sr_buff := (sr_buff s)[(sr_front s + n) mod FILTER_LEN_MAX := x],
      sr_front := (sr_front s + 1) mod FILTER_LEN_MAX\<rparr>) n = drop 1 (window s n) @ [x]"
proof (rule nth_equalityI)
  let ?s = "s\<lparr>sr_buff := (sr_buff s)[(sr_front s + n) mod FILTER_LEN_MAX := x], sr_front := (sr_front s + 1) mod FILTER_LEN_MAX\<rparr>"
  show "length (window ?s n) = length (drop 1 (window s n) @ [x])" using assms(2) by simp
  fix i assume "i < length (window ?s n)"
  then have i: "i < n" by simp
  have w: "window ?s n ! i = (sr_buff s)[(sr_front s + n) mod FILTER_LEN_MAX := x] ! ((sr_front s + Suc i) mod FILTER_LEN_MAX)"
    using i by (simp add: window_nth mod_add_left_eq)
  have "(sr_front s + n) mod FILTER_LEN_MAX < FILTER_LEN_MAX" by (simp add: FILTER_LEN_MAX_def)
  moreover have "(sr_front s + n) mod FILTER_LEN_MAX \<noteq> (sr_front s + Suc i) mod FILTER_LEN_MAX" if "Suc i < n"
    using ring_index_inj [of i FILTER_LEN_MAX "n - 1" "sr_front s + 1"] that assms(3) i by fastforce
  ultimately show "window ?s n ! i = (drop 1 (window s n) @ [x]) ! i"
    unfolding w using i assms(1,2) by (cases "Suc i = n") (auto simp: window_nth nth_append)
qed

lemma add_sample_spec:
  assumes "window_inv s" and "0 < sz" and "sz \<le> FILTER_LEN_MAX"
  shows "window_inv (add_sample s sz x)"
    and "samples (add_sample s sz x) = drop (Suc (sr_count s) - sz) (samples s @ [x])"
    and "sr_count (add_sample s sz x) = min (Suc (sr_count s)) sz"
proof -
  define s1 where "s1 = (if sr_count s > sz
    then s\<lparr>sr_front := (sr_front s + (sr_count s - sz)) mod FILTER_LEN_MAX, sr_count := sz\<rparr> else s)"
  have i: "length (sr_buff s1) = FILTER_LEN_MAX" "sr_front s1 < FILTER_LEN_MAX" "sr_count s1 = min (sr_count s) sz"
    using assms by (auto simp: s1_def window_inv_def FILTER_LEN_MAX_def)
  have w: "window s1 (sr_count s1) = drop (sr_count s - sz) (samples s)"
  proof (cases "sr_count s > sz")
    case True
    define d where "d = sr_count s - sz"
    have d: "sr_count s = d + sz" using True by (simp add: d_def)
    show ?thesis
      using window_shift [of s d sz] True by (simp add: s1_def d_def [symmetric] samples_def window_def) (simp add: d)
  qed (simp add: s1_def samples_def)
  have a: "add_sample s sz x = (let s2 = s1\<lparr>sr_buff := (sr_buff s1)[(sr_front s1 + sr_count s1) mod FILTER_LEN_MAX := x]\<rparr>
    in if sr_count s1 \<ge> sz then s2\<lparr>sr_front := (sr_front s1 + 1) mod FILTER_LEN_MAX\<rparr> else s2\<lparr>sr_count := sr_count s1 + 1\<rparr>)"
    by (simp add: add_sample_def s1_def [symmetric] Let_def)
  show "sr_count (add_sample s sz x) = min (Suc (sr_count s)) sz" using i(3) by (auto simp: a Let_def)
  show "window_inv (add_sample s sz x)" using i assms by (auto simp: a Let_def window_inv_def)
  show "samples (add_sample s sz x) = drop (Suc (sr_count s) - sz) (samples s @ [x])"
  proof (cases "sr_count s1 \<ge> sz")
    case True
    then have c: "sr_count s1 = sz" using i(3) by simp
    then have "samples (add_sample s sz x) = drop 1 (window s1 sz) @ [x]"
      using window_write_full [OF i(1) assms(2,3), of x] by (simp add: a Let_def samples_def)
    moreover have "Suc (sr_count s) - sz = Suc (sr_count s - sz)" "length (samples s) = sr_count s" using c i(3) by (simp_all add: samples_def)
    ultimately show ?thesis using w c assms(2) by (simp add: drop_Suc tl_drop)
  next
    case False
    then have c: "sr_count s1 = sr_count s" "sr_count s < sz" using i(3) by simp_all
    have "window (s1\<lparr>sr_buff := (sr_buff s1)[(sr_front s1 + sr_count s1) mod FILTER_LEN_MAX := x]\<rparr>) (Suc (sr_count s1)) = window s1 (sr_count s1) @ [x]"
      using window_write [OF i(1)] c assms(3) by simp
    then have "samples (add_sample s sz x) = window s1 (sr_count s1) @ [x]"
      using c by (simp add: a Let_def samples_def window_def)
    then show ?thesis using w c by simp
  qed
qed

subsection \<open>The holding filters\<close>

text \<open>With a holding time between the limits the filters keep the extreme value of all samples since the first one.\<close>

lemma peak_holding_run:
  assumes "sz \<noteq> 0" and "sz \<noteq> HOLDING_TIME_UPPER" and "sh_count s \<noteq> 0"
  shows "sh_data (fold (\<lambda>x s. snd (peak_holding_fliter s sz x)) xs s) = Max (insert (sh_data s) (set xs))"
  using assms(3)
proof (induction xs arbitrary: s)
  case (Cons x xs)
  have "sh_data (snd (peak_holding_fliter s sz x)) = max (sh_data s) x \<and> sh_count (snd (peak_holding_fliter s sz x)) \<noteq> 0"
    using Cons.prems assms by (simp add: peak_holding_fliter_def Let_def)
  then show ?case using Cons.IH [of "snd (peak_holding_fliter s sz x)"] by (cases "xs = []") (simp_all add: max.assoc)
qed simp

lemma valley_holding_run:
  assumes "sz \<noteq> 0" and "sz \<noteq> HOLDING_TIME_UPPER" and "sh_count s \<noteq> 0"
  shows "sh_data (fold (\<lambda>x s. snd (valley_holding_fliter s sz x)) xs s) = Min (insert (sh_data s) (set xs))"
  using assms(3)
proof (induction xs arbitrary: s)
  case (Cons x xs)
  have "sh_data (snd (valley_holding_fliter s sz x)) = min (sh_data s) x \<and> sh_count (snd (valley_holding_fliter s sz x)) \<noteq> 0"
    using Cons.prems assms by (simp add: valley_holding_fliter_def Let_def)
  then show ?case using Cons.IH [of "snd (valley_holding_fliter s sz x)"] by (cases "xs = []") (simp_all add: min.assoc)
qed simp

text \<open>At the upper limit the first value is kept, whatever follows.\<close>

lemma holding_at_limit:
  assumes "sh_count s \<noteq> 0"
  shows "peak_holding_fliter s HOLDING_TIME_UPPER x = (sh_data s, s)" "valley_holding_fliter s HOLDING_TIME_UPPER x = (sh_data s, s)"
  using assms by (simp_all add: peak_holding_fliter_def valley_holding_fliter_def)

subsection \<open>Properties\<close>

text \<open>The selection returns the \<open>k\<close>-th smallest value of the array for every sequence of random numbers, and only
  permutes the array; it terminates in every case.\<close>

theorem quick_select_is_order_statistic:
  assumes "1 \<le> k" and "k \<le> length arr"
  shows "\<exists>arr' n'. quick_select rnd n arr 0 (int (length arr) - 1) (int k) = (sort arr ! (k - 1), arr', n') \<and> mset arr' = mset arr"
  using quick_select_spec [of "length arr" arr k rnd n] assms by (auto simp: same_outside_def)

theorem quick_select_is_order_statistic_witness:
  "\<exists>arr' n'. quick_select (\<lambda>n. 7 * n) 0 [5, - 3, 9, 5] 0 3 3 = (5, arr', n') \<and> mset arr' = mset [5, - 3, 9, 5]"
  using quick_select_is_order_statistic [of 3 "[5, - 3, 9, 5]" "\<lambda>n. 7 * n" 0] by simp

text \<open>The sliding filter keeps the last samples up to the size of the window, also when the size was changed before, and
  returns the mean of the samples while the window fills and afterwards the mean of those between the tenth smallest and
  the tenth largest share, unless this is -1, the code's mark of a failure; then it returns the mean of all samples.\<close>

theorem sliding_average_is_trimmed_mean:
  assumes "window_inv s" and "0 < sz" and "sz \<le> FILTER_LEN_MAX" and "length buff_copy = FILTER_LEN_MAX"
    and "xs = drop (Suc (sr_count s) - sz) (samples s @ [x])" and "\<forall>v \<in> set xs. \<bar>v\<bar> \<le> 2 ^ 54"
  shows "\<exists>s' b n'. sliding_remove_average rnd n s sz x buff_copy =
      Some (if length xs < sz \<or> mean (trimmed (num_to_remove sz) xs) = - 1 then mean xs else mean (trimmed (num_to_remove sz) xs), s', b, n')
    \<and> window_inv s' \<and> samples s' = xs"
proof -
  define s' where "s' = add_sample s sz x"
  note a = add_sample_spec [OF assms(1-3), of x, folded s'_def]
  have xs: "samples s' = xs" using a(2) assms(5) by simp
  then have len: "length xs = sr_count s'" "sr_count s' \<le> sz" using a(3) by (auto simp: samples_def)
  have "int (length xs) * 2 ^ 54 \<le> 500 * 2 ^ 54" using len assms(3) by (intro mult_right_mono) (auto simp: FILTER_LEN_MAX_def)
  then have small: "int (length xs) * 2 ^ 54 < 2 ^ 63" by simp
  have ws: "window_sum xs 0 = Some (sum_list xs)" using window_sum_eq [of xs "2 ^ 54" 0] assms(6) small by simp
  have sz: "(if sz > FILTER_LEN_MAX then FILTER_LEN_MAX else sz) = sz" using assms(3) by simp
  show ?thesis
  proof (cases "sr_count s' < sz")
    case True
    then show ?thesis
      using a(1) xs ws len by (simp add: sliding_remove_average_def sz s'_def [symmetric] mean_def samples_def)
  next
    case False
    then have c: "sr_count s' = sz" "window s' sz = xs" using len xs by (auto simp: samples_def)
    let ?d = "xs @ drop sz buff_copy"
    have t: "take sz ?d = xs" "sz \<le> length ?d" using c len by simp_all
    obtain d n' where f: "calculate_filtered_average rnd n ?d sz = Some (mean (trimmed (num_to_remove sz) xs), d, n')"
      using filtered_average_eq [OF assms(2) t(2), of "2 ^ 54" rnd n] t(1) assms(6) small len c by auto
    then show ?thesis
      using a(1) xs ws len c assms(2) by (simp add: sliding_remove_average_def sz s'_def [symmetric] mean_def samples_def)
  qed
qed

theorem sliding_average_is_trimmed_mean_witness:
  "\<exists>s' b n'. sliding_remove_average (\<lambda>_. 0) 0 \<lparr>sr_buff = replicate 500 0, sr_front = 0, sr_sum = 0, sr_count = 0\<rparr> 3 42
     (replicate 500 0) = Some (42, s', b, n') \<and> samples s' = [42]"
  using sliding_average_is_trimmed_mean [of "\<lparr>sr_buff = replicate 500 0, sr_front = 0, sr_sum = 0, sr_count = 0\<rparr>" 3
      "replicate 500 0" "[42]" 42 "\<lambda>_. 0" 0]
  by (auto simp: window_inv_def FILTER_LEN_MAX_def samples_def window_def mean_def signed_divide_int_def)

end
