(* ===== verification/Hq_Hash.thy ===== *)
theory Hq_Hash
  imports Hq_Generic
begin

text \<open>
  The hash table of commands, \<open>src/lib/microlib/hq_hash.c\<close>. A chain of entries is the list of its entries,
  and a stored command string the list of its characters. The success of the allocations is an
  argument; the mutex is waited for without limit and has no effect in the model. A \<open>char\<close> is
  unsigned, as on the target.
\<close>

definition HASH_TABLE_SIZE :: nat where "HASH_TABLE_SIZE = 101"

record cmd_hash_entry =
  cmd_str :: buf
  cmd_id :: u16

type_synonym cmd_hash_table = "cmd_hash_entry list list"

fun hash_loop :: "u32 \<Rightarrow> buf \<Rightarrow> u32 option" where
  "hash_loop h [] = None"
| "hash_loop h (c # cs) = (if c \<noteq> 0 then hash_loop (push_bit 5 h + h + ucast c) cs else Some h)"

definition hash_func :: "buf \<Rightarrow> nat option" where
  "hash_func str = map_option (\<lambda>h. unat h mod HASH_TABLE_SIZE) (hash_loop 5381 str)"

definition cmd_hash_init :: cmd_hash_table where
  "cmd_hash_init = replicate HASH_TABLE_SIZE []"

text \<open>The loop that updates an existing entry, if there is one.\<close>

fun update_id :: "buf \<Rightarrow> u16 \<Rightarrow> cmd_hash_entry list \<Rightarrow> cmd_hash_entry list option" where
  "update_id s v [] = None"
| "update_id s v (e # es) = (if cmd_str e = s then Some (e\<lparr>cmd_id := v\<rparr> # es) else map_option ((#) e) (update_id s v es))"

definition cmd_hash_add :: "bool \<Rightarrow> bool \<Rightarrow> cmd_hash_table \<Rightarrow> buf \<Rightarrow> u16 \<Rightarrow> cmd_hash_table option" where
  "cmd_hash_add entry_ok string_ok ht cmd v = do {
     i \<leftarrow> hash_func cmd;
     s \<leftarrow> c_string cmd;
     Some (case update_id s v (ht ! i) of
         Some es \<Rightarrow> ht[i := es]
       | None \<Rightarrow>
           if \<not> entry_ok then ht
           else if \<not> string_ok then ht
           else ht[i := \<lparr>cmd_str = s, cmd_id = v\<rparr> # ht ! i]) }"

fun find_entry :: "buf \<Rightarrow> cmd_hash_entry list \<Rightarrow> cmd_hash_entry option" where
  "find_entry s [] = None"
| "find_entry s (e # es) = (if cmd_str e = s then Some e else find_entry s es)"

definition cmd_hash_find :: "cmd_hash_table \<Rightarrow> buf \<Rightarrow> cmd_hash_entry option option" where
  "cmd_hash_find ht cmd = do { i \<leftarrow> hash_func cmd; s \<leftarrow> c_string cmd; Some (find_entry s (ht ! i)) }"

fun remove_entry :: "buf \<Rightarrow> cmd_hash_entry list \<Rightarrow> cmd_hash_entry list" where
  "remove_entry s [] = []"
| "remove_entry s (e # es) = (if cmd_str e = s then es else e # remove_entry s es)"

definition cmd_hash_remove :: "cmd_hash_table \<Rightarrow> buf \<Rightarrow> cmd_hash_table option" where
  "cmd_hash_remove ht cmd = do { i \<leftarrow> hash_func cmd; s \<leftarrow> c_string cmd; Some (ht[i := remove_entry s (ht ! i)]) }"

definition cmd_hash_clear :: "cmd_hash_table \<Rightarrow> cmd_hash_table" where
  "cmd_hash_clear ht = map (\<lambda>_. []) ht"

subsection \<open>Dictionaries\<close>

datatype ('k, 'v) dict_op = Put 'k 'v | Delete 'k

fun map_op :: "('k, 'v) dict_op \<Rightarrow> ('k \<rightharpoonup> 'v) \<Rightarrow> 'k \<rightharpoonup> 'v" where
  "map_op (Put k v) m = m(k \<mapsto> v)"
| "map_op (Delete k) m = m(k := None)"

fun op_key :: "('k, 'v) dict_op \<Rightarrow> 'k" where
  "op_key (Put k v) = k"
| "op_key (Delete k) = k"

text \<open>The contract of a dictionary on the keys that satisfy \<open>ok\<close>.\<close>

locale dictionary =
  fixes ok :: "'k \<Rightarrow> bool" and inv :: "'s \<Rightarrow> bool" and lookup :: "'s \<Rightarrow> 'k \<Rightarrow> 'v option"
    and put :: "'k \<Rightarrow> 'v \<Rightarrow> 's \<Rightarrow> 's" and delete :: "'k \<Rightarrow> 's \<Rightarrow> 's"
  assumes inv_put: "ok k \<Longrightarrow> inv s \<Longrightarrow> inv (put k v s)"
    and inv_delete: "ok k \<Longrightarrow> inv s \<Longrightarrow> inv (delete k s)"
    and lookup_put: "ok k \<Longrightarrow> ok j \<Longrightarrow> inv s \<Longrightarrow> lookup (put k v s) j = (if j = k then Some v else lookup s j)"
    and lookup_delete: "ok k \<Longrightarrow> ok j \<Longrightarrow> inv s \<Longrightarrow> lookup (delete k s) j = (if j = k then None else lookup s j)"
begin

definition apply_op :: "('k, 'v) dict_op \<Rightarrow> 's \<Rightarrow> 's" where
  "apply_op x s = (case x of Put k v \<Rightarrow> put k v s | Delete k \<Rightarrow> delete k s)"

lemma apply_op_map:
  assumes "ok (op_key x)" and "inv s" and "ok j" and "lookup s j = m j"
  shows "lookup (apply_op x s) j = map_op x m j"
  using assms lookup_put lookup_delete by (cases x) (simp_all add: apply_op_def)

lemma apply_op_inv: "ok (op_key x) \<Longrightarrow> inv s \<Longrightarrow> inv (apply_op x s)"
  using inv_put inv_delete by (cases x) (simp_all add: apply_op_def)

lemma run_ops:
  assumes "\<forall>x \<in> set ops. ok (op_key x)" and "inv s" and "\<And>j. ok j \<Longrightarrow> lookup s j = m j" and "ok k"
  shows "lookup (fold apply_op ops s) k = fold map_op ops m k"
  using assms(1-3)
proof (induction ops arbitrary: s m)
  case (Cons x ops)
  then show ?case using apply_op_inv [of x s] apply_op_map [of x s _ m] by simp
qed (simp add: assms(4))

end

subsection \<open>The table is a dictionary\<close>

definition key_ok :: "buf \<Rightarrow> bool" where
  "key_ok k \<longleftrightarrow> 0 \<notin> set k"

definition bucket :: "buf \<Rightarrow> nat" where
  "bucket k = unat (foldl (\<lambda>h c. push_bit 5 h + h + ucast c) (5381 :: u32) k) mod HASH_TABLE_SIZE"

lemma hash_func_eq: "key_ok k \<Longrightarrow> hash_func (k @ [0]) = Some (bucket k)"
proof -
  assume k: "key_ok k"
  have "hash_loop h (k @ [0]) = Some (foldl (\<lambda>h c. push_bit 5 h + h + ucast c) h k)" for h
    using k by (induction k arbitrary: h) (auto simp: key_ok_def)
  then show ?thesis by (simp add: hash_func_def bucket_def)
qed

lemma c_string_key: "key_ok k \<Longrightarrow> c_string (k @ [0]) = Some k"
  by (simp add: key_ok_def)

definition hash_inv :: "cmd_hash_table \<Rightarrow> bool" where
  "hash_inv ht \<longleftrightarrow> length ht = HASH_TABLE_SIZE \<and> (\<forall>es \<in> set ht. distinct (map cmd_str es))"

definition hash_put :: "buf \<Rightarrow> u16 \<Rightarrow> cmd_hash_table \<Rightarrow> cmd_hash_table" where
  "hash_put k v ht = the (cmd_hash_add True True ht (k @ [0]) v)"

definition hash_delete :: "buf \<Rightarrow> cmd_hash_table \<Rightarrow> cmd_hash_table" where
  "hash_delete k ht = the (cmd_hash_remove ht (k @ [0]))"

definition hash_lookup :: "cmd_hash_table \<Rightarrow> buf \<Rightarrow> u16 option" where
  "hash_lookup ht k = map_option cmd_id (the (cmd_hash_find ht (k @ [0])))"

lemma bucket_less: "bucket k < HASH_TABLE_SIZE"
  by (simp add: bucket_def HASH_TABLE_SIZE_def)

lemma hash_lookup_eq: "key_ok k \<Longrightarrow> hash_lookup ht k = map_option cmd_id (find_entry k (ht ! bucket k))"
  by (simp add: hash_lookup_def cmd_hash_find_def hash_func_eq c_string_key)

lemma find_entry_iff: "find_entry s es = None \<longleftrightarrow> s \<notin> set (map cmd_str es)"
  by (induction es) auto

lemma update_id_facts:
  "update_id s v es = None \<longleftrightarrow> s \<notin> set (map cmd_str es)"
  "update_id s v es = Some fs \<Longrightarrow> map cmd_str fs = map cmd_str es
     \<and> (\<forall>t. map_option cmd_id (find_entry t fs) = (if t = s then Some v else map_option cmd_id (find_entry t es)))"
proof -
  show "update_id s v es = None \<longleftrightarrow> s \<notin> set (map cmd_str es)" by (induction es) auto
  show "update_id s v es = Some fs \<Longrightarrow> map cmd_str fs = map cmd_str es
     \<and> (\<forall>t. map_option cmd_id (find_entry t fs) = (if t = s then Some v else map_option cmd_id (find_entry t es)))"
    by (induction es arbitrary: fs) (auto split: if_splits)
qed

lemma remove_entry_facts:
  "distinct (map cmd_str es) \<Longrightarrow> find_entry t (remove_entry s es) = (if t = s then None else find_entry t es)"
  "distinct (map cmd_str es) \<Longrightarrow> distinct (map cmd_str (remove_entry s es))"
  "set (map cmd_str (remove_entry s es)) \<subseteq> set (map cmd_str es)"
proof -
  show sub: "set (map cmd_str (remove_entry s es)) \<subseteq> set (map cmd_str es)" for s es by (induction es) auto
  show "distinct (map cmd_str es) \<Longrightarrow> find_entry t (remove_entry s es) = (if t = s then None else find_entry t es)"
    by (induction es) (auto simp: find_entry_iff)
  show "distinct (map cmd_str es) \<Longrightarrow> distinct (map cmd_str (remove_entry s es))"
  proof (induction es)
    case (Cons e es)
    then show ?case using sub [of s es] by auto
  qed simp
qed

lemma hash_put_eq:
  assumes "key_ok k"
  shows "hash_put k v ht = ht[bucket k := (case update_id k v (ht ! bucket k) of Some es \<Rightarrow> es | None \<Rightarrow> \<lparr>cmd_str = k, cmd_id = v\<rparr> # ht ! bucket k)]"
  by (simp add: hash_put_def cmd_hash_add_def hash_func_eq [OF assms] c_string_key [OF assms] split: option.split)

lemma hash_delete_eq: "key_ok k \<Longrightarrow> hash_delete k ht = ht[bucket k := remove_entry k (ht ! bucket k)]"
  by (simp add: hash_delete_def cmd_hash_remove_def hash_func_eq c_string_key)

lemma put_bucket:
  fixes k es v
  defines "fs \<equiv> (case update_id k v es of Some fs \<Rightarrow> fs | None \<Rightarrow> \<lparr>cmd_str = k, cmd_id = v\<rparr> # es)"
  assumes "distinct (map cmd_str es)"
  shows "distinct (map cmd_str fs)"
    and "map_option cmd_id (find_entry t fs) = (if t = k then Some v else map_option cmd_id (find_entry t es))"
proof -
  have "distinct (map cmd_str fs) \<and> map_option cmd_id (find_entry t fs) = (if t = k then Some v else map_option cmd_id (find_entry t es))"
  proof (cases "update_id k v es")
    case None
    then have "k \<notin> set (map cmd_str es)" using update_id_facts(1) by metis
    then show ?thesis using None assms by simp
  next
    case (Some gs)
    show ?thesis using update_id_facts(2) [OF Some] Some assms by simp
  qed
  then show "distinct (map cmd_str fs)"
    and "map_option cmd_id (find_entry t fs) = (if t = k then Some v else map_option cmd_id (find_entry t es))" by simp_all
qed

interpretation cmd_hash: dictionary key_ok hash_inv hash_lookup hash_put hash_delete
proof
  fix k j :: buf and s :: cmd_hash_table and v :: u16
  assume k: "key_ok k" and i: "hash_inv s"
  have b: "bucket k < length s" and d: "distinct (map cmd_str (s ! bucket k))"
    using i bucket_less by (auto simp: hash_inv_def)
  let ?es = "case update_id k v (s ! bucket k) of Some es \<Rightarrow> es | None \<Rightarrow> \<lparr>cmd_str = k, cmd_id = v\<rparr> # s ! bucket k"
  note put = put_bucket [OF d, where k = k and v = v]
  have upd: "distinct (map cmd_str es) \<Longrightarrow> hash_inv (s[bucket k := es])" for es
    using i set_update_subset_insert [of s "bucket k" es] by (auto simp: hash_inv_def)
  show "hash_inv (hash_put k v s)" using put(1) upd by (simp add: hash_put_eq [OF k])
  show "hash_inv (hash_delete k s)" using remove_entry_facts(2) [OF d] upd by (simp add: hash_delete_eq [OF k])
  assume j: "key_ok j"
  show "hash_lookup (hash_put k v s) j = (if j = k then Some v else hash_lookup s j)"
    using put(2) [where t = j] b by (cases "bucket j = bucket k") (auto simp: hash_lookup_eq [OF j] hash_put_eq [OF k])
  show "hash_lookup (hash_delete k s) j = (if j = k then None else hash_lookup s j)"
    using remove_entry_facts(1) [OF d, of j k] b
    by (cases "bucket j = bucket k") (auto simp: hash_lookup_eq [OF j] hash_delete_eq [OF k])
qed

subsection \<open>Runs of the code\<close>

fun hash_run :: "(buf, u16) dict_op list \<Rightarrow> cmd_hash_table \<Rightarrow> cmd_hash_table option" where
  "hash_run [] ht = Some ht"
| "hash_run (Put k v # ops) ht = do { ht \<leftarrow> cmd_hash_add True True ht (k @ [0]) v; hash_run ops ht }"
| "hash_run (Delete k # ops) ht = do { ht \<leftarrow> cmd_hash_remove ht (k @ [0]); hash_run ops ht }"

lemma hash_run_eq:
  assumes "\<forall>x \<in> set ops. key_ok (op_key x)"
  shows "hash_run ops ht = Some (fold cmd_hash.apply_op ops ht)"
  using assms
proof (induction ops ht rule: hash_run.induct)
  case (2 k v ops ht)
  then have "cmd_hash_add True True ht (k @ [0]) v = Some (hash_put k v ht)"
    by (simp add: hash_put_def cmd_hash_add_def hash_func_eq c_string_key)
  then show ?case using 2 by (simp add: cmd_hash.apply_op_def)
next
  case (3 k ops ht)
  then have "cmd_hash_remove ht (k @ [0]) = Some (hash_delete k ht)"
    by (simp add: hash_delete_def cmd_hash_remove_def hash_func_eq c_string_key)
  then show ?case using 3 by (simp add: cmd_hash.apply_op_def)
qed simp

lemma init_hash_inv: "hash_inv cmd_hash_init" "key_ok k \<Longrightarrow> hash_lookup cmd_hash_init k = None"
  using bucket_less [of k] by (simp_all add: hash_inv_def cmd_hash_init_def hash_lookup_eq)

lemma clear_is_init: "hash_inv ht \<Longrightarrow> cmd_hash_clear ht = cmd_hash_init"
  by (simp add: cmd_hash_clear_def cmd_hash_init_def hash_inv_def map_replicate_const)

text \<open>When an allocation fails the table stays as it is.\<close>

lemma failed_add: "update_id k v (ht ! bucket k) = None \<Longrightarrow> key_ok k \<Longrightarrow> \<not> (entry_ok \<and> string_ok)
    \<Longrightarrow> cmd_hash_add entry_ok string_ok ht (k @ [0]) v = Some ht"
  by (auto simp: cmd_hash_add_def hash_func_eq c_string_key)

text \<open>C22: After any sequence of adding and removing commands, whose memory could be allocated, the table finds for every command
  the identifier that was added last, if it was not removed since, whatever strings share a bucket.\<close>

theorem cmd_hash_refines_map:
  assumes "\<forall>x \<in> set ops. key_ok (op_key x)" and "key_ok k"
  shows "\<exists>ht r. hash_run ops cmd_hash_init = Some ht \<and> cmd_hash_find ht (k @ [0]) = Some r
    \<and> map_option cmd_id r = fold map_op ops Map.empty k"
proof -
  let ?ht = "fold cmd_hash.apply_op ops cmd_hash_init"
  have "hash_lookup ?ht k = fold map_op ops Map.empty k"
    using cmd_hash.run_ops [OF assms(1) init_hash_inv(1) init_hash_inv(2) assms(2)] by simp
  moreover obtain r where "cmd_hash_find ?ht (k @ [0]) = Some r"
    using assms(2) by (simp add: cmd_hash_find_def hash_func_eq c_string_key)
  ultimately show ?thesis using hash_run_eq [OF assms(1)] by (auto simp: hash_lookup_def)
qed

theorem cmd_hash_refines_map_witness:
  "\<exists>ht r. hash_run [Put (bytes ''DA'') 1, Put (bytes ''ID'') 2, Put (bytes ''DA'') 3] cmd_hash_init = Some ht
     \<and> cmd_hash_find ht (bytes ''DA'' @ [0]) = Some r \<and> map_option cmd_id r = Some 3"
  using cmd_hash_refines_map [of "[Put (bytes ''DA'') 1, Put (bytes ''ID'') 2, Put (bytes ''DA'') 3]" "bytes ''DA''"]
  by (simp add: key_ok_def bytes_def chr8_def)

end
