(* ===== verification/Hq_Cdllist.thy ===== *)
theory Hq_Cdllist
  imports Pyro_Prelude
begin

text \<open>
  The circular doubly linked list of \<open>src/lib/microlib/hq_cdllist.c\<close> on a heap: an address has a successor and a
  predecessor. Every store of the code is an update of the heap, in the order of the code.
\<close>

type_synonym addr = nat

record list_heap =
  nxt :: "addr \<Rightarrow> addr"
  prv :: "addr \<Rightarrow> addr"

definition set_nxt :: "addr \<Rightarrow> addr \<Rightarrow> list_heap \<Rightarrow> list_heap" where
  "set_nxt p q h = h\<lparr>nxt := (nxt h)(p := q)\<rparr>"

definition set_prv :: "addr \<Rightarrow> addr \<Rightarrow> list_heap \<Rightarrow> list_heap" where
  "set_prv p q h = h\<lparr>prv := (prv h)(p := q)\<rparr>"

definition list_init :: "addr \<Rightarrow> list_heap \<Rightarrow> list_heap" where
  "list_init head h = (let h = set_nxt head head h in set_prv head head h)"




definition list_empty :: "addr \<Rightarrow> list_heap \<Rightarrow> bool" where
  "list_empty head h \<longleftrightarrow> nxt h head = head"

subsection \<open>Rings of items\<close>

text \<open>\<open>path h p xs q\<close>: from \<open>p\<close> the items \<open>xs\<close> lead to \<open>q\<close>, with matching links in both directions.\<close>

fun path :: "list_heap \<Rightarrow> addr \<Rightarrow> addr list \<Rightarrow> addr \<Rightarrow> bool" where
  "path h p [] q \<longleftrightarrow> nxt h p = q \<and> prv h q = p"
| "path h p (x # xs) q \<longleftrightarrow> nxt h p = x \<and> prv h x = p \<and> path h x xs q"

definition ring :: "list_heap \<Rightarrow> addr \<Rightarrow> addr list \<Rightarrow> bool" where
  "ring h head xs \<longleftrightarrow> distinct (head # xs) \<and> path h head xs head"

lemma path_append [simp]: "path h p (xs @ x # ys) q \<longleftrightarrow> path h p xs x \<and> path h x ys q"
  by (induction xs arbitrary: p) auto


lemma heap_simps [simp]:
  "nxt (set_nxt p q h) = (nxt h)(p := q)" "prv (set_nxt p q h) = prv h"
  "prv (set_prv p q h) = (prv h)(p := q)" "nxt (set_prv p q h) = nxt h"
  by (simp_all add: set_nxt_def set_prv_def)

lemma ring_init: "ring (list_init a h) a []"
  by (simp add: ring_def list_init_def)

lemma ring_empty: "ring h a xs \<Longrightarrow> list_empty a h \<longleftrightarrow> xs = []"
  by (cases xs) (auto simp: ring_def list_empty_def)












end
