(* ===== verification/Proto_Char_Cfg.thy ===== *)
theory Proto_Char_Cfg
  imports Hq_Generic
begin

text \<open>
  The configuration of the character protocol, \<open>src/app/proto/proto_char_cfg.c\<close> and \<open>.h\<close>: the command
  table with its attributes and rules, the error codes with their texts, and the lists of commands
  that carry temperatures.

  A bound of a floating-point range is given in millionths, as its decimal literal has it. A rule whose data is
  the null pointer has no range. The target that an entry points to is not part of the table
  here; it is found by the position of the entry.
\<close>

subsection \<open>Rules and attributes\<close>

datatype fmt_type = FMT_U_8 | FMT_U_16 | FMT_U_32 | FMT_LLD | FMT_LF | FMT_F6 | FMT_F | FMT_S | FMT_X | FMT_C

datatype str_check = Is_pure_digit | Is_check_fmt_valid | Is_valid_ip | Valid_cmd_list

datatype rule_range =
    No_Range | U_Range u32 u32 | LL_Range int int | F_Range int int | LF_Range int int | C_Range buf | S_Range str_check

definition prop_P :: u8 where "prop_P = 1"
definition prop_B :: u8 where "prop_B = 2"
definition prop_S :: u8 where "prop_S = 4"
definition prop_N :: u8 where "prop_N = 8"
definition prop_M :: u8 where "prop_M = 16"
definition prop_I :: u8 where "prop_I = 32"
definition prop_L :: u8 where "prop_L = 64"

record cmd_item =
  ci_cmd :: buf
  ci_id :: nat
  ci_group :: nat
  ci_props :: u8
  ci_type :: fmt_type
  ci_min_len :: int
  ci_max_len :: int
  ci_range :: rule_range

definition cmd_entry :: "string \<Rightarrow> nat \<Rightarrow> nat \<Rightarrow> u8 \<Rightarrow> fmt_type \<Rightarrow> int \<Rightarrow> int \<Rightarrow> rule_range \<Rightarrow> cmd_item" where
  "cmd_entry c i g p t mn mx r = \<lparr>ci_cmd = bytes c, ci_id = i, ci_group = g, ci_props = p, ci_type = t,
     ci_min_len = mn, ci_max_len = mx, ci_range = r\<rparr>"

definition ADDR_LEN :: nat where "ADDR_LEN = 3"
definition BROADCAST_ADDR :: u32 where "BROADCAST_ADDR = 99"
definition UPP_MAX_ADDR :: u32 where "UPP_MAX_ADDR = 32"
definition PARSE_DATA_SIZE :: nat where "PARSE_DATA_SIZE = 1024 + 20"
definition BURST_LIST_SIZE :: nat where "BURST_LIST_SIZE = 40"

text \<open>The identifiers of the commands, without their prefix and in their order, and their number.\<close>

definition cmd_id_e :: "string list" where
  "cmd_id_e = [
     ''DA'', ''ID'', ''DN'', ''DV'', ''RS'', ''PR'', ''SC'', ''UL'', ''J'', ''DEV'', ''DB'', ''DP'', ''BR'', ''CF'', ''PM'', ''NM'',
     ''NH'', ''WM'', ''WH'', ''NUP'', ''WUP'', ''NLM'', ''WLM'', ''NLH'', ''WLH'', ''GDN'', ''GCN'', ''AM'', ''AL'', ''AH'', ''OAL'', ''OAH'',
     ''OI'', ''IL'', ''IH'', ''AT'', ''OV'', ''VL'', ''VH'', ''AC'', ''DM'', ''GA'', ''OFN'', ''OFW'', ''NV'', ''WV'', ''ONV'', ''OWV'',
     ''SN'', ''SW'', ''SM'', ''U'', ''DL'', ''DH'', ''M'', ''NC'', ''WC'', ''E'', ''NS'', ''WS'', ''S'', ''SI'', ''ON'', ''OW'',
     ''VV'', ''ATC'', ''TTCO'', ''CA'', ''TCLS'', ''TCLR'', ''TCHS'', ''TCHR'', ''WTGA'', ''WTOF'', ''NTGA'', ''NTOF'', ''RTGA'', ''RTOF'', ''T'', ''RT'',
     ''ST'', ''I'', ''NT'', ''WT'', ''B'', ''TN'', ''NI'', ''NR'', ''DHCP'', ''IP'', ''NY'', ''GW'', ''MA'', ''MAC'', ''PO'', ''RI'',
     ''RQ'', ''RO'', ''RN'', ''AP'', ''NWA'', ''NWB'', ''NB'', ''V'', ''BS'', ''BC'', ''BF'', ''RA'', ''TON'', ''TOF'', ''ION'', ''IOF'',
     ''DR'', ''AON'', ''AOF'', ''EM'', ''EV'', ''BN'', ''BL'', ''GN'', ''VI'', ''VM'', ''VF'', ''VT'', ''VN'', ''AX'', ''AY'', ''RC'',
     ''AN'', ''C'', ''F'', ''AA'', ''P'', ''FM'', ''CT'', ''KP'', ''KI'', ''KD'']"

definition CMD_CNT :: nat where "CMD_CNT = 138"

subsection \<open>The command table\<close>

text \<open>The entries up to the inputs of the temperature group, and those from its outputs on.\<close>

definition CMD_TBL_1 :: "cmd_item list" where
  "CMD_TBL_1 = [
     cmd_entry ''DA'' 0 0 (prop_P OR prop_B OR prop_S OR prop_N OR prop_M) FMT_U_8 1 2 (U_Range 0 32),
     cmd_entry ''ID'' 1 0 (prop_P OR prop_S OR prop_N OR prop_M OR prop_L OR prop_I) FMT_S 10 10 (S_Range Is_pure_digit),
     cmd_entry ''DN'' 2 0 (prop_P OR prop_N OR prop_I) FMT_S 0 0 No_Range,
     cmd_entry ''DV'' 3 0 (prop_P OR prop_N OR prop_I) FMT_S 0 0 No_Range,
     cmd_entry ''RS'' 4 0 (prop_S OR prop_N OR prop_I) FMT_C 1 1 (C_Range (bytes ''1'')),
     cmd_entry ''PR'' 5 0 (prop_S OR prop_N OR prop_L OR prop_I) FMT_U_8 1 1 (U_Range 1 4),
     cmd_entry ''SC'' 6 0 (prop_P OR prop_N OR prop_I) FMT_S 1 2 No_Range,
     cmd_entry ''UL'' 7 0 (prop_P OR prop_S OR prop_N OR prop_I) FMT_U_8 1 1 (U_Range 0 1),
     cmd_entry ''J'' 8 0 (prop_P OR prop_S OR prop_N OR prop_I OR prop_M) FMT_C 1 1 (C_Range (bytes ''LU'')),
     cmd_entry ''DEV'' 9 0 (prop_P OR prop_S OR prop_N OR prop_I) FMT_U_8 1 1 (U_Range 0 1),
     cmd_entry ''BR'' 12 1 (prop_P OR prop_S OR prop_N OR prop_M) FMT_U_32 4 6 (U_Range 2400 230400),
     cmd_entry ''CF'' 13 1 (prop_P OR prop_S OR prop_N OR prop_M OR prop_I) FMT_S 1 3 (S_Range Is_check_fmt_valid),
     cmd_entry ''PM'' 14 1 (prop_P OR prop_S OR prop_N OR prop_M OR prop_I) FMT_C 1 1 (C_Range (bytes ''24'')),
     cmd_entry ''DB'' 10 1 (prop_P OR prop_S OR prop_N OR prop_M OR prop_I) FMT_C 1 1 (C_Range (bytes ''01234567'')),
     cmd_entry ''DP'' 11 1 (prop_P OR prop_S OR prop_N OR prop_M OR prop_I) FMT_U_8 1 1 (U_Range 0 3),
     cmd_entry ''NM'' 15 2 (prop_P OR prop_B OR prop_S OR prop_N OR prop_M OR prop_I) FMT_LF 1 10 (LF_Range 1000000 1000000000),
     cmd_entry ''NH'' 16 2 (prop_P OR prop_B OR prop_S OR prop_N OR prop_M OR prop_I) FMT_LF 1 10 (LF_Range 1000000 1000000000),
     cmd_entry ''WM'' 17 2 (prop_P OR prop_B OR prop_S OR prop_N OR prop_M OR prop_I) FMT_LF 1 10 (LF_Range 1000000 1000000000),
     cmd_entry ''WH'' 18 2 (prop_P OR prop_B OR prop_S OR prop_N OR prop_M OR prop_I) FMT_LF 1 10 (LF_Range 1000000 1000000000),
     cmd_entry ''NUP'' 19 2 (prop_P OR prop_B OR prop_S OR prop_N OR prop_M OR prop_I) FMT_U_32 1 7 (U_Range 1 3300000),
     cmd_entry ''WUP'' 20 2 (prop_P OR prop_B OR prop_S OR prop_N OR prop_M OR prop_I) FMT_U_32 1 7 (U_Range 1 3300000),
     cmd_entry ''NLM'' 21 2 (prop_P OR prop_B OR prop_S OR prop_N OR prop_M OR prop_I) FMT_U_32 1 7 (U_Range 1 3300000),
     cmd_entry ''WLM'' 22 2 (prop_P OR prop_B OR prop_S OR prop_N OR prop_M OR prop_I) FMT_U_32 1 7 (U_Range 1 3300000),
     cmd_entry ''NLH'' 23 2 (prop_P OR prop_B OR prop_S OR prop_N OR prop_M OR prop_I) FMT_U_32 1 7 (U_Range 1 3300000),
     cmd_entry ''WLH'' 24 2 (prop_P OR prop_B OR prop_S OR prop_N OR prop_M OR prop_I) FMT_U_32 1 7 (U_Range 1 3300000),
     cmd_entry ''GDN'' 25 2 (prop_P OR prop_B OR prop_S OR prop_N OR prop_M OR prop_I) FMT_U_32 1 3 (U_Range 1 500),
     cmd_entry ''GCN'' 26 2 (prop_P OR prop_B OR prop_S OR prop_N OR prop_M OR prop_I) FMT_U_32 1 3 (U_Range 1 500),
     cmd_entry ''AM'' 27 3 (prop_P OR prop_S OR prop_N OR prop_M) FMT_C 1 1 (C_Range (bytes ''04'')),
     cmd_entry ''AL'' 28 3 (prop_P OR prop_B OR prop_S OR prop_N OR prop_M) FMT_F 3 7 (F_Range 100000000 3500000000),
     cmd_entry ''AH'' 29 3 (prop_P OR prop_B OR prop_S OR prop_N OR prop_M) FMT_F 3 7 (F_Range 100000000 3500000000),
     cmd_entry ''OAL'' 30 3 (prop_P OR prop_B OR prop_S OR prop_N OR prop_M) FMT_F 1 7 (F_Range 0 4000000),
     cmd_entry ''OAH'' 31 3 (prop_P OR prop_B OR prop_S OR prop_N OR prop_M) FMT_F 1 7 (F_Range 20000000 24000000),
     cmd_entry ''OI'' 32 3 (prop_P OR prop_S OR prop_N OR prop_M) FMT_U_32 1 8 (U_Range 0 60000000),
     cmd_entry ''IL'' 33 3 (prop_P OR prop_S OR prop_N OR prop_M OR prop_I) FMT_U_32 6 7 (U_Range 900000 1500000),
     cmd_entry ''IH'' 34 3 (prop_P OR prop_S OR prop_N OR prop_M OR prop_I) FMT_U_32 8 8 (U_Range 18500000 24000000),
     cmd_entry ''AT'' 35 3 (prop_P OR prop_S OR prop_N OR prop_I) FMT_F 3 6 (F_Range 100000000 3500000000),
     cmd_entry ''DM'' 40 4 (prop_P OR prop_S OR prop_N OR prop_M OR prop_I) FMT_U_8 1 1 (U_Range 0 3),
     cmd_entry ''GA'' 41 4 (prop_P OR prop_S OR prop_N OR prop_M OR prop_I) FMT_U_32 1 1 (U_Range 0 0),
     cmd_entry ''OFN'' 42 4 (prop_P OR prop_S OR prop_N OR prop_M OR prop_I) FMT_U_32 1 8 (U_Range 0 10000000),
     cmd_entry ''OFW'' 43 4 (prop_P OR prop_S OR prop_N OR prop_M OR prop_I) FMT_U_32 1 8 (U_Range 0 10000000),
     cmd_entry ''NV'' 44 4 (prop_P OR prop_B OR prop_N OR prop_I) FMT_U_32 1 1 (U_Range 0 0),
     cmd_entry ''WV'' 45 4 (prop_P OR prop_B OR prop_N OR prop_I) FMT_U_32 1 1 (U_Range 0 0),
     cmd_entry ''ONV'' 46 4 (prop_P OR prop_B OR prop_N OR prop_I) FMT_U_32 1 1 (U_Range 0 0),
     cmd_entry ''OWV'' 47 4 (prop_P OR prop_B OR prop_N OR prop_I) FMT_U_32 1 1 (U_Range 0 0),
     cmd_entry ''SN'' 48 4 (prop_P OR prop_B OR prop_S OR prop_N OR prop_M OR prop_I) FMT_U_32 1 1 (U_Range 0 2),
     cmd_entry ''SW'' 49 4 (prop_P OR prop_B OR prop_S OR prop_N OR prop_M OR prop_I) FMT_U_32 1 1 (U_Range 0 2),
     cmd_entry ''SM'' 50 4 (prop_P OR prop_B OR prop_S OR prop_N OR prop_M OR prop_I) FMT_U_32 1 1 (U_Range 0 1),
     cmd_entry ''U'' 51 5 (prop_P OR prop_B OR prop_S OR prop_N OR prop_M) FMT_C 1 1 (C_Range (bytes ''CFK'')),
     cmd_entry ''DL'' 52 5 (prop_P OR prop_S OR prop_N OR prop_M OR prop_I) FMT_F 3 7 (F_Range 100000000 3500000000),
     cmd_entry ''DH'' 53 5 (prop_P OR prop_S OR prop_N OR prop_M OR prop_I) FMT_F 3 7 (F_Range 100000000 3500000000),
     cmd_entry ''M'' 54 5 (prop_P OR prop_B OR prop_S OR prop_N OR prop_M) FMT_U_8 1 1 (U_Range 0 2),
     cmd_entry ''NC'' 55 5 (prop_P OR prop_B OR prop_S OR prop_N OR prop_M OR prop_I) FMT_F6 1 6 (F_Range 100000 1150000),
     cmd_entry ''WC'' 56 5 (prop_P OR prop_B OR prop_S OR prop_N OR prop_M OR prop_I) FMT_F6 1 6 (F_Range 100000 1150000),
     cmd_entry ''E'' 57 5 (prop_P OR prop_B OR prop_S OR prop_N OR prop_M) FMT_F6 1 6 (F_Range 100000 1150000),
     cmd_entry ''NS'' 58 5 (prop_P OR prop_B OR prop_S OR prop_N OR prop_M) FMT_F6 1 6 (F_Range 100000 10150000),
     cmd_entry ''WS'' 59 5 (prop_P OR prop_B OR prop_S OR prop_N OR prop_M) FMT_F6 1 6 (F_Range 100000 10150000),
     cmd_entry ''S'' 60 5 (prop_P OR prop_B OR prop_S OR prop_N OR prop_M) FMT_F6 1 6 (F_Range 100000 10150000),
     cmd_entry ''SI'' 61 5 (prop_P OR prop_B OR prop_S OR prop_N OR prop_M) FMT_F6 1 6 (F_Range 100000 10150000),
     cmd_entry ''ON'' 62 5 (prop_P OR prop_B OR prop_S OR prop_N OR prop_M OR prop_I) FMT_U_32 1 7 (U_Range 0 1000000),
     cmd_entry ''OW'' 63 5 (prop_P OR prop_B OR prop_S OR prop_N OR prop_M OR prop_I) FMT_U_32 1 7 (U_Range 0 1000000),
     cmd_entry ''VV'' 64 5 (prop_P OR prop_S OR prop_N OR prop_M OR prop_I) FMT_U_32 1 7 (U_Range 0 3220000),
     cmd_entry ''ATC'' 65 5 (prop_P OR prop_S OR prop_N OR prop_M OR prop_I) FMT_U_8 1 1 (U_Range 0 1),
     cmd_entry ''TTCO'' 66 5 (prop_P OR prop_S OR prop_N OR prop_I) FMT_U_8 1 1 (U_Range 0 1),
     cmd_entry ''CA'' 67 5 (prop_S OR prop_N OR prop_I) FMT_F 3 7 (F_Range 100000000 3500000000),
     cmd_entry ''TCLS'' 68 5 (prop_S OR prop_N OR prop_I) FMT_F 3 7 (F_Range 100000000 3500000000),
     cmd_entry ''TCLR'' 69 5 (prop_S OR prop_N OR prop_I) FMT_F 3 7 (F_Range 100000000 3500000000),
     cmd_entry ''TCHS'' 70 5 (prop_S OR prop_N OR prop_I) FMT_F 3 7 (F_Range 100000000 3500000000),
     cmd_entry ''TCHR'' 71 5 (prop_S OR prop_N OR prop_I) FMT_F 3 7 (F_Range 100000000 3500000000),
     cmd_entry ''WTGA'' 72 5 (prop_P OR prop_B OR prop_S OR prop_N OR prop_M OR prop_I) FMT_F 1 8 (F_Range 800000 1200000),
     cmd_entry ''WTOF'' 73 5 (prop_P OR prop_B OR prop_S OR prop_N OR prop_M OR prop_I) FMT_F 1 6 (F_Range (- 500000000) 500000000),
     cmd_entry ''NTGA'' 74 5 (prop_P OR prop_B OR prop_S OR prop_N OR prop_M OR prop_I) FMT_F 1 8 (F_Range 800000 1200000),
     cmd_entry ''NTOF'' 75 5 (prop_P OR prop_B OR prop_S OR prop_N OR prop_M OR prop_I) FMT_F 1 6 (F_Range (- 500000000) 500000000),
     cmd_entry ''RTGA'' 76 5 (prop_P OR prop_B OR prop_S OR prop_N OR prop_M OR prop_I) FMT_F 1 8 (F_Range 800000 1200000),
     cmd_entry ''RTOF'' 77 5 (prop_P OR prop_B OR prop_S OR prop_N OR prop_M OR prop_I) FMT_F 1 6 (F_Range (- 500000000) 500000000)]"

definition CMD_TBL_2 :: "cmd_item list" where
  "CMD_TBL_2 = [
     cmd_entry ''T'' 78 5 (prop_P OR prop_B OR prop_N) FMT_F 1 1 (F_Range 100000 10000000000),
     cmd_entry ''RT'' 79 5 (prop_P OR prop_B OR prop_N OR prop_I) FMT_F 1 1 (F_Range 0 0),
     cmd_entry ''ST'' 80 5 (prop_P OR prop_B OR prop_N OR prop_I) FMT_F 1 1 (F_Range 0 0),
     cmd_entry ''I'' 81 5 (prop_P OR prop_B OR prop_N) FMT_F 1 1 (F_Range 0 0),
     cmd_entry ''NT'' 82 5 (prop_P OR prop_B OR prop_N) FMT_F 1 1 (F_Range 100000 10000000000),
     cmd_entry ''WT'' 83 5 (prop_P OR prop_B OR prop_N) FMT_F 1 1 (F_Range 100000 10000000000),
     cmd_entry ''B'' 84 5 (prop_P OR prop_B OR prop_N) FMT_F 1 1 (F_Range 0 0),
     cmd_entry ''TN'' 85 5 (prop_P OR prop_B OR prop_N OR prop_I) FMT_F 1 1 (F_Range 0 0),
     cmd_entry ''NI'' 86 6 (prop_P OR prop_S OR prop_N OR prop_M OR prop_I) FMT_U_32 1 2 (U_Range 1 10),
     cmd_entry ''NR'' 87 6 (prop_P OR prop_S OR prop_N OR prop_M OR prop_I) FMT_U_32 1 2 (U_Range 1 50),
     cmd_entry ''DHCP'' 88 6 (prop_P OR prop_S OR prop_N OR prop_M OR prop_I) FMT_U_8 1 1 (U_Range 0 1),
     cmd_entry ''IP'' 89 6 (prop_P OR prop_S OR prop_N OR prop_M) FMT_S 7 15 (S_Range Is_valid_ip),
     cmd_entry ''NY'' 90 6 (prop_P OR prop_S OR prop_N OR prop_M OR prop_I) FMT_S 7 15 (S_Range Is_valid_ip),
     cmd_entry ''GW'' 91 6 (prop_P OR prop_S OR prop_N OR prop_M) FMT_S 7 15 (S_Range Is_valid_ip),
     cmd_entry ''MA'' 92 6 (prop_P OR prop_S OR prop_N OR prop_M) FMT_S 7 15 (S_Range Is_valid_ip),
     cmd_entry ''MAC'' 93 6 (prop_P) FMT_S 12 12 No_Range,
     cmd_entry ''PO'' 94 6 (prop_P OR prop_S OR prop_N OR prop_M) FMT_U_16 1 5 (U_Range 0 65535),
     cmd_entry ''RI'' 95 7 (prop_P OR prop_S OR prop_N OR prop_M OR prop_I) FMT_U_32 3 8 (U_Range 300 86400000),
     cmd_entry ''RQ'' 96 7 (prop_S OR prop_N OR prop_I) FMT_U_8 1 1 (U_Range 0 2),
     cmd_entry ''RO'' 97 7 (prop_P OR prop_S OR prop_N OR prop_I) FMT_U_8 1 1 (U_Range 0 1),
     cmd_entry ''RN'' 98 7 (prop_P OR prop_N OR prop_I) FMT_S 1 40 No_Range,
     cmd_entry ''AP'' 99 8 (prop_P OR prop_S OR prop_N OR prop_M OR prop_I) FMT_S 1 1024 No_Range,
     cmd_entry ''NWA'' 100 8 (prop_P OR prop_S OR prop_N OR prop_M OR prop_I) FMT_S 1 1024 No_Range,
     cmd_entry ''NWB'' 101 8 (prop_P OR prop_S OR prop_N OR prop_M OR prop_I) FMT_S 1 1024 No_Range,
     cmd_entry ''NB'' 102 8 (prop_P OR prop_S OR prop_N OR prop_M OR prop_I) FMT_S 1 1024 No_Range,
     cmd_entry ''V'' 103 9 (prop_P OR prop_S OR prop_N OR prop_M) FMT_C 1 1 (C_Range (bytes ''BP'')),
     cmd_entry ''BS'' 104 9 (prop_P OR prop_S OR prop_N OR prop_M) FMT_U_16 2 5 (U_Range 30 10000),
     cmd_entry ''BC'' 105 9 (prop_P OR prop_S OR prop_N OR prop_M) FMT_S 1 40 (S_Range Valid_cmd_list),
     cmd_entry ''BF'' 106 9 (prop_P OR prop_S OR prop_N OR prop_M) FMT_S 2 2 No_Range,
     cmd_entry ''RA'' 107 10 (prop_P OR prop_S OR prop_N OR prop_M) FMT_U_8 1 1 (U_Range 0 9),
     cmd_entry ''TON'' 108 10 (prop_P OR prop_S OR prop_N OR prop_M) FMT_F 1 6 (F_Range 100000000 3500000000),
     cmd_entry ''TOF'' 109 10 (prop_P OR prop_S OR prop_N OR prop_M) FMT_F 1 5 (F_Range 0 150000000),
     cmd_entry ''ION'' 110 10 (prop_P OR prop_S OR prop_N OR prop_M OR prop_I) FMT_F 1 5 (F_Range (- 40000000) 150000000),
     cmd_entry ''IOF'' 111 10 (prop_P OR prop_S OR prop_N OR prop_M OR prop_I) FMT_F 1 5 (F_Range 0 150000000),
     cmd_entry ''DR'' 112 10 (prop_P OR prop_S OR prop_N OR prop_M OR prop_I) FMT_U_32 1 3 (U_Range 0 100),
     cmd_entry ''AON'' 113 10 (prop_P OR prop_S OR prop_N OR prop_M) FMT_F 1 4 (F_Range 0 1000000),
     cmd_entry ''AOF'' 114 10 (prop_P OR prop_S OR prop_N OR prop_M OR prop_I) FMT_F 1 4 (F_Range 0 1000000),
     cmd_entry ''EM'' 115 11 (prop_P OR prop_S OR prop_N OR prop_M OR prop_I) FMT_U_8 1 1 (U_Range 1 8),
     cmd_entry ''EV'' 116 11 (prop_P OR prop_S OR prop_N OR prop_M OR prop_I) FMT_F 2 5 (F_Range (- 13000000) (- 2000000)),
     cmd_entry ''BN'' 117 11 (prop_P OR prop_S OR prop_N OR prop_M OR prop_I) FMT_F 1 5 (F_Range (- 64000000) 64000000),
     cmd_entry ''BL'' 118 11 (prop_P OR prop_S OR prop_N OR prop_M OR prop_I) FMT_U_8 1 1 (U_Range 0 5),
     cmd_entry ''GN'' 119 11 (prop_P OR prop_S OR prop_N OR prop_M OR prop_I) FMT_U_8 1 1 (U_Range 1 7),
     cmd_entry ''VI'' 120 11 (prop_P OR prop_S OR prop_N OR prop_M) FMT_U_8 1 1 (U_Range 0 1),
     cmd_entry ''VM'' 121 11 (prop_P OR prop_S OR prop_N OR prop_M OR prop_I) FMT_U_8 1 1 (U_Range 0 1),
     cmd_entry ''VF'' 122 11 (prop_P OR prop_S OR prop_N OR prop_M OR prop_I) FMT_U_8 1 1 (U_Range 0 8),
     cmd_entry ''VT'' 123 11 (prop_P OR prop_S OR prop_N OR prop_M OR prop_I) FMT_U_16 1 10 (U_Range 0 1000),
     cmd_entry ''VN'' 124 11 (prop_P OR prop_S OR prop_N OR prop_M OR prop_I) FMT_U_32 1 10 (U_Range 0 4000),
     cmd_entry ''AX'' 125 11 (prop_P OR prop_S OR prop_N OR prop_M OR prop_I) FMT_F 1 7 (F_Range (- 1000000000) 1000000000),
     cmd_entry ''AY'' 126 11 (prop_P OR prop_S OR prop_N OR prop_M OR prop_I) FMT_F 1 7 (F_Range (- 1000000000) 1000000000),
     cmd_entry ''RC'' 127 11 (prop_P OR prop_N OR prop_I) FMT_F 1 4 (F_Range 0 1000000),
     cmd_entry ''AN'' 128 12 (prop_P OR prop_S OR prop_N OR prop_M) FMT_U_16 1 3 (U_Range 1 500),
     cmd_entry ''C'' 129 12 (prop_P OR prop_S OR prop_N OR prop_M OR prop_I) FMT_F 1 1 (F_Range 0 0),
     cmd_entry ''F'' 130 12 (prop_P OR prop_B OR prop_S OR prop_N OR prop_M OR prop_I) FMT_F 1 5 (F_Range 0 300000000),
     cmd_entry ''AA'' 131 12 (prop_P OR prop_S OR prop_N OR prop_M OR prop_I) FMT_F 1 1 (F_Range 0 0),
     cmd_entry ''P'' 132 12 (prop_P OR prop_B OR prop_S OR prop_N OR prop_M OR prop_I) FMT_F 1 5 (F_Range 0 300000000),
     cmd_entry ''FM'' 133 12 (prop_P OR prop_S OR prop_N OR prop_M OR prop_I) FMT_U_8 1 1 (U_Range 0 2),
     cmd_entry ''CT'' 134 13 (prop_P OR prop_S OR prop_N OR prop_M OR prop_I) FMT_F6 1 5 (F_Range 0 100000000),
     cmd_entry ''KP'' 135 13 (prop_P OR prop_S OR prop_N OR prop_M OR prop_I) FMT_LF 1 12 (LF_Range 0 50000000000),
     cmd_entry ''KI'' 136 13 (prop_P OR prop_S OR prop_N OR prop_M OR prop_I) FMT_LF 1 12 (LF_Range 0 50000000000),
     cmd_entry ''KD'' 137 13 (prop_P OR prop_S OR prop_N OR prop_M OR prop_I) FMT_LF 1 12 (LF_Range 0 50000000000)]"

definition CMD_TBL :: "cmd_item list" where
  "CMD_TBL = CMD_TBL_1 @ CMD_TBL_2"

subsection \<open>Errors\<close>

definition UPP_OK :: u8 where "UPP_OK = 0"
definition UPP_ERR_LEN :: u8 where "UPP_ERR_LEN = 1"
definition UPP_ERR_NO_CARRIAGE :: u8 where "UPP_ERR_NO_CARRIAGE = 2"
definition UPP_ERR_OP_TYPE :: u8 where "UPP_ERR_OP_TYPE = 3"
definition UPP_ERR_NO_OPERATOR :: u8 where "UPP_ERR_NO_OPERATOR = 4"
definition UPP_ERR_ADDR_ILLEGAL :: u8 where "UPP_ERR_ADDR_ILLEGAL = 5"
definition UPP_ERR_ADDR_OUT_RANGE :: u8 where "UPP_ERR_ADDR_OUT_RANGE = 6"
definition UPP_ERR_MODE :: u8 where "UPP_ERR_MODE = 7"
definition UPP_ERR_NO_SUPPORT_CMD :: u8 where "UPP_ERR_NO_SUPPORT_CMD = 8"
definition UPP_ERR_NO_SET_DATA :: u8 where "UPP_ERR_NO_SET_DATA = 9"
definition UPP_ERR_NO_UPPERCASE :: u8 where "UPP_ERR_NO_UPPERCASE = 10"
definition UPP_ERR_NO_SUP_BROADCAST :: u8 where "UPP_ERR_NO_SUP_BROADCAST = 11"
definition UPP_ERR_DATA_ILLEGAL :: u8 where "UPP_ERR_DATA_ILLEGAL = 12"
definition UPP_ERR_DATA_LEN :: u8 where "UPP_ERR_DATA_LEN = 13"
definition UPP_ERR_DATA_RANGE :: u8 where "UPP_ERR_DATA_RANGE = 14"
definition UPP_ERR_MULT_OPERATOR :: u8 where "UPP_ERR_MULT_OPERATOR = 15"
definition UPP_ERR_BUILD_PACKET :: u8 where "UPP_ERR_BUILD_PACKET = 16"
definition UPP_ERR_DATA_LIMIT :: u8 where "UPP_ERR_DATA_LIMIT = 17"
definition UPP_ERR_DATA_CRC :: u8 where "UPP_ERR_DATA_CRC = 18"
definition UPP_ERR_CMD_LEN :: u8 where "UPP_ERR_CMD_LEN = 19"
definition UPP_ERR_CMD_CONFLICT :: u8 where "UPP_ERR_CMD_CONFLICT = 20"
definition UPP_ERR_CMD_LOCKED :: u8 where "UPP_ERR_CMD_LOCKED = 21"
definition UPP_ERR_OPERATOR_ILLEGAL :: u8 where "UPP_ERR_OPERATOR_ILLEGAL = 22"

definition ERR_INFO_TBL :: "buf list" where
  "ERR_INFO_TBL = [
     bytes ''upp ok'',
     bytes ''upp err len'',
     bytes ''upp err no carriage'',
     bytes ''upp err op type'',
     bytes ''upp err no operator'',
     bytes ''upp err addr illegal'',
     bytes ''upp addr over range'',
     bytes ''upp err mode'',
     bytes ''upp err no support cmd'',
     bytes ''upp err no set data'',
     bytes ''upp err no uppercase'',
     bytes ''upp err no sup broadcast'',
     bytes ''upp err data illegal'',
     bytes ''upp err data len'',
     bytes ''upp err data range'',
     bytes ''upp err mult operator'',
     bytes ''upp err build packet'',
     bytes ''upp err data limit'',
     bytes ''upp err data crc/calibration'',
     bytes ''upp err cmd length'',
     bytes ''upp err cmd conflict'',
     bytes ''upp err device is locked'',
     bytes ''upp err operator illegal'']"

subsection \<open>Commands with temperatures\<close>

definition TEMP_CMD_TBL :: "buf list" where
  "TEMP_CMD_TBL = map bytes [''DL'', ''DH'', ''TCLS'', ''TCLR'', ''TCHS'', ''TCHR'', ''T'', ''RT'', ''ST'', ''I'', ''NT'',
     ''WT'', ''TN'', ''TON'', ''TOF'', ''ION'', ''IOF'', ''CT'', ''AL'', ''AH'', ''AT'']"

definition AdjRange_CMD_TBL :: "buf list" where
  "AdjRange_CMD_TBL = map bytes [''AL'', ''AH'', ''AT'', ''CA'', ''TCLS'', ''TCLR'', ''TCHS'', ''TCHR'', ''TON'']"

subsection \<open>Facts on the table\<close>

lemma CMD_TBL_length: "length CMD_TBL = 134"
  by (simp add: CMD_TBL_def CMD_TBL_1_def CMD_TBL_2_def)

lemma CMD_TBL_words: "list_all (\<lambda>it. 1 \<le> length (ci_cmd it) \<and> length (ci_cmd it) \<le> 4 \<and> list_all c_isupper (ci_cmd it)) CMD_TBL"
  by code_simp

text \<open>The identifier of every entry is the one with the name of its command.\<close>

lemma cmd_id_count: "length cmd_id_e = CMD_CNT"
  by (simp add: cmd_id_e_def CMD_CNT_def)

lemma CMD_TBL_ids: "list_all (\<lambda>it. ci_id it < CMD_CNT \<and> bytes (cmd_id_e ! ci_id it) = ci_cmd it) CMD_TBL"
  by code_simp

lemma CMD_TBL_distinct: "distinct (map ci_cmd CMD_TBL)"
  by code_simp

end
