(* ===== verification/Proto_Char.thy ===== *)
theory Proto_Char
  imports Proto_Char_Cfg
begin

text \<open>
  The character protocol, \<open>src/app/proto/proto_char.c\<close>, with \<open>valid_cmd_list\<close> and \<open>burst_build\<close> of \<open>src/app/sys/burst.c\<close>.

  A packet buffer is the list of the bytes from its address to the end of the object, and the pointer
  \<open>ptr\<close> of the parser an offset into it. The parameters and states that the entries of the command table
  point to are a list of byte lists in the order of the table. The callbacks, which act on the
  rest of the system, and the treatment of floating-point values are arguments.
\<close>

definition UPP_OP_GET :: u8 where "UPP_OP_GET = 63"
definition UPP_OP_SET :: u8 where "UPP_OP_SET = 61"
definition UPP_ADDR_MODE_SINGLE :: u8 where "UPP_ADDR_MODE_SINGLE = 0"
definition UPP_ADDR_MODE_MULTI :: u8 where "UPP_ADDR_MODE_MULTI = 1"

record upp_parse =
  cmd_len :: u16
  addr_mode :: u8
  ptr :: nat
  cmd_word_len :: u8
  delim_len :: u8
  multi_addr :: u32
  op :: u8
  cmd_idx :: nat
  cmd_word :: buf
  data_out_en :: u8
  data_len :: u16
  pdata :: buf
  err :: u8

definition parse_clear :: upp_parse where
  "parse_clear = \<lparr>cmd_len = 0, addr_mode = 0, ptr = 0, cmd_word_len = 0, delim_len = 0, multi_addr = 0, op = 0, cmd_idx = 0,
     cmd_word = replicate 5 0, data_out_en = 0, data_len = 0, pdata = replicate PARSE_DATA_SIZE 0, err = 0\<rparr>"

record upp_state =
  targets :: "buf list"
  develop :: bool
  unlock :: bool
  upp_addr :: u8

subsection \<open>Parsing\<close>

definition check_packet :: "upp_parse \<Rightarrow> buf \<Rightarrow> int \<Rightarrow> (int \<times> upp_parse) option" where
  "check_packet p inbuf inlen =
     (if inlen < 3 then Some (- 1, p\<lparr>err := UPP_ERR_LEN\<rparr>)
      else do {
        carr_pos \<leftarrow> mem_search inbuf inlen 13;
        case carr_pos of
          None \<Rightarrow> Some (- 1, p\<lparr>err := UPP_ERR_NO_CARRIAGE\<rparr>)
        | Some k \<Rightarrow>
            if Suc k < length inbuf
            then let d = (if inbuf ! Suc k = 10 then 2 else 1)
                 in Some (0, p\<lparr>delim_len := d, cmd_len := of_nat k + ucast d\<rparr>)
            else None })"

definition get_multi_addr :: "'e upp_state_scheme \<Rightarrow> upp_parse \<Rightarrow> buf \<Rightarrow> (int \<times> upp_parse) option" where
  "get_multi_addr st p pkt = do {
     digits \<leftarrow> is_pure_digit_n (Some pkt) (int ADDR_LEN);
     (ret, p) \<leftarrow>
       (if \<not> digits then Some (0 :: int, p\<lparr>addr_mode := UPP_ADDR_MODE_SINGLE, multi_addr := 0, ptr := 0\<rparr>)
        else do {
          (r, a) \<leftarrow> string_to_dec_n (multi_addr p) pkt (int ADDR_LEN);
          Some (if r = 0 then (0, p\<lparr>multi_addr := a, addr_mode := UPP_ADDR_MODE_MULTI, ptr := ADDR_LEN\<rparr>)
                else (- 1, p\<lparr>multi_addr := a, err := UPP_ERR_ADDR_ILLEGAL\<rparr>)) });
     Some (if ret \<noteq> 0 then (- 1, p)
           else if multi_addr p \<noteq> ucast (upp_addr st) \<and> multi_addr p \<noteq> BROADCAST_ADDR then (- 1, p\<lparr>err := UPP_OK\<rparr>)
           else if multi_addr p > UPP_MAX_ADDR \<and> multi_addr p \<noteq> BROADCAST_ADDR then (- 1, p\<lparr>err := UPP_ERR_ADDR_OUT_RANGE\<rparr>)
           else (0, p)) }"

text \<open>The operation and the length of the command word; \<open>Inl\<close> is the return with an error.\<close>

definition parse_op :: "upp_parse \<Rightarrow> buf \<Rightarrow> (upp_parse + upp_parse) option" where
  "parse_op p pkt =
     (if length pkt \<le> ptr p then None
      else if pkt ! ptr p = UPP_OP_GET then
        let p = p\<lparr>op := UPP_OP_GET, ptr := Suc (ptr p)\<rparr>;
            n = (word_of_int (uint (cmd_len p) - int (ptr p) - uint (delim_len p)) :: u8)
        in Some (if n < 1 \<or> n > 4 then Inl (p\<lparr>err := UPP_ERR_CMD_LEN\<rparr>) else Inr (p\<lparr>cmd_word_len := n\<rparr>))
      else do {
        carr_pos \<leftarrow> mem_search pkt (uint (cmd_len p)) UPP_OP_SET;
        Some (case carr_pos of
            None \<Rightarrow> Inl (p\<lparr>err := UPP_ERR_OPERATOR_ILLEGAL\<rparr>)
          | Some k \<Rightarrow>
              let p = p\<lparr>op := UPP_OP_SET\<rparr>; n = (word_of_int (int k - int (ptr p)) :: u8)
              in if n < 1 \<or> n > 4 then Inl (p\<lparr>err := UPP_ERR_CMD_LEN\<rparr>) else Inr (p\<lparr>cmd_word_len := n\<rparr>)) })"

definition parse_cmd_flk :: "upp_parse \<Rightarrow> buf \<Rightarrow> (int \<times> upp_parse) option" where
  "parse_cmd_flk p pkt = do {
     r \<leftarrow> parse_op p pkt;
     case r of
       Inl p \<Rightarrow> Some (- 1, p)
     | Inr p \<Rightarrow> do {
         lower \<leftarrow> check_uppercase (drop (ptr p) pkt) (uint (cmd_word_len p));
         if lower \<noteq> 0 then Some (- 1, p\<lparr>err := UPP_ERR_NO_UPPERCASE\<rparr>)
         else do {
           (w, _) \<leftarrow> mem_copy (cmd_word p) (drop (ptr p) pkt) (uint (cmd_word_len p));
           let p = p\<lparr>cmd_word := w, ptr := ptr p + unat (cmd_word_len p)\<rparr>;
           if op p = UPP_OP_SET then do {
             let p = p\<lparr>ptr := Suc (ptr p)\<rparr>;
             if uint (cmd_len p) - int (ptr p) \<le> uint (delim_len p) then Some (- 1, p\<lparr>err := UPP_ERR_NO_SET_DATA\<rparr>)
             else do {
               let p = p\<lparr>data_len := word_of_int (uint (cmd_len p) - int (ptr p) - uint (delim_len p))\<rparr>;
               (d, _) \<leftarrow> mem_copy (pdata p) (drop (ptr p) pkt) (uint (data_len p));
               Some (0, p\<lparr>pdata := d\<rparr>) } }
           else Some (0, p) } } }"

definition upp_parse_cmd :: "'e upp_state_scheme \<Rightarrow> upp_parse \<Rightarrow> buf \<Rightarrow> (int \<times> upp_parse) option" where
  "upp_parse_cmd st p buff = do {
     (r, p) \<leftarrow> get_multi_addr st p buff;
     if r \<noteq> 0 then Some (- 1, p) else parse_cmd_flk p buff }"

subsection \<open>The command table\<close>

text \<open>The loop runs over \<open>CMD_CNT\<close> positions; a position behind the end of the table is not readable.\<close>

fun found_loop :: "cmd_item list \<Rightarrow> nat \<Rightarrow> nat \<Rightarrow> buf \<Rightarrow> u8 \<Rightarrow> int option" where
  "found_loop tbl i 0 cmd len = Some (- 1)"
| "found_loop [] i (Suc n) cmd len = None"
| "found_loop (it # tbl) i (Suc n) cmd len =
     (if length (ci_cmd it) = unat len then do {
        r \<leftarrow> string_comp_n (ci_cmd it @ [0]) cmd (uint len);
        if r = 0 then Some (int i) else found_loop tbl (Suc i) n cmd len }
      else found_loop tbl (Suc i) n cmd len)"

definition cmd_found :: "cmd_item list \<Rightarrow> buf \<Rightarrow> u8 \<Rightarrow> int option" where
  "cmd_found tbl cmd len = found_loop tbl 0 CMD_CNT cmd len"

definition is_need_conver_unit :: "buf \<Rightarrow> bool" where
  "is_need_conver_unit cmd \<longleftrightarrow> list_ex (\<lambda>c. c = cmd) TEMP_CMD_TBL"

definition is_need_limitRange :: "buf \<Rightarrow> bool" where
  "is_need_limitRange cmd \<longleftrightarrow> list_ex (\<lambda>c. c = cmd) AdjRange_CMD_TBL"

subsection \<open>Checking and storing data\<close>

text \<open>\<open>sscanf\<close> of unsigned, \<open>long long\<close> and hexadecimal numbers: a value out of range is undefined; no match is \<open>Some None\<close>.\<close>

definition sscanf_u :: "buf \<Rightarrow> u32 option option" where
  "sscanf_u dat = do {
     s \<leftarrow> c_string dat;
     case sscanf_d s of
       None \<Rightarrow> Some None
     | Some v \<Rightarrow> if \<bar>v\<bar> < 2 ^ 32 then Some (Some (word_of_int v)) else None }"

definition sscanf_lld :: "buf \<Rightarrow> int option option" where
  "sscanf_lld dat = do {
     s \<leftarrow> c_string dat;
     case sscanf_d s of
       None \<Rightarrow> Some None
     | Some v \<Rightarrow> if - (2 ^ 63) \<le> v \<and> v < 2 ^ 63 then Some (Some v) else None }"

definition hex_value :: "u8 \<Rightarrow> int option" where
  "hex_value c = (if c \<ge> 48 \<and> c \<le> 57 then Some (uint c - 48) else if c \<ge> 65 \<and> c \<le> 70 then Some (uint c - 55)
     else if c \<ge> 97 \<and> c \<le> 102 then Some (uint c - 87) else None)"

fun scan_hex :: "int \<Rightarrow> buf \<Rightarrow> int" where
  "scan_hex v [] = v"
| "scan_hex v (c # cs) = (case hex_value c of None \<Rightarrow> v | Some d \<Rightarrow> scan_hex (v * 16 + d) cs)"

definition sscanf_x :: "buf \<Rightarrow> u32 option option" where
  "sscanf_x dat = do {
     s \<leftarrow> c_string dat;
     let s = dropWhile c_isspace s;
     let (neg, s) = (if s \<noteq> [] \<and> (hd s = 45 \<or> hd s = 43) then (hd s = 45, tl s) else (False, s));
     let s = (if length s > 2 \<and> hd s = 48 \<and> (s ! 1 = 120 \<or> s ! 1 = 88) \<and> hex_value (s ! 2) \<noteq> None then drop 2 s else s);
     if s = [] \<or> hex_value (hd s) = None then Some None
     else let v = scan_hex 0 s in if v < 2 ^ 32 then Some (Some (if neg then - word_of_int v else word_of_int v)) else None }"

fun cmd_list_loop :: "buf \<Rightarrow> nat \<Rightarrow> bool \<Rightarrow> bool option" where
  "cmd_list_loop [] n has = None"
| "cmd_list_loop (c # cs) n has =
     (if c = 13 \<or> c = 0 then Some (if n = 0 \<and> \<not> has then False else n \<noteq> 0)
      else if c = 44 then (if n = 0 then Some False else cmd_list_loop cs 0 True)
      else if \<not> c_isupper c then Some False
      else if Suc n > 4 then Some False
      else cmd_list_loop cs (Suc n) has)"

definition valid_cmd_list :: "buf \<Rightarrow> bool option" where
  "valid_cmd_list str = (case str of [] \<Rightarrow> None | c # _ \<Rightarrow> if c = 0 then Some False else cmd_list_loop str 0 False)"

fun run_check :: "str_check \<Rightarrow> buf \<Rightarrow> bool option" where
  "run_check Is_pure_digit s = is_pure_digit (Some s)"
| "run_check Is_check_fmt_valid s = is_check_fmt_valid s"
| "run_check Is_valid_ip s = is_valid_ip s"
| "run_check Valid_cmd_list s = valid_cmd_list s"

definition store_target :: "'e upp_state_scheme \<Rightarrow> nat \<Rightarrow> buf \<Rightarrow> 'e upp_state_scheme option" where
  "store_target st i bs =
     (if i < length (targets st) \<and> length bs \<le> length (targets st ! i)
      then Some (st\<lparr>targets := (targets st)[i := overwrite (targets st ! i) 0 bs]\<rparr>) else None)"

definition backup :: "'e upp_state_scheme \<Rightarrow> nat \<Rightarrow> nat \<Rightarrow> buf \<Rightarrow> buf option" where
  "backup st i n bkp =
     (if i < length (targets st) \<and> n \<le> length (targets st ! i) \<and> n \<le> length bkp
      then Some (overwrite bkp 0 (take n (targets st ! i))) else None)"

definition le64 :: "u64 \<Rightarrow> buf" where
  "le64 v = le32 (ucast v) @ le32 (ucast (drop_bit 32 v))"

fun u_range :: "rule_range \<Rightarrow> u32 \<times> u32" where
  "u_range (U_Range mn mx) = (mn, mx)"
| "u_range _ = (0, 0)"

fun ll_range :: "rule_range \<Rightarrow> int \<times> int" where
  "ll_range (LL_Range mn mx) = (mn, mx)"
| "ll_range _ = (0, 0)"

fun c_range :: "rule_range \<Rightarrow> buf" where
  "c_range (C_Range s) = s"
| "c_range _ = []"

text \<open>
  The result of a check: whether it passed, the parser, the state, the backup and its length. \<open>flt\<close> reads a
  floating-point value from the text, converts its unit and compares it with the limits; it
  yields an error or the bytes to be stored.
\<close>

type_synonym 'e chk_result = "bool \<times> upp_parse \<times> 'e upp_state_scheme \<times> buf \<times> nat"

definition chk_number ::
  "nat \<Rightarrow> u32 option option \<Rightarrow> bool \<Rightarrow> bool \<Rightarrow> cmd_item \<Rightarrow> nat \<Rightarrow> upp_parse \<Rightarrow> 'e upp_state_scheme \<Rightarrow> buf \<Rightarrow> 'e chk_result option" where
  "chk_number n scanned decimal lenient it i p st bkp = do {
     bkp \<leftarrow> backup st i n bkp;
     ok \<leftarrow> (if decimal then do { d \<leftarrow> is_dec_number (pdata p) (uint (data_len p)); Some (d = 1) } else Some True);
     if \<not> ok then Some (False, p\<lparr>err := UPP_ERR_DATA_ILLEGAL\<rparr>, st, bkp, n)
     else do {
       v \<leftarrow> scanned;
       case v of
         None \<Rightarrow> Some (False, p\<lparr>err := UPP_ERR_DATA_ILLEGAL\<rparr>, st, bkp, n)
       | Some u \<Rightarrow>
           if (u > snd (u_range (ci_range it)) \<or> u < fst (u_range (ci_range it))) \<and> \<not> (lenient \<and> develop st)
           then Some (False, p\<lparr>err := UPP_ERR_DATA_RANGE\<rparr>, st, bkp, n)
           else do { st \<leftarrow> store_target st i (take n (le32 u)); Some (True, p, st, bkp, n) } } }"

definition chk_float ::
  "(cmd_item \<Rightarrow> buf \<Rightarrow> 'e upp_state_scheme \<Rightarrow> u8 + buf) \<Rightarrow> nat \<Rightarrow> cmd_item \<Rightarrow> nat \<Rightarrow> upp_parse \<Rightarrow> 'e upp_state_scheme \<Rightarrow> buf
    \<Rightarrow> 'e chk_result option" where
  "chk_float flt n it i p st bkp = do {
     bkp \<leftarrow> backup st i n bkp;
     d \<leftarrow> is_dec_number (pdata p) (uint (data_len p));
     if d = 0 then Some (False, p\<lparr>err := UPP_ERR_DATA_ILLEGAL\<rparr>, st, bkp, n)
     else case flt it (pdata p) st of
         Inl e \<Rightarrow> Some (False, p\<lparr>err := e\<rparr>, st, bkp, n)
       | Inr bs \<Rightarrow> do { st \<leftarrow> store_target st i bs; Some (True, p, st, bkp, n) } }"

definition cmd_data_chk ::
  "(cmd_item \<Rightarrow> buf \<Rightarrow> 'e upp_state_scheme \<Rightarrow> u8 + buf) \<Rightarrow> cmd_item \<Rightarrow> nat \<Rightarrow> upp_parse \<Rightarrow> 'e upp_state_scheme \<Rightarrow> buf \<Rightarrow> nat
    \<Rightarrow> 'e chk_result option" where
  "cmd_data_chk flt it i p st bkp bkp_len =
     (if (uint (data_len p) < ci_min_len it \<or> uint (data_len p) > ci_max_len it) \<and> \<not> develop st
      then Some (False, p\<lparr>err := UPP_ERR_DATA_LEN\<rparr>, st, bkp, bkp_len)
      else case ci_type it of
        FMT_U_8 \<Rightarrow> chk_number 1 (sscanf_u (pdata p)) True True it i p st bkp
      | FMT_U_16 \<Rightarrow> chk_number 2 (sscanf_u (pdata p)) True True it i p st bkp
      | FMT_U_32 \<Rightarrow> chk_number 4 (sscanf_u (pdata p)) True True it i p st bkp
      | FMT_LLD \<Rightarrow> do {
          bkp \<leftarrow> backup st i 8 bkp;
          d \<leftarrow> is_dec_number (pdata p) (uint (data_len p));
          if d \<noteq> 1 then Some (False, p\<lparr>err := UPP_ERR_DATA_ILLEGAL\<rparr>, st, bkp, 8)
          else do {
            v \<leftarrow> sscanf_lld (pdata p);
            case v of
              None \<Rightarrow> Some (False, p\<lparr>err := UPP_ERR_DATA_ILLEGAL\<rparr>, st, bkp, 8)
            | Some x \<Rightarrow>
                if x > snd (ll_range (ci_range it)) \<or> x < fst (ll_range (ci_range it))
                then Some (False, p\<lparr>err := UPP_ERR_DATA_RANGE\<rparr>, st, bkp, 8)
                else do { st \<leftarrow> store_target st i (le64 (word_of_int x)); Some (True, p, st, bkp, 8) } } }
      | FMT_LF \<Rightarrow> chk_float flt 8 it i p st bkp
      | FMT_F6 \<Rightarrow> chk_float flt 4 it i p st bkp
      | FMT_F \<Rightarrow> chk_float flt 4 it i p st bkp
      | FMT_S \<Rightarrow> do {
          s \<leftarrow> c_string (pdata p);
          (ok, bkp) \<leftarrow>
            (case ci_range it of
               S_Range f \<Rightarrow> do { bkp \<leftarrow> backup st i (length s) bkp; r \<leftarrow> run_check f (pdata p); Some (r \<or> develop st, bkp) }
             | _ \<Rightarrow> Some (True, bkp));
          if \<not> ok then Some (False, p\<lparr>err := UPP_ERR_DATA_RANGE\<rparr>, st, bkp, length s)
          else do { st \<leftarrow> store_target st i (s @ [0]); Some (True, p, st, bkp, length s) } }
      | FMT_X \<Rightarrow> chk_number 4 (sscanf_x (pdata p)) False False it i p st bkp
      | FMT_C \<Rightarrow> do {
          bkp \<leftarrow> backup st i 1 bkp;
          s \<leftarrow> c_string (pdata p);
          case s of
            [] \<Rightarrow> Some (False, p\<lparr>err := UPP_ERR_DATA_ILLEGAL\<rparr>, st, bkp, 1)
          | c # _ \<Rightarrow>
              if \<not> list_ex (\<lambda>x. x = c) (c_range (ci_range it)) \<and> \<not> develop st
              then Some (False, p\<lparr>err := UPP_ERR_DATA_RANGE\<rparr>, st, bkp, 1)
              else do { st \<leftarrow> store_target st i [c]; Some (True, p, st, bkp, 1) } })"

subsection \<open>Execution\<close>

text \<open>A callback takes the parser, the identifier of the command and the state.\<close>

type_synonym 'e callback = "upp_parse \<Rightarrow> nat \<Rightarrow> 'e upp_state_scheme \<Rightarrow> (int \<times> upp_parse \<times> 'e upp_state_scheme) option"

definition upp_execute_cmd ::
  "'e callback \<Rightarrow> 'e callback \<Rightarrow> (cmd_item \<Rightarrow> buf \<Rightarrow> 'e upp_state_scheme \<Rightarrow> u8 + buf) \<Rightarrow> upp_parse \<Rightarrow> 'e upp_state_scheme
    \<Rightarrow> (int \<times> upp_parse \<times> 'e upp_state_scheme) option" where
  "upp_execute_cmd set_cb get_cb flt p st = do {
     r \<leftarrow> cmd_found CMD_TBL (cmd_word p) (cmd_word_len p);
     if r = - 1 then Some (- 1, p\<lparr>err := UPP_ERR_NO_SUPPORT_CMD\<rparr>, st)
     else do {
       let i = nat r;
       let it = CMD_TBL ! i;
       let p = p\<lparr>cmd_idx := i\<rparr>;
       if op p = UPP_OP_SET \<and> ci_props it AND prop_S = 0 \<or> op p = UPP_OP_GET \<and> ci_props it AND prop_P = 0
       then Some (- 1, p\<lparr>err := UPP_ERR_OP_TYPE\<rparr>, st)
       else if ci_props it AND prop_L \<noteq> 0 \<and> op p = UPP_OP_SET \<and> \<not> unlock st
       then Some (- 1, p\<lparr>err := UPP_ERR_CMD_LOCKED\<rparr>, st)
       else if op p = UPP_OP_SET then do {
         (ok, p, st, bkp, bkp_len) \<leftarrow> cmd_data_chk flt it i p st (replicate BURST_LIST_SIZE 0) 0;
         if \<not> ok then Some (- 1, p, st)
         else do {
           (e, p, st) \<leftarrow> set_cb p (ci_id it) st;
           if e \<noteq> 0 then
             (if bkp_len \<le> length bkp then do {
                st \<leftarrow> store_target st i (take bkp_len bkp);
                Some (- 1, p\<lparr>err := UPP_ERR_DATA_ILLEGAL\<rparr>, st) }
              else None)
           else Some (0, p, st) } }
       else if op p = UPP_OP_GET then do {
         (e, p, st) \<leftarrow> get_cb p (ci_id it) st;
         Some (if e \<noteq> 0 then (- 1, p, st) else (0, p, st)) }
       else Some (0, p, st) } }"

subsection \<open>Replies\<close>

fun dec_text :: "nat \<Rightarrow> buf" where
  "dec_text n = (if n < 10 then [of_nat (48 + n)] else dec_text (n div 10) @ [of_nat (48 + n mod 10)])"

declare dec_text.simps [simp del]

fun hex_text :: "nat \<Rightarrow> buf" where
  "hex_text n = (if n < 16 then [of_nat (if n < 10 then 48 + n else 87 + n)]
     else hex_text (n div 16) @ [of_nat (if n mod 16 < 10 then 48 + n mod 16 else 87 + n mod 16)])"

declare hex_text.simps [simp del]

definition pad_zero :: "nat \<Rightarrow> buf \<Rightarrow> buf" where
  "pad_zero w t = replicate (w - length t) 48 @ t"

definition int_text :: "int \<Rightarrow> buf" where
  "int_text v = (if v < 0 then 45 # dec_text (nat (- v)) else dec_text (nat v))"

text \<open>\<open>ftxt\<close> prints a floating-point value, given as its bytes, in the format of the type.\<close>

definition data_to_string :: "(fmt_type \<Rightarrow> buf \<Rightarrow> buf) \<Rightarrow> buf \<Rightarrow> fmt_type \<Rightarrow> buf option" where
  "data_to_string ftxt dat fmt =
     (case fmt of
        FMT_U_32 \<Rightarrow> if length dat < 4 then None else Some (dec_text (unat (get32 dat)))
      | FMT_U_16 \<Rightarrow> if length dat < 2 then None else Some (dec_text (unat (get16 dat)))
      | FMT_U_8 \<Rightarrow> if length dat < 1 then None else Some (dec_text (unat (dat ! 0)))
      | FMT_LLD \<Rightarrow> if length dat < 8 then None
          else Some (int_text (sint (ucast (get32 dat) OR push_bit 32 (ucast (get32 (drop 4 dat))) :: u64)))
      | FMT_LF \<Rightarrow> if length dat < 8 then None else Some (ftxt fmt (take 8 dat))
      | FMT_F6 \<Rightarrow> if length dat < 4 then None else Some (ftxt fmt (take 4 dat))
      | FMT_F \<Rightarrow> if length dat < 4 then None else Some (ftxt fmt (take 4 dat))
      | FMT_S \<Rightarrow> c_string dat
      | FMT_X \<Rightarrow> if length dat < 4 then None else Some (hex_text (unat (get32 dat)))
      | FMT_C \<Rightarrow> if length dat < 1 then None else Some [dat ! 0])"

text \<open>The text of a reply. \<open>conv\<close> converts a temperature, given as the bytes of a \<open>float\<close>, to the user's unit.\<close>

definition upp_rsp_build_flk ::
  "(fmt_type \<Rightarrow> buf \<Rightarrow> buf) \<Rightarrow> ('e upp_state_scheme \<Rightarrow> buf \<Rightarrow> buf) \<Rightarrow> upp_parse \<Rightarrow> 'e upp_state_scheme \<Rightarrow> buf option" where
  "upp_rsp_build_flk ftxt conv p st =
     (let it = CMD_TBL ! cmd_idx p; tgt = targets st ! cmd_idx p in
      if op p = UPP_OP_SET \<and> ci_props it AND prop_N = 0 then Some []
      else do {
        payload \<leftarrow>
          (if is_need_conver_unit (ci_cmd it)
           then data_to_string ftxt (conv st (if ci_type it = FMT_F \<or> ci_type it = FMT_F6 then take 4 tgt else replicate 4 0)) (ci_type it)
           else if data_out_en p \<noteq> 0 then c_string (pdata p)
           else data_to_string ftxt tgt (ci_type it));
        let addr = (if addr_mode p = UPP_ADDR_MODE_MULTI
          then pad_zero ADDR_LEN (dec_text (if multi_addr p = BROADCAST_ADDR then unat (upp_addr st) else unat (multi_addr p)))
          else []);
        Some (addr @ [33] @ ci_cmd it @ payload @ [13, 10]) })"

definition error_text :: "u8 \<Rightarrow> buf" where
  "error_text e = bytes ''ERROR: ['' @ pad_zero 2 (dec_text (unat e)) @ bytes ''] - '' @ ERR_INFO_TBL ! unat e @ [13, 10]"

text \<open>\<open>sprintf\<close> at an offset of the transmit buffer writes the text and a terminator.\<close>

definition put_text :: "buf \<Rightarrow> nat \<Rightarrow> buf \<Rightarrow> buf option" where
  "put_text tx off t = (if off + length t < length tx then Some (overwrite tx off (t @ [0])) else None)"

definition upp_pkt_error :: "u8 \<Rightarrow> buf \<Rightarrow> nat \<Rightarrow> int \<Rightarrow> (buf \<times> int) option" where
  "upp_pkt_error e tx off outlen =
     (if e = UPP_OK then Some (tx, outlen)
      else do { tx \<leftarrow> put_text tx off (error_text e); Some (tx, outlen + int (length (error_text e))) })"

definition upp_cmd_handler ::
  "'e callback \<Rightarrow> 'e callback \<Rightarrow> (cmd_item \<Rightarrow> buf \<Rightarrow> 'e upp_state_scheme \<Rightarrow> u8 + buf) \<Rightarrow> (fmt_type \<Rightarrow> buf \<Rightarrow> buf)
    \<Rightarrow> ('e upp_state_scheme \<Rightarrow> buf \<Rightarrow> buf) \<Rightarrow> upp_parse \<Rightarrow> buf \<Rightarrow> buf \<Rightarrow> nat \<Rightarrow> int \<Rightarrow> 'e upp_state_scheme
    \<Rightarrow> (upp_parse \<times> buf \<times> int \<times> 'e upp_state_scheme) option" where
  "upp_cmd_handler set_cb get_cb flt ftxt conv p inbuf tx off outlen st = do {
     (r, p) \<leftarrow> upp_parse_cmd st p inbuf;
     if r \<noteq> 0 then do { (tx, outlen) \<leftarrow> upp_pkt_error (err p) tx off outlen; Some (p, tx, outlen, st) }
     else do {
       (r, p, st) \<leftarrow> upp_execute_cmd set_cb get_cb flt p st;
       if r \<noteq> 0 then do { (tx, outlen) \<leftarrow> upp_pkt_error (err p) tx off outlen; Some (p, tx, outlen, st) }
       else do {
         t \<leftarrow> upp_rsp_build_flk ftxt conv p st;
         tx \<leftarrow> (if t = [] then Some tx else put_text tx off t);
         Some (p, tx, outlen + int (length t), st) } } }"

text \<open>The loop over the packets of a buffer, with fuel; each round moves the output by all of the output so far.\<close>

fun upp_pkt_process ::
  "nat \<Rightarrow> 'e callback \<Rightarrow> 'e callback \<Rightarrow> (cmd_item \<Rightarrow> buf \<Rightarrow> 'e upp_state_scheme \<Rightarrow> u8 + buf) \<Rightarrow> (fmt_type \<Rightarrow> buf \<Rightarrow> buf)
    \<Rightarrow> ('e upp_state_scheme \<Rightarrow> buf \<Rightarrow> buf) \<Rightarrow> buf \<Rightarrow> int \<Rightarrow> buf \<Rightarrow> nat \<Rightarrow> int \<Rightarrow> 'e upp_state_scheme
    \<Rightarrow> (buf \<times> int \<times> 'e upp_state_scheme) option" where
  "upp_pkt_process 0 set_cb get_cb flt ftxt conv inbuf inlen tx off outlen st = None"
| "upp_pkt_process (Suc fuel) set_cb get_cb flt ftxt conv inbuf inlen tx off outlen st =
     (if inlen > 0 then do {
        (r, p) \<leftarrow> check_packet parse_clear inbuf inlen;
        if r \<noteq> 0 then do { (tx, outlen) \<leftarrow> upp_pkt_error (err p) tx off outlen; Some (tx, outlen, st) }
        else do {
          (p, tx, outlen, st) \<leftarrow> upp_cmd_handler set_cb get_cb flt ftxt conv p inbuf tx off outlen st;
          upp_pkt_process fuel set_cb get_cb flt ftxt conv (drop (unat (cmd_len p)) inbuf) (inlen - uint (cmd_len p))
            tx (nat (int off + outlen)) outlen st } }
      else Some (tx, outlen, st))"

subsection \<open>Searching the command table\<close>

lemma string_comp_n_prefix:
  "n \<le> length a \<Longrightarrow> n \<le> length b \<Longrightarrow> \<exists>r. string_comp_n a b (int n) = Some r \<and> (r = 0 \<longleftrightarrow> take n a = take n b)"
proof (induction n arbitrary: a b)
  case 0
  then show ?case by (cases a; cases b) simp_all
next
  case (Suc n)
  then show ?case by (cases a; cases b) auto
qed

lemma entry_comp:
  assumes "length w = unat len" and "unat len \<le> length cmd"
  shows "\<exists>r. string_comp_n (w @ [0]) cmd (uint len) = Some r \<and> (r = 0 \<longleftrightarrow> w = take (unat len) cmd)"
  unfolding uint_nat using string_comp_n_prefix [of "unat len" "w @ [0]" cmd] assms by simp

lemma found_loop_step:
  assumes "unat len \<le> length cmd"
  shows "found_loop (it # tbl) i (Suc n) cmd len
    = (if ci_cmd it = take (unat len) cmd then Some (int i) else found_loop tbl (Suc i) n cmd len)"
proof (cases "length (ci_cmd it) = unat len")
  case True
  then obtain r where "string_comp_n (ci_cmd it @ [0]) cmd (uint len) = Some r" "r = 0 \<longleftrightarrow> ci_cmd it = take (unat len) cmd"
    using entry_comp assms by blast
  then show ?thesis using True by simp
next
  case False
  then have "ci_cmd it \<noteq> take (unat len) cmd" using assms by auto
  then show ?thesis using False by simp
qed

declare found_loop.simps(3) [simp del]

lemma found_loop_hit:
  assumes "j < length tbl" and "j < n" and "ci_cmd (tbl ! j) = take (unat len) cmd" and "unat len \<le> length cmd"
    and "\<And>j'. j' < j \<Longrightarrow> ci_cmd (tbl ! j') \<noteq> take (unat len) cmd"
  shows "found_loop tbl i n cmd len = Some (int (i + j))"
  using assms(1-3,5)
proof (induction tbl arbitrary: i n j)
  case (Cons it tbl)
  obtain n' where n: "n = Suc n'" using Cons.prems(2) by (cases n) auto
  show ?case
  proof (cases j)
    case 0
    then show ?thesis using Cons.prems(3) n by (simp add: found_loop_step [OF assms(4)])
  next
    case (Suc j0)
    have "ci_cmd it \<noteq> take (unat len) cmd" using Cons.prems(4) [of 0] Suc by simp
    moreover have "found_loop tbl (Suc i) n' cmd len = Some (int (Suc i + j0))"
    proof (rule Cons.IH)
      show "ci_cmd (tbl ! j') \<noteq> take (unat len) cmd" if "j' < j0" for j' using Cons.prems(4) [of "Suc j'"] that Suc by simp
    qed (use Cons.prems n Suc in simp_all)
    ultimately show ?thesis using Suc n by (simp add: found_loop_step [OF assms(4)])
  qed
qed simp

lemma found_loop_miss:
  assumes "take (unat len) cmd \<notin> ci_cmd ` set tbl" and "unat len \<le> length cmd"
  shows "found_loop tbl i n cmd len = (if n \<le> length tbl then Some (- 1) else None)"
  using assms(1)
proof (induction tbl arbitrary: i n)
  case Nil
  then show ?case by (cases n) simp_all
next
  case (Cons it tbl)
  show ?case
  proof (cases n)
    case (Suc n')
    then show ?thesis using Cons by (auto simp: found_loop_step [OF assms(2)])
  qed simp
qed

lemma unat_small_u8: "k < 256 \<Longrightarrow> unat (of_nat k :: u8) = k"
  by (simp add: unat_of_nat)

lemma cmd_found_hit:
  assumes "i < length CMD_TBL"
  shows "cmd_found CMD_TBL (ci_cmd (CMD_TBL ! i) @ rest) (of_nat (length (ci_cmd (CMD_TBL ! i)))) = Some (int i)"
proof -
  let ?c = "ci_cmd (CMD_TBL ! i)"
  have "CMD_TBL ! i \<in> set CMD_TBL" using assms by simp
  then have "length ?c \<le> 4" using CMD_TBL_words by (auto simp: list_all_iff)
  then have l: "unat (of_nat (length ?c) :: u8) = length ?c" by (intro unat_small_u8) simp
  have "ci_cmd (CMD_TBL ! j) \<noteq> ?c" if "j < i" for j
  proof -
    have "map ci_cmd CMD_TBL ! j \<noteq> map ci_cmd CMD_TBL ! i"
      using nth_eq_iff_index_eq [OF CMD_TBL_distinct, of j i] that assms by simp
    then show ?thesis using that assms by simp
  qed
  then show ?thesis
    using found_loop_hit [of i CMD_TBL CMD_CNT "of_nat (length ?c)" "?c @ rest" 0] assms CMD_TBL_length l
    by (simp add: cmd_found_def CMD_CNT_def)
qed

text \<open>Every command of the table is found at its position, whatever follows its word. For every other word of at most four
  characters the search reads behind the end of the table, which has four entries less than \<open>CMD_CNT\<close> counts.\<close>

theorem cmd_found_leaves_table:
  assumes "i < length CMD_TBL" and "w \<notin> ci_cmd ` set CMD_TBL" and "length w \<le> 4"
  shows "cmd_found CMD_TBL (ci_cmd (CMD_TBL ! i) @ rest) (of_nat (length (ci_cmd (CMD_TBL ! i)))) = Some (int i)
    \<and> cmd_found CMD_TBL (w @ rest) (of_nat (length w)) = None"
proof -
  have "unat (of_nat (length w) :: u8) = length w" using assms(3) by (intro unat_small_u8) simp
  then have "cmd_found CMD_TBL (w @ rest) (of_nat (length w)) = None"
    using found_loop_miss [of "of_nat (length w)" "w @ rest" CMD_TBL 0 CMD_CNT] assms(2) CMD_TBL_length
    by (simp add: cmd_found_def CMD_CNT_def)
  then show ?thesis using cmd_found_hit [OF assms(1)] by simp
qed

theorem cmd_found_leaves_table_witness:
  "cmd_found CMD_TBL (bytes ''DA'' @ [61]) 2 = Some 0 \<and> cmd_found CMD_TBL (bytes ''OV'' @ [13]) 2 = None"
proof -
  have n: "bytes ''OV'' \<notin> ci_cmd ` set CMD_TBL" by code_simp
  have c: "ci_cmd (CMD_TBL ! 0) = bytes ''DA''" by (simp add: CMD_TBL_def CMD_TBL_1_def cmd_entry_def)
  have l: "length (bytes ''DA'') = 2" "length (bytes ''OV'') = 2" by (simp_all add: bytes_def)
  show ?thesis
    using cmd_found_leaves_table [of 0 "bytes ''OV''" "[61]"] cmd_found_leaves_table [of 0 "bytes ''OV''" "[13]"] n l CMD_TBL_length
    by (simp add: c)
qed

subsection \<open>What a check stores\<close>

lemma chk_number_result:
  assumes "chk_number k scanned decimal lenient it i p st bkp = Some (ok, p', st', bkp', n')"
  shows "(\<not> ok \<longrightarrow> st' = st) \<and> (ok \<and> \<not> develop st \<longrightarrow> (\<exists>v. scanned = Some (Some v) \<and> fst (u_range (ci_range it)) \<le> v
    \<and> v \<le> snd (u_range (ci_range it)) \<and> st' = st\<lparr>targets := (targets st)[i := overwrite (targets st ! i) 0 (take k (le32 v))]\<rparr>))"
proof -
  obtain b okd where 1: "backup st i k bkp = Some b"
    "(if decimal then do { d \<leftarrow> is_dec_number (pdata p) (uint (data_len p)); Some (d = 1) } else Some True) = Some okd"
    using assms by (auto simp: chk_number_def bind_eq_Some_conv split: if_splits)
  show ?thesis
  proof (cases "okd \<and> (\<exists>u. scanned = Some (Some u))")
    case True
    then obtain u where u: "scanned = Some (Some u)" by blast
    let ?out = "(u > snd (u_range (ci_range it)) \<or> u < fst (u_range (ci_range it))) \<and> \<not> (lenient \<and> develop st)"
    show ?thesis
      using assms 1 True u unfolding chk_number_def
      by (cases ?out) (auto simp: bind_eq_Some_conv store_target_def not_less split: if_splits)
  next
    case False
    then show ?thesis using assms 1 unfolding chk_number_def by (cases okd; cases scanned; cases "the scanned") auto
  qed
qed

lemma chk_float_result:
  "chk_float flt k it i p st bkp = Some (ok, p', st', bkp', n') \<Longrightarrow> \<not> ok \<Longrightarrow> st' = st"
  by (auto simp: chk_float_def bind_eq_Some_conv split: if_splits sum.splits)

text \<open>C19: Data that does not pass its rule changes nothing. Data of an unsigned parameter that passes, outside of the developer mode, is
  a number in the range of the rule, and exactly its low bytes are stored in the parameter of the command.\<close>

theorem rejected_data_changes_nothing:
  assumes "cmd_data_chk flt it i p st bkp n = Some (ok, p', st', bkp', n')"
  shows "(\<not> ok \<longrightarrow> st' = st)
    \<and> (ok \<and> \<not> develop st \<and> ci_type it \<in> {FMT_U_8, FMT_U_16, FMT_U_32} \<longrightarrow>
       (\<exists>v. sscanf_u (pdata p) = Some (Some v) \<and> fst (u_range (ci_range it)) \<le> v \<and> v \<le> snd (u_range (ci_range it))
          \<and> ci_min_len it \<le> uint (data_len p) \<and> uint (data_len p) \<le> ci_max_len it
          \<and> st' = st\<lparr>targets := (targets st)[i := overwrite (targets st ! i) 0
               (take (if ci_type it = FMT_U_8 then 1 else if ci_type it = FMT_U_16 then 2 else 4) (le32 v))]\<rparr>))"
proof (cases "(uint (data_len p) < ci_min_len it \<or> uint (data_len p) > ci_max_len it) \<and> \<not> develop st")
  case True
  then show ?thesis using assms by (auto simp: cmd_data_chk_def)
next
  case False
  note r = assms [unfolded cmd_data_chk_def if_not_P [OF False]]
  show ?thesis
  proof (cases "ci_type it")
    case FMT_U_8
    with False show ?thesis using chk_number_result [of 1 "sscanf_u (pdata p)" True True it i p st bkp] r by fastforce
  next
    case FMT_U_16
    with False show ?thesis using chk_number_result [of 2 "sscanf_u (pdata p)" True True it i p st bkp] r by fastforce
  next
    case FMT_U_32
    with False show ?thesis using chk_number_result [of 4 "sscanf_u (pdata p)" True True it i p st bkp] r by fastforce
  next
    case FMT_X
    then show ?thesis using chk_number_result [of 4 "sscanf_x (pdata p)" False False it i p st bkp] r by simp
  next
    case FMT_LLD
    then show ?thesis using r by (auto simp: bind_eq_Some_conv split: if_splits option.splits)
  next
    case FMT_S
    then show ?thesis using r by (auto simp: bind_eq_Some_conv split: if_splits)
  next
    case FMT_C
    then obtain b t where "backup st i 1 bkp = Some b" "c_string (pdata p) = Some t" using r by (auto simp: bind_eq_Some_conv)
    with FMT_C show ?thesis using r by (cases t) (auto simp: bind_eq_Some_conv split: if_splits)
  qed (use r chk_float_result in auto)
qed

definition sample_da :: cmd_item where
  "sample_da = cmd_entry ''DA'' 0 0 0 FMT_U_8 1 2 (U_Range 0 32)"

definition sample_upp :: upp_state where
  "sample_upp = \<lparr>targets = [[0]], develop = False, unlock = False, upp_addr = 0\<rparr>"

lemma sample_check:
  "map_option fst (cmd_data_chk (\<lambda>_ _ _. Inl 0) sample_da 0 (parse_clear\<lparr>pdata := [49, 55, 0], data_len := 2\<rparr>) sample_upp [0] 0) = Some True"
  "sscanf_u [49, 55, 0] = Some (Some 17)"
  by code_simp+

theorem rejected_data_changes_nothing_witness:
  "\<exists>p' st' b n. cmd_data_chk (\<lambda>_ _ _. Inl 0) sample_da 0 (parse_clear\<lparr>pdata := [49, 55, 0], data_len := 2\<rparr>) sample_upp [0] 0
     = Some (True, p', st', b, n) \<and> targets st' = [[17]]"
proof -
  let ?p = "parse_clear\<lparr>pdata := [49, 55, 0], data_len := 2\<rparr>"
  obtain p' st' b n where c: "cmd_data_chk (\<lambda>_ _ _. Inl 0) sample_da 0 ?p sample_upp [0] 0 = Some (True, p', st', b, n)"
    using sample_check(1) by auto
  have "ci_type sample_da = FMT_U_8" "\<not> develop sample_upp" "targets sample_upp = [[0]]"
    by (simp_all add: sample_da_def cmd_entry_def sample_upp_def)
  then have "targets st' = [[17]]"
    using rejected_data_changes_nothing [OF c] sample_check(2) by (auto simp: overwrite_def le32_def)
  then show ?thesis using c by blast
qed

subsection \<open>Requests\<close>
























subsection \<open>Termination\<close>

text \<open>A callback that leaves the length of the packet alone.\<close>

definition keeps_len :: "'e callback \<Rightarrow> bool" where
  "keeps_len cb \<longleftrightarrow> (\<forall>p i st e p' st'. cb p i st = Some (e, p', st') \<longrightarrow> cmd_len p' = cmd_len p)"

lemma get_multi_addr_len: "holds (\<lambda>(_, p'). cmd_len p' = cmd_len p) (get_multi_addr st p b)"
  unfolding get_multi_addr_def
  by (intro holds_intros) (auto simp: bind_eq_Some_conv split: if_splits prod.splits)

lemma parse_op_len: "holds (\<lambda>x. case x of Inl p' \<Rightarrow> cmd_len p' = cmd_len p | Inr p' \<Rightarrow> cmd_len p' = cmd_len p) (parse_op p b)"
  unfolding parse_op_def Let_def by (intro holds_intros) (simp_all split: option.splits)

lemma parse_cmd_flk_len: "holds (\<lambda>(_, p'). cmd_len p' = cmd_len p) (parse_cmd_flk p b)"
  unfolding parse_cmd_flk_def Let_def by (intro holds_intros) (auto dest!: holdsD [OF parse_op_len])

lemma upp_parse_cmd_len: "holds (\<lambda>(_, p'). cmd_len p' = cmd_len p) (upp_parse_cmd st p b)"
proof -
  have "holds (\<lambda>(_, q). cmd_len q = cmd_len p) (parse_cmd_flk p' b)" if "cmd_len p' = cmd_len p" for p'
    using parse_cmd_flk_len [of p' b] that by simp
  then show ?thesis
    unfolding upp_parse_cmd_def by (intro holds_intros) (auto dest!: holdsD [OF get_multi_addr_len])
qed

lemma chk_number_len: "holds (\<lambda>(_, p', _). cmd_len p' = cmd_len p) (chk_number k sc dm ln it i p st bkp)"
  unfolding chk_number_def by (intro holds_intros) simp_all

lemma chk_float_len: "holds (\<lambda>(_, p', _). cmd_len p' = cmd_len p) (chk_float flt k it i p st bkp)"
  unfolding chk_float_def by (intro holds_intros) simp_all

lemma cmd_data_chk_len: "holds (\<lambda>(_, p', _). cmd_len p' = cmd_len p) (cmd_data_chk flt it i p st bkp n)"
  unfolding cmd_data_chk_def
  by (cases "ci_type it"; simp only: fmt_type.case) (intro holds_intros chk_number_len chk_float_len; simp)+

lemma upp_execute_cmd_len:
  assumes "keeps_len set_cb" and "keeps_len get_cb"
  shows "holds (\<lambda>(_, p', _). cmd_len p' = cmd_len p) (upp_execute_cmd set_cb get_cb flt p st)"
proof -
  have s: "cmd_len p' = cmd_len p" if "set_cb p i st = Some (e, p', st')" for p i st e p' st'
    using assms(1) that unfolding keeps_len_def by blast
  have g: "cmd_len p' = cmd_len p" if "get_cb p i st = Some (e, p', st')" for p i st e p' st'
    using assms(2) that unfolding keeps_len_def by blast
  show ?thesis
    unfolding upp_execute_cmd_def Let_def by (intro holds_intros) (auto dest!: holdsD [OF cmd_data_chk_len] s g)
qed

lemma upp_cmd_handler_len:
  assumes "keeps_len set_cb" and "keeps_len get_cb"
  shows "holds (\<lambda>(p', _). cmd_len p' = cmd_len p) (upp_cmd_handler set_cb get_cb flt ftxt conv p b tx off outlen st)"
  unfolding upp_cmd_handler_def
  by (intro holds_intros) (auto dest!: holdsD [OF upp_parse_cmd_len] holdsD [OF upp_execute_cmd_len [OF assms]])

lemma mem_search_bound: "mem_search b n c = Some (Some k) \<Longrightarrow> 0 \<le> n \<Longrightarrow> int k < n"
proof (induction b arbitrary: n k)
  case (Cons x b)
  show ?case
  proof (cases k)
    case (Suc k')
    then have "mem_search b (n - 1) c = Some (Some k')" "n \<noteq> 0" using Cons.prems(1) by (auto split: if_splits)
    then show ?thesis using Cons.IH [of "n - 1" k'] Cons.prems(2) Suc by simp
  qed (use Cons.prems in \<open>auto split: if_splits\<close>)
qed (auto split: if_splits)

lemma check_packet_progress:
  assumes "check_packet p b n = Some (0, p')" and "n \<le> 65533"
  shows "0 < uint (cmd_len p')"
proof -
  obtain k where k: "mem_search b n 13 = Some (Some k)" "\<not> n < 3"
    and p': "cmd_len p' = of_nat k + ucast ((if b ! Suc k = 10 then 2 else 1) :: u8)"
  proof -
    have "holds (\<lambda>(r, p'). r = 0 \<longrightarrow> (\<exists>k. mem_search b n 13 = Some (Some k) \<and> \<not> n < 3
        \<and> cmd_len p' = of_nat k + ucast ((if b ! Suc k = 10 then 2 else 1) :: u8))) (check_packet p b n)"
      unfolding check_packet_def Let_def by (intro holds_intros) auto
    then show ?thesis using holdsD [OF _ assms(1)] that by blast
  qed
  have "k + 2 < 65536" using mem_search_bound [OF k(1)] k(2) assms(2) by simp
  moreover have "cmd_len p' = of_nat (k + (if b ! Suc k = 10 then 2 else 1))" unfolding p' by simp
  ultimately have "unat (cmd_len p') = k + (if b ! Suc k = 10 then 2 else 1)"
    by (simp add: unsigned_of_nat take_bit_nat_eq_self_iff del: of_nat_add)
  then show ?thesis by (simp add: uint_nat [of "cmd_len p'"] split: if_splits)
qed

text \<open>The loop over the packets of a buffer ends: with callbacks that leave the length of the packet alone, every round takes at least one byte
  of an input of at most 65533 bytes, so that more rounds than bytes give one and the same result.\<close>

theorem upp_pkt_process_terminates:
  assumes "keeps_len set_cb" and "keeps_len get_cb" and "inlen \<le> 65533" and "nat inlen < fuel" and "nat inlen < fuel'"
  shows "upp_pkt_process fuel set_cb get_cb flt ftxt conv inbuf inlen tx off outlen st
    = upp_pkt_process fuel' set_cb get_cb flt ftxt conv inbuf inlen tx off outlen st"
  using assms(3-5)
proof (induction fuel arbitrary: fuel' inbuf inlen tx off outlen st)
  case (Suc fuel)
  obtain f' where f': "fuel' = Suc f'" using Suc.prems(3) by (cases fuel') auto
  have "upp_pkt_process fuel set_cb get_cb flt ftxt conv ib (inlen - uint (cmd_len p')) t k ol s
      = upp_pkt_process f' set_cb get_cb flt ftxt conv ib (inlen - uint (cmd_len p')) t k ol s"
    if c: "check_packet parse_clear inbuf inlen = Some (0, p)" and "0 < inlen"
      and h: "upp_cmd_handler set_cb get_cb flt ftxt conv p inbuf tx off outlen st = Some (p', t', ol, s)"
    for p p' ib t t' k ol s
  proof -
    have "cmd_len p' = cmd_len p" using holdsD [OF upp_cmd_handler_len [OF assms(1,2)] h] by simp
    then have "0 < uint (cmd_len p')" using check_packet_progress [OF c Suc.prems(1)] by simp
    then show ?thesis using Suc.prems \<open>0 < inlen\<close> f' by (intro Suc.IH) linarith+
  qed
  then show ?case unfolding f' by (auto intro!: bind_option_cong split: prod.splits)
qed simp

definition no_callback :: "unit callback" where
  "no_callback p i st = Some (0, p, st)"

lemma sample_reply:
  "upp_pkt_process 6 no_callback no_callback (\<lambda>_ _ _. Inl 0) (\<lambda>_ b. b) (\<lambda>_ b. b) (bytes ''?DA'' @ [13, 10]) 5 (replicate 9 255) 0 0 sample_upp
    = Some (bytes ''!DA0'' @ [13, 10, 0, 255, 255], 6, sample_upp)"
  by code_simp

theorem upp_pkt_process_terminates_witness:
  "upp_pkt_process 1000 no_callback no_callback (\<lambda>_ _ _. Inl 0) (\<lambda>_ b. b) (\<lambda>_ b. b) (bytes ''?DA'' @ [13, 10]) 5 (replicate 9 255) 0 0 sample_upp
    = Some (bytes ''!DA0'' @ [13, 10, 0, 255, 255], 6, sample_upp)"
proof -
  have k: "keeps_len no_callback" by (simp add: keeps_len_def no_callback_def)
  have "upp_pkt_process 1000 no_callback no_callback (\<lambda>_ _ _. Inl 0) (\<lambda>_ b. b) (\<lambda>_ b. b) (bytes ''?DA'' @ [13, 10]) 5 (replicate 9 255) 0 0 sample_upp
      = upp_pkt_process 6 no_callback no_callback (\<lambda>_ _ _. Inl 0) (\<lambda>_ b. b) (\<lambda>_ b. b) (bytes ''?DA'' @ [13, 10]) 5 (replicate 9 255) 0 0 sample_upp"
    by (rule upp_pkt_process_terminates [OF k k]) simp_all
  then show ?thesis using sample_reply by (rule trans)
qed

end
