(* ===== verification/Burst.thy ===== *)
theory Burst
  imports Proto_Char
begin

text \<open>
  The burst string, \<open>src/app/sys/burst.c\<close>: the separators that \<open>burst_init\<close> sets up and \<open>burst_build\<close>, which
  writes the values of a list of commands into the transmit buffer. \<open>valid_cmd_list\<close>, the check of such a
  list, is in \<open>Proto_Char\<close>, whose command table refers to it.

  The length of the output is a \<open>uint8_t\<close> and the index of a command an \<open>int8_t\<close>, both with their
  wrap-around. A read outside of the table and a write outside of the output are \<open>None\<close>.
\<close>

definition BURST_BUF_LEN :: nat where "BURST_BUF_LEN = 100"

subsection \<open>The separators\<close>

definition burst_separator :: "u8 \<Rightarrow> u8" where
  "burst_separator c = (if c = 83 then 32 else if c = 78 then 0 else c)"

record burst_fmt =
  sep_0 :: u8
  sep_1 :: u8

definition burst_init :: "buf \<Rightarrow> burst_fmt option" where
  "burst_init fmt = (if length fmt < 2 then None else Some \<lparr>sep_0 = burst_separator (fmt ! 0), sep_1 = burst_separator (fmt ! 1)\<rparr>)"

subsection \<open>Building the string\<close>

type_synonym outbuf = "buf \<times> u8"

definition burst_put :: "buf \<Rightarrow> outbuf \<Rightarrow> outbuf option" where
  "burst_put t x = do { out \<leftarrow> put_text (fst x) (unat (snd x)) t; Some (out, snd x + of_nat (length t)) }"

definition burst_sep :: "u8 \<Rightarrow> outbuf \<Rightarrow> outbuf option" where
  "burst_sep c x =
     (if c = 0 then Some x
      else if unat (snd x) < length (fst x) then Some (overwrite (fst x) (unat (snd x)) [c], snd x + 1)
      else None)"

definition burst_payload ::
  "(fmt_type \<Rightarrow> buf \<Rightarrow> buf) \<Rightarrow> ('e upp_state_scheme \<Rightarrow> buf \<Rightarrow> buf) \<Rightarrow> 'e upp_state_scheme \<Rightarrow> nat \<Rightarrow> buf option" where
  "burst_payload ftxt conv st i =
     (let it = CMD_TBL ! i; tgt = targets st ! i in
      if is_need_conver_unit (ci_cmd it)
      then data_to_string ftxt (conv st (if ci_type it = FMT_F \<or> ci_type it = FMT_F6 then take 4 tgt else replicate 4 0)) (ci_type it)
      else data_to_string ftxt tgt (ci_type it))"

definition burst_item ::
  "(fmt_type \<Rightarrow> buf \<Rightarrow> buf) \<Rightarrow> ('e upp_state_scheme \<Rightarrow> buf \<Rightarrow> buf) \<Rightarrow> 'e upp_state_scheme \<Rightarrow> burst_fmt \<Rightarrow> buf \<Rightarrow> u8 \<Rightarrow> outbuf
    \<Rightarrow> outbuf option" where
  "burst_item ftxt conv st f cmd_list n x = do {
     r \<leftarrow> cmd_found CMD_TBL cmd_list n;
     let idx = sint (word_of_int r :: 8 word);
     if idx \<noteq> - 1 \<and> (idx < 0 \<or> int (length CMD_TBL) \<le> idx) then None
     else if idx = - 1 \<or> ci_props (CMD_TBL ! nat idx) AND prop_B = 0
     then do { x \<leftarrow> burst_put (bytes ''error'') x; burst_sep (sep_1 f) x }
     else do {
       x \<leftarrow> burst_put (ci_cmd (CMD_TBL ! nat idx)) x;
       x \<leftarrow> burst_sep (sep_0 f) x;
       t \<leftarrow> burst_payload ftxt conv st (nat idx);
       x \<leftarrow> burst_put t x;
       burst_sep (sep_1 f) x } }"

text \<open>The length of the next command: up to a comma or, without one, up to the terminator, reduced to eight bits.\<close>

definition burst_cmd_len :: "buf \<Rightarrow> u8 option" where
  "burst_cmd_len cmd_list = do { s \<leftarrow> c_string cmd_list; Some (of_nat (length (takeWhile (\<lambda>c. c \<noteq> 44) s))) }"

fun burst_loop ::
  "(fmt_type \<Rightarrow> buf \<Rightarrow> buf) \<Rightarrow> ('e upp_state_scheme \<Rightarrow> buf \<Rightarrow> buf) \<Rightarrow> 'e upp_state_scheme \<Rightarrow> burst_fmt \<Rightarrow> buf \<Rightarrow> outbuf \<Rightarrow> outbuf option" where
  "burst_loop ftxt conv st f [] x = None"
| "burst_loop ftxt conv st f (c # cs) x =
     (if c = 0 then Some x
      else do {
        n \<leftarrow> burst_cmd_len (c # cs);
        x \<leftarrow> burst_item ftxt conv st f (c # cs) n x;
        if length (c # cs) \<le> unat n then None
        else if (c # cs) ! unat n = 0 then Some x
        else burst_loop ftxt conv st f (drop (unat n) cs) x })"

definition burst_build ::
  "(fmt_type \<Rightarrow> buf \<Rightarrow> buf) \<Rightarrow> ('e upp_state_scheme \<Rightarrow> buf \<Rightarrow> buf) \<Rightarrow> 'e upp_state_scheme \<Rightarrow> burst_fmt \<Rightarrow> buf \<Rightarrow> buf \<Rightarrow> (int \<times> buf) option" where
  "burst_build ftxt conv st f cmd_list out = do {
     (out, n) \<leftarrow> burst_loop ftxt conv st f cmd_list (out, 0);
     if n = 0 then None
     else do { out \<leftarrow> put_text out (unat n - 1) [13, 10]; Some (uint (n + 1), out) } }"

subsection \<open>The text of a burst\<close>

definition sep_text :: "u8 \<Rightarrow> buf" where
  "sep_text c = (if c = 0 then [] else [c])"

text \<open>What a command contributes, given the text of its value, and the list that names the commands.\<close>

definition item_text :: "burst_fmt \<Rightarrow> nat \<Rightarrow> buf \<Rightarrow> buf" where
  "item_text f i t = ci_cmd (CMD_TBL ! i) @ sep_text (sep_0 f) @ t @ sep_text (sep_1 f)"

definition burst_text :: "burst_fmt \<Rightarrow> (nat \<times> buf) list \<Rightarrow> buf" where
  "burst_text f its = concat (map (\<lambda>(i, t). item_text f i t) its)"

fun burst_list :: "nat list \<Rightarrow> buf" where
  "burst_list [] = []"
| "burst_list [i] = ci_cmd (CMD_TBL ! i)"
| "burst_list (i # is) = ci_cmd (CMD_TBL ! i) @ 44 # burst_list is"

text \<open>A command that may stand in a burst, at a position that an \<open>int8_t\<close> holds, with the text of its value.\<close>

definition burst_ok ::
  "(fmt_type \<Rightarrow> buf \<Rightarrow> buf) \<Rightarrow> ('e upp_state_scheme \<Rightarrow> buf \<Rightarrow> buf) \<Rightarrow> 'e upp_state_scheme \<Rightarrow> nat \<times> buf \<Rightarrow> bool" where
  "burst_ok ftxt conv st it \<longleftrightarrow> fst it < 128 \<and> ci_props (CMD_TBL ! fst it) AND prop_B \<noteq> 0
     \<and> burst_payload ftxt conv st (fst it) = Some (snd it)"

text \<open>The output holds a text, in a buffer of a fixed size.\<close>

definition written :: "nat \<Rightarrow> buf \<Rightarrow> outbuf \<Rightarrow> bool" where
  "written N t x \<longleftrightarrow> length (fst x) = N \<and> unat (snd x) = length t \<and> take (length t) (fst x) = t \<and> length t \<le> N"

lemma unat_add_u8: "unat (w :: u8) = a \<Longrightarrow> a + b < 256 \<Longrightarrow> unat (w + of_nat b) = a + b"
  by (simp add: unat_word_ariths unat_of_nat)

text \<open>An outcome: the buffer is too small for the text, or the text is written.\<close>

definition outcome :: "nat \<Rightarrow> buf \<Rightarrow> outbuf option \<Rightarrow> bool" where
  "outcome N t m \<longleftrightarrow> (case m of None \<Rightarrow> N \<le> length t | Some x \<Rightarrow> written N t x)"

lemma outcome_bind:
  assumes "outcome N t m" and "\<And>x. written N t x \<Longrightarrow> outcome N (t @ s) (g x)"
  shows "outcome N (t @ s) (Option.bind m g)"
  using assms by (cases m) (auto simp: outcome_def)

lemma burst_put_outcome:
  assumes "written N t x" and "length (t @ s) < 256"
  shows "outcome N (t @ s) (burst_put s x)"
proof -
  have "unat (snd x + of_nat (length s)) = length t + length s"
    using assms by (intro unat_add_u8) (simp_all add: written_def)
  then show ?thesis
    using assms(1) by (auto simp: burst_put_def put_text_def written_def outcome_def overwrite_def)
qed

lemma burst_sep_outcome:
  assumes "written N t x" and "length (t @ sep_text c) < 256"
  shows "outcome N (t @ sep_text c) (burst_sep c x)"
proof (cases "c = 0")
  case False
  then have "unat (snd x + 1) = Suc (length t)"
    using assms unat_add_u8 [of "snd x" "length t" 1] by (simp add: written_def sep_text_def)
  then show ?thesis
    using False assms(1) by (auto simp: burst_sep_def sep_text_def written_def outcome_def overwrite_def)
qed (use assms(1) in \<open>simp add: burst_sep_def sep_text_def outcome_def\<close>)

lemma burst_item_outcome:
  assumes "burst_ok ftxt conv st (i, t)" and "written N s x" and "length (s @ item_text f i t) < 256"
  shows "outcome N (s @ item_text f i t)
    (burst_item ftxt conv st f (ci_cmd (CMD_TBL ! i) @ r) (of_nat (length (ci_cmd (CMD_TBL ! i)))) x)"
proof -
  let ?c = "ci_cmd (CMD_TBL ! i)" and ?s0 = "sep_text (sep_0 f)" and ?s1 = "sep_text (sep_1 f)"
  have i: "i < 128" "ci_props (CMD_TBL ! i) AND prop_B \<noteq> 0" "burst_payload ftxt conv st i = Some t"
    using assms(1) by (simp_all add: burst_ok_def)
  have tbl: "i < length CMD_TBL" using i(1) CMD_TBL_length by simp
  have idx: "sint (word_of_int (int i) :: 8 word) = int i" using i(1) by (simp add: signed_of_nat signed_take_bit_int_eq_self_iff)
  have l: "length ((((s @ ?c) @ ?s0) @ t) @ ?s1) < 256" using assms(3) by (simp add: item_text_def)
  have "outcome N ((((s @ ?c) @ ?s0) @ t) @ ?s1) (do {
      x \<leftarrow> do { x \<leftarrow> do { x \<leftarrow> burst_put ?c x; burst_sep (sep_0 f) x }; burst_put t x }; burst_sep (sep_1 f) x })"
    by (intro outcome_bind burst_sep_outcome burst_put_outcome assms(2)) (use l in simp_all)
  then show ?thesis
    using cmd_found_hit [OF tbl, of r] idx i tbl by (simp add: burst_item_def Let_def item_text_def del: of_int_of_nat_eq)
qed

lemma cmd_word:
  assumes "i < length CMD_TBL"
  shows "ci_cmd (CMD_TBL ! i) \<noteq> []" "length (ci_cmd (CMD_TBL ! i)) \<le> 4" "0 \<notin> set (ci_cmd (CMD_TBL ! i))" "44 \<notin> set (ci_cmd (CMD_TBL ! i))"
proof -
  let ?c = "ci_cmd (CMD_TBL ! i)"
  have c: "1 \<le> length ?c \<and> length ?c \<le> 4 \<and> list_all c_isupper ?c" using CMD_TBL_words assms by (simp add: list_all_length)
  then show "?c \<noteq> []" "length ?c \<le> 4" by auto
  show "0 \<notin> set ?c" "44 \<notin> set ?c" using c by (auto simp: list_all_iff c_isupper_def)
qed

lemma burst_cmd_len_word:
  assumes "i < length CMD_TBL" and "0 \<notin> set r" and "r = [] \<or> hd r = 44"
  shows "burst_cmd_len (ci_cmd (CMD_TBL ! i) @ r @ [0]) = Some (of_nat (length (ci_cmd (CMD_TBL ! i))))"
proof -
  let ?c = "ci_cmd (CMD_TBL ! i)"
  have "c_string ((?c @ r) @ 0 # []) = Some (?c @ r)" by (rule c_string_append_nul) (use cmd_word [OF assms(1)] assms(2) in auto)
  moreover have "takeWhile (\<lambda>c. c \<noteq> 44) (?c @ r) = ?c"
    using cmd_word(4) [OF assms(1)] assms(3) by (cases r) (auto simp: takeWhile_append)
  ultimately show ?thesis by (simp add: burst_cmd_len_def)
qed

lemma burst_list_terminated: "\<forall>i \<in> set is. i < length CMD_TBL \<Longrightarrow> 0 \<notin> set (burst_list is)"
  by (induction "is" rule: burst_list.induct) (auto dest: cmd_word(3))

lemma burst_loop_step:
  assumes "i < length CMD_TBL" and "0 \<notin> set r" and "r = [] \<or> hd r = 44"
  shows "burst_loop ftxt conv st f (ci_cmd (CMD_TBL ! i) @ r @ [0]) x = do {
    y \<leftarrow> burst_item ftxt conv st f (ci_cmd (CMD_TBL ! i) @ r @ [0]) (of_nat (length (ci_cmd (CMD_TBL ! i)))) x;
    if r = [] then Some y else burst_loop ftxt conv st f (tl r @ [0]) y }"
proof -
  let ?c = "ci_cmd (CMD_TBL ! i)"
  note w = cmd_word [OF assms(1)]
  obtain c cs where c: "?c = c # cs" using w(1) by (cases ?c) auto
  have "c \<noteq> 0" using w(3) c by auto
  define k :: u8 where "k = of_nat (length ?c)"
  have n: "unat k = length (c # cs)" using w(2) unat_small_u8 [of "length ?c"] by (simp add: k_def c [symmetric])
  have l: "burst_cmd_len (c # cs @ r @ [0]) = Some k" using burst_cmd_len_word [OF assms] by (simp add: k_def c)
  have at: "(?c @ r @ [0]) ! length ?c = 0 \<longleftrightarrow> r = []" using assms(2,3) by (cases r) (auto simp: nth_append)
  have d: "drop (length ?c) (cs @ r @ [0]) = tl r @ [0]" if "r \<noteq> []" using that c by (cases r) auto
  have "burst_loop ftxt conv st f (?c @ r @ [0]) x = do {
      y \<leftarrow> burst_item ftxt conv st f (?c @ r @ [0]) k x;
      if (?c @ r @ [0]) ! length ?c = 0 then Some y else burst_loop ftxt conv st f (drop (length ?c) (cs @ r @ [0])) y }"
    using n l \<open>c \<noteq> 0\<close> unfolding c by (simp cong: if_cong)
  then show ?thesis using at d by (cases "r = []") (simp_all add: k_def)
qed

lemma burst_loop_outcome:
  assumes "its \<noteq> []" and "list_all (burst_ok ftxt conv st) its" and "written N s x" and "length (s @ burst_text f its) < 256"
  shows "outcome N (s @ burst_text f its) (burst_loop ftxt conv st f (burst_list (map fst its) @ [0]) x)"
  using assms
proof (induction its arbitrary: s x)
  case (Cons it its)
  obtain i t where it: "it = (i, t)" by (cases it)
  have ok: "burst_ok ftxt conv st (i, t)" using Cons.prems(2) it by simp
  have len: "i < length CMD_TBL" "\<forall>j \<in> set (map fst its). j < length CMD_TBL"
    using Cons.prems(2) CMD_TBL_length by (auto simp: it burst_ok_def list_all_iff)
  define r where "r = (if its = [] then [] else 44 # burst_list (map fst its))"
  have l: "burst_list (map fst (it # its)) @ [0] = ci_cmd (CMD_TBL ! i) @ r @ [0]" by (cases its) (simp_all add: it r_def)
  have r: "0 \<notin> set r" "r = [] \<or> hd r = 44" using burst_list_terminated [OF len(2)] by (auto simp: r_def)
  have t: "burst_text f (it # its) = item_text f i t @ burst_text f its" by (simp add: burst_text_def it)
  have "outcome N (s @ item_text f i t)
      (burst_item ftxt conv st f (ci_cmd (CMD_TBL ! i) @ r @ [0]) (of_nat (length (ci_cmd (CMD_TBL ! i)))) x)"
    by (rule burst_item_outcome [OF ok Cons.prems(3)]) (use Cons.prems(4) t in simp)
  then have "outcome N ((s @ item_text f i t) @ burst_text f its)
      (do { y \<leftarrow> burst_item ftxt conv st f (ci_cmd (CMD_TBL ! i) @ r @ [0]) (of_nat (length (ci_cmd (CMD_TBL ! i)))) x;
        if r = [] then Some y else burst_loop ftxt conv st f (tl r @ [0]) y })"
  proof (rule outcome_bind)
    fix y assume y: "written N (s @ item_text f i t) y"
    show "outcome N ((s @ item_text f i t) @ burst_text f its) (if r = [] then Some y else burst_loop ftxt conv st f (tl r @ [0]) y)"
    proof (cases "its = []")
      case True
      then show ?thesis using y by (simp add: r_def burst_text_def outcome_def)
    next
      case False
      then show ?thesis using Cons.IH [OF False _ y] Cons.prems(2,4) t by (simp add: r_def)
    qed
  qed
  then show ?case unfolding l t by (simp add: burst_loop_step [OF len(1) r])
qed simp

text \<open>A burst over commands of the first 128 entries that may stand in a burst, whose text is shorter than 255 bytes, is the word, the first
  separator, the value and the second separator of every command in order, except that the line end takes the
  place of the last byte, and the result is its length, if the output buffer has room for it. If not, something is
  written behind the end of the buffer: no check prevents it.\<close>

theorem burst_build_text:
  assumes "its \<noteq> []" and "list_all (burst_ok ftxt conv st) its" and "length (burst_text f its) + 1 < 256"
  shows "if length (burst_text f its) + 1 < length out
    then \<exists>out'. burst_build ftxt conv st f (burst_list (map fst its) @ [0]) out = Some (int (length (burst_text f its)) + 1, out')
      \<and> take (length (burst_text f its) + 1) out' = butlast (burst_text f its) @ [13, 10]
    else burst_build ftxt conv st f (burst_list (map fst its) @ [0]) out = None"
proof -
  let ?t = "burst_text f its" and ?N = "length out" and ?l = "burst_loop ftxt conv st f (burst_list (map fst its) @ [0]) (out, 0)"
  have o: "outcome ?N ?t ?l"
    using burst_loop_outcome [OF assms(1,2), of ?N "[]" "(out, 0)" f] assms(3) by (simp add: written_def)
  obtain it its' where "its = it # its'" using assms(1) by (cases its) auto
  then have t: "0 < length ?t"
    using assms(2) cmd_word(1) [of "fst it"] CMD_TBL_length by (cases it) (auto simp: burst_text_def item_text_def burst_ok_def)
  show ?thesis
  proof (cases ?l)
    case None
    then show ?thesis using o by (auto simp: outcome_def burst_build_def)
  next
    case (Some y)
    then have n: "unat (snd y) = length ?t" "length (fst y) = ?N" "take (length ?t) (fst y) = ?t"
      using o by (auto simp: outcome_def written_def)
    have z: "snd y \<noteq> 0" using n(1) t by auto
    have u: "uint (snd y + 1) = int (length ?t) + 1"
      using unat_add_u8 [OF n(1), of 1] assms(3) by (simp add: uint_nat [of "snd y + 1"])
    have b: "take (length ?t - 1) (fst y) = butlast ?t" using n(3) by (metis butlast_conv_take take_take min.absorb1 diff_le_self)
    obtain m where "length ?t = Suc m" using t by (cases "length ?t") auto
    then show ?thesis using Some z n u b by (auto simp: burst_build_def put_text_def overwrite_def split_beta)
  qed
qed

definition sample_burst :: "u32 \<Rightarrow> upp_state" where
  "sample_burst v = \<lparr>targets = replicate 19 [] @ [le32 v], develop = False, unlock = False, upp_addr = 0\<rparr>"

definition sample_fmt :: burst_fmt where
  "sample_fmt = \<lparr>sep_0 = 32, sep_1 = 44\<rparr>"

lemma sample_nup:
  "ci_cmd (CMD_TBL ! 19) = bytes ''NUP''" "ci_range (CMD_TBL ! 19) = U_Range 1 3300000" "ci_type (CMD_TBL ! 19) = FMT_U_32"
  "ci_props (CMD_TBL ! 19) AND prop_B \<noteq> 0" "\<not> is_need_conver_unit (ci_cmd (CMD_TBL ! 19))"
  by code_simp+

lemma sample_burst_ok:
  "burst_ok (\<lambda>_ b. b) (\<lambda>_ b. b) (sample_burst 70) (19, bytes ''70'')"
  "burst_ok (\<lambda>_ b. b) (\<lambda>_ b. b) (sample_burst 3300000) (19, bytes ''3300000'')"
  by (simp_all add: burst_ok_def burst_payload_def Let_def sample_nup(3-5) data_to_string_def sample_burst_def nth_append dec_text.simps)
    (simp_all add: bytes_def)

lemma replicate_10: "replicate 10 x = [x, x, x, x, x, x, x, x, x, x]"
  by (simp add: numeral_eq_Suc)

lemma sample_text:
  "burst_text sample_fmt [(19, bytes ''70''), (19, bytes ''70'')] = bytes ''NUP 70,NUP 70,''"
  "length (burst_text sample_fmt (replicate 10 (19, bytes ''3300000''))) = 120"
  "burst_list [19, 19] = bytes ''NUP,NUP''"
  "burst_list (replicate 10 19) = bytes ''NUP,NUP,NUP,NUP,NUP,NUP,NUP,NUP,NUP,NUP''"
  by (simp_all add: burst_text_def item_text_def sep_text_def sample_fmt_def sample_nup bytes_def replicate_10)

lemma sample_list:
  "valid_cmd_list (bytes ''NUP,NUP,NUP,NUP,NUP,NUP,NUP,NUP,NUP,NUP'' @ [0]) = Some True"
  "length (bytes ''NUP,NUP,NUP,NUP,NUP,NUP,NUP,NUP,NUP,NUP'' @ [0]) = BURST_LIST_SIZE"
  by code_simp+

text \<open>Two commands give the expected text; a list of ten that the check accepts and that fits its parameter overruns the buffer.\<close>

theorem burst_build_text_witness:
  "(\<exists>out'. burst_build (\<lambda>_ b. b) (\<lambda>_ b. b) (sample_burst 70) sample_fmt (bytes ''NUP,NUP'' @ [0]) (replicate BURST_BUF_LEN 0) = Some (15, out')
      \<and> take 15 out' = bytes ''NUP 70,NUP 70'' @ [13, 10])
    \<and> (let l = bytes ''NUP,NUP,NUP,NUP,NUP,NUP,NUP,NUP,NUP,NUP'' @ [0] in
      valid_cmd_list l = Some True \<and> length l = BURST_LIST_SIZE \<and> ci_range (CMD_TBL ! 19) = U_Range 1 3300000
      \<and> burst_build (\<lambda>_ b. b) (\<lambda>_ b. b) (sample_burst 3300000) sample_fmt l (replicate BURST_BUF_LEN 0) = None)"
proof -
  let ?a = "[(19, bytes ''70''), (19, bytes ''70'')]" and ?b = "replicate 10 (19 :: nat, bytes ''3300000'')"
  have a: "?a \<noteq> []" "list_all (burst_ok (\<lambda>_ b. b) (\<lambda>_ b. b) (sample_burst 70)) ?a" "map fst ?a = [19, 19]"
    using sample_burst_ok(1) by simp_all
  have b: "?b \<noteq> []" "list_all (burst_ok (\<lambda>_ b. b) (\<lambda>_ b. b) (sample_burst 3300000)) ?b" "map fst ?b = replicate 10 19"
    using sample_burst_ok(2) by (simp_all add: list_all_iff)
  have t: "length (bytes ''NUP 70,NUP 70,'') = 14" "butlast (bytes ''NUP 70,NUP 70,'') = bytes ''NUP 70,NUP 70''" by (simp_all add: bytes_def)
  have l: "length (replicate BURST_BUF_LEN (0 :: u8)) = 100" by (simp add: BURST_BUF_LEN_def)
  show ?thesis
    using burst_build_text [OF a(1,2), of sample_fmt "replicate BURST_BUF_LEN 0", unfolded a(3) sample_text t l]
      burst_build_text [OF b(1,2), of sample_fmt "replicate BURST_BUF_LEN 0", unfolded b(3) sample_text t l]
    using sample_list by (simp add: sample_nup)
qed

end
