(* ===== verification/Serial.thy ===== *)
theory Serial
  imports Fifo "HOL-Library.Signed_Division"
begin

text \<open>
  The serial ports, \<open>src/app/arch/serial.c\<close>, with the start of DMA transfers, \<open>src/bsp/periph/gd32_dma.c\<close>.

  A descriptor holds the transmit and the receive ring, the two DMA channels, the interrupt enables of the UART,
  the direction pins of the line driver and what has been put on the line. The capacity of a
  ring is the size of its array. An index or counter of 16 bits is a natural number, with its wrap-around
  written out where it can wrap; an access outside of an array is \<open>None\<close>. The hardware is two
  functions: \<open>tx_hw\<close> moves one byte from the transmit ring to the line, \<open>rx_hw\<close> stores one received byte
  through the circular receive channel. Interrupts happen between the calls of the driver. The timer that ends a
  reception is never initialised, so that its handler \<open>on_rx_over\<close> and the unused \<open>on_dma_rx_backup\<close> are left out.
\<close>

definition COM_CNT :: nat where "COM_CNT = 1"
definition COM2_TX_BUFF_SIZE :: nat where "COM2_TX_BUFF_SIZE = 768"
definition COM2_RX_BUFF_SIZE :: nat where "COM2_RX_BUFF_SIZE = 1056"
definition COM_SEND_DMA :: u8 where "COM_SEND_DMA = 1"
definition COM_RECV_DMA :: u8 where "COM_RECV_DMA = 2"
definition COM_HALF_DUPLEX :: u32 where "COM_HALF_DUPLEX = 50"
definition ERR_LENGTH_MISMATCH :: int where "ERR_LENGTH_MISMATCH = - 1"
definition ERR_INVALID_PORT :: int where "ERR_INVALID_PORT = - 2"
definition ERR_INVALID_LENGTH :: int where "ERR_INVALID_LENGTH = - 3"

datatype rt_mode = COM_MODE_TX | COM_MODE_RX | COM_MODE_RX_TX

record circ_buffer =
  cb_buffer :: buf
  cb_write_idx :: nat
  cb_read_idx :: nat
  cb_count :: nat

definition capacity :: "circ_buffer \<Rightarrow> nat" where
  "capacity f = length (cb_buffer f)"

text \<open>A DMA channel with its registers: memory index, transfer number, enable, flags and interrupt enable. The width is one byte.\<close>

record dma_xfer =
  dx_addr :: nat
  dx_number :: nat
  dx_total_cnt :: nat
  dx_enabled :: bool
  dx_flag :: bool
  dx_irq :: bool

record com_desc =
  cd_mode :: u32
  cd_tx_fifo :: circ_buffer
  cd_tx_dma :: dma_xfer
  cd_rx_fifo :: circ_buffer
  cd_rx_dma :: dma_xfer
  cd_rx_len :: nat
  cd_dma_cfg :: u8
  cd_tcie :: bool
  cd_idleie :: bool
  cd_rbneie :: bool
  cd_tbeie :: bool
  cd_re :: bool
  cd_de :: bool
  cd_line :: buf

definition valid_rates :: "int list" where
  "valid_rates = [2400, 4800, 9600, 14400, 19200, 38400, 56000, 57600, 115200, 128000, 230400]"

definition is_valid_baudrate :: "int \<Rightarrow> bool" where
  "is_valid_baudrate baudrate \<longleftrightarrow> list_ex (\<lambda>r. baudrate = r) valid_rates"

text \<open>The descriptors are an array; a function with a port outside of it returns at once.\<close>

definition on_port :: "int \<Rightarrow> 'r \<Rightarrow> ('e com_desc_scheme \<Rightarrow> ('r \<times> 'e com_desc_scheme) option) \<Rightarrow> 'e com_desc_scheme list \<Rightarrow> ('r \<times> 'e com_desc_scheme list) option" where
  "on_port port r f ds =
     (if port < 0 \<or> port \<ge> int COM_CNT then Some (r, ds)
      else if nat port < length ds then do { (v, d) \<leftarrow> f (ds ! nat port); Some (v, ds[nat port := d]) }
      else None)"

subsection \<open>The line driver and the rings\<close>

definition com_set_mode :: "rt_mode \<Rightarrow> 'e com_desc_scheme \<Rightarrow> 'e com_desc_scheme" where
  "com_set_mode mode d =
     (case mode of
        COM_MODE_RX \<Rightarrow> d\<lparr>cd_re := False, cd_de := False\<rparr>
      | COM_MODE_TX \<Rightarrow> d\<lparr>cd_re := True, cd_de := True\<rparr>
      | COM_MODE_RX_TX \<Rightarrow> d\<lparr>cd_re := False, cd_de := True\<rparr>)"

definition half_duplex :: "rt_mode \<Rightarrow> 'e com_desc_scheme \<Rightarrow> 'e com_desc_scheme" where
  "half_duplex mode d = (if cd_mode d = COM_HALF_DUPLEX then com_set_mode mode d else d)"

definition clr_fifo :: "circ_buffer \<Rightarrow> circ_buffer" where
  "clr_fifo f = f\<lparr>cb_count := 0, cb_write_idx := 0, cb_read_idx := 0\<rparr>"

definition com_clr_tx_fifo :: "int \<Rightarrow> 'e com_desc_scheme list \<Rightarrow> (unit \<times> 'e com_desc_scheme list) option" where
  "com_clr_tx_fifo port = on_port port () (\<lambda>d. Some ((), d\<lparr>cd_tx_fifo := clr_fifo (cd_tx_fifo d)\<rparr>))"

definition com_clr_rx_fifo :: "int \<Rightarrow> 'e com_desc_scheme list \<Rightarrow> (unit \<times> 'e com_desc_scheme list) option" where
  "com_clr_rx_fifo port = on_port port () (\<lambda>d. Some ((), d\<lparr>cd_rx_fifo := clr_fifo (cd_rx_fifo d)\<rparr>))"

subsection \<open>Starting transfers\<close>

text \<open>\<open>gd32_dma_start\<close> and \<open>gd32_dma_rx\<close>: the channel is set up with an address and a number and enabled, its flags are cleared.\<close>

definition gd32_dma_start :: "nat \<Rightarrow> nat \<Rightarrow> dma_xfer \<Rightarrow> dma_xfer" where
  "gd32_dma_start buff len x = x\<lparr>dx_total_cnt := len, dx_addr := buff, dx_number := len, dx_flag := False, dx_enabled := True\<rparr>"

definition gd32_dma_rx :: "nat \<Rightarrow> nat \<Rightarrow> dma_xfer \<Rightarrow> dma_xfer" where
  "gd32_dma_rx buff len x = x\<lparr>dx_total_cnt := len, dx_addr := buff, dx_number := len, dx_flag := False, dx_enabled := True\<rparr>"

definition enable_recv :: "'e com_desc_scheme \<Rightarrow> 'e com_desc_scheme" where
  "enable_recv d =
     (if cd_dma_cfg d AND COM_RECV_DMA \<noteq> 0
      then d\<lparr>cd_rx_dma := (gd32_dma_rx (cb_write_idx (cd_rx_fifo d)) (capacity (cd_rx_fifo d)) (cd_rx_dma d))\<lparr>dx_irq := True\<rparr>, cd_idleie := True\<rparr>
      else d\<lparr>cd_rbneie := True\<rparr>)"

definition com_enable_recv :: "int \<Rightarrow> 'e com_desc_scheme list \<Rightarrow> (unit \<times> 'e com_desc_scheme list) option" where
  "com_enable_recv port = on_port port () (\<lambda>d. Some ((), enable_recv d))"

definition com_disable_recv :: "int \<Rightarrow> 'e com_desc_scheme list \<Rightarrow> (unit \<times> 'e com_desc_scheme list) option" where
  "com_disable_recv port = on_port port () (\<lambda>d. Some ((),
     if cd_dma_cfg d AND COM_RECV_DMA \<noteq> 0 then d\<lparr>cd_rx_dma := (cd_rx_dma d)\<lparr>dx_irq := False, dx_enabled := False\<rparr>\<rparr>
     else d\<lparr>cd_rbneie := False\<rparr>))"

subsection \<open>Receiving\<close>

definition filter_recv :: "int \<Rightarrow> int \<Rightarrow> 'e com_desc_scheme \<Rightarrow> int \<times> 'e com_desc_scheme" where
  "filter_recv min_len max_len d =
     (if int (cd_rx_len d) < min_len \<or> int (cd_rx_len d) > max_len
      then (ERR_LENGTH_MISMATCH, d\<lparr>cd_rx_fifo := (cd_rx_fifo d)\<lparr>
              cb_count := (cb_count (cd_rx_fifo d) + 65536 - cd_rx_len d) mod 65536,
              cb_read_idx := (cb_read_idx (cd_rx_fifo d) + cd_rx_len d) mod 65536\<rparr>, cd_rx_len := 0\<rparr>)
      else (0, d))"

definition com_filter_recv :: "int \<Rightarrow> int \<Rightarrow> int \<Rightarrow> 'e com_desc_scheme list \<Rightarrow> (int \<times> 'e com_desc_scheme list) option" where
  "com_filter_recv port min_len max_len ds =
     (if port < 0 \<or> port \<ge> int COM_CNT then Some (ERR_INVALID_PORT, ds)
      else if min_len < 0 \<or> max_len < min_len then Some (ERR_INVALID_LENGTH, ds)
      else on_port port ERR_INVALID_PORT (\<lambda>d. Some (filter_recv min_len max_len d)) ds)"

text \<open>The loop that copies \<open>n\<close> bytes out of the ring.\<close>

fun recv_loop :: "nat \<Rightarrow> circ_buffer \<Rightarrow> (buf \<times> circ_buffer) option" where
  "recv_loop 0 f = Some ([], f)"
| "recv_loop (Suc n) f =
     (if cb_read_idx f < capacity f then do {
        (bs, f') \<leftarrow> recv_loop n (f\<lparr>cb_read_idx := Suc (cb_read_idx f) mod capacity f\<rparr>);
        Some (cb_buffer f ! cb_read_idx f # bs, f') }
      else None)"

text \<open>\<open>com_recv\<close> compares the size of the buffer with \<open>rx_len\<close> but then copies all bytes of the ring.\<close>

definition recv_desc :: "buf \<Rightarrow> nat \<Rightarrow> 'e com_desc_scheme \<Rightarrow> ((int \<times> buf) \<times> 'e com_desc_scheme) option" where
  "recv_desc buff sz d =
     (if cd_rx_len d = 0 then Some ((0, buff), d)
      else do {
        let rx_stop = (cd_rx_len d \<ge> capacity (cd_rx_fifo d));
        let n = cb_count (cd_rx_fifo d);
        (bs, f) \<leftarrow> recv_loop n (cd_rx_fifo d);
        if length buff < n then None
        else do {
          let d = d\<lparr>cd_rx_fifo := f\<lparr>cb_count := 0\<rparr>, cd_rx_len := (cd_rx_len d + 65536 - n) mod 65536\<rparr>;
          Some ((int n, overwrite buff 0 bs), if rx_stop then enable_recv d else d) } })"

definition com_recv :: "int \<Rightarrow> buf \<Rightarrow> nat \<Rightarrow> 'e com_desc_scheme list \<Rightarrow> ((int \<times> buf) \<times> 'e com_desc_scheme list) option" where
  "com_recv port buff sz = on_port port (0, buff) (recv_desc buff sz)"

subsection \<open>Sending\<close>

fun put_loop :: "buf \<Rightarrow> circ_buffer \<Rightarrow> circ_buffer option" where
  "put_loop [] f = Some f"
| "put_loop (x # xs) f =
     (if cb_write_idx f < capacity f
      then put_loop xs (f\<lparr>cb_buffer := (cb_buffer f)[cb_write_idx f := x], cb_write_idx := Suc (cb_write_idx f) mod capacity f\<rparr>)
      else None)"

text \<open>The start of a transmission from the ring: by DMA up to the end of the array, or by interrupts.\<close>

definition start_tx :: "'e com_desc_scheme \<Rightarrow> 'e com_desc_scheme" where
  "start_tx d =
     (let f = cd_tx_fifo d; d = half_duplex COM_MODE_TX d in
      if cd_dma_cfg d AND COM_SEND_DMA \<noteq> 0
      then let sz = (if capacity f - cb_read_idx f > cb_count f then cb_count f else capacity f - cb_read_idx f)
           in d\<lparr>cd_tcie := True, cd_tx_dma := gd32_dma_start (cb_read_idx f) sz ((cd_tx_dma d)\<lparr>dx_irq := True\<rparr>)\<rparr>
      else d\<lparr>cd_tbeie := True\<rparr>)"

text \<open>One round of the loop of \<open>com_send\<close> with \<open>n\<close> bytes.\<close>

definition send_round :: "buf \<Rightarrow> 'e com_desc_scheme \<Rightarrow> 'e com_desc_scheme option" where
  "send_round bs d = do {
     f \<leftarrow> put_loop bs ((cd_tx_fifo d)\<lparr>cb_read_idx := cb_write_idx (cd_tx_fifo d)\<rparr>);
     let f = f\<lparr>cb_count := (cb_count f + length bs) mod 65536\<rparr>;
     let d = d\<lparr>cd_tx_fifo := f\<rparr>;
     Some (if cb_count f > 0 then start_tx d else d) }"

function send_desc :: "buf \<Rightarrow> 'e com_desc_scheme \<Rightarrow> (int \<times> 'e com_desc_scheme) option" where
  "send_desc bs d =
     (let room = capacity (cd_tx_fifo d) - cb_count (cd_tx_fifo d); n = min (length bs) room in
      if bs = [] \<or> room = 0 then Some (0, d)
      else do {
        d \<leftarrow> send_round (take n bs) d;
        (r, d) \<leftarrow> send_desc (drop n bs) d;
        Some (int n + r, d) })"
  by pat_completeness auto
termination by (relation "measure (\<lambda>(bs, d). length bs)") auto

declare send_desc.simps [simp del]

text \<open>A negative length sends nothing; a length behind the data is undefined.\<close>

definition com_send :: "int \<Rightarrow> buf \<Rightarrow> int \<Rightarrow> 'e com_desc_scheme list \<Rightarrow> (int \<times> 'e com_desc_scheme list) option" where
  "com_send port buff len =
     on_port port 0 (\<lambda>d. if int (length buff) < len then None else send_desc (take (nat len) buff) d)"

text \<open>\<open>com_put\<close> sends by polling, \<open>com_get\<close> takes the characters that arrive before a timeout.\<close>

definition com_put :: "int \<Rightarrow> buf \<Rightarrow> 'e com_desc_scheme list \<Rightarrow> (int \<times> 'e com_desc_scheme list) option" where
  "com_put port bs = on_port port 0 (\<lambda>d.
     let d = half_duplex COM_MODE_TX d; d = d\<lparr>cd_line := cd_line d @ bs\<rparr> in Some (int (length bs), half_duplex COM_MODE_RX d))"

fun get_loop :: "nat \<Rightarrow> u8 option list \<Rightarrow> buf" where
  "get_loop sz (Some ch # chs) = ch # (if sz = 1 then [] else get_loop (sz - 1) chs)"
| "get_loop sz _ = []"

definition com_get :: "int \<Rightarrow> nat \<Rightarrow> u8 option list \<Rightarrow> buf" where
  "com_get port sz chs = (if port < 0 \<or> port \<ge> int COM_CNT then [] else get_loop sz chs)"

subsection \<open>Interrupts\<close>

definition on_dma_tx :: "'e com_desc_scheme \<Rightarrow> 'e com_desc_scheme" where
  "on_dma_tx d =
     (if dx_flag (cd_tx_dma d) then
        let x = (cd_tx_dma d)\<lparr>dx_flag := False, dx_enabled := False\<rparr>;
            sent_len = dx_total_cnt x - dx_number x;
            f = cd_tx_fifo d;
            f = f\<lparr>cb_read_idx := (cb_read_idx f + sent_len) mod capacity f, cb_count := (cb_count f + 65536 - sent_len) mod 65536\<rparr>;
            d = d\<lparr>cd_tx_fifo := f, cd_tx_dma := x\<rparr>
        in if cb_count f = 0 then d\<lparr>cd_tx_dma := x\<lparr>dx_irq := False\<rparr>\<rparr>
           else (half_duplex COM_MODE_TX d)\<lparr>
             cd_tx_dma := gd32_dma_start (cb_read_idx f) (min (cb_count f) (capacity f - cb_read_idx f)) (x\<lparr>dx_irq := True\<rparr>)\<rparr>
      else d)"

definition on_dma_rx :: "'e com_desc_scheme \<Rightarrow> 'e com_desc_scheme" where
  "on_dma_rx d = d\<lparr>cd_rx_dma := (cd_rx_dma d)\<lparr>dx_flag := False\<rparr>\<rparr>"

text \<open>
  The interrupt of the UART, in the order of its parts: transmission complete, line idle, byte received, transmit
  register empty. The flags of the UART are arguments, \<open>cb\<close> is the receive callback.
\<close>

record uart_flags =
  uf_tc :: bool
  uf_idle :: bool
  uf_rx :: "u8 option"
  uf_tbe :: bool

definition rx_callback :: "('e com_desc_scheme \<Rightarrow> 'e com_desc_scheme) option \<Rightarrow> 'e com_desc_scheme \<Rightarrow> 'e com_desc_scheme" where
  "rx_callback cb d = (case cb of None \<Rightarrow> d | Some g \<Rightarrow> g d)"

definition irq_tc :: "uart_flags \<Rightarrow> 'e com_desc_scheme \<Rightarrow> 'e com_desc_scheme" where
  "irq_tc u d = (if cd_tcie d \<and> uf_tc u then half_duplex COM_MODE_RX (d\<lparr>cd_tcie := False\<rparr>) else d)"

definition irq_idle :: "('e com_desc_scheme \<Rightarrow> 'e com_desc_scheme) option \<Rightarrow> uart_flags \<Rightarrow> 'e com_desc_scheme \<Rightarrow> 'e com_desc_scheme" where
  "irq_idle cb u d =
     (if cd_idleie d \<and> uf_idle u then
        (if cd_dma_cfg d AND COM_RECV_DMA \<noteq> 0 then
           let f = cd_rx_fifo d;
               w = capacity f - dx_number (cd_rx_dma d);
               f = f\<lparr>cb_write_idx := w,
                 cb_count := nat (((int (capacity f) + int w - int (cb_read_idx f)) smod int (capacity f)) mod 65536)\<rparr>
           in rx_callback cb (d\<lparr>cd_rx_fifo := f, cd_rx_len := cb_count f\<rparr>)
         else rx_callback cb (d\<lparr>cd_rx_len := cb_count (cd_rx_fifo d)\<rparr>))
      else d)"

definition irq_rx :: "('e com_desc_scheme \<Rightarrow> 'e com_desc_scheme) option \<Rightarrow> uart_flags \<Rightarrow> 'e com_desc_scheme \<Rightarrow> 'e com_desc_scheme option" where
  "irq_rx cb u d =
     (case uf_rx u of
        Some ch \<Rightarrow>
          if cd_rbneie d then
            let f = cd_rx_fifo d in
            if cb_write_idx f < capacity f then
              let f = f\<lparr>cb_buffer := (cb_buffer f)[cb_write_idx f := ch], cb_write_idx := Suc (cb_write_idx f) mod capacity f,
                        cb_count := Suc (cb_count f) mod 65536\<rparr>;
                  d = d\<lparr>cd_rx_fifo := f\<rparr>
              in Some (if cb_count f = capacity f then rx_callback cb (d\<lparr>cd_rbneie := False, cd_rx_len := cb_count f\<rparr>) else d)
            else None
          else Some d
      | None \<Rightarrow> Some d)"

definition irq_tbe :: "uart_flags \<Rightarrow> 'e com_desc_scheme \<Rightarrow> 'e com_desc_scheme option" where
  "irq_tbe u d =
     (if cd_tbeie d \<and> uf_tbe u then
        let f = cd_tx_fifo d in
        if cb_read_idx f < capacity f then
          let d = d\<lparr>cd_line := cd_line d @ [cb_buffer f ! cb_read_idx f]\<rparr>;
              f = f\<lparr>cb_read_idx := Suc (cb_read_idx f) mod capacity f, cb_count := (cb_count f + 65535) mod 65536\<rparr>;
              d = d\<lparr>cd_tx_fifo := f\<rparr>
          in Some (if cb_count f = 0 then (if cd_mode d = COM_HALF_DUPLEX then d\<lparr>cd_tbeie := False, cd_tcie := True\<rparr> else d\<lparr>cd_tbeie := False\<rparr>) else d)
        else None
      else Some d)"

definition on_irq_all :: "('e com_desc_scheme \<Rightarrow> 'e com_desc_scheme) option \<Rightarrow> uart_flags \<Rightarrow> 'e com_desc_scheme \<Rightarrow> 'e com_desc_scheme option" where
  "on_irq_all cb u d = do {
     d \<leftarrow> irq_rx cb u (irq_idle cb u (irq_tc u d));
     irq_tbe u d }"

subsection \<open>Initialisation\<close>

text \<open>
  The initialisation of the only port: the rings are cleared except for their counters, \<open>configure_com_port\<close> attaches the
  arrays, and the initialisation of a DMA channel that is used resets it.
\<close>

definition dma_reset :: "dma_xfer \<Rightarrow> dma_xfer" where
  "dma_reset x = x\<lparr>dx_addr := 0, dx_number := 0, dx_enabled := False, dx_flag := False, dx_irq := False\<rparr>"

definition init_fifo :: "nat \<Rightarrow> circ_buffer \<Rightarrow> circ_buffer" where
  "init_fifo sz f = f\<lparr>cb_buffer := replicate sz 0, cb_read_idx := 0, cb_write_idx := 0\<rparr>"

definition com_init :: "u8 \<Rightarrow> u32 \<Rightarrow> 'e com_desc_scheme \<Rightarrow> 'e com_desc_scheme" where
  "com_init dma_cfg mode d =
     (let d = d\<lparr>cd_dma_cfg := dma_cfg, cd_mode := mode, cd_rx_fifo := init_fifo COM2_RX_BUFF_SIZE (cd_rx_fifo d),
            cd_tx_fifo := init_fifo COM2_TX_BUFF_SIZE (cd_tx_fifo d)\<rparr>;
          d = (if dma_cfg AND COM_SEND_DMA \<noteq> 0 then d\<lparr>cd_tx_dma := dma_reset (cd_tx_dma d)\<rparr> else d);
          d = (if dma_cfg AND COM_RECV_DMA \<noteq> 0 then d\<lparr>cd_rx_dma := dma_reset (cd_rx_dma d)\<rparr> else d)
      in com_set_mode (if mode = COM_HALF_DUPLEX then COM_MODE_RX else COM_MODE_RX_TX) d)"

subsection \<open>The hardware\<close>

text \<open>
  The transmit channel moves a byte to the line and, after the last one, sets its flag and stops. The receive channel is
  circular: its number is reloaded with the number of the set-up when it reaches zero.
\<close>

definition tx_hw :: "'e com_desc_scheme \<Rightarrow> 'e com_desc_scheme" where
  "tx_hw d =
     (let x = cd_tx_dma d in
      if dx_enabled x \<and> dx_number x > 0
      then d\<lparr>cd_line := cd_line d @ [cb_buffer (cd_tx_fifo d) ! dx_addr x],
             cd_tx_dma := x\<lparr>dx_addr := Suc (dx_addr x), dx_number := dx_number x - 1,
               dx_flag := (dx_number x = 1), dx_enabled := (dx_number x \<noteq> 1)\<rparr>\<rparr>
      else d)"

definition rx_hw :: "u8 \<Rightarrow> 'e com_desc_scheme \<Rightarrow> 'e com_desc_scheme option" where
  "rx_hw b d =
     (let x = cd_rx_dma d; f = cd_rx_fifo d; i = dx_addr x + (dx_total_cnt x - dx_number x) in
      if dx_enabled x then
        (if i < capacity f
         then Some (d\<lparr>cd_rx_fifo := f\<lparr>cb_buffer := (cb_buffer f)[i := b]\<rparr>,
                cd_rx_dma := x\<lparr>dx_number := (if dx_number x = 1 then dx_total_cnt x else dx_number x - 1)\<rparr>\<rparr>)
         else None)
      else Some d)"

text \<open>A step of the transmitter: the hardware, and the interrupt when it is requested and enabled.\<close>

definition tx_step :: "'e com_desc_scheme \<Rightarrow> 'e com_desc_scheme" where
  "tx_step d = (let d = tx_hw d in if dx_flag (cd_tx_dma d) \<and> dx_irq (cd_tx_dma d) then on_dma_tx d else d)"

subsection \<open>Transmission\<close>

definition tx_ok :: "'e com_desc_scheme \<Rightarrow> bool" where
  "tx_ok d \<longleftrightarrow> cb_write_idx (cd_tx_fifo d) < capacity (cd_tx_fifo d) \<and> capacity (cd_tx_fifo d) < 65536
     \<and> cd_dma_cfg d AND COM_SEND_DMA \<noteq> 0"

definition tx_idle :: "'e com_desc_scheme \<Rightarrow> bool" where
  "tx_idle d \<longleftrightarrow> tx_ok d \<and> cb_count (cd_tx_fifo d) = 0 \<and> \<not> dx_enabled (cd_tx_dma d) \<and> \<not> dx_flag (cd_tx_dma d)"

text \<open>A transmission under way: the channel is inside of the segment from the read index to the end of the data or of the array.\<close>

definition tx_busy :: "'e com_desc_scheme \<Rightarrow> bool" where
  "tx_busy d \<longleftrightarrow> (let f = cd_tx_fifo d; x = cd_tx_dma d in
     tx_ok d \<and> cb_read_idx f < capacity f \<and> cb_count f \<le> capacity f
     \<and> dx_enabled x \<and> dx_irq x \<and> \<not> dx_flag x \<and> 0 < dx_number x \<and> dx_number x \<le> dx_total_cnt x
     \<and> dx_total_cnt x = min (cb_count f) (capacity f - cb_read_idx f)
     \<and> dx_addr x = cb_read_idx f + (dx_total_cnt x - dx_number x))"

definition tx_pending :: "'e com_desc_scheme \<Rightarrow> buf" where
  "tx_pending d = drop (dx_total_cnt (cd_tx_dma d) - dx_number (cd_tx_dma d))
     (ring_list (cb_buffer (cd_tx_fifo d)) (cb_read_idx (cd_tx_fifo d)) (cb_count (cd_tx_fifo d)))"

lemma ring_list_drop:
  assumes "k \<le> n"
  shows "drop k (ring_list a h n) = ring_list a ((h + k) mod length a) (n - k)"
  using assms by (auto simp: ring_list_def drop_map list_eq_iff_nth_eq mod_add_left_eq add.assoc)

lemma half_duplex_fields [simp]:
  "cd_tx_fifo (half_duplex m d) = cd_tx_fifo d" "cd_tx_dma (half_duplex m d) = cd_tx_dma d" "cd_line (half_duplex m d) = cd_line d"
  "cd_dma_cfg (half_duplex m d) = cd_dma_cfg d" "cd_rx_fifo (half_duplex m d) = cd_rx_fifo d" "cd_rx_dma (half_duplex m d) = cd_rx_dma d"
  "cd_rx_len (half_duplex m d) = cd_rx_len d" "cd_idleie (half_duplex m d) = cd_idleie d"
  by (cases m; simp add: half_duplex_def com_set_mode_def)+

lemma sub_mod: "b \<le> a \<Longrightarrow> a < 65536 \<Longrightarrow> (a + 65536 - b) mod 65536 = a - (b :: nat)"
  using mod_add_self2 [of "a - b" 65536] by (simp add: Nat.add_diff_assoc2)

text \<open>What transmission works on, and what reception works on.\<close>

definition tx_side :: "'e com_desc_scheme \<Rightarrow> circ_buffer \<times> dma_xfer \<times> u8 \<times> buf \<times> 'e" where
  "tx_side d = (cd_tx_fifo d, cd_tx_dma d, cd_dma_cfg d, cd_line d, com_desc.more d)"

definition rx_side :: "'e com_desc_scheme \<Rightarrow> circ_buffer \<times> dma_xfer \<times> u8 \<times> bool \<times> bool \<times> bool \<times> 'e" where
  "rx_side d = (cd_rx_fifo d, cd_rx_dma d, cd_dma_cfg d, cd_idleie d, cd_rbneie d, cd_tbeie d, com_desc.more d)"

lemma tx_idle_side: "tx_side d' = tx_side d \<Longrightarrow> tx_idle d' = tx_idle d"
  by (simp add: tx_side_def tx_idle_def tx_ok_def)

lemma rx_side_half_duplex [simp]: "rx_side (half_duplex m d) = rx_side d"
  by (cases m; simp add: half_duplex_def com_set_mode_def rx_side_def)

lemma tx_step_side:
  fixes d :: "'a com_desc_scheme"
  shows "rx_side (tx_step d) = rx_side d \<and> capacity (cd_tx_fifo (tx_step d)) = capacity (cd_tx_fifo d)"
proof -
  have "rx_side (tx_hw d) = rx_side d \<and> cd_tx_fifo (tx_hw d) = cd_tx_fifo d" for d :: "'a com_desc_scheme"
    by (simp add: tx_hw_def Let_def rx_side_def)
  moreover have "rx_side (on_dma_tx d) = rx_side d \<and> capacity (cd_tx_fifo (on_dma_tx d)) = capacity (cd_tx_fifo d)" for d :: "'a com_desc_scheme"
    using rx_side_half_duplex [of COM_MODE_TX "d\<lparr>cd_tx_fifo := f, cd_tx_dma := x\<rparr>" for f x]
    by (simp add: on_dma_tx_def Let_def rx_side_def capacity_def)
  ultimately show ?thesis by (simp add: tx_step_def Let_def)
qed

lemma tx_steps_side: "rx_side ((tx_step ^^ n) d) = rx_side d \<and> capacity (cd_tx_fifo ((tx_step ^^ n) d)) = capacity (cd_tx_fifo d)"
  by (induction n) (simp_all add: tx_step_side)

lemma put_loop_capacity: "put_loop bs f = Some f' \<Longrightarrow> capacity f' = capacity f"
  by (induction bs arbitrary: f) (simp, fastforce simp: capacity_def split: if_splits)

lemma start_tx_side:
  assumes "cd_dma_cfg e AND COM_SEND_DMA \<noteq> 0"
  shows "rx_side (start_tx e) = rx_side e" "cd_dma_cfg (start_tx e) = cd_dma_cfg e" "cd_tx_fifo (start_tx e) = cd_tx_fifo e"
proof -
  define h where "h = half_duplex COM_MODE_TX e"
  have "rx_side h = rx_side e" "cd_dma_cfg h = cd_dma_cfg e" "cd_tx_fifo h = cd_tx_fifo e" by (simp_all add: h_def)
  then show "rx_side (start_tx e) = rx_side e" "cd_dma_cfg (start_tx e) = cd_dma_cfg e" "cd_tx_fifo (start_tx e) = cd_tx_fifo e"
    using assms by (simp_all add: start_tx_def Let_def h_def [symmetric] rx_side_def)
qed

lemma send_round_side:
  assumes "cd_dma_cfg d AND COM_SEND_DMA \<noteq> 0" and "send_round bs d = Some d'"
  shows "rx_side d' = rx_side d \<and> cd_dma_cfg d' = cd_dma_cfg d \<and> capacity (cd_tx_fifo d') = capacity (cd_tx_fifo d)"
proof -
  obtain f where f: "put_loop bs ((cd_tx_fifo d)\<lparr>cb_read_idx := cb_write_idx (cd_tx_fifo d)\<rparr>) = Some f"
    using assms(2) by (cases "put_loop bs ((cd_tx_fifo d)\<lparr>cb_read_idx := cb_write_idx (cd_tx_fifo d)\<rparr>)") (simp_all add: send_round_def)
  define g where "g = f\<lparr>cb_count := (cb_count f + length bs) mod 65536\<rparr>"
  have c: "capacity g = capacity (cd_tx_fifo d)" using put_loop_capacity [OF f] by (simp add: capacity_def g_def)
  have d': "d' = (if cb_count g > 0 then start_tx (d\<lparr>cd_tx_fifo := g\<rparr>) else d\<lparr>cd_tx_fifo := g\<rparr>)"
    using assms(2) unfolding send_round_def f Let_def g_def by (simp only: bind.simps option.inject)
  have "rx_side (d\<lparr>cd_tx_fifo := g\<rparr>) = rx_side d" by (simp add: rx_side_def)
  then show ?thesis using start_tx_side [of "d\<lparr>cd_tx_fifo := g\<rparr>"] assms(1) c by (simp add: d')
qed

lemma send_desc_side:
  assumes "cd_dma_cfg d AND COM_SEND_DMA \<noteq> 0" and "send_desc bs d = Some (r, d')"
  shows "rx_side d' = rx_side d \<and> capacity (cd_tx_fifo d') = capacity (cd_tx_fifo d)"
  using assms
proof (induction bs d arbitrary: r rule: send_desc.induct)
  case (1 bs d)
  let ?room = "capacity (cd_tx_fifo d) - cb_count (cd_tx_fifo d)" and ?n = "min (length bs) (capacity (cd_tx_fifo d) - cb_count (cd_tx_fifo d))"
  show ?case
  proof (cases "bs = [] \<or> ?room = 0")
    case True
    then have "send_desc bs d = Some (0, d)" by (subst send_desc.simps) (auto simp: Let_def)
    then show ?thesis using "1.prems"(2) by simp
  next
    case False
    then have "do { d \<leftarrow> send_round (take ?n bs) d; (r, d) \<leftarrow> send_desc (drop ?n bs) d; Some (int ?n + r, d) } = Some (r, d')"
      using "1.prems"(2) by (subst (asm) send_desc.simps) (simp add: Let_def)
    then obtain d2 k where t: "send_round (take ?n bs) d = Some d2" "send_desc (drop ?n bs) d2 = Some (k, d')"
      by (auto simp: bind_eq_Some_conv)
    have s: "rx_side d2 = rx_side d \<and> cd_dma_cfg d2 = cd_dma_cfg d \<and> capacity (cd_tx_fifo d2) = capacity (cd_tx_fifo d)"
      using send_round_side [OF "1.prems"(1) t(1)] .
    then show ?thesis using "1.IH" [OF refl refl False t(1) _ t(2)] "1.prems"(1) by simp
  qed
qed

lemma tx_step_busy:
  assumes "tx_busy d"
  shows "\<exists>b bs. tx_pending d = b # bs \<and> cd_line (tx_step d) = cd_line d @ [b]
    \<and> (if bs = [] then tx_idle (tx_step d) else tx_busy (tx_step d) \<and> tx_pending (tx_step d) = bs)"
proof -
  let ?f = "cd_tx_fifo d" and ?x = "cd_tx_dma d"
  let ?cap = "capacity ?f" and ?r = "cb_read_idx ?f" and ?n = "cb_count ?f"
  define k where "k = dx_total_cnt ?x - dx_number ?x"
  have ok: "tx_ok d" "?r < ?cap" "?n \<le> ?cap" and x: "dx_enabled ?x" "dx_irq ?x" "\<not> dx_flag ?x" "0 < dx_number ?x"
    and t: "dx_number ?x \<le> dx_total_cnt ?x" "dx_total_cnt ?x = min ?n (?cap - ?r)" "dx_addr ?x = ?r + k"
    using assms by (auto simp: tx_busy_def Let_def k_def)
  have k: "k < ?n" "?r + k < ?cap" using x(4) t by (auto simp: k_def)
  have p: "tx_pending d = cb_buffer ?f ! (?r + k) # drop (Suc k) (ring_list (cb_buffer ?f) ?r ?n)"
    using k by (simp add: tx_pending_def k_def [symmetric] Cons_nth_drop_Suc [symmetric]) (simp add: ring_list_def capacity_def)
  show ?thesis
  proof (cases "dx_number ?x = 1")
    case False
    then have "tx_step d = d\<lparr>cd_line := cd_line d @ [cb_buffer ?f ! (?r + k)],
        cd_tx_dma := ?x\<lparr>dx_addr := Suc (?r + k), dx_number := dx_number ?x - 1, dx_flag := False, dx_enabled := True\<rparr>\<rparr>"
      using x t by (simp add: tx_step_def tx_hw_def Let_def)
    moreover have "dx_total_cnt ?x - (dx_number ?x - 1) = Suc k" using False x(4) t(1) by (auto simp: k_def)
    moreover have "Suc k < ?n" using False x(4) t by (auto simp: k_def)
    ultimately show ?thesis
      using p ok x t False by (auto simp: tx_busy_def tx_pending_def tx_ok_def Let_def)
  next
    case True
    define m where "m = dx_total_cnt ?x"
    have m: "m = Suc k" "m \<le> ?n" "m \<le> ?cap - ?r" using True t by (auto simp: m_def k_def)
    define d' where "d' = d\<lparr>cd_line := cd_line d @ [cb_buffer ?f ! (?r + k)],
      cd_tx_dma := ?x\<lparr>dx_addr := Suc (?r + k), dx_number := 0, dx_flag := True, dx_enabled := False\<rparr>\<rparr>"
    have s: "tx_step d = on_dma_tx d'" using x t True by (simp add: tx_step_def tx_hw_def Let_def d'_def)
    have c: "(?n + 65536 - m) mod 65536 = ?n - m" using ok m(2) by (intro sub_mod) (auto simp: tx_ok_def)
    have tl: "drop (Suc k) (ring_list (cb_buffer ?f) ?r ?n) = ring_list (cb_buffer ?f) ((?r + m) mod ?cap) (?n - m)"
      using ring_list_drop [of m ?n] m by (simp add: capacity_def)
    show ?thesis
    proof (cases "?n = m")
      case n: True
      have "tx_idle (on_dma_tx d')" "cd_line (on_dma_tx d') = cd_line d @ [cb_buffer ?f ! (?r + k)]"
        using ok c n by (simp_all add: on_dma_tx_def d'_def Let_def m_def [symmetric] tx_idle_def tx_ok_def capacity_def)
      then show ?thesis using p tl n s by simp
    next
      case False
      then have "m = ?cap - ?r" using t(2) by (simp add: m_def min_def split: if_splits)
      then have r: "(?r + m) mod ?cap = 0" using ok(2) by simp
      have "tx_busy (on_dma_tx d') \<and> tx_pending (on_dma_tx d') = ring_list (cb_buffer ?f) 0 (?n - m)
          \<and> cd_line (on_dma_tx d') = cd_line d @ [cb_buffer ?f ! (?r + k)]"
        using ok c r False m x
        by (auto simp: on_dma_tx_def d'_def Let_def m_def [symmetric] tx_busy_def tx_ok_def tx_pending_def gd32_dma_start_def capacity_def)
      then show ?thesis using p tl r s False m by (auto dest: arg_cong [of _ "[]" length])
    qed
  qed
qed

lemma tx_drains:
  "tx_busy d \<Longrightarrow> tx_idle ((tx_step ^^ length (tx_pending d)) d)
    \<and> cd_line ((tx_step ^^ length (tx_pending d)) d) = cd_line d @ tx_pending d"
proof (induction "tx_pending d" arbitrary: d)
  case Nil
  then show ?case using tx_step_busy [of d] by auto
next
  case (Cons b bs)
  obtain b' bs' where s: "tx_pending d = b' # bs'" "cd_line (tx_step d) = cd_line d @ [b']"
    "if bs' = [] then tx_idle (tx_step d) else tx_busy (tx_step d) \<and> tx_pending (tx_step d) = bs'"
    using tx_step_busy [OF Cons.prems] by blast
  have eq: "b' = b" "bs' = bs" using Cons.hyps(2) s(1) by simp_all
  show ?case
  proof (cases "bs = []")
    case True
    then show ?thesis using s eq by simp
  next
    case False
    then have "tx_busy (tx_step d)" "bs = tx_pending (tx_step d)" using s(3) eq by auto
    then show ?thesis using Cons.hyps(1) [of "tx_step d"] s(1,2) eq by (simp add: funpow_swap1)
  qed
qed

lemma put_loop_ring:
  assumes "n + length xs \<le> capacity f" and "cb_write_idx f = (h + n) mod capacity f" and "0 < capacity f"
  shows "\<exists>f'. put_loop xs f = Some f' \<and> capacity f' = capacity f \<and> cb_read_idx f' = cb_read_idx f \<and> cb_count f' = cb_count f
    \<and> cb_write_idx f' = (h + n + length xs) mod capacity f
    \<and> ring_list (cb_buffer f') h (n + length xs) = ring_list (cb_buffer f) h n @ xs"
  using assms
proof (induction xs arbitrary: f n)
  case (Cons x xs)
  let ?f = "f\<lparr>cb_buffer := (cb_buffer f)[cb_write_idx f := x], cb_write_idx := Suc (cb_write_idx f) mod capacity f\<rparr>"
  have w: "cb_write_idx f < capacity f" using Cons.prems by simp
  have c: "capacity ?f = capacity f" by (simp add: capacity_def)
  have "ring_list (cb_buffer ?f) h (Suc n) = ring_list (cb_buffer f) h n @ [x]"
    using ring_push [of n "cb_buffer f" "cb_write_idx f" h x] Cons.prems by (simp add: capacity_def)
  moreover have "cb_write_idx ?f = (h + Suc n) mod capacity ?f" using Cons.prems(2) c by (simp add: mod_Suc_eq)
  moreover have "Suc n + length xs \<le> capacity ?f" "0 < capacity ?f" using Cons.prems c by auto
  ultimately obtain f' where "put_loop xs ?f = Some f'" "capacity f' = capacity f" "cb_read_idx f' = cb_read_idx f" "cb_count f' = cb_count f"
    "cb_write_idx f' = (h + Suc n + length xs) mod capacity f"
    "ring_list (cb_buffer f') h (Suc n + length xs) = (ring_list (cb_buffer f) h n @ [x]) @ xs"
    using Cons.IH [of "Suc n" ?f] c by auto
  then show ?case using w by (intro exI [of _ f']) simp
qed simp

lemma send_round_idle:
  assumes "tx_idle d" and "bs \<noteq> []" and "length bs \<le> capacity (cd_tx_fifo d)"
  shows "\<exists>d'. send_round bs d = Some d' \<and> tx_busy d' \<and> tx_pending d' = bs \<and> cd_line d' = cd_line d
    \<and> capacity (cd_tx_fifo d') = capacity (cd_tx_fifo d) \<and> cb_count (cd_tx_fifo d') = length bs"
proof -
  let ?f = "cd_tx_fifo d"
  have ok: "tx_ok d" "cb_write_idx ?f < capacity ?f" "capacity ?f < 65536" "cb_count ?f = 0" using assms(1) by (auto simp: tx_idle_def tx_ok_def)
  have ne: "cb_buffer ?f \<noteq> []" using ok(2) by (auto simp: capacity_def)
  obtain f' where f': "put_loop bs (?f\<lparr>cb_read_idx := cb_write_idx ?f\<rparr>) = Some f'" "capacity f' = capacity ?f"
    "cb_read_idx f' = cb_write_idx ?f" "cb_count f' = 0" "cb_write_idx f' = (cb_write_idx ?f + length bs) mod capacity ?f"
    "ring_list (cb_buffer f') (cb_write_idx ?f) (length bs) = bs"
    using put_loop_ring [of 0 bs "?f\<lparr>cb_read_idx := cb_write_idx ?f\<rparr>" "cb_write_idx ?f"] ok assms(3) ne by (auto simp: capacity_def)
  have c: "length bs mod 65536 = length bs" "0 < length bs" using assms(2,3) ok(3) by simp_all
  have wl: "(cb_write_idx ?f + length bs) mod length (cb_buffer ?f) < length (cb_buffer ?f)" using ne by simp
  let ?d = "start_tx (d\<lparr>cd_tx_fifo := f'\<lparr>cb_count := length bs\<rparr>\<rparr>)"
  have "send_round bs d = Some ?d" using f' c by (simp add: send_round_def)
  moreover have "tx_busy ?d \<and> tx_pending ?d = bs \<and> cd_line ?d = cd_line d \<and> capacity (cd_tx_fifo ?d) = capacity ?f \<and> cb_count (cd_tx_fifo ?d) = length bs"
    using ok f' assms(3) c wl
    by (auto simp: start_tx_def Let_def tx_busy_def tx_ok_def tx_pending_def gd32_dma_start_def capacity_def min_def)
  ultimately show ?thesis by blast
qed

lemma send_desc_idle:
  assumes "tx_idle d" and "bs \<noteq> []"
  defines "n \<equiv> min (length bs) (capacity (cd_tx_fifo d))"
  shows "\<exists>d'. send_desc bs d = Some (int n, d') \<and> tx_busy d' \<and> tx_pending d' = take n bs \<and> cd_line d' = cd_line d"
proof -
  have cap: "0 < capacity (cd_tx_fifo d)" "cb_count (cd_tx_fifo d) = 0" using assms(1) by (auto simp: tx_idle_def tx_ok_def)
  have "take n bs \<noteq> []" "length (take n bs) = n" "n \<le> capacity (cd_tx_fifo d)" using assms(2) cap by (auto simp: n_def)
  then obtain d' where d': "send_round (take n bs) d = Some d'" "tx_busy d'" "tx_pending d' = take n bs" "cd_line d' = cd_line d"
    "capacity (cd_tx_fifo d') = capacity (cd_tx_fifo d)" "cb_count (cd_tx_fifo d') = n"
    using send_round_idle [OF assms(1), of "take n bs"] by metis
  have "send_desc (drop n bs) d' = Some (0, d')"
    using d'(5,6) by (subst send_desc.simps) (auto simp: Let_def n_def min_def split: if_splits)
  then have "send_desc bs d = Some (int n, d')"
    using d'(1) assms(2) cap by (subst send_desc.simps) (simp add: Let_def n_def [symmetric])
  then show ?thesis using d' by blast
qed

text \<open>A small port: rings of four bytes, both at their last position.\<close>

definition sample_port :: com_desc where
  "sample_port = \<lparr>cd_mode = 52,
     cd_tx_fifo = \<lparr>cb_buffer = [0, 0, 0, 0], cb_write_idx = 3, cb_read_idx = 3, cb_count = 0\<rparr>,
     cd_tx_dma = \<lparr>dx_addr = 0, dx_number = 0, dx_total_cnt = 0, dx_enabled = False, dx_flag = False, dx_irq = False\<rparr>,
     cd_rx_fifo = \<lparr>cb_buffer = [0, 0, 0, 0], cb_write_idx = 3, cb_read_idx = 3, cb_count = 0\<rparr>,
     cd_rx_dma = \<lparr>dx_addr = 0, dx_number = 1, dx_total_cnt = 4, dx_enabled = True, dx_flag = False, dx_irq = True\<rparr>,
     cd_rx_len = 0, cd_dma_cfg = 3, cd_tcie = False, cd_idleie = True, cd_rbneie = False, cd_tbeie = False, cd_re = False, cd_de = True, cd_line = []\<rparr>"

text \<open>The same port while it sends two bytes of four.\<close>

definition sample_busy :: com_desc where
  "sample_busy = sample_port\<lparr>
     cd_tx_fifo := \<lparr>cb_buffer = [1, 2, 0, 0], cb_write_idx = 2, cb_read_idx = 0, cb_count = 2\<rparr>,
     cd_tx_dma := \<lparr>dx_addr = 0, dx_number = 2, dx_total_cnt = 2, dx_enabled = True, dx_flag = False, dx_irq = True\<rparr>\<rparr>"

lemmas sample_defs = sample_port_def sample_busy_def capacity_def COM_SEND_DMA_def COM_RECV_DMA_def

text \<open>C27: Data sent over an idle port with DMA reaches the line: after as many steps of the transmitter as bytes the line has got exactly the
  data, however it wraps in the ring, and the port is idle again. Data behind the size of the ring is dropped and the
  return value says so.\<close>

theorem com_send_reaches_line:
  assumes "tx_idle d" and "bs \<noteq> []" and "n = min (length bs) (capacity (cd_tx_fifo d))"
  shows "\<exists>d'. com_send 0 bs (int (length bs)) [d] = Some (int n, [d'])
    \<and> tx_idle ((tx_step ^^ n) d') \<and> cd_line ((tx_step ^^ n) d') = cd_line d @ take n bs"
proof -
  obtain d' where d': "send_desc bs d = Some (int n, d')" "tx_busy d'" "tx_pending d' = take n bs" "cd_line d' = cd_line d"
    using send_desc_idle [OF assms(1,2)] assms(3) by auto
  have "length (tx_pending d') = n" using d'(3) assms(3) by simp
  then show ?thesis using d' tx_drains [OF d'(2)] by (auto simp: com_send_def on_port_def COM_CNT_def)
qed

theorem com_send_reaches_line_witness:
  "\<exists>d'. com_send 0 [1, 2, 3, 4, 5] 5 [sample_port] = Some (4, [d']) \<and> cd_line ((tx_step ^^ 4) d') = [1, 2, 3, 4]"
proof -
  have i: "tx_idle sample_port" by (simp add: tx_idle_def tx_ok_def sample_defs)
  have n: "4 = min (length [1, 2, 3, 4, 5 :: u8]) (capacity (cd_tx_fifo sample_port))" by (simp add: sample_defs)
  have l: "cd_line sample_port = []" "int (length [1, 2, 3, 4, 5 :: u8]) = 5" "take 4 [1, 2, 3, 4, 5 :: u8] = [1, 2, 3, 4]"
    by (simp_all add: sample_defs)
  show ?thesis using com_send_reaches_line [OF i _ n, unfolded l] by (metis append_Nil list.discI of_nat_numeral)
qed

subsection \<open>Reception\<close>

fun rx_bytes :: "buf \<Rightarrow> 'e com_desc_scheme \<Rightarrow> 'e com_desc_scheme option" where
  "rx_bytes [] d = Some d"
| "rx_bytes (b # bs) d = do { d \<leftarrow> rx_hw b d; rx_bytes bs d }"

text \<open>The receiver runs through the whole ring. Its position is where the next byte goes.\<close>

definition rx_ok :: "'e com_desc_scheme \<Rightarrow> bool" where
  "rx_ok d \<longleftrightarrow> (let f = cd_rx_fifo d; x = cd_rx_dma d in
     0 < capacity f \<and> capacity f < 65536 \<and> cd_dma_cfg d AND COM_RECV_DMA \<noteq> 0 \<and> cd_idleie d
     \<and> dx_enabled x \<and> dx_addr x = 0 \<and> dx_total_cnt x = capacity f \<and> 1 \<le> dx_number x \<and> dx_number x \<le> capacity f)"

definition rx_pos :: "'e com_desc_scheme \<Rightarrow> nat" where
  "rx_pos d = capacity (cd_rx_fifo d) - dx_number (cd_rx_dma d)"

text \<open>Everything that was received has been read.\<close>

definition rx_clear :: "'e com_desc_scheme \<Rightarrow> bool" where
  "rx_clear d \<longleftrightarrow> rx_ok d \<and> cb_read_idx (cd_rx_fifo d) = rx_pos d \<and> \<not> cd_rbneie d \<and> \<not> cd_tbeie d"

definition idle_flags :: uart_flags where
  "idle_flags = \<lparr>uf_tc = False, uf_idle = True, uf_rx = None, uf_tbe = False\<rparr>"

lemma rx_pos_less: "rx_ok d \<Longrightarrow> rx_pos d < capacity (cd_rx_fifo d)"
  by (auto simp: rx_ok_def rx_pos_def Let_def)

lemma rx_hw_step:
  assumes "rx_ok d"
  shows "\<exists>n. rx_hw b d = Some (d\<lparr>cd_rx_fifo := (cd_rx_fifo d)\<lparr>cb_buffer := (cb_buffer (cd_rx_fifo d))[rx_pos d := b]\<rparr>,
      cd_rx_dma := (cd_rx_dma d)\<lparr>dx_number := n\<rparr>\<rparr>)
    \<and> 1 \<le> n \<and> n \<le> capacity (cd_rx_fifo d) \<and> capacity (cd_rx_fifo d) - n = Suc (rx_pos d) mod capacity (cd_rx_fifo d)"
  using assms by (auto simp: rx_hw_def rx_ok_def rx_pos_def Let_def mod_if)

lemma rx_bytes_ring:
  assumes "rx_ok d" and "n + length bs \<le> capacity (cd_rx_fifo d)" and "rx_pos d = (h + n) mod capacity (cd_rx_fifo d)"
  shows "\<exists>d' a m. rx_bytes bs d = Some d' \<and> d' = d\<lparr>cd_rx_fifo := (cd_rx_fifo d)\<lparr>cb_buffer := a\<rparr>, cd_rx_dma := (cd_rx_dma d)\<lparr>dx_number := m\<rparr>\<rparr>
    \<and> rx_ok d' \<and> length a = capacity (cd_rx_fifo d) \<and> rx_pos d' = (h + n + length bs) mod capacity (cd_rx_fifo d)
    \<and> ring_list a h (n + length bs) = ring_list (cb_buffer (cd_rx_fifo d)) h n @ bs"
  using assms
proof (induction bs arbitrary: d n)
  case Nil
  then show ?case
    by (intro exI [of _ d] exI [of _ "cb_buffer (cd_rx_fifo d)"] exI [of _ "dx_number (cd_rx_dma d)"]) (simp add: capacity_def)
next
  case (Cons b bs)
  let ?f = "cd_rx_fifo d"
  obtain k where k: "rx_hw b d = Some (d\<lparr>cd_rx_fifo := ?f\<lparr>cb_buffer := (cb_buffer ?f)[rx_pos d := b]\<rparr>, cd_rx_dma := (cd_rx_dma d)\<lparr>dx_number := k\<rparr>\<rparr>)"
    "1 \<le> k" "k \<le> capacity ?f" "capacity ?f - k = Suc (rx_pos d) mod capacity ?f" using rx_hw_step [OF Cons.prems(1)] by blast
  let ?d = "d\<lparr>cd_rx_fifo := ?f\<lparr>cb_buffer := (cb_buffer ?f)[rx_pos d := b]\<rparr>, cd_rx_dma := (cd_rx_dma d)\<lparr>dx_number := k\<rparr>\<rparr>"
  have c: "capacity (cd_rx_fifo ?d) = capacity ?f" by (simp add: capacity_def)
  have ok: "rx_ok ?d" using Cons.prems(1) k c by (simp add: rx_ok_def Let_def)
  have pos: "rx_pos ?d = (h + Suc n) mod capacity (cd_rx_fifo ?d)"
    using k(4) c Cons.prems(3) by (simp add: rx_pos_def mod_Suc_eq)
  have ring: "ring_list ((cb_buffer ?f)[rx_pos d := b]) h (Suc n) = ring_list (cb_buffer ?f) h n @ [b]"
    by (rule ring_push) (use Cons.prems in \<open>auto simp: capacity_def\<close>)
  have len: "Suc n + length bs \<le> capacity (cd_rx_fifo ?d)" using Cons.prems(2) c by simp
  show ?case using Cons.IH [OF ok len pos] k(1) ring c by (fastforce simp: capacity_def)
qed

lemma recv_loop_ring:
  "cb_read_idx f < capacity f \<Longrightarrow> recv_loop n f = Some (ring_list (cb_buffer f) (cb_read_idx f) n,
     f\<lparr>cb_read_idx := (cb_read_idx f + n) mod capacity f\<rparr>)"
proof (induction n arbitrary: f)
  case (Suc n)
  let ?f = "f\<lparr>cb_read_idx := Suc (cb_read_idx f) mod capacity f\<rparr>"
  have c: "capacity ?f = capacity f" by (simp add: capacity_def)
  have "cb_read_idx ?f < capacity ?f" using Suc.prems c by simp
  moreover have "ring_list (cb_buffer f) (cb_read_idx f) (Suc n)
      = cb_buffer f ! cb_read_idx f # ring_list (cb_buffer f) (Suc (cb_read_idx f) mod capacity f) n"
    using ring_pop [of "cb_read_idx f" "cb_buffer f" n] ring_next_mod [of "cb_read_idx f" "capacity f"] Suc.prems by (simp add: capacity_def)
  moreover have "(Suc (cb_read_idx f) mod capacity f + n) mod capacity f = (cb_read_idx f + Suc n) mod capacity f"
    by (simp add: mod_add_left_eq)
  ultimately show ?case using Suc.IH [of ?f] Suc.prems c by simp
qed simp

lemma idle_count:
  assumes "h < c" and "n < c" and "c < 65536"
  shows "nat (((int c + int ((h + n) mod c) - int h) smod int c) mod 65536) = n"
proof -
  have "(int c + int ((h + n) mod c) - int h) smod int c = int n"
  proof (cases "h + n < c")
    case False
    then have "(h + n) mod c = h + n - c" using assms by (simp add: mod_if)
    then show ?thesis using False assms by (simp add: smod_int_alt_def)
  qed (use assms in \<open>simp add: smod_int_alt_def\<close>)
  then show ?thesis using assms by simp
qed

text \<open>The idle interrupt after a burst of bytes: what was received is in the ring, and the callback is called with its length.\<close>

lemma idle_irq:
  assumes "rx_clear d" and "length bs < capacity (cd_rx_fifo d)"
  shows "\<exists>d1 d2. rx_bytes bs d = Some d1 \<and> on_irq_all cb idle_flags d1 = Some (rx_callback cb d2)
    \<and> rx_ok d2 \<and> \<not> cd_rbneie d2 \<and> \<not> cd_tbeie d2 \<and> cd_rx_len d2 = length bs \<and> cb_count (cd_rx_fifo d2) = length bs
    \<and> cb_read_idx (cd_rx_fifo d2) = rx_pos d \<and> capacity (cd_rx_fifo d2) = capacity (cd_rx_fifo d)
    \<and> rx_pos d2 = (rx_pos d + length bs) mod capacity (cd_rx_fifo d)
    \<and> ring_list (cb_buffer (cd_rx_fifo d2)) (rx_pos d) (length bs) = bs \<and> tx_side d2 = tx_side d"
proof -
  let ?f = "cd_rx_fifo d"
  have ok: "rx_ok d" "cb_read_idx ?f = rx_pos d" "\<not> cd_rbneie d" "\<not> cd_tbeie d" using assms(1) by (auto simp: rx_clear_def)
  have p: "rx_pos d < capacity ?f" using rx_pos_less [OF ok(1)] .
  have "rx_pos d = (rx_pos d + 0) mod capacity ?f" using p by simp
  then obtain d1 a m where r: "rx_bytes bs d = Some d1"
    "d1 = d\<lparr>cd_rx_fifo := ?f\<lparr>cb_buffer := a\<rparr>, cd_rx_dma := (cd_rx_dma d)\<lparr>dx_number := m\<rparr>\<rparr>" "rx_ok d1" "length a = capacity ?f"
    "rx_pos d1 = (rx_pos d + length bs) mod capacity ?f" "ring_list a (rx_pos d) (length bs) = bs"
    using rx_bytes_ring [OF ok(1), of 0 bs "rx_pos d"] assms(2) by auto
  have c: "capacity (cd_rx_fifo d1) = capacity ?f" using r(2,4) by (simp add: capacity_def)
  have d1: "cb_read_idx (cd_rx_fifo d1) = rx_pos d" "cd_idleie d1" "cd_dma_cfg d1 AND COM_RECV_DMA \<noteq> 0"
    using r(2,3) ok(2) by (simp_all add: rx_ok_def Let_def)
  have cap: "capacity ?f < 65536" using ok(1) by (simp add: rx_ok_def Let_def)
  have cnt: "nat (((int (capacity (cd_rx_fifo d1)) + int (rx_pos d1) - int (cb_read_idx (cd_rx_fifo d1))) smod int (capacity (cd_rx_fifo d1))) mod 65536)
      = length bs" using idle_count [OF p assms(2) cap] r(5) c d1(1) by simp
  let ?d2 = "d1\<lparr>cd_rx_fifo := (cd_rx_fifo d1)\<lparr>cb_write_idx := rx_pos d1, cb_count := length bs\<rparr>, cd_rx_len := length bs\<rparr>"
  have i: "irq_idle cb idle_flags d1 = rx_callback cb ?d2"
    using d1(2,3) cnt by (simp add: irq_idle_def idle_flags_def Let_def rx_pos_def [symmetric])
  have "irq_tc idle_flags d1 = d1" by (simp add: irq_tc_def idle_flags_def)
  moreover have "irq_rx cb idle_flags e = Some e" "irq_tbe idle_flags e = Some e" for e
    by (simp_all add: irq_rx_def irq_tbe_def idle_flags_def)
  ultimately have "on_irq_all cb idle_flags d1 = Some (rx_callback cb ?d2)" using i by (simp add: on_irq_all_def)
  moreover have "rx_ok ?d2" "rx_pos ?d2 = (rx_pos d + length bs) mod capacity ?f"
    using r(3,5) by (simp_all add: rx_ok_def rx_pos_def Let_def capacity_def)
  ultimately show ?thesis using r ok c by (intro exI [of _ d1] exI [of _ ?d2]) (simp add: capacity_def tx_side_def)
qed

lemma recv_desc_ring:
  assumes "rx_ok d" and "\<not> cd_rbneie d" and "\<not> cd_tbeie d" and "cb_read_idx (cd_rx_fifo d) < capacity (cd_rx_fifo d)"
    and "cd_rx_len d = n" and "cb_count (cd_rx_fifo d) = n" and "0 < n" and "n < capacity (cd_rx_fifo d)" and "n \<le> length buff"
    and "rx_pos d = (cb_read_idx (cd_rx_fifo d) + n) mod capacity (cd_rx_fifo d)"
  shows "\<exists>d'. recv_desc buff sz d = Some ((int n, overwrite buff 0 (ring_list (cb_buffer (cd_rx_fifo d)) (cb_read_idx (cd_rx_fifo d)) n)), d') \<and> rx_clear d'
    \<and> cd_rx_len d' = 0 \<and> tx_side d' = tx_side d \<and> capacity (cd_rx_fifo d') = capacity (cd_rx_fifo d)"
proof -
  let ?f = "cd_rx_fifo d"
  let ?d = "d\<lparr>cd_rx_fifo := ?f\<lparr>cb_read_idx := (cb_read_idx ?f + n) mod capacity ?f, cb_count := 0\<rparr>, cd_rx_len := 0\<rparr>"
  have "recv_desc buff sz d = Some ((int n, overwrite buff 0 (ring_list (cb_buffer ?f) (cb_read_idx ?f) n)), ?d)"
    using assms(5-9) recv_loop_ring [OF assms(4), of n] by (simp add: recv_desc_def Let_def)
  moreover have "rx_clear ?d" using assms by (simp add: rx_clear_def rx_ok_def rx_pos_def Let_def capacity_def)
  ultimately show ?thesis by (auto simp: tx_side_def capacity_def)
qed

text \<open>Whatever was read before, a block of bytes that is shorter than the ring and arrives through the circular receive channel is
  announced by the idle interrupt with its length, and \<open>com_recv\<close> returns exactly these bytes in order and leaves the
  port ready for the next block.\<close>

theorem com_recv_returns_block:
  assumes "rx_clear d" and "bs \<noteq> []" and "length bs < capacity (cd_rx_fifo d)" and "length bs \<le> length buff"
  shows "\<exists>d1 d2 d3. rx_bytes bs d = Some d1 \<and> on_irq_all None idle_flags d1 = Some d2 \<and> cd_rx_len d2 = length bs
    \<and> com_recv 0 buff sz [d2] = Some ((int (length bs), overwrite buff 0 bs), [d3]) \<and> rx_clear d3"
proof -
  obtain d1 d2 where d: "rx_bytes bs d = Some d1" "on_irq_all None idle_flags d1 = Some d2" "rx_ok d2" "\<not> cd_rbneie d2" "\<not> cd_tbeie d2"
    "cd_rx_len d2 = length bs" "cb_count (cd_rx_fifo d2) = length bs" "cb_read_idx (cd_rx_fifo d2) = rx_pos d"
    "capacity (cd_rx_fifo d2) = capacity (cd_rx_fifo d)" "rx_pos d2 = (rx_pos d + length bs) mod capacity (cd_rx_fifo d)"
    "ring_list (cb_buffer (cd_rx_fifo d2)) (rx_pos d) (length bs) = bs"
    using idle_irq [OF assms(1,3), of None] by (auto simp: rx_callback_def)
  have p: "rx_pos d < capacity (cd_rx_fifo d)" using assms(1) rx_pos_less [of d] by (simp add: rx_clear_def)
  obtain d3 where "recv_desc buff sz d2 = Some ((int (length bs), overwrite buff 0 bs), d3)" "rx_clear d3"
    using recv_desc_ring [of d2 "length bs" buff sz] d p assms(2-4) by auto
  then show ?thesis using d by (auto simp: com_recv_def on_port_def COM_CNT_def)
qed

theorem com_recv_returns_block_witness:
  "\<exists>d1 d2 d3. rx_bytes [7, 8] sample_port = Some d1 \<and> on_irq_all None idle_flags d1 = Some d2
    \<and> com_recv 0 [0, 0, 0] 3 [d2] = Some ((2, [7, 8, 0]), [d3]) \<and> rx_clear d3"
proof -
  have "rx_clear sample_port" by (simp add: rx_clear_def rx_ok_def rx_pos_def sample_defs)
  then show ?thesis
    using com_recv_returns_block [of sample_port "[7, 8]" "[0, 0, 0]" 3] by (fastforce simp: sample_defs overwrite_def)
qed

subsection \<open>Two defects\<close>

lemma ring_list_take: "k \<le> n \<Longrightarrow> take k (ring_list a h n) = ring_list a h k"
  by (simp add: ring_list_def take_map)

lemma send_round_busy:
  assumes "tx_busy d" and "bs \<noteq> []" and "cb_count (cd_tx_fifo d) + length bs \<le> capacity (cd_tx_fifo d)"
  shows "\<exists>d' stale. send_round bs d = Some d' \<and> tx_busy d' \<and> tx_pending d' = bs @ stale \<and> length stale = cb_count (cd_tx_fifo d)
    \<and> cd_line d' = cd_line d"
proof -
  let ?f = "cd_tx_fifo d" and ?n = "cb_count (cd_tx_fifo d) + length bs"
  have ok: "tx_ok d" "cb_write_idx ?f < capacity ?f" "capacity ?f < 65536" using assms(1) by (auto simp: tx_busy_def tx_ok_def Let_def)
  have ne: "cb_buffer ?f \<noteq> []" using ok(2) by (auto simp: capacity_def)
  obtain f' where f': "put_loop bs (?f\<lparr>cb_read_idx := cb_write_idx ?f\<rparr>) = Some f'" "capacity f' = capacity ?f"
    "cb_read_idx f' = cb_write_idx ?f" "cb_count f' = cb_count ?f" "cb_write_idx f' = (cb_write_idx ?f + length bs) mod capacity ?f"
    "ring_list (cb_buffer f') (cb_write_idx ?f) (length bs) = bs"
    using put_loop_ring [of 0 bs "?f\<lparr>cb_read_idx := cb_write_idx ?f\<rparr>" "cb_write_idx ?f"] ok assms(3) ne by (auto simp: capacity_def)
  have c: "?n mod 65536 = ?n" "0 < ?n" using assms(2,3) ok(3) by simp_all
  have wl: "(cb_write_idx ?f + length bs) mod length (cb_buffer ?f) < length (cb_buffer ?f)" using ne by simp
  let ?d = "start_tx (d\<lparr>cd_tx_fifo := f'\<lparr>cb_count := ?n\<rparr>\<rparr>)"
  have "send_round bs d = Some ?d" using f' c by (simp add: send_round_def)
  moreover have "tx_busy ?d" "tx_pending ?d = ring_list (cb_buffer f') (cb_write_idx ?f) ?n" "cd_line ?d = cd_line d"
    using ok f' assms(3) c wl
    by (auto simp: start_tx_def Let_def tx_busy_def tx_ok_def tx_pending_def gd32_dma_start_def capacity_def min_def)
  moreover have "ring_list (cb_buffer f') (cb_write_idx ?f) ?n = bs @ drop (length bs) (ring_list (cb_buffer f') (cb_write_idx ?f) ?n)"
    using append_take_drop_id [of "length bs" "ring_list (cb_buffer f') (cb_write_idx ?f) ?n"]
    by (simp add: ring_list_take f'(6))
  ultimately show ?thesis
    by (intro exI [of _ ?d] exI [of _ "drop (length bs) (ring_list (cb_buffer f') (cb_write_idx ?f) ?n)"]) simp
qed

text \<open>Data sent while a transmission is under way takes the place of what is still to be sent: the read index is moved to the new
  data, so that the line gets the new data and then as many stale bytes of the ring as were in it, and the rest of the
  data sent first is lost.\<close>

theorem com_send_while_busy_loses_data:
  assumes "tx_busy d" and "bs \<noteq> []" and "cb_count (cd_tx_fifo d) + length bs \<le> capacity (cd_tx_fifo d)"
    and "k = length bs + cb_count (cd_tx_fifo d)"
  shows "\<exists>d' stale. com_send 0 bs (int (length bs)) [d] = Some (int (length bs), [d']) \<and> length stale = cb_count (cd_tx_fifo d)
    \<and> tx_idle ((tx_step ^^ k) d') \<and> cd_line ((tx_step ^^ k) d') = cd_line d @ bs @ stale"
proof -
  obtain d' stale where d': "send_round bs d = Some d'" "tx_busy d'" "tx_pending d' = bs @ stale" "length stale = cb_count (cd_tx_fifo d)"
    "cd_line d' = cd_line d" using send_round_busy [OF assms(1-3)] by blast
  have "send_desc [] d' = Some (0, d')" by (subst send_desc.simps) (simp add: Let_def)
  moreover have "min (length bs) (capacity (cd_tx_fifo d) - cb_count (cd_tx_fifo d)) = length bs"
    "capacity (cd_tx_fifo d) - cb_count (cd_tx_fifo d) \<noteq> 0" using assms(2,3) by (cases bs; simp)+
  ultimately have "send_desc bs d = Some (int (length bs), d')"
    using d'(1) assms(2) by (subst send_desc.simps) (simp add: Let_def)
  moreover have "length (tx_pending d') = k" using d'(3,4) assms(4) by simp
  ultimately show ?thesis using d' tx_drains [OF d'(2)] by (auto simp: com_send_def on_port_def COM_CNT_def)
qed

theorem com_send_while_busy_loses_data_witness:
  "\<exists>d' stale. com_send 0 [9] 1 [sample_busy] = Some (1, [d']) \<and> length stale = 2 \<and> cd_line ((tx_step ^^ 3) d') = 9 # stale"
proof -
  have b: "tx_busy sample_busy" by (simp add: tx_busy_def tx_ok_def sample_defs Let_def)
  have n: "cb_count (cd_tx_fifo sample_busy) + length [9 :: u8] \<le> capacity (cd_tx_fifo sample_busy)"
    "3 = length [9 :: u8] + cb_count (cd_tx_fifo sample_busy)" by (simp_all add: sample_defs)
  have l: "cd_line sample_busy = []" "cb_count (cd_tx_fifo sample_busy) = 2" "int (length [9 :: u8]) = 1" by (simp_all add: sample_defs)
  show ?thesis using com_send_while_busy_loses_data [OF b _ n, unfolded l] by (metis append_Cons append_Nil list.discI)
qed

text \<open>The callback that drops blocks of an unwanted length.\<close>

definition filter_callback :: "int \<Rightarrow> int \<Rightarrow> 'e com_desc_scheme \<Rightarrow> 'e com_desc_scheme" where
  "filter_callback mn mx d = snd (filter_recv mn mx d)"

text \<open>A single byte that the filter drops when the read index is at the last position of the ring leaves the read index behind the
  array, which is not wrapped, so that reading the next block reads outside of the array.\<close>

theorem dropped_byte_leaves_ring:
  assumes "rx_clear d" and "rx_pos d = capacity (cd_rx_fifo d) - 1" and "2 \<le> capacity (cd_rx_fifo d)" and "cb = filter_callback 2 1056"
  shows "\<exists>d1 d2. rx_bytes [b] d = Some d1 \<and> on_irq_all (Some cb) idle_flags d1 = Some d2
    \<and> cb_read_idx (cd_rx_fifo d2) = capacity (cd_rx_fifo d2) \<and> cd_rx_len d2 = 0
    \<and> (\<forall>n > 0. com_recv 0 buff sz [d2\<lparr>cd_rx_fifo := (cd_rx_fifo d2)\<lparr>cb_count := n\<rparr>, cd_rx_len := n\<rparr>] = None)"
proof -
  obtain d1 d2 where d: "rx_bytes [b] d = Some d1" "on_irq_all (Some cb) idle_flags d1 = Some (rx_callback (Some cb) d2)" "rx_ok d2"
    "cd_rx_len d2 = 1" "cb_count (cd_rx_fifo d2) = 1" "cb_read_idx (cd_rx_fifo d2) = rx_pos d" "capacity (cd_rx_fifo d2) = capacity (cd_rx_fifo d)"
    using idle_irq [OF assms(1), of "[b]" "Some cb"] assms(3) by auto
  let ?e = "rx_callback (Some cb) d2"
  have "capacity (cd_rx_fifo d) < 65536" using assms(1) by (simp add: rx_clear_def rx_ok_def Let_def)
  then have e: "cb_read_idx (cd_rx_fifo ?e) = capacity (cd_rx_fifo ?e)" "cd_rx_len ?e = 0"
    using d(4-7) assms(2-4) by (simp_all add: rx_callback_def filter_callback_def filter_recv_def capacity_def)
  have "recv_loop n f = None" if "0 < n" "\<not> cb_read_idx f < capacity f" for n and f :: circ_buffer
    using that by (cases n) simp_all
  then have "com_recv 0 buff sz [?e\<lparr>cd_rx_fifo := (cd_rx_fifo ?e)\<lparr>cb_count := n\<rparr>, cd_rx_len := n\<rparr>] = None" if "0 < n" for n
    using that e by (simp add: com_recv_def on_port_def COM_CNT_def recv_desc_def Let_def capacity_def)
  then show ?thesis using d(1,2) e by blast
qed

theorem dropped_byte_leaves_ring_witness:
  "\<exists>d1 d2. rx_bytes [7] sample_port = Some d1 \<and> on_irq_all (Some (filter_callback 2 1056)) idle_flags d1 = Some d2
    \<and> cb_read_idx (cd_rx_fifo d2) = capacity (cd_rx_fifo d2)
    \<and> com_recv 0 [0, 0, 0] 3 [d2\<lparr>cd_rx_fifo := (cd_rx_fifo d2)\<lparr>cb_count := 2\<rparr>, cd_rx_len := 2\<rparr>] = None"
proof -
  have "rx_clear sample_port" by (simp add: rx_clear_def rx_ok_def rx_pos_def sample_defs)
  then show ?thesis
    using dropped_byte_leaves_ring [of sample_port "filter_callback 2 1056" 7 "[0, 0, 0]" 3] by (fastforce simp: sample_defs rx_pos_def)
qed

subsection \<open>The initialised port\<close>

text \<open>The descriptor before its initialisation, as it is in zeroed memory.\<close>

definition zero_fifo :: circ_buffer where
  "zero_fifo = \<lparr>cb_buffer = [], cb_write_idx = 0, cb_read_idx = 0, cb_count = 0\<rparr>"

definition zero_dma :: dma_xfer where
  "zero_dma = \<lparr>dx_addr = 0, dx_number = 0, dx_total_cnt = 0, dx_enabled = False, dx_flag = False, dx_irq = False\<rparr>"

definition zero_desc :: com_desc where
  "zero_desc = \<lparr>cd_mode = 0, cd_tx_fifo = zero_fifo, cd_tx_dma = zero_dma, cd_rx_fifo = zero_fifo, cd_rx_dma = zero_dma, cd_rx_len = 0,
     cd_dma_cfg = 0, cd_tcie = False, cd_idleie = False, cd_rbneie = False, cd_tbeie = False, cd_re = False, cd_de = False, cd_line = []\<rparr>"

definition ready_port :: "'e com_desc_scheme \<Rightarrow> bool" where
  "ready_port d \<longleftrightarrow> tx_idle d \<and> rx_clear d \<and> capacity (cd_tx_fifo d) = COM2_TX_BUFF_SIZE \<and> capacity (cd_rx_fifo d) = COM2_RX_BUFF_SIZE"

lemma com_init_ready:
  assumes "cb_count (cd_tx_fifo d) = 0" and "\<not> cd_rbneie d" and "\<not> cd_tbeie d"
  shows "ready_port (enable_recv (com_init (COM_RECV_DMA OR COM_SEND_DMA) mode d))"
proof -
  define c where "c = com_init (COM_RECV_DMA OR COM_SEND_DMA) mode d"
  have f: "cd_dma_cfg c = 3" "cd_tx_fifo c = init_fifo COM2_TX_BUFF_SIZE (cd_tx_fifo d)" "cd_rx_fifo c = init_fifo COM2_RX_BUFF_SIZE (cd_rx_fifo d)"
    "cd_tx_dma c = dma_reset (cd_tx_dma d)" "cd_rx_dma c = dma_reset (cd_rx_dma d)" "cd_rbneie c = cd_rbneie d" "cd_tbeie c = cd_tbeie d"
    by (simp_all add: c_def com_init_def com_set_mode_def Let_def COM_RECV_DMA_def COM_SEND_DMA_def)
  show ?thesis unfolding c_def [symmetric]
    using assms by (simp add: ready_port_def enable_recv_def tx_idle_def tx_ok_def rx_clear_def rx_ok_def rx_pos_def Let_def f capacity_def init_fifo_def
      dma_reset_def gd32_dma_rx_def COM2_TX_BUFF_SIZE_def COM2_RX_BUFF_SIZE_def COM_RECV_DMA_def COM_SEND_DMA_def)
qed

end
