(* ===== verification/Comm.thy ===== *)
theory Comm
  imports Proto_Base Proto_Char Serial
begin

text \<open>
  The communication layer: groups and channels with \<open>proto_process\<close> of \<open>src/app/comm/comm_cfg.c\<close>, and the serial host port,
  \<open>src/app/comm/pc.c\<close>. It joins the serial ports to the two protocols.

  The array of a group is the list of its port numbers; the null pointer is the empty list. Whether an allocation
  succeeds is an argument. The mutex of the manager makes each operation one step. The receive interrupt
  posts the packet task to the agent of high priority; the descriptor counts these posts. Sending over
  TCP is an argument.
\<close>

subsection \<open>State\<close>

datatype send_func = Pc_send_wrapper | Tcp_server_send_wrapper

record comm_group =
  cg_name :: string
  cg_channels :: "int list"
  cg_send_func :: send_func

record comm_port =
  group_idx :: u8
  channel_idx :: u8

text \<open>The host port counts how often the packet task was posted.\<close>

record pc_desc = com_desc +
  pd_posts :: nat

record comm_state = upp_state +
  cs_groups :: "comm_group list"
  cs_coms :: "pc_desc list"
  cs_uart_group :: int
  cs_tcp_group :: int
  cs_src_group :: int
  cs_upgrading :: bool

subsection \<open>Groups and channels\<close>

definition comm_group_create :: "bool \<Rightarrow> string \<Rightarrow> send_func \<Rightarrow> comm_group list \<Rightarrow> int \<times> comm_group list" where
  "comm_group_create alloc name f gs =
     (if \<not> alloc then (- 1, gs) else (int (length gs), gs @ [\<lparr>cg_name = name, cg_channels = [], cg_send_func = f\<rparr>]))"

definition comm_channel_add :: "bool \<Rightarrow> int \<Rightarrow> int \<Rightarrow> comm_group list \<Rightarrow> (int \<times> comm_group list) option" where
  "comm_channel_add alloc g port_id gs =
     (if g \<ge> int (length gs) then Some (- 1, gs)
      else if g < 0 then None
      else if \<not> alloc then Some (- 1, gs)
      else Some (port_id, gs[nat g := (gs ! nat g)\<lparr>cg_channels := cg_channels (gs ! nat g) @ [port_id]\<rparr>]))"

text \<open>The search, and the removal by moving the following channels up; shrinking the array may fail without effect.\<close>

fun channel_index :: "int list \<Rightarrow> int \<Rightarrow> nat option" where
  "channel_index [] p = None"
| "channel_index (c # cs) p = (if c = p then Some 0 else map_option Suc (channel_index cs p))"

definition comm_channel_remove :: "int \<Rightarrow> int \<Rightarrow> comm_group list \<Rightarrow> (int \<times> comm_group list) option" where
  "comm_channel_remove g port_id gs =
     (if g \<ge> int (length gs) then Some (- 1, gs)
      else if g < 0 then None
      else let cs = cg_channels (gs ! nat g) in
        case channel_index cs port_id of
          None \<Rightarrow> Some (- 1, gs)
        | Some i \<Rightarrow> Some (0, gs[nat g := (gs ! nat g)\<lparr>cg_channels := take i cs @ drop (Suc i) cs\<rparr>]))"

fun group_find_loop :: "comm_group list \<Rightarrow> string \<Rightarrow> int \<Rightarrow> int" where
  "group_find_loop [] name i = - 1"
| "group_find_loop (g # gs) name i = (if cg_name g = name then i else group_find_loop gs name (i + 1))"

definition comm_group_find :: "comm_group list \<Rightarrow> string \<Rightarrow> int" where
  "comm_group_find gs name = group_find_loop gs name 0"

subsection \<open>Sending\<close>

definition pc_send :: "int \<Rightarrow> buf \<Rightarrow> int \<Rightarrow> 'e comm_state_scheme \<Rightarrow> 'e comm_state_scheme option" where
  "pc_send com dat len st = do { (_, ds) \<leftarrow> com_send com dat len (cs_coms st); Some (st\<lparr>cs_coms := ds\<rparr>) }"

definition pc_send_wrapper :: "int \<Rightarrow> buf \<Rightarrow> int \<Rightarrow> 'e comm_state_scheme \<Rightarrow> 'e comm_state_scheme option" where
  "pc_send_wrapper ch dat len st = (if len \<le> 0 then Some st else pc_send ch dat len st)"

type_synonym 'e tcp_send = "int \<Rightarrow> buf \<Rightarrow> int \<Rightarrow> 'e comm_state_scheme \<Rightarrow> 'e comm_state_scheme option"

definition tcp_server_send_wrapper :: "'e tcp_send \<Rightarrow> int \<Rightarrow> buf \<Rightarrow> int \<Rightarrow> 'e comm_state_scheme \<Rightarrow> 'e comm_state_scheme option" where
  "tcp_server_send_wrapper tcp ch dat len st = (if len \<le> 0 then Some st else tcp ch dat len st)"

definition call_send :: "'e tcp_send \<Rightarrow> send_func \<Rightarrow> int \<Rightarrow> buf \<Rightarrow> int \<Rightarrow> 'e comm_state_scheme \<Rightarrow> 'e comm_state_scheme option" where
  "call_send tcp f ch dat len st =
     (case f of Pc_send_wrapper \<Rightarrow> pc_send_wrapper ch dat len st | Tcp_server_send_wrapper \<Rightarrow> tcp_server_send_wrapper tcp ch dat len st)"

function chunk_loop :: "'e tcp_send \<Rightarrow> send_func \<Rightarrow> int \<Rightarrow> buf \<Rightarrow> int \<Rightarrow> 'e comm_state_scheme \<Rightarrow> 'e comm_state_scheme option" where
  "chunk_loop tcp f ch dat len st =
     (if len > 0 then
        let chunk = (if len > 1056 then 1056 else len)
        in do { st \<leftarrow> call_send tcp f ch dat chunk st; chunk_loop tcp f ch (drop (nat chunk) dat) (len - chunk) st }
      else Some st)"
  by pat_completeness auto
termination by (relation "measure (\<lambda>(tcp, f, ch, dat, len, st). nat len)") auto

declare chunk_loop.simps [simp del]

definition comm_send_chunk :: "'e tcp_send \<Rightarrow> int \<Rightarrow> int \<Rightarrow> buf \<Rightarrow> int \<Rightarrow> 'e comm_state_scheme \<Rightarrow> 'e comm_state_scheme option" where
  "comm_send_chunk tcp g ch dat len st =
     (if g \<ge> int (length (cs_groups st)) then Some st
      else if g < 0 then None
      else let grp = cs_groups st ! nat g in
        if cg_channels grp = [] \<or> channel_index (cg_channels grp) ch = None then Some st
        else chunk_loop tcp (cg_send_func grp) ch dat len st)"

subsection \<open>Processing a received block\<close>

text \<open>
  The handlers of the binary protocol and the callbacks of the character protocol are collected in a record; all of them work on
  the state of the device.
\<close>

record 'e proto_env =
  pe_handler :: "(comm_port, 'e comm_state_scheme) base_handler"
  pe_set :: "'e comm_state_ext callback"
  pe_get :: "'e comm_state_ext callback"
  pe_flt :: "cmd_item \<Rightarrow> buf \<Rightarrow> 'e comm_state_scheme \<Rightarrow> u8 + buf"
  pe_ftxt :: "fmt_type \<Rightarrow> buf \<Rightarrow> buf"
  pe_conv :: "'e comm_state_scheme \<Rightarrow> buf \<Rightarrow> buf"
  pe_tcp :: "'e tcp_send"

definition proto_answer ::
  "'e proto_env \<Rightarrow> buf \<Rightarrow> buf \<Rightarrow> int \<Rightarrow> int \<Rightarrow> comm_port \<Rightarrow> 'e comm_state_scheme \<Rightarrow> (buf \<times> int \<times> 'e comm_state_scheme) option" where
  "proto_answer env rx tx rx_len tx_len cp st =
     (case rx of [] \<Rightarrow> None
      | c # _ \<Rightarrow>
        if c = PROT_SOP \<and> rx_len \<ge> int head_size then base_pkt_process (pe_handler env) rx rx_len tx 0 tx_len cp st
        else if \<not> cs_upgrading st then do {
          (tx, tx_len, st) \<leftarrow> upp_pkt_process (Suc (nat rx_len)) (pe_set env) (pe_get env) (pe_flt env) (pe_ftxt env) (pe_conv env)
            rx rx_len tx 0 tx_len (st\<lparr>cs_src_group := uint (group_idx cp)\<rparr>);
          Some (tx, tx_len, st\<lparr>cs_src_group := - 1\<rparr>) }
        else Some (tx, tx_len, st))"

text \<open>\<open>sizeof(tx_buff)\<close> is the size of a pointer, so that only four bytes are cleared.\<close>

definition proto_process ::
  "'e proto_env \<Rightarrow> buf \<Rightarrow> buf \<Rightarrow> int \<Rightarrow> int \<Rightarrow> comm_port \<Rightarrow> 'e comm_state_scheme \<Rightarrow> (buf \<times> int \<times> 'e comm_state_scheme) option" where
  "proto_process env rx tx rx_len tx_len cp st = do {
     (tx, tx_len, st) \<leftarrow> proto_answer env rx tx rx_len tx_len cp st;
     if tx_len > 0 then do {
       st \<leftarrow> (if uint (group_idx cp) = cs_uart_group st
              then comm_send_chunk (pe_tcp env) (uint (group_idx cp)) (uint (channel_idx cp)) tx tx_len st
              else if uint (group_idx cp) = cs_tcp_group st then pe_tcp env (uint (channel_idx cp)) tx tx_len st
              else Some st);
       if length tx < 4 then None else Some (overwrite tx 0 [0, 0, 0, 0], 0, st) }
     else Some (tx, tx_len, st) }"

subsection \<open>The serial host port\<close>

definition PC_COM :: int where "PC_COM = 0"
definition PC_MIN_LEN :: int where "PC_MIN_LEN = 2"
definition PC_MAX_LEN :: int where "PC_MAX_LEN = 1056"

definition pc_on_rx_data :: "pc_desc \<Rightarrow> pc_desc" where
  "pc_on_rx_data d = (let (r, d) = filter_recv PC_MIN_LEN PC_MAX_LEN d in if r = 0 then d\<lparr>pd_posts := Suc (pd_posts d)\<rparr> else d)"

definition pc_port :: comm_port where "pc_port = \<lparr>group_idx = 0, channel_idx = 0\<rparr>"

text \<open>The baud rate is set to a valid one; the port is initialised with DMA in both directions and enabled.\<close>

definition pc_init :: "int \<Rightarrow> u32 \<Rightarrow> pc_desc \<Rightarrow> int \<times> pc_desc" where
  "pc_init baudrate mode d =
     (if is_valid_baudrate baudrate then baudrate else 115200, enable_recv (com_init (COM_RECV_DMA OR COM_SEND_DMA) mode d))"

text \<open>The packet task takes and returns the two packet buffers.\<close>

definition pc_rx_packet_task ::
  "'e proto_env \<Rightarrow> buf \<Rightarrow> buf \<Rightarrow> 'e comm_state_scheme \<Rightarrow> (buf \<times> buf \<times> 'e comm_state_scheme) option" where
  "pc_rx_packet_task env rx tx st = do {
     ((rx_len, rx), ds) \<leftarrow> com_recv (uint (channel_idx pc_port)) rx 1056 (cs_coms st);
     let st = st\<lparr>cs_coms := ds\<rparr>;
     if rx_len \<le> 1 \<or> rx_len > 1056 then Some (rx, tx, st)
     else do {
       (tx, tx_len, st) \<leftarrow> proto_process env rx tx rx_len 0 pc_port st;
       Some (replicate (length rx) 0, tx, st) } }"

definition comm_init :: "bool \<Rightarrow> bool \<Rightarrow> bool \<Rightarrow> bool \<Rightarrow> int \<Rightarrow> u32 \<Rightarrow> 'e comm_state_scheme \<Rightarrow> 'e comm_state_scheme option" where
  "comm_init mutex a1 a2 a3 baudrate mode st =
     (case cs_coms st of [] \<Rightarrow> None | d # ds \<Rightarrow>
        let st = st\<lparr>cs_groups := [], cs_coms := snd (pc_init baudrate mode d) # ds\<rparr> in
        if \<not> mutex then Some st
        else do {
          let (u, gs) = comm_group_create a1 ''UART'' Pc_send_wrapper (cs_groups st);
          (_, gs) \<leftarrow> comm_channel_add a2 u PC_COM gs;
          let (t, gs) = comm_group_create a3 ''TCP'' Tcp_server_send_wrapper gs;
          Some (st\<lparr>cs_groups := gs, cs_uart_group := u, cs_tcp_group := t\<rparr>) })"

subsection \<open>From the line to the line\<close>

lemma rx_clear_side: "rx_side d' = rx_side d \<Longrightarrow> rx_clear d' = rx_clear d \<and> capacity (cd_rx_fifo d') = capacity (cd_rx_fifo d)"
  by (simp add: rx_side_def rx_clear_def rx_ok_def rx_pos_def Let_def)

text \<open>What the transmitter does with data given to a ready port.\<close>

lemma ready_port_sends:
  assumes "ready_port d" and "0 < n" and "n \<le> COM2_TX_BUFF_SIZE" and "n \<le> length tx"
  shows "\<exists>d'. com_send 0 tx (int n) [d] = Some (int n, [d']) \<and> ready_port ((tx_step ^^ n) d')
    \<and> cd_line ((tx_step ^^ n) d') = cd_line d @ take n tx"
proof -
  have i: "tx_idle d" "rx_clear d" "capacity (cd_tx_fifo d) = COM2_TX_BUFF_SIZE" "capacity (cd_rx_fifo d) = COM2_RX_BUFF_SIZE"
    using assms(1) by (simp_all add: ready_port_def)
  have t: "take n tx \<noteq> []" "min (length (take n tx)) (capacity (cd_tx_fifo d)) = n" using assms(2-4) i(3) by auto
  obtain d' where d': "send_desc (take n tx) d = Some (int n, d')" "tx_busy d'" "tx_pending d' = take n tx" "cd_line d' = cd_line d"
    using send_desc_idle [OF i(1) t(1)] t(2) by auto
  have c: "cd_dma_cfg d AND COM_SEND_DMA \<noteq> 0" using i(1) by (simp add: tx_idle_def tx_ok_def)
  have l: "length (tx_pending d') = n" using d'(3) assms(4) by simp
  have "rx_side ((tx_step ^^ n) d') = rx_side d" "capacity (cd_tx_fifo ((tx_step ^^ n) d')) = capacity (cd_tx_fifo d)"
    using send_desc_side [OF c d'(1)] tx_steps_side [of n d'] by simp_all
  then have "ready_port ((tx_step ^^ n) d')"
    using tx_drains [OF d'(2), unfolded l] rx_clear_side [of "(tx_step ^^ n) d'" d] i by (simp add: ready_port_def)
  moreover have "com_send 0 tx (int n) [d] = Some (int n, [d'])"
    using d'(1) assms(4) by (simp add: com_send_def on_port_def COM_CNT_def)
  ultimately show ?thesis using tx_drains [OF d'(2), unfolded l] d'(3,4) by auto
qed

lemma pd_posts_more: "com_desc.more e = com_desc.more d \<Longrightarrow> pd_posts e = pd_posts d" for d e :: pc_desc
  by (cases e; cases d; simp)

text \<open>The interrupt posts the packet task once, and the packet task finds the block.\<close>

lemma ready_port_receives:
  fixes d :: pc_desc
  assumes "ready_port d" and "2 \<le> length bs" and "length bs < COM2_RX_BUFF_SIZE" and "length bs \<le> length rx"
  shows "\<exists>d1 d2 d3. rx_bytes bs d = Some d1 \<and> on_irq_all (Some pc_on_rx_data) idle_flags d1 = Some d2 \<and> pd_posts d2 = Suc (pd_posts d)
    \<and> com_recv 0 rx 1056 [d2] = Some ((int (length bs), overwrite rx 0 bs), [d3]) \<and> ready_port d3 \<and> cd_line d3 = cd_line d"
proof -
  have r: "tx_idle d" "rx_clear d" "capacity (cd_tx_fifo d) = COM2_TX_BUFF_SIZE" "capacity (cd_rx_fifo d) = COM2_RX_BUFF_SIZE"
    using assms(1) by (simp_all add: ready_port_def)
  obtain d1 e where d: "rx_bytes bs d = Some d1" "on_irq_all (Some pc_on_rx_data) idle_flags d1 = Some (rx_callback (Some pc_on_rx_data) e)"
    "rx_ok e" "\<not> cd_rbneie e" "\<not> cd_tbeie e" "cd_rx_len e = length bs" "cb_count (cd_rx_fifo e) = length bs" "cb_read_idx (cd_rx_fifo e) = rx_pos d"
    "capacity (cd_rx_fifo e) = COM2_RX_BUFF_SIZE" "rx_pos e = (rx_pos d + length bs) mod COM2_RX_BUFF_SIZE"
    "ring_list (cb_buffer (cd_rx_fifo e)) (rx_pos d) (length bs) = bs" "tx_side e = tx_side d"
    using idle_irq [OF r(2), of bs "Some pc_on_rx_data"] assms(3) r(4) by auto
  have p: "rx_pos d < COM2_RX_BUFF_SIZE" using r(2,4) rx_pos_less [of d] by (simp add: rx_clear_def)
  let ?e = "e\<lparr>pd_posts := Suc (pd_posts e)\<rparr>"
  have cb: "rx_callback (Some pc_on_rx_data) e = ?e"
    using d(6) assms(2,3) by (simp add: rx_callback_def pc_on_rx_data_def filter_recv_def PC_MIN_LEN_def PC_MAX_LEN_def COM2_RX_BUFF_SIZE_def)
  have x: "rx_ok ?e" "rx_pos ?e = rx_pos e" using d(3) by (simp_all add: rx_ok_def rx_pos_def Let_def)
  have ne: "bs \<noteq> []" using assms(2) by auto
  obtain d3 where d3: "recv_desc rx 1056 ?e = Some ((int (length bs), overwrite rx 0 bs), d3)" "rx_clear d3" "tx_side d3 = tx_side ?e"
    "capacity (cd_rx_fifo d3) = COM2_RX_BUFF_SIZE"
    using recv_desc_ring [of ?e "length bs" rx 1056] x d p ne assms(2-4) by auto
  have "pd_posts e = pd_posts d" "tx_idle e = tx_idle d" "cd_line e = cd_line d" "cd_tx_fifo e = cd_tx_fifo d"
    using d(12) tx_idle_side [of e d] pd_posts_more [of e d] by (simp_all add: tx_side_def)
  moreover have "tx_idle ?e = tx_idle e" by (simp add: tx_idle_def tx_ok_def)
  moreover have "tx_idle d3 = tx_idle ?e" "cd_line d3 = cd_line e" "cd_tx_fifo d3 = cd_tx_fifo e"
    using d3(3) tx_idle_side [of d3 ?e] by (auto simp: tx_side_def)
  ultimately show ?thesis
    using d(1,2) d3 r cb by (intro exI [of _ d1] exI [of _ ?e] exI [of _ d3])
      (simp add: com_recv_def on_port_def COM_CNT_def ready_port_def)
qed

lemma comm_send_chunk_serial:
  assumes "cs_groups st = g # gs" and "cg_send_func g = Pc_send_wrapper" and "channel_index (cg_channels g) 0 \<noteq> None"
    and "0 < n" and "n \<le> 1056" and "com_send 0 tx (int n) (cs_coms st) = Some (r, ds)"
  shows "comm_send_chunk tcp 0 0 tx (int n) st = Some (st\<lparr>cs_coms := ds\<rparr>)"
proof -
  have "chunk_loop tcp Pc_send_wrapper 0 tx (int n) st
      = Option.bind (call_send tcp Pc_send_wrapper 0 tx (int n) st) (chunk_loop tcp Pc_send_wrapper 0 (drop n tx) 0)"
    using assms(4,5) by (subst chunk_loop.simps) (simp add: Let_def)
  moreover have "chunk_loop tcp Pc_send_wrapper 0 (drop n tx) 0 s = Some s" for s by (subst chunk_loop.simps) simp
  moreover have "call_send tcp Pc_send_wrapper 0 tx (int n) st = Some (st\<lparr>cs_coms := ds\<rparr>)"
    using assms(4,6) by (simp add: call_send_def pc_send_wrapper_def pc_send_def)
  moreover have "cg_channels g \<noteq> []" using assms(3) by auto
  ultimately show ?thesis using assms(1-3) by (auto simp: comm_send_chunk_def Let_def)
qed

definition serial_group :: "'e comm_state_scheme \<Rightarrow> bool" where
  "serial_group st \<longleftrightarrow> cs_uart_group st = 0 \<and> (\<exists>g gs. cs_groups st = g # gs \<and> cg_send_func g = Pc_send_wrapper \<and> channel_index (cg_channels g) 0 \<noteq> None)"

text \<open>C2: A request that arrives at a ready serial port is answered on the same line. The idle interrupt posts the packet task once; the task takes the
  whole block, has it answered by the protocol for the same bytes, and sends the answer; when the transmitter
  has made as many steps as the answer has bytes, the line has got exactly the answer and the port is ready for
  the next request. The handlers are assumed not to touch the serial ports, and the answer to fit the ring.\<close>

theorem pc_answers_block:
  assumes "ready_port d" and "2 \<le> length bs" and "length bs < COM2_RX_BUFF_SIZE" and "length bs \<le> length rx"
    and "\<forall>ds. proto_answer env (overwrite rx 0 bs) tx (int (length bs)) 0 pc_port (st\<lparr>cs_coms := ds\<rparr>) = Some (tx', int n, st'\<lparr>cs_coms := ds\<rparr>)"
    and "0 < n" and "n \<le> COM2_TX_BUFF_SIZE" and "n \<le> length tx'" and "4 \<le> length tx'" and "serial_group st'"
  shows "\<exists>d1 d2 d3. rx_bytes bs d = Some d1 \<and> on_irq_all (Some pc_on_rx_data) idle_flags d1 = Some d2 \<and> pd_posts d2 = Suc (pd_posts d)
    \<and> pc_rx_packet_task env rx tx (st\<lparr>cs_coms := [d2]\<rparr>) = Some (replicate (length rx) 0, overwrite tx' 0 [0, 0, 0, 0], st'\<lparr>cs_coms := [d3]\<rparr>)
    \<and> cd_line ((tx_step ^^ n) d3) = cd_line d @ take n tx' \<and> ready_port ((tx_step ^^ n) d3)"
proof -
  obtain d1 d2 e where d: "rx_bytes bs d = Some d1" "on_irq_all (Some pc_on_rx_data) idle_flags d1 = Some d2" "pd_posts d2 = Suc (pd_posts d)"
    and e: "com_recv 0 rx 1056 [d2] = Some ((int (length bs), overwrite rx 0 bs), [e])" "ready_port e" "cd_line e = cd_line d"
    using ready_port_receives [OF assms(1-4)] by blast
  obtain d3 where d3: "com_send 0 tx' (int n) [e] = Some (int n, [d3])" "ready_port ((tx_step ^^ n) d3)"
    "cd_line ((tx_step ^^ n) d3) = cd_line e @ take n tx'" using ready_port_sends [OF e(2) assms(6-8)] by blast
  obtain g gs where g: "cs_groups st' = g # gs" "cg_send_func g = Pc_send_wrapper" "channel_index (cg_channels g) 0 \<noteq> None" "cs_uart_group st' = 0"
    using assms(10) by (auto simp: serial_group_def)
  have "comm_send_chunk (pe_tcp env) 0 0 tx' (int n) (st'\<lparr>cs_coms := [e]\<rparr>) = Some (st'\<lparr>cs_coms := [d3]\<rparr>)"
    using comm_send_chunk_serial [of "st'\<lparr>cs_coms := [e]\<rparr>" g gs n tx'] g d3(1) assms(6,7) by (simp add: COM2_TX_BUFF_SIZE_def)
  then have "proto_process env (overwrite rx 0 bs) tx (int (length bs)) 0 pc_port (st\<lparr>cs_coms := [e]\<rparr>)
      = Some (overwrite tx' 0 [0, 0, 0, 0], 0, st'\<lparr>cs_coms := [d3]\<rparr>)"
    using assms(5,6,9) g(4) by (simp add: proto_process_def pc_port_def)
  then have "pc_rx_packet_task env rx tx (st\<lparr>cs_coms := [d2]\<rparr>) = Some (replicate (length rx) 0, overwrite tx' 0 [0, 0, 0, 0], st'\<lparr>cs_coms := [d3]\<rparr>)"
    using e(1) assms(2-4) by (simp add: pc_rx_packet_task_def pc_port_def COM2_RX_BUFF_SIZE_def)
  then show ?thesis using d d3 e(3) by metis
qed

text \<open>A device with one target that answers the request for its address.\<close>

definition sample_comm :: "pc_desc list \<Rightarrow> comm_state" where
  "sample_comm ds = upp_state.extend sample_upp
     (comm_state.fields [\<lparr>cg_name = ''UART'', cg_channels = [0], cg_send_func = Pc_send_wrapper\<rparr>] ds 0 1 (- 1) False)"

definition sample_callback :: "'e callback" where
  "sample_callback p i st = Some (0, p, st)"

definition sample_env :: "unit proto_env" where
  "sample_env = \<lparr>pe_handler = (\<lambda>p tx off n st. Some (tx, n, st)), pe_set = sample_callback, pe_get = sample_callback, pe_flt = (\<lambda>_ _ _. Inl 0),
     pe_ftxt = (\<lambda>_ b. b), pe_conv = (\<lambda>_ b. b), pe_tcp = (\<lambda>_ _ _ st. Some st)\<rparr>"

lemma sample_answer:
  "proto_answer sample_env (bytes ''?DA'' @ [13, 10]) (replicate 9 255) 5 0 pc_port (sample_comm ds)
   = Some (bytes ''!DA0'' @ [13, 10, 0, 255, 255], 6, sample_comm ds)"
  by code_simp

lemma sample_comm_coms: "(sample_comm ds)\<lparr>cs_coms := ds'\<rparr> = sample_comm ds'"
  by (simp add: sample_comm_def upp_state.extend_def comm_state.fields_def)

definition sample_desc :: pc_desc where
  "sample_desc = snd (pc_init 115200 52 (com_desc.extend zero_desc (pc_desc.fields 0)))"

lemma sample_desc_ready: "ready_port sample_desc" "cd_line sample_desc = []"
proof -
  show "ready_port sample_desc"
    unfolding sample_desc_def pc_init_def snd_conv
    by (rule com_init_ready) (simp_all add: zero_desc_def zero_fifo_def com_desc.extend_def pc_desc.fields_def)
  show "cd_line sample_desc = []"
    by (simp add: sample_desc_def pc_init_def enable_recv_def com_init_def com_set_mode_def zero_desc_def com_desc.extend_def pc_desc.fields_def
      Let_def)
qed

theorem pc_answers_block_witness:
  "\<exists>d1 d2 d3. rx_bytes (bytes ''?DA'' @ [13, 10]) sample_desc = Some d1 \<and> on_irq_all (Some pc_on_rx_data) idle_flags d1 = Some d2
    \<and> pc_rx_packet_task sample_env (replicate 5 0) (replicate 9 255) (sample_comm [d2])
      = Some (replicate 5 0, [0, 0, 0, 0, 13, 10, 0, 255, 255], sample_comm [d3])
    \<and> cd_line ((tx_step ^^ 6) d3) = bytes ''!DA0'' @ [13, 10]"
proof -
  let ?q = "bytes ''?DA'' @ [13, 10]" and ?a = "bytes ''!DA0'' @ [13, 10, 0, 255, 255]"
  have q: "length ?q = 5" "length ?a = 9" "take 6 ?a = bytes ''!DA0'' @ [13, 10]" by (simp_all add: bytes_def)
  have o: "overwrite (replicate 5 0) 0 ?q = ?q" "overwrite ?a 0 [0, 0, 0, 0] = [0, 0, 0, 0, 13, 10, 0, 255, 255]"
    by (simp_all add: overwrite_def q bytes_def)
  have a: "\<forall>ds. proto_answer sample_env (overwrite (replicate 5 0) 0 ?q) (replicate 9 255) (int (length ?q)) 0 pc_port ((sample_comm [])\<lparr>cs_coms := ds\<rparr>)
      = Some (?a, int 6, (sample_comm [])\<lparr>cs_coms := ds\<rparr>)"
    unfolding o q sample_comm_coms using sample_answer by (simp only: of_nat_numeral simp_thms)
  have g: "serial_group (sample_comm [])" by (simp add: serial_group_def sample_comm_def upp_state.extend_def comm_state.fields_def)
  have l: "2 \<le> length ?q" "length ?q < COM2_RX_BUFF_SIZE" "length ?q \<le> length (replicate 5 (0 :: u8))" "0 < (6 :: nat)" "6 \<le> COM2_TX_BUFF_SIZE"
    "6 \<le> length ?a" "4 \<le> length ?a" using q by (simp_all add: COM2_RX_BUFF_SIZE_def COM2_TX_BUFF_SIZE_def)
  obtain d1 d2 d3 where "rx_bytes ?q sample_desc = Some d1" "on_irq_all (Some pc_on_rx_data) idle_flags d1 = Some d2"
    "pc_rx_packet_task sample_env (replicate 5 0) (replicate 9 255) (sample_comm [d2]) = Some (replicate 5 0, overwrite ?a 0 [0, 0, 0, 0], sample_comm [d3])"
    "cd_line ((tx_step ^^ 6) d3) = [] @ take 6 ?a"
    using pc_answers_block [OF sample_desc_ready(1) l(1-3) a l(4-7) g, unfolded sample_comm_coms sample_desc_ready(2) length_replicate] by blast
  then show ?thesis unfolding o q append_Nil by blast
qed

text \<open>The initialisation gives the state that the composition starts from.\<close>

lemma comm_init_serves:
  assumes "cs_coms st = [d]" and "cb_count (cd_tx_fifo d) = 0" and "\<not> cd_rbneie d" and "\<not> cd_tbeie d"
    and "comm_init True True True a3 baudrate mode st = Some st'"
  shows "serial_group st' \<and> (\<exists>d'. cs_coms st' = [d'] \<and> ready_port d')"
proof -
  have r: "ready_port (snd (pc_init baudrate mode d))" using com_init_ready [OF assms(2-4)] by (simp add: pc_init_def)
  show ?thesis
    using assms(1,5) r by (auto simp: comm_init_def comm_group_create_def comm_channel_add_def PC_COM_def serial_group_def Let_def split: if_splits)
qed

end
