(* ===== verification/Wire.thy ===== *)
theory Wire
  imports Pyro_Prelude
begin

text \<open>
  Buses that the firmware drives by moving pins: what a device on the bus sees is the sequence of levels of the lines, and
  it reacts to edges. A driver appends the levels of its lines to a log whenever it moves a pin. The interface
  gives, for any driver that does so, the events of the log one pin movement at a time.
\<close>

fun edges :: "('l \<Rightarrow> 'l \<Rightarrow> 'e list) \<Rightarrow> 'l list \<Rightarrow> 'e list" where
  "edges edge (x # y # l) = edge x y @ edges edge (y # l)"
| "edges edge _ = []"

lemma edges_snoc: "l \<noteq> [] \<Longrightarrow> edges edge (l @ [y]) = edges edge l @ edge (last l) y"
proof (induction edge l rule: edges.induct)
  case (1 edge x z l)
  then show ?case by (cases l) simp_all
qed simp_all

definition logs_levels :: "('s \<Rightarrow> 'l) \<Rightarrow> ('s \<Rightarrow> 'l list) \<Rightarrow> 's \<Rightarrow> bool" where
  "logs_levels levels logged s \<longleftrightarrow> logged s \<noteq> [] \<and> last (logged s) = levels s"

locale wire =
  fixes levels :: "'s \<Rightarrow> 'l" and logged :: "'s \<Rightarrow> 'l list" and drive :: "('s \<Rightarrow> 's) \<Rightarrow> 's \<Rightarrow> 's" and edge :: "'l \<Rightarrow> 'l \<Rightarrow> 'e list"
  assumes drive_logs: "logged (drive f s) = logged s @ [levels (drive f s)]"
begin

lemma drive_synced: "logs_levels levels logged (drive f s)"
  by (simp add: logs_levels_def drive_logs)

lemma drive_events:
  "logs_levels levels logged s \<Longrightarrow> edges edge (logged (drive f s)) = edges edge (logged s) @ edge (levels s) (levels (drive f s))"
  by (simp add: logs_levels_def drive_logs edges_snoc)

end

text \<open>The bits of a byte, the least significant first.\<close>

definition byte_bits :: "u8 \<Rightarrow> bool list" where
  "byte_bits w = map (bit w) [0..<8]"

lemma length_byte_bits [simp]: "length (byte_bits w) = 8"
  by (simp add: byte_bits_def)

end
