(* ===== verification/Tm1639.thy ===== *)
theory Tm1639
  imports Wire
begin

text \<open>
  The driver of the display and key chip, \<open>src/bsp/dev/tm1639.c\<close>: three lines STB, CLK and DIO that are moved pin by pin.

  The state has the levels of the pins, the direction of DIO and the log of the levels. When DIO is an input
  its level is that of the chip, which is a sequence \<open>tm_in\<close>; each call of \<open>tm1639_dio_get\<close> reads its next
  element. Delays have no effect on the model.
\<close>

record tm_bus =
  tm_stb :: bool
  tm_clk :: bool
  tm_dio :: bool
  tm_out :: bool
  tm_log :: "(bool \<times> bool \<times> bool option) list"
  tm_in :: "nat \<Rightarrow> bool"
  tm_reads :: nat

definition tm_levels :: "tm_bus \<Rightarrow> bool \<times> bool \<times> bool option" where
  "tm_levels b = (tm_stb b, tm_clk b, if tm_out b then Some (tm_dio b) else None)"

definition tm_drive :: "(tm_bus \<Rightarrow> tm_bus) \<Rightarrow> tm_bus \<Rightarrow> tm_bus" where
  "tm_drive f b = (f b)\<lparr>tm_log := tm_log b @ [tm_levels (f b)]\<rparr>"

definition tm1639_stb_high :: "tm_bus \<Rightarrow> tm_bus" where "tm1639_stb_high = tm_drive (tm_stb_update (\<lambda>_. True))"
definition tm1639_stb_low :: "tm_bus \<Rightarrow> tm_bus" where "tm1639_stb_low = tm_drive (tm_stb_update (\<lambda>_. False))"
definition tm1639_clk_high :: "tm_bus \<Rightarrow> tm_bus" where "tm1639_clk_high = tm_drive (tm_clk_update (\<lambda>_. True))"
definition tm1639_clk_low :: "tm_bus \<Rightarrow> tm_bus" where "tm1639_clk_low = tm_drive (tm_clk_update (\<lambda>_. False))"
definition tm1639_dio_high :: "tm_bus \<Rightarrow> tm_bus" where "tm1639_dio_high = tm_drive (tm_dio_update (\<lambda>_. True))"
definition tm1639_dio_low :: "tm_bus \<Rightarrow> tm_bus" where "tm1639_dio_low = tm_drive (tm_dio_update (\<lambda>_. False))"
definition tm1639_dio_out :: "tm_bus \<Rightarrow> tm_bus" where "tm1639_dio_out = tm_drive (tm_out_update (\<lambda>_. True))"
definition tm1639_dio_in :: "tm_bus \<Rightarrow> tm_bus" where "tm1639_dio_in = tm_drive (tm_out_update (\<lambda>_. False))"

definition tm1639_dio_get :: "tm_bus \<Rightarrow> bool \<times> tm_bus" where
  "tm1639_dio_get b = (tm_in b (tm_reads b), b\<lparr>tm_reads := Suc (tm_reads b)\<rparr>)"

definition TM1639_CMD_DATA :: u8 where "TM1639_CMD_DATA = 0x40"
definition TM1639_CMD_DISPLAY :: u8 where "TM1639_CMD_DISPLAY = 0x80"
definition TM1639_CMD_ADDR :: u8 where "TM1639_CMD_ADDR = 0xC0"
definition TM1639_DATA_RD :: u8 where "TM1639_DATA_RD = 0x02"
definition TM1639_DISP_ON :: u8 where "TM1639_DISP_ON = 0x08"

subsection \<open>Bytes\<close>

fun write_bits :: "nat \<Rightarrow> u8 \<Rightarrow> tm_bus \<Rightarrow> tm_bus" where
  "write_bits 0 byte b = b"
| "write_bits (Suc n) byte b =
     (let b = tm1639_clk_low b; b = (if byte AND 1 \<noteq> 0 then tm1639_dio_high b else tm1639_dio_low b)
      in write_bits n (drop_bit 1 byte) (tm1639_clk_high b))"

definition tm1639_write_byte :: "u8 \<Rightarrow> tm_bus \<Rightarrow> tm_bus" where
  "tm1639_write_byte byte = write_bits 8 byte"

fun read_bits :: "nat \<Rightarrow> u8 \<Rightarrow> tm_bus \<Rightarrow> u8 \<times> tm_bus" where
  "read_bits 0 val b = (val, b)"
| "read_bits (Suc n) val b =
     (let b = tm1639_clk_low b; val = drop_bit 1 val; b = tm1639_clk_high b; (l, b) = tm1639_dio_get b
      in read_bits n (if l then val OR 0x80 else val) b)"

definition tm1639_read_byte :: "tm_bus \<Rightarrow> u8 \<times> tm_bus" where
  "tm1639_read_byte = read_bits 8 0"

subsection \<open>Commands\<close>

definition tm1639_write_buff :: "u8 \<Rightarrow> buf \<Rightarrow> u8 \<Rightarrow> tm_bus \<Rightarrow> tm_bus option" where
  "tm1639_write_buff addr buff len b =
     (if uint addr + uint len > 0x0F then Some b
      else if length buff < unat len then None
      else
        let b = tm1639_stb_high (tm1639_write_byte TM1639_CMD_DATA (tm1639_stb_low b));
            b = tm1639_write_byte (TM1639_CMD_ADDR OR addr) (tm1639_stb_low b)
        in Some (tm1639_stb_high (fold tm1639_write_byte (take (unat len) buff) b)))"

definition tm1639_set_command :: "u8 \<Rightarrow> u8 \<Rightarrow> tm_bus \<Rightarrow> tm_bus" where
  "tm1639_set_command status luminance b =
     (let luminance = (if luminance > 7 then 7 else luminance);
          display_cmd = TM1639_CMD_DISPLAY OR luminance;
          display_cmd = (if status \<noteq> 0 then display_cmd OR TM1639_DISP_ON else display_cmd)
      in tm1639_stb_high (tm1639_write_byte display_cmd (tm1639_stb_low b)))"

definition tm1639_key_scan :: "tm_bus \<Rightarrow> u16 \<times> tm_bus" where
  "tm1639_key_scan b =
     (let b = tm1639_dio_in (tm1639_write_byte (TM1639_CMD_DATA OR TM1639_DATA_RD) (tm1639_stb_low b));
          (p0, b) = tm1639_read_byte b;
          (p1, b) = tm1639_read_byte b
      in (get16 [p0, p1], tm1639_dio_out (tm1639_stb_high b)))"

fun tm_clear_loop :: "nat \<Rightarrow> nat \<Rightarrow> tm_bus \<Rightarrow> tm_bus option" where
  "tm_clear_loop 0 i b = Some b"
| "tm_clear_loop (Suc n) i b = do { b \<leftarrow> tm1639_write_buff (of_nat i) [0] 1 b; tm_clear_loop n (Suc i) b }"

definition tm1639_init :: "tm_bus \<Rightarrow> tm_bus option" where
  "tm1639_init b = do {
     b \<leftarrow> tm_clear_loop 12 0 (tm1639_dio_high (tm1639_stb_high (tm1639_clk_high (tm1639_dio_out b))));
     Some (tm1639_set_command 1 0 b) }"

subsection \<open>What the chip sees\<close>

text \<open>The chip is selected while STB is low and takes a bit at each rising edge of CLK.\<close>

datatype tm_event = Tm_Select | Tm_Bit "bool option" | Tm_Release

definition tm_edge :: "bool \<times> bool \<times> bool option \<Rightarrow> bool \<times> bool \<times> bool option \<Rightarrow> tm_event list" where
  "tm_edge l l' = (case (l, l') of ((s, c, _), (s', c', d)) \<Rightarrow>
     if s \<and> \<not> s' then [Tm_Select] else if \<not> s \<and> s' then [Tm_Release] else if \<not> s' \<and> \<not> c \<and> c' then [Tm_Bit d] else [])"

interpretation tm: wire tm_levels tm_log tm_drive tm_edge
  by unfold_locales (simp add: tm_drive_def tm_levels_def)

definition tm_seen :: "tm_bus \<Rightarrow> tm_event list" where
  "tm_seen b = edges tm_edge (tm_log b)"

definition tm_ok :: "bool \<Rightarrow> tm_bus \<Rightarrow> bool" where
  "tm_ok out b \<longleftrightarrow> logs_levels tm_levels tm_log b \<and> tm_clk b \<and> (tm_out b = out)"

abbreviation sends :: "u8 \<Rightarrow> tm_event list" where
  "sends w \<equiv> map (Tm_Bit \<circ> Some) (byte_bits w)"

lemma tm_drive_fields: "tm_levels (tm_drive f b) = tm_levels (f b)"
  by (simp add: tm_drive_def tm_levels_def)

lemmas tm_pins = tm1639_stb_high_def tm1639_stb_low_def tm1639_clk_high_def tm1639_clk_low_def tm1639_dio_high_def tm1639_dio_low_def
  tm1639_dio_out_def tm1639_dio_in_def

lemma tm_drive_sel [simp]:
  "tm_stb (tm_drive f b) = tm_stb (f b)" "tm_clk (tm_drive f b) = tm_clk (f b)" "tm_out (tm_drive f b) = tm_out (f b)"
  "tm_dio (tm_drive f b) = tm_dio (f b)" "tm_in (tm_drive f b) = tm_in (f b)" "tm_reads (tm_drive f b) = tm_reads (f b)"
  by (simp_all add: tm_drive_def)

lemma tm_seen_drive:
  "logs_levels tm_levels tm_log b \<Longrightarrow> tm_seen (tm_drive f b) = tm_seen b @ tm_edge (tm_levels b) (tm_levels (f b))"
  by (simp add: tm_seen_def tm.drive_events tm_drive_fields)

lemmas tm_step_simps = tm_seen_drive tm.drive_synced tm_edge_def tm_levels_def

lemma write_bits_seen:
  assumes "tm_ok True b" and "\<not> tm_stb b"
  shows "tm_ok True (write_bits n w b) \<and> \<not> tm_stb (write_bits n w b)
    \<and> tm_seen (write_bits n w b) = tm_seen b @ map (\<lambda>i. Tm_Bit (Some (bit w i))) [0..<n]
    \<and> tm_in (write_bits n w b) = tm_in b \<and> tm_reads (write_bits n w b) = tm_reads b"
  using assms
proof (induction n arbitrary: w b)
  case (Suc n)
  let ?b = "tm1639_clk_high (if w AND 1 \<noteq> 0 then tm1639_dio_high (tm1639_clk_low b) else tm1639_dio_low (tm1639_clk_low b))"
  have b: "tm_ok True ?b" "\<not> tm_stb ?b" "tm_seen ?b = tm_seen b @ [Tm_Bit (Some (bit w 0))]" "tm_in ?b = tm_in b" "tm_reads ?b = tm_reads b"
    using Suc.prems by (auto simp: tm_ok_def tm_pins tm_step_simps bit_0 and_one_eq odd_iff_mod_2_eq_one)
  have m: "map (\<lambda>i. Tm_Bit (Some (bit w i))) [0..<Suc n] = Tm_Bit (Some (bit w 0)) # map (\<lambda>i. Tm_Bit (Some (bit (drop_bit 1 w) i))) [0..<n]"
    by (simp add: upt_conv_Cons map_Suc_upt [symmetric] bit_drop_bit_eq del: upt_Suc)
  show ?case using Suc.IH [OF b(1,2), of "drop_bit 1 w"] b m by (simp add: Let_def del: upt_Suc)
qed simp

lemma write_byte_seen:
  assumes "tm_ok True b" and "\<not> tm_stb b"
  shows "tm_ok True (tm1639_write_byte w b) \<and> \<not> tm_stb (tm1639_write_byte w b) \<and> tm_seen (tm1639_write_byte w b) = tm_seen b @ sends w
    \<and> tm_in (tm1639_write_byte w b) = tm_in b \<and> tm_reads (tm1639_write_byte w b) = tm_reads b"
  using write_bits_seen [OF assms, of 8 w] by (simp add: tm1639_write_byte_def byte_bits_def comp_def)

lemma write_bytes_seen:
  assumes "tm_ok True b" and "\<not> tm_stb b"
  shows "tm_ok True (fold tm1639_write_byte ws b) \<and> \<not> tm_stb (fold tm1639_write_byte ws b)
    \<and> tm_seen (fold tm1639_write_byte ws b) = tm_seen b @ concat (map sends ws)"
  using assms by (induction ws arbitrary: b) (simp_all add: write_byte_seen)

text \<open>A byte is read with the least significant bit first: the bits are shifted in from the top.\<close>

lemma bit_128: "bit (128 :: int) i \<longleftrightarrow> i = 7"
proof -
  have e: "(128 :: int) = push_bit 7 1" by (simp add: push_bit_eq_mult)
  show ?thesis unfolding e bit_push_bit_iff_int bit_1_iff by auto
qed

lemma read_bits_value:
  assumes "n \<le> 8"
  shows "bit (fst (read_bits n v b)) i \<longleftrightarrow> i < 8 \<and> (if i < 8 - n then bit v (i + n) else tm_in b (tm_reads b + (i + n - 8)))"
  using assms
proof (induction n arbitrary: v b)
  case 0
  then show ?case by (auto dest: bit_u8D)
next
  case (Suc n)
  define v1 where "v1 = (if tm_in b (tm_reads b) then drop_bit 1 v OR 0x80 else drop_bit 1 v)"
  define b1 where "b1 = (tm1639_clk_high (tm1639_clk_low b))\<lparr>tm_reads := Suc (tm_reads b)\<rparr>"
  have r: "read_bits (Suc n) v b = read_bits n v1 b1"
    by (simp add: tm1639_dio_get_def v1_def b1_def tm_pins Let_def)
  have b1: "tm_in b1 = tm_in b" "tm_reads b1 = Suc (tm_reads b)" by (simp_all add: b1_def tm_pins)
  have v1: "bit v1 j \<longleftrightarrow> bit v (Suc j) \<or> j = 7 \<and> tm_in b (tm_reads b)" for j
    by (auto simp: v1_def bit_or_iff bit_drop_bit_eq bit_128)
  have ih: "bit (fst (read_bits n v1 b1)) i \<longleftrightarrow> i < 8 \<and> (if i < 8 - n then bit v1 (i + n) else tm_in b1 (tm_reads b1 + (i + n - 8)))"
    using Suc.IH [of v1 b1] Suc.prems by simp
  consider "i < 8 - Suc n" | "i = 7 - n" | "8 - n \<le> i" using Suc.prems by linarith
  then show ?case
  proof cases
    case 2
    then have "i + n = 7" using Suc.prems by simp
    then show ?thesis using 2 Suc.prems unfolding r ih b1 v1 by (auto dest: bit_u8D)
  next
    case 3
    then have "Suc (tm_reads b) + (i + n - 8) = tm_reads b + (i + Suc n - 8)" using Suc.prems by simp
    then show ?thesis using 3 Suc.prems unfolding r ih b1 by auto
  qed (use Suc.prems in \<open>auto simp: r ih b1 v1 simp del: read_bits.simps\<close>)
qed

lemma read_bits_seen:
  assumes "tm_ok False b" and "\<not> tm_stb b"
  shows "tm_ok False (snd (read_bits n v b)) \<and> \<not> tm_stb (snd (read_bits n v b))
    \<and> tm_seen (snd (read_bits n v b)) = tm_seen b @ replicate n (Tm_Bit None)
    \<and> tm_in (snd (read_bits n v b)) = tm_in b \<and> tm_reads (snd (read_bits n v b)) = tm_reads b + n"
  using assms
proof (induction n arbitrary: v b)
  case (Suc n)
  let ?b = "(tm1639_clk_high (tm1639_clk_low b))\<lparr>tm_reads := Suc (tm_reads b)\<rparr>"
  have u: "tm_seen (c\<lparr>tm_reads := k\<rparr>) = tm_seen c" "logs_levels tm_levels tm_log (c\<lparr>tm_reads := k\<rparr>) = logs_levels tm_levels tm_log c" for c k
    by (simp_all add: tm_seen_def logs_levels_def tm_levels_def)
  have b: "tm_ok False ?b" "\<not> tm_stb ?b" "tm_seen ?b = tm_seen b @ [Tm_Bit None]"
    using Suc.prems by (auto simp: tm_ok_def u tm_pins tm_step_simps)
  have "tm_in ?b = tm_in b" "tm_reads ?b = Suc (tm_reads b)" by (simp_all add: tm_pins)
  moreover have "\<exists>w. read_bits (Suc n) v b = read_bits n w ?b"
    by (simp add: tm1639_dio_get_def tm_pins Let_def) blast
  ultimately show ?case using Suc.IH [OF b(1,2)] b(3) by auto
qed simp

text \<open>A key scan returns what the chip drives on its data line, the least significant bit first, and the chip sees exactly one access: it is selected, gets the
  command to read the keys, is clocked sixteen times while the driver listens, and is released; the bus is left as it was.\<close>

lemma key_scan_reads_chip:
  assumes "tm_ok True b" and "tm_stb b" and "tm1639_key_scan b = (v, b')"
  shows "(\<forall>i < 16. bit v i \<longleftrightarrow> tm_in b (tm_reads b + i))
    \<and> tm_seen b' = tm_seen b @ Tm_Select # sends 0x42 @ replicate 16 (Tm_Bit None) @ [Tm_Release] \<and> tm_ok True b' \<and> tm_stb b'
    \<and> tm_in b' = tm_in b \<and> tm_reads b' = tm_reads b + 16"
proof -
  define b0 where "b0 = tm1639_stb_low b"
  have b0: "tm_ok True b0" "\<not> tm_stb b0" "tm_seen b0 = tm_seen b @ [Tm_Select]" "tm_in b0 = tm_in b" "tm_reads b0 = tm_reads b"
    using assms(1,2) by (auto simp: b0_def tm_ok_def tm_pins tm_step_simps)
  define b1 where "b1 = tm1639_write_byte 0x42 b0"
  have b1: "tm_ok True b1" "\<not> tm_stb b1" "tm_seen b1 = tm_seen b @ Tm_Select # sends 0x42" "tm_in b1 = tm_in b" "tm_reads b1 = tm_reads b"
    using write_byte_seen [OF b0(1,2), of "0x42"] b0 by (simp_all add: b1_def)
  define b2 where "b2 = tm1639_dio_in b1"
  have b2: "tm_ok False b2" "\<not> tm_stb b2" "tm_seen b2 = tm_seen b1" "tm_in b2 = tm_in b" "tm_reads b2 = tm_reads b"
    using b1 by (auto simp: b2_def tm_ok_def tm_pins tm_step_simps)
  define b3 where "b3 = snd (read_bits 8 0 b2)"
  define b4 where "b4 = snd (read_bits 8 0 b3)"
  have b3: "tm_ok False b3" "\<not> tm_stb b3" "tm_seen b3 = tm_seen b2 @ replicate 8 (Tm_Bit None)" "tm_in b3 = tm_in b" "tm_reads b3 = tm_reads b + 8"
    using read_bits_seen [OF b2(1,2), of 8 0] b2 by (simp_all add: b3_def)
  have b4: "tm_ok False b4" "\<not> tm_stb b4" "tm_seen b4 = tm_seen b3 @ replicate 8 (Tm_Bit None)" "tm_in b4 = tm_in b" "tm_reads b4 = tm_reads b + 16"
    using read_bits_seen [OF b3(1,2), of 8 0] b3 by (simp_all add: b4_def)
  have r: "v = get16 [fst (read_bits 8 0 b2), fst (read_bits 8 0 b3)]" "b' = tm1639_dio_out (tm1639_stb_high b4)"
    using assms(3) by (simp_all add: tm1639_key_scan_def Let_def b0_def [symmetric] TM1639_CMD_DATA_def TM1639_DATA_RD_def b1_def [symmetric]
      b2_def [symmetric] tm1639_read_byte_def split_beta b3_def [symmetric] b4_def [symmetric])
  have "bit v i \<longleftrightarrow> tm_in b (tm_reads b + i)" if "i < 16" for i
    using that read_bits_value [of 8 0 b2 i] read_bits_value [of 8 0 b3 "i - 8"]
    by (auto simp: r(1) get16_def bit_or_iff bit_push_bit_iff bit_ucast_iff b2 b3)
  moreover have "tm_seen b' = tm_seen b4 @ [Tm_Release]" "tm_ok True b'" "tm_stb b'" "tm_in b' = tm_in b" "tm_reads b' = tm_reads b + 16"
    using b4 by (auto simp: r(2) tm_ok_def tm_pins tm_step_simps)
  moreover have "replicate 16 (Tm_Bit None) = replicate 8 (Tm_Bit None) @ replicate 8 (Tm_Bit None)" by (simp flip: replicate_add)
  ultimately show ?thesis using b4(3) b3(3) b2(3) b1(3) by simp
qed

text \<open>The accesses of a write: the data command, then the address command followed by the bytes.\<close>

lemma write_buff_frames:
  assumes "tm_ok True b" and "tm_stb b" and "uint addr + uint len \<le> 0x0F" and "unat len \<le> length buff"
  shows "\<exists>b'. tm1639_write_buff addr buff len b = Some b' \<and> tm_ok True b' \<and> tm_stb b'
    \<and> tm_seen b' = tm_seen b @ Tm_Select # sends 0x40 @ [Tm_Release, Tm_Select] @ sends (0xC0 OR addr)
        @ concat (map sends (take (unat len) buff)) @ [Tm_Release]"
proof -
  define b1 where "b1 = tm1639_write_byte 0x40 (tm1639_stb_low b)"
  have "tm_ok True (tm1639_stb_low b)" "\<not> tm_stb (tm1639_stb_low b)" "tm_seen (tm1639_stb_low b) = tm_seen b @ [Tm_Select]"
    using assms(1,2) by (auto simp: tm_ok_def tm_pins tm_step_simps)
  then have b1: "tm_ok True b1" "\<not> tm_stb b1" "tm_seen b1 = tm_seen b @ Tm_Select # sends 0x40"
    using write_byte_seen [of "tm1639_stb_low b" "0x40"] by (simp_all add: b1_def)
  define b2 where "b2 = tm1639_stb_low (tm1639_stb_high b1)"
  have b2: "tm_ok True b2" "\<not> tm_stb b2" "tm_seen b2 = tm_seen b1 @ [Tm_Release, Tm_Select]"
    using b1 by (auto simp: b2_def tm_ok_def tm_pins tm_step_simps)
  define b3 where "b3 = fold tm1639_write_byte ((0xC0 OR addr) # take (unat len) buff) b2"
  have b3: "tm_ok True b3" "\<not> tm_stb b3" "tm_seen b3 = tm_seen b2 @ concat (map sends ((0xC0 OR addr) # take (unat len) buff))"
    using write_bytes_seen [OF b2(1,2), of "(0xC0 OR addr) # take (unat len) buff"] unfolding b3_def by simp_all
  have "tm1639_write_buff addr buff len b = Some (tm1639_stb_high b3)"
    using assms(3,4) by (simp add: tm1639_write_buff_def TM1639_CMD_DATA_def TM1639_CMD_ADDR_def Let_def b1_def [symmetric] b2_def [symmetric] b3_def)
  moreover have "tm_ok True (tm1639_stb_high b3)" "tm_stb (tm1639_stb_high b3)" "tm_seen (tm1639_stb_high b3) = tm_seen b3 @ [Tm_Release]"
    using b3(1,2) by (auto simp: tm_ok_def tm_pins tm_step_simps)
  ultimately show ?thesis using b3(3) b2(3) b1(3) by simp
qed

end
