(* ===== verification/Key.thy ===== *)
theory Key
  imports Tm1639
begin

text \<open>
  The keys, \<open>src/app/ui/key.c\<close>: a task that reads the keys from the TM1639 every 50 ms and runs a debouncing state machine for each
  of the four keys. The tick counter is a 32-bit word that wraps, the current tick is an argument.
\<close>

datatype button_state = STATE_IDLE | STATE_DEBOUNCE_PRESS | STATE_PRESSED | STATE_DEBOUNCE_RELEASE

record key_info =
  ki_state :: button_state
  press_start_time :: u32
  debounce_time :: u32
  key_mask :: u16
  long_pressed :: bool
  step_value :: int
  short_flag :: u8
  long_flag :: u8

record key_sys =
  ks_keys :: "key_info list"
  ks_last :: u32
  ks_idle :: u8
  ks_err :: u8
  ks_bus :: tm_bus

definition KEY_UP :: nat where "KEY_UP = 0"
definition KEY_DOWN :: nat where "KEY_DOWN = 1"
definition KEY_SET :: nat where "KEY_SET = 2"
definition KEY_RIGHT :: nat where "KEY_RIGHT = 3"
definition KEY_CNT :: nat where "KEY_CNT = 4"
definition DEBOUNCE_TIME :: u32 where "DEBOUNCE_TIME = 10"
definition LONG_PRESS_1S_THRESHOLD :: u32 where "LONG_PRESS_1S_THRESHOLD = 1000"
definition LONG_PRESS_2S_THRESHOLD :: u32 where "LONG_PRESS_2S_THRESHOLD = 2000"
definition LONG_PRESS_3S_THRESHOLD :: u32 where "LONG_PRESS_3S_THRESHOLD = 3000"
definition NO_KEY_PRESS_TIMEOUT :: u32 where "NO_KEY_PRESS_TIMEOUT = 10000"
definition NO_KEY_PRESS_SHORT_TIMEOUT :: u32 where "NO_KEY_PRESS_SHORT_TIMEOUT = 2000"

lemmas key_times = DEBOUNCE_TIME_def LONG_PRESS_1S_THRESHOLD_def LONG_PRESS_2S_THRESHOLD_def LONG_PRESS_3S_THRESHOLD_def
  NO_KEY_PRESS_TIMEOUT_def NO_KEY_PRESS_SHORT_TIMEOUT_def

definition key_entry :: "u16 \<Rightarrow> key_info" where
  "key_entry m = \<lparr>ki_state = STATE_IDLE, press_start_time = 0, debounce_time = 0, key_mask = m, long_pressed = False, step_value = 1,
     short_flag = 0, long_flag = 0\<rparr>"

definition KEY_TABLES :: "key_info list" where
  "KEY_TABLES = [key_entry 0x0080, key_entry 0x0004, key_entry 0x0040, key_entry 0x0008]"

definition key_init :: "key_info list \<Rightarrow> key_info list" where
  "key_init = map (\<lambda>k. k\<lparr>short_flag := 0, long_flag := 0\<rparr>)"

subsection \<open>One key\<close>

text \<open>The second component says that the key was operated.\<close>

definition key_long :: "int \<Rightarrow> key_info \<Rightarrow> key_info \<times> bool" where
  "key_long step k = (k\<lparr>step_value := step, long_flag := 1, long_pressed := True\<rparr>, True)"

definition key_handle :: "u32 \<Rightarrow> bool \<Rightarrow> key_info \<Rightarrow> key_info \<times> bool" where
  "key_handle now is_pressed k =
     (case ki_state k of
        STATE_IDLE \<Rightarrow>
          if is_pressed then (k\<lparr>ki_state := STATE_DEBOUNCE_PRESS, debounce_time := now, long_pressed := False\<rparr>, False) else (k, False)
      | STATE_DEBOUNCE_PRESS \<Rightarrow>
          if \<not> is_pressed then (k\<lparr>ki_state := STATE_IDLE\<rparr>, False)
          else if now - debounce_time k \<ge> DEBOUNCE_TIME then (k\<lparr>ki_state := STATE_PRESSED, press_start_time := now\<rparr>, False)
          else (k, False)
      | STATE_PRESSED \<Rightarrow>
          if \<not> is_pressed then (k\<lparr>ki_state := STATE_DEBOUNCE_RELEASE, debounce_time := now\<rparr>, False)
          else
            let hold_time = now - press_start_time k in
            if hold_time \<ge> LONG_PRESS_3S_THRESHOLD then key_long 100 k
            else if hold_time \<ge> LONG_PRESS_2S_THRESHOLD then key_long 10 k
            else if hold_time \<ge> LONG_PRESS_1S_THRESHOLD then key_long 1 k
            else (k, False)
      | STATE_DEBOUNCE_RELEASE \<Rightarrow>
          if is_pressed then (k\<lparr>ki_state := STATE_PRESSED\<rparr>, False)
          else if now - debounce_time k \<ge> DEBOUNCE_TIME then
            (if \<not> long_pressed k then (k\<lparr>short_flag := 1, step_value := 1, ki_state := STATE_IDLE\<rparr>, True)
             else (k\<lparr>ki_state := STATE_IDLE\<rparr>, False))
          else (k, False))"

subsection \<open>The task\<close>

definition key_pressed :: "u16 \<Rightarrow> key_info \<Rightarrow> bool" where
  "key_pressed key_status k \<longleftrightarrow> key_status AND key_mask k = key_mask k"

definition key_pass :: "u32 \<Rightarrow> u16 \<Rightarrow> key_sys \<Rightarrow> key_sys" where
  "key_pass now key_status st =
     (let rs = map (\<lambda>k. key_handle now (key_pressed key_status k) k) (ks_keys st);
          st = st\<lparr>ks_keys := map fst rs\<rparr>
      in if list_ex snd rs then st\<lparr>ks_last := now, ks_idle := 0\<rparr>
         else if now - ks_last st \<ge> NO_KEY_PRESS_TIMEOUT then st\<lparr>ks_idle := 1\<rparr>
         else if now - ks_last st \<ge> NO_KEY_PRESS_SHORT_TIMEOUT then st\<lparr>ks_idle := 2\<rparr>
         else st)"

fun scan_retry :: "nat \<Rightarrow> tm_bus \<Rightarrow> u16 \<times> tm_bus" where
  "scan_retry retry b =
     (let (v, b) = tm1639_key_scan b in
      case retry of 0 \<Rightarrow> (v, b) | Suc n \<Rightarrow> if v \<noteq> 0xFFFF then (v, b) else scan_retry n b)"

declare scan_retry.simps [simp del]

definition key_task :: "u32 \<Rightarrow> key_sys \<Rightarrow> key_sys" where
  "key_task now st =
     (let (key_status, b) = scan_retry 3 (ks_bus st);
          st = st\<lparr>ks_bus := b\<rparr>
      in if key_status = 0xFFFF then st\<lparr>ks_err := 0x31\<rparr>
         else key_pass now key_status (if key_status AND 0xCC \<noteq> 0 then st\<lparr>ks_err := 0x30\<rparr> else st))"

definition key_get_short_flag :: "nat \<Rightarrow> key_info list \<Rightarrow> u8 \<times> key_info list" where
  "key_get_short_flag key_id ks =
     (if key_id \<ge> KEY_CNT then (0, ks) else (short_flag (ks ! key_id), ks[key_id := (ks ! key_id)\<lparr>short_flag := 0\<rparr>]))"

definition key_get_long_flag :: "nat \<Rightarrow> key_info list \<Rightarrow> u8 \<times> key_info list" where
  "key_get_long_flag key_id ks =
     (if key_id \<ge> KEY_CNT then (0, ks) else (long_flag (ks ! key_id), ks[key_id := (ks ! key_id)\<lparr>long_flag := 0\<rparr>]))"

subsection \<open>A key through a sequence of scans\<close>

fun key_run :: "(u32 \<times> bool) list \<Rightarrow> key_info \<Rightarrow> key_info" where
  "key_run [] k = k"
| "key_run ((t, p) # scans) k = key_run scans (fst (key_handle t p k))"

lemma key_run_append [simp]: "key_run (xs @ ys) k = key_run ys (key_run xs k)"
  by (induction xs k rule: key_run.induct) simp_all

lemma key_handle_mask [simp]: "key_mask (fst (key_handle t p k)) = key_mask k"
  by (simp add: key_handle_def key_long_def Let_def split: button_state.splits)

lemma key_run_mask [simp]: "key_mask (key_run s k) = key_mask k"
  by (induction s k rule: key_run.induct) simp_all

definition key_scans :: "u16 \<Rightarrow> (u32 \<times> u16) list \<Rightarrow> (u32 \<times> bool) list" where
  "key_scans m = map (\<lambda>(t, v). (t, v AND m = m))"

definition key_passes :: "(u32 \<times> u16) list \<Rightarrow> key_sys \<Rightarrow> key_sys" where
  "key_passes = fold (\<lambda>(t, v). key_pass t v)"

lemma key_pass_keys: "ks_keys (key_pass t v st) = map (\<lambda>k. fst (key_handle t (key_pressed v k) k)) (ks_keys st)"
  by (simp add: key_pass_def Let_def comp_def)

lemma key_passes_nth:
  assumes "i < length (ks_keys st)"
  shows "ks_keys (key_passes scans st) ! i = key_run (key_scans (key_mask (ks_keys st ! i)) scans) (ks_keys st ! i)
    \<and> length (ks_keys (key_passes scans st)) = length (ks_keys st)"
  using assms
proof (induction scans arbitrary: st)
  case (Cons s scans)
  obtain t v where s: "s = (t, v)" by (cases s)
  have "i < length (ks_keys (key_pass t v st))" using Cons.prems by (simp add: key_pass_keys)
  then show ?case using Cons.IH [of "key_pass t v st"] Cons.prems
    by (simp add: key_passes_def key_scans_def s key_pass_keys key_pressed_def)
qed (simp add: key_passes_def key_scans_def)

text \<open>What the scans of one phase do.\<close>

abbreviation at :: "bool \<Rightarrow> u32 list \<Rightarrow> (u32 \<times> bool) list" where
  "at p \<equiv> map (\<lambda>t. (t, p))"

lemma key_run_stable: "(\<And>t p. (t, p) \<in> set scans \<Longrightarrow> fst (key_handle t p k) = k) \<Longrightarrow> key_run scans k = k"
  by (induction scans) auto

lemma short_hold: "(h :: u32) < LONG_PRESS_1S_THRESHOLD \<Longrightarrow> \<not> LONG_PRESS_2S_THRESHOLD \<le> h \<and> \<not> LONG_PRESS_3S_THRESHOLD \<le> h"
  by (simp add: key_times word_less_nat_alt word_le_nat_alt)

text \<open>
  A short press: the key is down for at least the debouncing time and not for a second, then up for at least the debouncing time.
  The lists hold the further scans of each phase.
\<close>

definition short_press :: "(u32 \<times> bool) list \<Rightarrow> u32 \<Rightarrow> bool" where
  "short_press scans t3 \<longleftrightarrow> (\<exists>t0 as t1 bs t2 cs.
     scans = at True (t0 # as @ t1 # bs) @ at False (t2 # cs @ [t3])
     \<and> (\<forall>t \<in> set as. t - t0 < DEBOUNCE_TIME) \<and> DEBOUNCE_TIME \<le> t1 - t0 \<and> (\<forall>t \<in> set bs. t - t1 < LONG_PRESS_1S_THRESHOLD)
     \<and> (\<forall>t \<in> set cs. t - t2 < DEBOUNCE_TIME) \<and> DEBOUNCE_TIME \<le> t3 - t2)"

lemma key_run_short_press:
  assumes "ki_state k = STATE_IDLE" and "short_press scans t3"
  shows "\<exists>k'. scans = butlast scans @ [(t3, False)] \<and> k' = key_run (butlast scans) k \<and> short_flag k' = short_flag k \<and> long_flag k' = long_flag k
    \<and> key_handle t3 False k' = (key_run scans k, True)
    \<and> ki_state (key_run scans k) = STATE_IDLE \<and> short_flag (key_run scans k) = 1 \<and> long_flag (key_run scans k) = long_flag k
    \<and> step_value (key_run scans k) = 1"
proof -
  obtain t0 as t1 bs t2 cs where s: "scans = at True (t0 # as @ t1 # bs) @ at False (t2 # cs @ [t3])"
    and t: "\<forall>t \<in> set as. t - t0 < DEBOUNCE_TIME" "DEBOUNCE_TIME \<le> t1 - t0" "\<forall>t \<in> set bs. t - t1 < LONG_PRESS_1S_THRESHOLD"
      "\<forall>t \<in> set cs. t - t2 < DEBOUNCE_TIME" "DEBOUNCE_TIME \<le> t3 - t2"
    using assms(2) by (auto simp: short_press_def)
  define k1 where "k1 = k\<lparr>ki_state := STATE_DEBOUNCE_PRESS, debounce_time := t0, long_pressed := False\<rparr>"
  define k2 where "k2 = k1\<lparr>ki_state := STATE_PRESSED, press_start_time := t1\<rparr>"
  define k3 where "k3 = k2\<lparr>ki_state := STATE_DEBOUNCE_RELEASE, debounce_time := t2\<rparr>"
  have 1: "fst (key_handle t0 True k) = k1" using assms(1) by (simp add: key_handle_def k1_def)
  have as: "key_run (at True as) k1 = k1"
    by (rule key_run_stable) (use t(1) in \<open>auto simp: key_handle_def k1_def\<close>)
  have 2: "fst (key_handle t1 True k1) = k2" using t(2) by (simp add: key_handle_def k1_def k2_def)
  have bs: "key_run (at True bs) k2 = k2"
    by (rule key_run_stable) (use t(3) short_hold in \<open>auto simp: key_handle_def k2_def Let_def\<close>)
  have 3: "fst (key_handle t2 False k2) = k3" by (simp add: key_handle_def k2_def k3_def)
  have cs: "key_run (at False cs) k3 = k3"
    by (rule key_run_stable) (use t(4) in \<open>auto simp: key_handle_def k3_def\<close>)
  have e: "scans = (at True (t0 # as @ t1 # bs) @ at False (t2 # cs)) @ [(t3, False)]" by (simp add: s)
  then have b: "butlast scans = at True (t0 # as @ t1 # bs) @ at False (t2 # cs)" by (simp only: butlast_snoc)
  have k3: "key_run (butlast scans) k = k3" unfolding b by (simp add: 1 as 2 bs 3 cs)
  have 4: "key_handle t3 False k3 = (k3\<lparr>short_flag := 1, step_value := 1, ki_state := STATE_IDLE\<rparr>, True)"
    using t(5) by (simp add: key_handle_def k3_def k2_def k1_def)
  have r: "key_run scans k = k3\<lparr>short_flag := 1, step_value := 1, ki_state := STATE_IDLE\<rparr>"
    unfolding s by (simp add: 1 as 2 bs 3 cs 4)
  have "scans = butlast scans @ [(t3, False)]" unfolding b by (rule e)
  moreover have "short_flag k3 = short_flag k" "long_flag k3 = long_flag k" by (simp_all add: k3_def k2_def k1_def)
  ultimately show ?thesis using k3 4 r by auto
qed

lemma key_pass_acts:
  assumes "i < length (ks_keys st)" and "snd (key_handle t (key_pressed v (ks_keys st ! i)) (ks_keys st ! i))"
  shows "ks_idle (key_pass t v st) = 0 \<and> ks_last (key_pass t v st) = t"
proof -
  have "list_ex snd (map (\<lambda>k. key_handle t (key_pressed v k) k) (ks_keys st))"
    using assms by (auto simp: list_ex_iff intro!: bexI [of _ "ks_keys st ! i"])
  then show ?thesis by (simp add: key_pass_def Let_def)
qed

lemma key_passes_snoc: "key_passes (scans @ [(t, v)]) st = key_pass t v (key_passes scans st)"
  by (simp add: key_passes_def)

text \<open>C30: A short press of a key, seen by any number of scans and with the tick counter wrapping at any moment, raises the short flag of this key exactly at its last scan, whatever
  the other keys do; the flag is reported once and then cleared, no long press is reported and the panel counts as operated at that time.\<close>

theorem short_press_reported_once:
  assumes "i < KEY_CNT" and "length (ks_keys st) = KEY_CNT" and "ki_state (ks_keys st ! i) = STATE_IDLE" and "short_flag (ks_keys st ! i) = 0"
    and "short_press (key_scans (key_mask (ks_keys st ! i)) scans) t3"
  shows "short_flag (ks_keys (key_passes (butlast scans) st) ! i) = 0
    \<and> (let st' = key_passes scans st; (f, ks) = key_get_short_flag i (ks_keys st') in
       f = 1 \<and> fst (key_get_short_flag i ks) = 0 \<and> long_flag (ks ! i) = long_flag (ks_keys st ! i) \<and> ki_state (ks ! i) = STATE_IDLE
       \<and> ks_idle st' = 0 \<and> ks_last st' = t3)"
proof -
  let ?k = "ks_keys st ! i" and ?h = "key_scans (key_mask (ks_keys st ! i))"
  have il: "i < length (ks_keys st)" using assms(1,2) by simp
  have l: "length (ks_keys (key_passes s st)) = KEY_CNT" "ks_keys (key_passes s st) ! i = key_run (?h s) ?k" for s
    using key_passes_nth [OF il, of s] assms(2) by simp_all
  have hb: "?h (butlast scans) = butlast (?h scans)" by (simp add: key_scans_def map_butlast)
  obtain k' where k': "?h scans = butlast (?h scans) @ [(t3, False)]" "k' = key_run (butlast (?h scans)) ?k" "short_flag k' = short_flag ?k"
    "key_handle t3 False k' = (key_run (?h scans) ?k, True)" "ki_state (key_run (?h scans) ?k) = STATE_IDLE"
    "short_flag (key_run (?h scans) ?k) = 1" "long_flag (key_run (?h scans) ?k) = long_flag ?k"
    using key_run_short_press [OF assms(3,5)] by metis
  have ne: "scans \<noteq> []" using k'(1) by (auto simp: key_scans_def)
  obtain t v where tv: "last scans = (t, v)" by (cases "last scans")
  have sc: "scans = butlast scans @ [(t, v)]" using ne tv by (metis append_butlast_last_id)
  have "last (?h scans) = (t3, False)" using k'(1) by (metis last_snoc)
  then have t: "t = t3" "\<not> v AND key_mask ?k = key_mask ?k" using tv ne by (simp_all add: key_scans_def last_map)
  have n: "ks_keys (key_passes (butlast scans) st) ! i = k'" by (simp add: l(2) hb k'(2))
  have "\<not> key_pressed v k'" using t(2) by (simp add: key_pressed_def k'(2))
  then have "snd (key_handle t (key_pressed v k') k')" using k'(4) t(1) by simp
  then have "ks_idle (key_pass t v (key_passes (butlast scans) st)) = 0 \<and> ks_last (key_pass t v (key_passes (butlast scans) st)) = t3"
    using key_pass_acts [of i "key_passes (butlast scans) st" t v] assms(1) l(1) by (simp add: n t(1))
  then have "ks_idle (key_passes scans st) = 0 \<and> ks_last (key_passes scans st) = t3" unfolding key_passes_snoc [symmetric] sc [symmetric] .
  moreover have "short_flag (ks_keys (key_passes (butlast scans) st) ! i) = 0" using l(2) hb k'(2,3) assms(4) by simp
  ultimately show ?thesis
    using k'(5-7) l assms(1) by (simp add: key_get_short_flag_def Let_def)
qed

text \<open>The key UP is down at the ticks 4294967290, 5 and 55 and up at 105 and 155.\<close>

definition sample_bus :: tm_bus where
  "sample_bus = \<lparr>tm_stb = True, tm_clk = True, tm_dio = True, tm_out = True, tm_log = [(True, True, Some True)], tm_in = (\<lambda>_. False), tm_reads = 0\<rparr>"

definition sample_keys :: key_sys where
  "sample_keys = \<lparr>ks_keys = KEY_TABLES, ks_last = 0, ks_idle = 1, ks_err = 0x30, ks_bus = sample_bus\<rparr>"

definition sample_scans :: "(u32 \<times> u16) list" where
  "sample_scans = [(4294967290, 0x80), (5, 0x84), (55, 0x84), (105, 0), (155, 0)]"

theorem short_press_reported_once_witness:
  "fst (key_get_short_flag KEY_UP (ks_keys (key_passes sample_scans sample_keys))) = 1 \<and> ks_last (key_passes sample_scans sample_keys) = 155"
proof -
  have k: "ki_state (ks_keys sample_keys ! KEY_UP) = STATE_IDLE" "short_flag (ks_keys sample_keys ! KEY_UP) = 0" "key_mask (ks_keys sample_keys ! KEY_UP) = 0x80"
    "length (ks_keys sample_keys) = KEY_CNT" "KEY_UP < KEY_CNT"
    by (simp_all add: sample_keys_def KEY_TABLES_def key_entry_def KEY_UP_def KEY_CNT_def)
  have "key_scans 0x80 sample_scans = at True (4294967290 # [] @ 5 # [55]) @ at False (105 # [] @ [155])"
    by (simp add: key_scans_def sample_scans_def)
  then have "short_press (key_scans 0x80 sample_scans) 155"
    unfolding short_press_def by (intro exI) (rule conjI, assumption, simp add: key_times)
  then have "short_press (key_scans (key_mask (ks_keys sample_keys ! KEY_UP)) sample_scans) 155" by (simp only: k(3))
  then show ?thesis
    using short_press_reported_once [OF k(5,4,1,2), of sample_scans 155] by (auto simp: Let_def split_beta)
qed

subsection \<open>Only a press that was held raises a flag\<close>

text \<open>
  The history of a key: it was down at two scans at least the debouncing time apart and at all scans between them. What the state machine
  knows of the history in each of its states.
\<close>

definition was_down :: "(u32 \<times> bool) list \<Rightarrow> bool" where
  "was_down h \<longleftrightarrow> (\<exists>xs t0 as t1 ys. h = xs @ at True (t0 # as @ [t1]) @ ys \<and> DEBOUNCE_TIME \<le> t1 - t0)"

definition was_released :: "(u32 \<times> bool) list \<Rightarrow> bool" where
  "was_released h \<longleftrightarrow> (\<exists>xs t0 as t1. h = xs @ at False (t0 # as @ [t1]) \<and> was_down xs \<and> DEBOUNCE_TIME \<le> t1 - t0)"

fun key_knows :: "(u32 \<times> bool) list \<Rightarrow> key_info \<Rightarrow> bool" where
  "key_knows h k =
     (case ki_state k of
        STATE_IDLE \<Rightarrow> True
      | STATE_DEBOUNCE_PRESS \<Rightarrow> (\<exists>xs as. h = xs @ at True (debounce_time k # as))
      | STATE_PRESSED \<Rightarrow> was_down h
      | STATE_DEBOUNCE_RELEASE \<Rightarrow> (\<exists>xs as. h = xs @ at False (debounce_time k # as) \<and> was_down xs))"

lemma was_down_append: "was_down h \<Longrightarrow> was_down (h @ ys)"
  unfolding was_down_def by (metis append.assoc)

lemma key_knows_step:
  assumes "key_knows h k"
  shows "key_knows (h @ [(t, p)]) (fst (key_handle t p k))
    \<and> (short_flag (fst (key_handle t p k)) \<noteq> short_flag k \<longrightarrow> was_released (h @ [(t, p)]))
    \<and> (long_flag (fst (key_handle t p k)) \<noteq> long_flag k \<longrightarrow> was_down h)"
proof (cases "ki_state k")
  case STATE_IDLE
  then show ?thesis by (cases p) (force simp: key_handle_def)+
next
  case STATE_DEBOUNCE_PRESS
  then obtain xs as where h: "h = xs @ at True (debounce_time k # as)" using assms by auto
  show ?thesis
  proof (cases p)
    case True
    then have e: "h @ [(t, p)] = xs @ at True (debounce_time k # as @ [t])" by (simp add: h)
    show ?thesis
    proof (cases "DEBOUNCE_TIME \<le> t - debounce_time k")
      case d: True
      then have "was_down (h @ [(t, p)])" unfolding e was_down_def by (metis append_Nil2)
      then show ?thesis using STATE_DEBOUNCE_PRESS True d by (simp add: key_handle_def)
    next
      case False
      then show ?thesis using STATE_DEBOUNCE_PRESS True e by (auto simp: key_handle_def intro!: exI [of _ xs] exI [of _ "as @ [t]"])
    qed
  qed (use STATE_DEBOUNCE_PRESS in \<open>simp add: key_handle_def\<close>)
next
  case STATE_PRESSED
  then have w: "was_down h" using assms by simp
  then show ?thesis using STATE_PRESSED was_down_append [OF w, of "[(t, p)]"]
    by (auto simp: key_handle_def key_long_def Let_def intro!: exI [of _ h])
next
  case STATE_DEBOUNCE_RELEASE
  then obtain xs as where h: "h = xs @ at False (debounce_time k # as)" "was_down xs" using assms by auto
  show ?thesis
  proof (cases p)
    case False
    then have e: "h @ [(t, p)] = xs @ at False (debounce_time k # as @ [t])" by (simp add: h)
    show ?thesis
    proof (cases "DEBOUNCE_TIME \<le> t - debounce_time k")
      case True
      then have "was_released (h @ [(t, p)])" unfolding e was_released_def using h(2) by blast
      then show ?thesis using STATE_DEBOUNCE_RELEASE False True by (simp add: key_handle_def)
    next
      case d: False
      then show ?thesis using STATE_DEBOUNCE_RELEASE False e h(2) by (auto simp: key_handle_def intro!: exI [of _ xs] exI [of _ "as @ [t]"])
    qed
  next
    case True
    then show ?thesis using STATE_DEBOUNCE_RELEASE was_down_append [OF h(2)] by (simp add: key_handle_def h(1))
  qed
qed

lemma key_knows_run: "ki_state k = STATE_IDLE \<Longrightarrow> key_knows h (key_run h k)"
proof (induction h rule: rev_induct)
  case (snoc s h)
  obtain t p where s: "s = (t, p)" by (cases s)
  then show ?case using key_knows_step [OF snoc.IH [OF snoc.prems], of t p] by simp
qed simp

text \<open>Contact bounce is never reported: whatever the scans of an idle key are, a scan raises its short flag only if the key was up at this scan and at all scans of
  at least the debouncing time before, and before that was down at all scans over at least the debouncing time; and its long flag only after
  such a press.\<close>

theorem flags_need_debounced_press:
  assumes "ki_state k = STATE_IDLE" and "k' = key_run h k" and "k'' = key_run (h @ [(t, p)]) k"
  shows "(short_flag k'' \<noteq> short_flag k' \<longrightarrow> was_released (h @ [(t, p)])) \<and> (long_flag k'' \<noteq> long_flag k' \<longrightarrow> was_down h)"
  using key_knows_step [OF key_knows_run [OF assms(1), of h], of t p] by (simp add: assms(2,3))

theorem flags_need_debounced_press_witness:
  "was_released (key_scans 0x80 sample_scans)"
proof -
  let ?h = "[(4294967290, True), (5, True), (55, True), (105, False)] :: (u32 \<times> bool) list" and ?k = "key_entry 0x80"
  have "key_scans 0x80 sample_scans = ?h @ [(155, False)]" by (simp add: key_scans_def sample_scans_def)
  moreover have "short_flag (key_run ?h ?k) = 0" "short_flag (key_run (?h @ [(155, False)]) ?k) = 1" "ki_state ?k = STATE_IDLE"
    by (simp_all add: key_handle_def key_entry_def key_times key_long_def Let_def)
  ultimately show ?thesis using flags_need_debounced_press [of ?k _ ?h _ 155 False] by auto
qed

subsection \<open>The task over the bus\<close>

lemma scan_value:
  assumes "tm_ok True b" and "tm_stb b" and "\<forall>i < 16. bit v i \<longleftrightarrow> tm_in b (tm_reads b + i)"
  shows "fst (tm1639_key_scan b) = v"
proof (rule bit_word_eqI)
  fix i assume "i < LENGTH(16)"
  moreover obtain w b' where "tm1639_key_scan b = (w, b')" by (cases "tm1639_key_scan b")
  ultimately show "bit (fst (tm1639_key_scan b)) i = bit v i" using key_scan_reads_chip [OF assms(1,2)] assms(3) by simp
qed

text \<open>A pass of the task over the word that the chip drives.\<close>

lemma key_task_pass:
  assumes "tm_ok True (ks_bus st)" and "tm_stb (ks_bus st)" and "\<forall>i < 16. bit v i \<longleftrightarrow> tm_in (ks_bus st) (tm_reads (ks_bus st) + i)" and "v \<noteq> 0xFFFF"
  shows "ks_keys (key_task now st) = ks_keys (key_pass now v st) \<and> ks_idle (key_task now st) = ks_idle (key_pass now v st)
    \<and> ks_last (key_task now st) = ks_last (key_pass now v st) \<and> tm_reads (ks_bus (key_task now st)) = tm_reads (ks_bus st) + 16"
proof -
  obtain b where b: "tm1639_key_scan (ks_bus st) = (v, b)" using scan_value [OF assms(1-3)] by (cases "tm1639_key_scan (ks_bus st)") simp
  have "scan_retry 3 (ks_bus st) = (v, b)" using assms(4) by (subst scan_retry.simps) (simp add: b numeral_eq_Suc)
  moreover have "tm_reads b = tm_reads (ks_bus st) + 16" using key_scan_reads_chip [OF assms(1,2) b] by simp
  ultimately show ?thesis using assms(4) by (simp add: key_task_def key_pass_def Let_def)
qed

lemma scan_retry_fails:
  assumes "tm_ok True b" and "tm_stb b" and "tm_in b = (\<lambda>_. True)"
  shows "fst (scan_retry n b) = 0xFFFF \<and> tm_reads (snd (scan_retry n b)) = tm_reads b + 16 * Suc n"
  using assms
proof (induction n arbitrary: b)
  case 0
  obtain v b' where b': "tm1639_key_scan b = (v, b')" by (cases "tm1639_key_scan b")
  have "v = - 1" using key_scan_reads_chip [OF 0(1,2) b'] by (intro bit_word_eqI) (simp add: "0.prems"(3))
  then show ?case using key_scan_reads_chip [OF 0(1,2) b'] b' by (simp add: scan_retry.simps)
next
  case (Suc n)
  obtain v b' where b': "tm1639_key_scan b = (v, b')" by (cases "tm1639_key_scan b")
  have "v = - 1" using key_scan_reads_chip [OF Suc.prems(1,2) b'] by (intro bit_word_eqI) (simp add: Suc.prems(3))
  then show ?case using key_scan_reads_chip [OF Suc.prems(1,2) b'] Suc.IH [of b'] Suc.prems(3) b'
    by (subst (1 2) scan_retry.simps) simp
qed

text \<open>A chip that does not answer is tried four times and then reported; the keys keep their state.\<close>

lemma key_task_reports_failure:
  assumes "tm_ok True (ks_bus st)" and "tm_stb (ks_bus st)" and "tm_in (ks_bus st) = (\<lambda>_. True)"
  shows "ks_err (key_task now st) = 0x31 \<and> ks_keys (key_task now st) = ks_keys st \<and> tm_reads (ks_bus (key_task now st)) = tm_reads (ks_bus st) + 64"
  using scan_retry_fails [OF assms, of 3] by (simp add: key_task_def split_beta Let_def)

end
