(* ===== verification/Ui.thy ===== *)
theory Ui
  imports Key Serial
begin

text \<open>
  The menus of the panel: the navigation \<open>menu_navigate\<close> of \<open>src/app/ui/ui.c\<close> and the pages of \<open>src/app/ui/display.c\<close> that change parameters.

  The state holds the structure \<open>ui\<close>, the static variables of the navigation, the keys, the parameters that the pages edit
  and the log of what the pages have done with them. The drawing on the OLED is left out. The menu arrays have
  twenty elements of which the ones behind the initialised items are zero: their number of parameters is 0 and their
  function is the null pointer, whose call is \<open>None\<close>. Conversions between floating-point parameters and displayed integers and
  the default parameters are the arguments \<open>ui_env\<close>. An \<open>int\<close> that overflows wraps.
\<close>

subsection \<open>State\<close>

datatype menu_mode = EDIT_MODE | GUIDE_MODE

datatype page_fn = Oled_show_menu | Oled_show_info | Do_temp_mode | Do_temp_units | Do_relay_mode | Do_aim_device | Do_fact_default
  | Do_slope | Do_emissivity | Do_transmissivity_low | Do_transmissivity_high | Do_temp_filt_size
  | Do_baud_rate | Do_multi_addr | Do_local_ip | Do_eth_gw | Do_eth_nm | Do_eth_port
  | Do_analog_mode | Do_analog_out_low | Do_analog_out_high

datatype ui_group = PARA_TEMP | PARA_ALARM | PARA_VIDEO | PARA_FILTER | PARA_PORT | PARA_DEV | PARA_NET | PARA_ANA

datatype ui_effect = Saved ui_group | Restored | Port_init

record 'f ui_para =
  up_temp_mode :: u32
  up_unit :: u8
  up_relay_mode :: u32
  up_video :: int
  up_slope :: 'f
  up_emissivity :: 'f
  up_trans_nb :: 'f
  up_trans_wb :: 'f
  up_filt_size :: u16
  up_baudrate :: u32
  up_addr :: u8
  up_ip :: buf
  up_gateway :: buf
  up_mask :: buf
  up_port :: u32
  up_ana_type :: u8
  up_lower :: 'f
  up_upper :: 'f
  up_temp_min :: 'f
  up_temp_max :: 'f
  up_panel_lock :: u8

record 'f ui_env =
  ue_milli :: "'f \<Rightarrow> int"
  ue_of_milli :: "int \<Rightarrow> 'f"
  ue_int :: "'f \<Rightarrow> int"
  ue_of_int :: "int \<Rightarrow> 'f"
  ue_default :: "'f ui_para \<Rightarrow> 'f ui_para"

record 'f ui_sys =
  main_page_id :: int
  sub_page_id :: int
  dis_value :: int
  set_value :: int
  current_para_index :: int
  current_para_num :: int
  cfg_states :: bool
  set_states :: bool
  ip_cfg_disvalue :: "u8 list"
  is_blinking :: bool
  us_current :: int
  us_mode :: menu_mode
  us_is_menu :: bool
  us_para_index :: "int \<Rightarrow> int \<Rightarrow> int"
  us_ip_static :: "page_fn \<Rightarrow> u32 list"
  us_keys :: "key_info list"
  us_idle :: u8
  us_para :: "'f ui_para"
  us_log :: "ui_effect list"

subsection \<open>The menus\<close>

text \<open>A menu is the list of the functions and parameter numbers of its items.\<close>

definition menus :: "(page_fn \<times> int) list list" where
  "menus =
     [replicate 9 (Oled_show_info, 0),
      [(Do_temp_mode, 1), (Do_temp_units, 1), (Do_relay_mode, 1), (Do_aim_device, 1), (Do_fact_default, 1)],
      [(Do_slope, 1), (Do_emissivity, 1), (Do_transmissivity_low, 1), (Do_transmissivity_high, 1), (Do_temp_filt_size, 1)],
      [(Do_baud_rate, 1), (Do_multi_addr, 1), (Do_local_ip, 4), (Do_eth_gw, 4), (Do_eth_nm, 4), (Do_eth_port, 1)],
      [(Do_analog_mode, 1), (Do_analog_out_low, 1), (Do_analog_out_high, 1)]]"

definition ROOT_COUNT :: int where "ROOT_COUNT = 5"
definition MENU_SIZE :: int where "MENU_SIZE = 20"

definition son_count :: "int \<Rightarrow> int" where
  "son_count m = int (length (menus ! nat m))"

text \<open>The item \<open>s\<close> of the menu under the root item \<open>m\<close>; outside of the arrays the access is undefined.\<close>

definition item_ok :: "int \<Rightarrow> int \<Rightarrow> bool" where
  "item_ok m s \<longleftrightarrow> 0 \<le> m \<and> m < ROOT_COUNT \<and> 0 \<le> s \<and> s < MENU_SIZE"

definition item_para_num :: "int \<Rightarrow> int \<Rightarrow> int" where
  "item_para_num m s = (if s < son_count m then snd (menus ! nat m ! nat s) else 0)"

definition item_subs :: "int \<Rightarrow> int \<Rightarrow> page_fn option" where
  "item_subs m s = (if s < son_count m then Some (fst (menus ! nat m ! nat s)) else None)"

subsection \<open>Pages with one value\<close>

definition s32 :: "int \<Rightarrow> int" where "s32 v = sint (word_of_int v :: u32)"
definition s16 :: "int \<Rightarrow> int" where "s16 v = sint (word_of_int v :: u16)"

text \<open>
  A page: while it is not edited the value is loaded from the parameter; a step of the keys changes it; a confirmation stores it.
  The value may index a table of texts, \<open>shown\<close> says that it is inside.
\<close>

definition edit_page ::
  "(int \<Rightarrow> bool) \<Rightarrow> int \<Rightarrow> (int \<Rightarrow> int) \<Rightarrow> ('f ui_para \<Rightarrow> int \<Rightarrow> 'f ui_para) \<Rightarrow> ('f ui_para \<Rightarrow> ui_effect list) \<Rightarrow> 'f ui_sys \<Rightarrow> 'f ui_sys option" where
  "edit_page shown load adjust store effects st =
     (let st = (if \<not> is_blinking st then st\<lparr>dis_value := load\<rparr> else st) in
      if \<not> shown (dis_value st) then None
      else
        let st = (if set_states st then st\<lparr>set_states := False, dis_value := adjust (s32 (dis_value st + set_value st))\<rparr> else st) in
        if cfg_states st then
          (if shown (dis_value st)
           then Some (st\<lparr>cfg_states := False, us_para := store (us_para st) (dis_value st), us_log := us_log st @ effects (us_para st)\<rparr>)
           else None)
        else Some st)"

definition wrap_value :: "int \<Rightarrow> int \<Rightarrow> int" where
  "wrap_value hi v = (let v = (if v < 0 then hi else v) in if v > hi then 0 else v)"

definition clamp_value :: "int \<Rightarrow> int \<Rightarrow> int \<Rightarrow> int" where
  "clamp_value lo hi v = (if v < lo then lo else if v > hi then hi else v)"

definition any_value :: "int \<Rightarrow> bool" where "any_value v = True"
definition index_3 :: "int \<Rightarrow> bool" where "index_3 v \<longleftrightarrow> 0 \<le> v \<and> v \<le> 2"

definition do_temp_mode :: "'f ui_sys \<Rightarrow> 'f ui_sys option" where
  "do_temp_mode st = edit_page any_value (if up_temp_mode (us_para st) = 2 then 1 else 0)
     (\<lambda>v. if v < 0 then 1 else if v > 1 then 0 else v)
     (\<lambda>p v. if up_temp_mode p = 1 \<or> up_temp_mode p = 2 then p\<lparr>up_temp_mode := (if v \<noteq> 0 then 2 else 1)\<rparr> else p)
     (\<lambda>p. if up_temp_mode p = 1 \<or> up_temp_mode p = 2 then [Saved PARA_TEMP] else []) st"

definition unit_chars :: "u8 list" where "unit_chars = [67, 70, 75]"

definition do_temp_units :: "'f ui_sys \<Rightarrow> 'f ui_sys option" where
  "do_temp_units st = edit_page index_3 (if up_unit (us_para st) = 67 then 0 else if up_unit (us_para st) = 70 then 1 else 2)
     (wrap_value 2) (\<lambda>p v. p\<lparr>up_unit := unit_chars ! nat v\<rparr>) (\<lambda>_. [Saved PARA_TEMP]) st"

definition do_relay_mode :: "'f ui_sys \<Rightarrow> 'f ui_sys option" where
  "do_relay_mode st = edit_page any_value (sint (up_relay_mode (us_para st)))
     (wrap_value 9) (\<lambda>p v. p\<lparr>up_relay_mode := word_of_int v\<rparr>) (\<lambda>_. [Saved PARA_ALARM]) st"

definition do_aim_device :: "'f ui_sys \<Rightarrow> 'f ui_sys option" where
  "do_aim_device st = edit_page any_value (up_video (us_para st))
     (wrap_value 1) (\<lambda>p v. p\<lparr>up_video := v\<rparr>) (\<lambda>_. [Saved PARA_VIDEO]) st"

text \<open>The defaults are restored whatever the displayed answer is.\<close>

definition do_fact_default :: "'f ui_env \<Rightarrow> 'f ui_sys \<Rightarrow> 'f ui_sys option" where
  "do_fact_default env st = edit_page any_value 0 (wrap_value 1) (\<lambda>p v. ue_default env p) (\<lambda>_. [Restored]) st"

definition do_slope :: "'f ui_env \<Rightarrow> 'f ui_sys \<Rightarrow> 'f ui_sys option" where
  "do_slope env st = edit_page any_value (s16 (ue_milli env (up_slope (us_para st))))
     (clamp_value 100 1150) (\<lambda>p v. p\<lparr>up_slope := ue_of_milli env v\<rparr>) (\<lambda>_. [Saved PARA_TEMP]) st"

definition do_emissivity :: "'f ui_env \<Rightarrow> 'f ui_sys \<Rightarrow> 'f ui_sys option" where
  "do_emissivity env st = edit_page any_value (s16 (ue_milli env (up_emissivity (us_para st))))
     (clamp_value 100 1150) (\<lambda>p v. p\<lparr>up_emissivity := ue_of_milli env v\<rparr>) (\<lambda>_. [Saved PARA_TEMP]) st"

definition do_transmissivity_low :: "'f ui_env \<Rightarrow> 'f ui_sys \<Rightarrow> 'f ui_sys option" where
  "do_transmissivity_low env st = edit_page any_value (s16 (ue_milli env (up_trans_nb (us_para st))))
     (clamp_value 100 1500) (\<lambda>p v. p\<lparr>up_trans_nb := ue_of_milli env v\<rparr>) (\<lambda>_. [Saved PARA_TEMP]) st"

definition do_transmissivity_high :: "'f ui_env \<Rightarrow> 'f ui_sys \<Rightarrow> 'f ui_sys option" where
  "do_transmissivity_high env st = edit_page any_value (s16 (ue_milli env (up_trans_wb (us_para st))))
     (clamp_value 100 1500) (\<lambda>p v. p\<lparr>up_trans_wb := ue_of_milli env v\<rparr>) (\<lambda>_. [Saved PARA_TEMP]) st"

definition do_temp_filt_size :: "'f ui_sys \<Rightarrow> 'f ui_sys option" where
  "do_temp_filt_size st = edit_page any_value (sint (up_filt_size (us_para st)))
     (clamp_value 1 150) (\<lambda>p v. p\<lparr>up_filt_size := word_of_int v\<rparr>) (\<lambda>_. [Saved PARA_FILTER]) st"

definition ana_types :: "u8 list" where "ana_types = [48, 52, 53]"

definition do_analog_mode :: "'f ui_sys \<Rightarrow> 'f ui_sys option" where
  "do_analog_mode st = edit_page index_3 (if up_ana_type (us_para st) = 48 then 0 else if up_ana_type (us_para st) = 52 then 1 else 2)
     (wrap_value 2) (\<lambda>p v. p\<lparr>up_ana_type := ana_types ! nat v\<rparr>) (\<lambda>_. [Saved PARA_ANA]) st"

definition ana_limits :: "'f ui_env \<Rightarrow> 'f ui_para \<Rightarrow> int \<Rightarrow> int" where
  "ana_limits env p = clamp_value (s16 (ue_int env (up_temp_min p))) (s16 (ue_int env (up_temp_max p)))"

definition do_analog_out_low :: "'f ui_env \<Rightarrow> 'f ui_sys \<Rightarrow> 'f ui_sys option" where
  "do_analog_out_low env st = edit_page any_value (s16 (ue_int env (up_lower (us_para st))))
     (ana_limits env (us_para st)) (\<lambda>p v. p\<lparr>up_lower := ue_of_int env v\<rparr>) (\<lambda>_. [Saved PARA_ANA]) st"

definition do_analog_out_high :: "'f ui_env \<Rightarrow> 'f ui_sys \<Rightarrow> 'f ui_sys option" where
  "do_analog_out_high env st = edit_page any_value (s16 (ue_int env (up_upper (us_para st))))
     (ana_limits env (us_para st)) (\<lambda>p v. p\<lparr>up_upper := ue_of_int env v\<rparr>) (\<lambda>_. [Saved PARA_ANA]) st"

definition do_multi_addr :: "'f ui_sys \<Rightarrow> 'f ui_sys option" where
  "do_multi_addr st = edit_page any_value (uint (up_addr (us_para st)))
     (clamp_value 0 32) (\<lambda>p v. p\<lparr>up_addr := word_of_int v\<rparr>) (\<lambda>_. [Saved PARA_DEV]) st"

definition set_baudrate :: "int \<Rightarrow> u32" where
  "set_baudrate v = (let b = word_of_int (v * 100) :: u32 in if is_valid_baudrate (sint b) then b else 115200)"

definition do_baud_rate :: "'f ui_sys \<Rightarrow> 'f ui_sys option" where
  "do_baud_rate st = edit_page any_value (s16 (uint (up_baudrate (us_para st) div 100)))
     (clamp_value 3 1152) (\<lambda>p v. p\<lparr>up_baudrate := set_baudrate v\<rparr>) (\<lambda>_. [Saved PARA_PORT, Port_init]) st"

definition do_eth_port :: "'f ui_sys \<Rightarrow> 'f ui_sys option" where
  "do_eth_port st = edit_page any_value (sint (up_port (us_para st)))
     (wrap_value 65535) (\<lambda>p v. p\<lparr>up_port := word_of_int v\<rparr>) (\<lambda>_. [Saved PARA_NET]) st"

subsection \<open>Pages with an IP address\<close>

text \<open>
  \<open>sscanf\<close> with \<open>%3u.%3u.%3u.%3u\<close>: white space, an optional sign and digits, at most three characters of them; a field that does not match
  ends the conversion and leaves the rest of the values. \<open>sprintf\<close> with \<open>%03u\<close> writes three digits of a byte.
\<close>

fun take_digits :: "nat \<Rightarrow> buf \<Rightarrow> buf \<times> buf" where
  "take_digits (Suc n) (c # cs) = (if 48 \<le> c \<and> c \<le> 57 then (let (ds, r) = take_digits n cs in (c # ds, r)) else ([], c # cs))"
| "take_digits _ cs = ([], cs)"

definition digits_value :: "buf \<Rightarrow> u32" where
  "digits_value ds = fold (\<lambda>c v. v * 10 + ucast (c - 48)) ds 0"

definition scan_u3 :: "buf \<Rightarrow> (u32 \<times> buf) option" where
  "scan_u3 t =
     (let t = dropWhile (\<lambda>c. c = 32 \<or> 9 \<le> c \<and> c \<le> 13) t;
          (neg, n, t) = (case t of c # cs \<Rightarrow> if c = 45 then (True, 2, cs) else if c = 43 then (False, 2, cs) else (False, 3, t) | [] \<Rightarrow> (False, 3, t));
          (ds, r) = take_digits n t
      in if ds = [] then None else Some (if neg then - digits_value ds else digits_value ds, r))"

fun scan_fields :: "nat \<Rightarrow> nat \<Rightarrow> buf \<Rightarrow> u32 list \<Rightarrow> u32 list" where
  "scan_fields 0 i t vs = vs"
| "scan_fields (Suc n) i t vs =
     (case scan_u3 t of
        None \<Rightarrow> vs
      | Some (v, r) \<Rightarrow> let vs = vs[i := v] in case r of c # cs \<Rightarrow> if c = 46 then scan_fields n (Suc i) cs vs else vs | [] \<Rightarrow> vs)"

definition scan_ip :: "buf \<Rightarrow> u32 list \<Rightarrow> u32 list" where
  "scan_ip t vs = scan_fields 4 0 t vs"

definition fmt_03u :: "u8 \<Rightarrow> buf" where
  "fmt_03u v = [48 + v div 100, 48 + v div 10 mod 10, 48 + v mod 10]"

definition ip_text :: "u8 list \<Rightarrow> buf" where
  "ip_text vs = fmt_03u (vs ! 0) @ [46] @ fmt_03u (vs ! 1) @ [46] @ fmt_03u (vs ! 2) @ [46] @ fmt_03u (vs ! 3) @ [0]"

definition ip_page :: "page_fn \<Rightarrow> ('f ui_para \<Rightarrow> buf) \<Rightarrow> (buf \<Rightarrow> 'f ui_para \<Rightarrow> 'f ui_para) \<Rightarrow> 'f ui_sys \<Rightarrow> 'f ui_sys option" where
  "ip_page fn get put st =
     (let vs = (if \<not> is_blinking st then scan_ip (get (us_para st)) (us_ip_static st fn) else us_ip_static st fn);
          st = st\<lparr>us_ip_static := (us_ip_static st)(fn := vs), ip_cfg_disvalue := map ucast vs\<rparr>
      in do {
        st \<leftarrow> (if set_states st then
                (if 0 \<le> current_para_index st \<and> current_para_index st < 4 then
                   let i = nat (current_para_index st);
                       v = word_of_int (uint (ip_cfg_disvalue st ! i) + set_value st) :: u8
                   in Some (st\<lparr>ip_cfg_disvalue := (ip_cfg_disvalue st)[i := v], us_ip_static := (us_ip_static st)(fn := (us_ip_static st fn)[i := ucast v])\<rparr>)
                 else None)
              else Some st);
        let st = (if cfg_states st then st\<lparr>us_para := put (ip_text (ip_cfg_disvalue st)) (us_para st), us_log := us_log st @ [Saved PARA_NET]\<rparr> else st);
        Some (st\<lparr>set_states := False, cfg_states := False\<rparr>) })"

definition do_local_ip :: "'f ui_sys \<Rightarrow> 'f ui_sys option" where
  "do_local_ip = ip_page Do_local_ip up_ip (\<lambda>t p. p\<lparr>up_ip := t\<rparr>)"

definition do_eth_gw :: "'f ui_sys \<Rightarrow> 'f ui_sys option" where
  "do_eth_gw = ip_page Do_eth_gw up_gateway (\<lambda>t p. p\<lparr>up_gateway := t\<rparr>)"

definition do_eth_nm :: "'f ui_sys \<Rightarrow> 'f ui_sys option" where
  "do_eth_nm = ip_page Do_eth_nm up_mask (\<lambda>t p. p\<lparr>up_mask := t\<rparr>)"

definition call_page :: "'f ui_env \<Rightarrow> page_fn \<Rightarrow> 'f ui_sys \<Rightarrow> 'f ui_sys option" where
  "call_page env fn =
     (case fn of Oled_show_menu \<Rightarrow> Some | Oled_show_info \<Rightarrow> Some
      | Do_temp_mode \<Rightarrow> do_temp_mode | Do_temp_units \<Rightarrow> do_temp_units | Do_relay_mode \<Rightarrow> do_relay_mode | Do_aim_device \<Rightarrow> do_aim_device
      | Do_fact_default \<Rightarrow> do_fact_default env | Do_slope \<Rightarrow> do_slope env | Do_emissivity \<Rightarrow> do_emissivity env
      | Do_transmissivity_low \<Rightarrow> do_transmissivity_low env | Do_transmissivity_high \<Rightarrow> do_transmissivity_high env
      | Do_temp_filt_size \<Rightarrow> do_temp_filt_size | Do_baud_rate \<Rightarrow> do_baud_rate | Do_multi_addr \<Rightarrow> do_multi_addr
      | Do_local_ip \<Rightarrow> do_local_ip | Do_eth_gw \<Rightarrow> do_eth_gw | Do_eth_nm \<Rightarrow> do_eth_nm | Do_eth_port \<Rightarrow> do_eth_port
      | Do_analog_mode \<Rightarrow> do_analog_mode | Do_analog_out_low \<Rightarrow> do_analog_out_low env | Do_analog_out_high \<Rightarrow> do_analog_out_high env)"

text \<open>The call of the function of the selected item.\<close>

definition call_item :: "'f ui_env \<Rightarrow> 'f ui_sys \<Rightarrow> 'f ui_sys option" where
  "call_item env st =
     (if item_ok (us_current st) (sub_page_id st)
      then (case item_subs (us_current st) (sub_page_id st) of None \<Rightarrow> None | Some fn \<Rightarrow> call_page env fn st)
      else None)"

subsection \<open>Navigation\<close>

definition take_short :: "nat \<Rightarrow> 'f ui_sys \<Rightarrow> bool \<times> 'f ui_sys" where
  "take_short key st = (let (f, ks) = key_get_short_flag key (us_keys st) in (f \<noteq> 0, st\<lparr>us_keys := ks\<rparr>))"

definition take_long :: "nat \<Rightarrow> 'f ui_sys \<Rightarrow> bool \<times> 'f ui_sys" where
  "take_long key st = (let (f, ks) = key_get_long_flag key (us_keys st) in (f \<noteq> 0, st\<lparr>us_keys := ks\<rparr>))"

text \<open>The current menu becomes the root item of the main page, its first sub page is selected.\<close>

definition enter_main :: "int \<Rightarrow> 'f ui_sys \<Rightarrow> 'f ui_sys" where
  "enter_main m st = st\<lparr>main_page_id := m, sub_page_id := 0, us_current := m\<rparr>"

definition nav_idle :: "'f ui_sys \<Rightarrow> 'f ui_sys" where
  "nav_idle st =
     (if us_idle st = 1 then (enter_main 0 st)\<lparr>is_blinking := False, us_is_menu := False, us_mode := GUIDE_MODE\<rparr>
      else if us_idle st = 2 \<and> us_is_menu st
      then (enter_main (main_page_id st smod ROOT_COUNT) st)\<lparr>us_is_menu := False, is_blinking := False\<rparr>
      else st)"

definition guide_right :: "'f ui_sys \<Rightarrow> 'f ui_sys" where
  "guide_right st =
     (let (f, st) = take_short KEY_RIGHT st in
      if f then (enter_main ((main_page_id st + 1) smod ROOT_COUNT) st)\<lparr>us_is_menu := True, is_blinking := False\<rparr> else st)"

definition guide_down :: "int \<Rightarrow> 'f ui_sys \<Rightarrow> 'f ui_sys" where
  "guide_down count st =
     (let (f, st) = take_short KEY_DOWN st in
      if f then
        let st = (if sub_page_id st < count - 1 then st\<lparr>sub_page_id := sub_page_id st + 1\<rparr> else st\<lparr>sub_page_id := 0\<rparr>)
        in if us_is_menu st then (enter_main (main_page_id st smod ROOT_COUNT) st)\<lparr>us_is_menu := False\<rparr> else st
      else st)"

definition guide_up :: "int \<Rightarrow> 'f ui_sys \<Rightarrow> 'f ui_sys" where
  "guide_up count st =
     (let (f, st) = take_short KEY_UP st in
      if f then
        (if sub_page_id st > 0 then st\<lparr>sub_page_id := sub_page_id st - 1\<rparr> else if count > 0 then st\<lparr>sub_page_id := count - 1\<rparr> else st)
      else st)"

definition guide_set :: "'f ui_env \<Rightarrow> 'f ui_sys \<Rightarrow> 'f ui_sys option" where
  "guide_set env st =
     (let (f, st) = take_short KEY_SET st in
      if f then do {
        st \<leftarrow> (if us_is_menu st then Some ((enter_main (main_page_id st smod ROOT_COUNT) st)\<lparr>us_is_menu := False\<rparr>)
              else if up_panel_lock (us_para st) \<noteq> 85 then Some st
              else if current_para_num st > 0 then do {
                st \<leftarrow> call_item env (st\<lparr>us_mode := EDIT_MODE\<rparr>);
                Some (if main_page_id st \<noteq> 0 then st\<lparr>is_blinking := True\<rparr> else st) }
              else Some st);
        Some (st\<lparr>us_keys := key_init (us_keys st)\<rparr>) }
      else Some st)"

definition guide_pass :: "'f ui_env \<Rightarrow> int \<Rightarrow> 'f ui_sys \<Rightarrow> 'f ui_sys option" where
  "guide_pass env count st =
     (if item_ok (us_current st) (sub_page_id st) then
        let st = st\<lparr>current_para_num := item_para_num (us_current st) (sub_page_id st),
              us_para_index := (us_para_index st)(us_current st := (us_para_index st (us_current st))(sub_page_id st := 0)),
              current_para_index := 0\<rparr>
        in guide_set env (guide_up count (guide_down count (guide_right st)))
      else None)"

definition edit_right :: "'f ui_sys \<Rightarrow> 'f ui_sys" where
  "edit_right st =
     (let (f, st) = take_short KEY_RIGHT st in
      if f then (enter_main ((main_page_id st + 1) smod ROOT_COUNT) st)\<lparr>us_mode := GUIDE_MODE, us_keys := key_init (us_keys st), us_is_menu := True,
        is_blinking := False\<rparr>
      else st)"

definition edit_step :: "nat \<Rightarrow> int \<Rightarrow> 'f ui_sys \<Rightarrow> 'f ui_sys" where
  "edit_step key dir st =
     (let (f, st) = take_short key st;
          st = (if f then st\<lparr>set_value := dir, set_states := True\<rparr> else st);
          (f, st) = take_long key st
      in if f then st\<lparr>set_value := dir * step_value (us_keys st ! key), set_states := True\<rparr> else st)"

definition edit_set :: "'f ui_env \<Rightarrow> 'f ui_sys \<Rightarrow> 'f ui_sys option" where
  "edit_set env st =
     (let (f, st) = take_short KEY_SET st in
      if f then
        (if item_ok (us_current st) (sub_page_id st) then do {
           let c = us_current st;
           let s = sub_page_id st;
           let st = st\<lparr>current_para_num := item_para_num c s, current_para_index := us_para_index st c s\<rparr>;
           let st = (if current_para_num st > 0
                     then st\<lparr>us_para_index := (us_para_index st)(c := (us_para_index st c)(s := us_para_index st c s + 1)),
                            current_para_index := us_para_index st c s + 1\<rparr>
                     else st);
           st \<leftarrow> call_item env (st\<lparr>cfg_states := True\<rparr>);
           let st = (if current_para_index st = current_para_num st
                     then (if current_para_num st > 0 then st\<lparr>us_mode := GUIDE_MODE, is_blinking := False\<rparr> else st\<lparr>us_mode := GUIDE_MODE\<rparr>)
                     else st);
           Some (st\<lparr>us_keys := key_init (us_keys st)\<rparr>) }
         else None)
      else Some st)"

definition edit_pass :: "'f ui_env \<Rightarrow> 'f ui_sys \<Rightarrow> 'f ui_sys option" where
  "edit_pass env st = edit_set env (edit_step KEY_DOWN (- 1) (edit_step KEY_UP 1 (edit_right st)))"

text \<open>After the keys: a pending change is dropped when the page has changed; then the page is called, which refreshes the display.\<close>

definition menu_finish :: "'f ui_env \<Rightarrow> int \<Rightarrow> int \<Rightarrow> 'f ui_sys \<Rightarrow> 'f ui_sys option" where
  "menu_finish env last_main last_sub st =
     (let st = (if last_main \<noteq> main_page_id st \<or> last_sub \<noteq> sub_page_id st then st\<lparr>set_states := False\<rparr> else st)
      in if us_is_menu st then Some st else call_item env st)"

definition menu_navigate :: "'f ui_env \<Rightarrow> 'f ui_sys \<Rightarrow> 'f ui_sys option" where
  "menu_navigate env st = do {
     let count = son_count (us_current st);
     let st1 = nav_idle st;
     st2 \<leftarrow> (case us_mode st1 of GUIDE_MODE \<Rightarrow> guide_pass env count st1 | EDIT_MODE \<Rightarrow> edit_pass env st1);
     menu_finish env (main_page_id st) (sub_page_id st) st2 }"

definition ui_init :: "'f ui_sys \<Rightarrow> 'f ui_sys" where
  "ui_init st = st\<lparr>us_keys := key_init (us_keys st)\<rparr>"

subsection \<open>Pages\<close>

text \<open>What a page leaves alone, and when it can be called.\<close>

definition ui_nav :: "'f ui_sys \<Rightarrow> int \<times> int \<times> int \<times> menu_mode \<times> bool \<times> bool \<times> (int \<Rightarrow> int \<Rightarrow> int) \<times> key_info list \<times> u8 \<times> int \<times> int" where
  "ui_nav st = (main_page_id st, sub_page_id st, us_current st, us_mode st, us_is_menu st, is_blinking st, us_para_index st, us_keys st, us_idle st,
     current_para_index st, current_para_num st)"

definition ip_pages :: "page_fn set" where "ip_pages = {Do_local_ip, Do_eth_gw, Do_eth_nm}"
definition index_pages :: "page_fn set" where "index_pages = {Do_temp_units, Do_analog_mode}"
definition show_pages :: "page_fn set" where "show_pages = {Oled_show_menu, Oled_show_info}"

definition ip_arrays :: "'f ui_sys \<Rightarrow> bool" where
  "ip_arrays st \<longleftrightarrow> (\<forall>fn \<in> ip_pages. length (us_ip_static st fn) = 4)"

definition page_ready :: "page_fn \<Rightarrow> 'f ui_sys \<Rightarrow> bool" where
  "page_ready fn st \<longleftrightarrow> ip_arrays st \<and> (fn \<in> index_pages \<and> is_blinking st \<longrightarrow> index_3 (dis_value st))
     \<and> (fn \<in> ip_pages \<and> set_states st \<longrightarrow> 0 \<le> current_para_index st \<and> current_para_index st < 4)"

definition page_done :: "page_fn \<Rightarrow> 'f ui_sys \<Rightarrow> 'f ui_sys \<Rightarrow> bool" where
  "page_done fn st st' \<longleftrightarrow> ui_nav st' = ui_nav st \<and> ip_arrays st' \<and> (fn \<in> index_pages \<longrightarrow> index_3 (dis_value st'))
     \<and> (if fn \<in> show_pages then set_states st' = set_states st \<and> cfg_states st' = cfg_states st else \<not> set_states st' \<and> \<not> cfg_states st')
     \<and> (fn \<in> show_pages \<or> \<not> cfg_states st \<longrightarrow> us_para st' = us_para st \<and> us_log st' = us_log st)"

lemma edit_page_done:
  assumes "ip_arrays st" and "is_blinking st \<Longrightarrow> shown (dis_value st)" and "shown load" and "\<And>v. shown (adjust v)"
    and "fn \<notin> show_pages" and "fn \<in> index_pages \<Longrightarrow> shown = index_3"
  shows "\<exists>st'. edit_page shown load adjust store effects st = Some st' \<and> page_done fn st st'"
  using assms by (cases "is_blinking st") (auto simp: edit_page_def page_done_def ui_nav_def ip_arrays_def Let_def)

lemma length_scan_ip [simp]: "length (scan_ip t vs) = length vs"
proof -
  have "length (scan_fields n i t vs) = length vs" for n i t vs
    by (induction n i t vs rule: scan_fields.induct) (auto simp: Let_def split: option.splits list.splits)
  then show ?thesis by (simp add: scan_ip_def)
qed

lemma ip_page_done:
  assumes "page_ready fn st" and "fn \<in> ip_pages"
  shows "\<exists>st'. ip_page fn get put st = Some st' \<and> page_done fn st st'"
proof -
  have "fn \<notin> show_pages" "fn \<notin> index_pages" using assms(2) by (auto simp: ip_pages_def show_pages_def index_pages_def)
  then show ?thesis
    using assms by (cases "set_states st"; cases "is_blinking st")
      (simp_all add: ip_page_def Let_def page_ready_def page_done_def ui_nav_def ip_arrays_def)
qed

text \<open>What the page of an IP address stores is read back as the four numbers that were displayed.\<close>

lemma digit_char:
  assumes "unat d \<le> 9"
  shows "48 \<le> 48 + (d :: u8)" "48 + d \<le> 57" "48 + d \<noteq> 32" "\<not> (48 + d \<le> 13)" "48 + d \<noteq> 45" "48 + d \<noteq> 43"
proof -
  have u: "unat (48 + d) = 48 + unat d" using assms by (simp add: unat_word_ariths)
  show "48 \<le> 48 + d" "48 + d \<le> 57" "\<not> (48 + d \<le> 13)" using u assms by (simp_all add: word_le_nat_alt)
  have "unat (48 + d) \<noteq> unat (32 :: u8)" "unat (48 + d) \<noteq> unat (45 :: u8)" "unat (48 + d) \<noteq> unat (43 :: u8)" using u by simp_all
  then show "48 + d \<noteq> 32" "48 + d \<noteq> 45" "48 + d \<noteq> 43" by metis+
qed

lemma scan_fmt:
  "scan_u3 (fmt_03u v @ r) = Some (ucast v, r)"
proof -
  define n where "n = unat v"
  have n: "n < 256" using unsigned_less [of v] by (simp add: n_def)
  define a b c where "a = v div 100" and "b = v div 10 mod 10" and "c = v mod 10"
  have u: "unat a = n div 100" "unat b = n div 10 mod 10" "unat c = n mod 10"
    by (simp_all add: a_def b_def c_def n_def unat_div unat_mod)
  then have d: "unat a \<le> 9" "unat b \<le> 9" "unat c \<le> 9" using n by auto
  have t: "take_digits 3 ((48 + a) # (48 + b) # (48 + c) # r) = ([48 + a, 48 + b, 48 + c], r)"
    using digit_char [OF d(1)] digit_char [OF d(2)] digit_char [OF d(3)] by (simp add: numeral_eq_Suc)
  have "digits_value [48 + a, 48 + b, 48 + c] = (ucast a * 10 + ucast b) * 10 + ucast c" by (simp add: digits_value_def)
  also have "\<dots> = of_nat ((n div 100 * 10 + n div 10 mod 10) * 10 + n mod 10)"
    by (simp add: u [symmetric])
  also have "(n div 100 * 10 + n div 10 mod 10) * 10 + n mod 10 = n"
    using div_mult2_eq [of n 10 10] div_mult_mod_eq [of "n div 10" 10] div_mult_mod_eq [of n 10] by simp
  finally have v: "digits_value [48 + a, 48 + b, 48 + c] = ucast v" by (simp add: n_def)
  show ?thesis unfolding fmt_03u_def a_def [symmetric] b_def [symmetric] c_def [symmetric] scan_u3_def
    using digit_char [OF d(1)] t v by (simp add: Let_def)
qed

lemma scan_ip_text:
  assumes "length vs = 4" and "length old = 4"
  shows "scan_ip (ip_text vs) old = map ucast vs"
proof -
  obtain a b c d where vs: "vs = [a, b, c, d]" using assms(1) by (auto simp: length_Suc_conv numeral_eq_Suc)
  obtain e f g h where old: "old = [e, f, g, h]" using assms(2) by (auto simp: length_Suc_conv numeral_eq_Suc)
  show ?thesis by (simp add: scan_ip_def ip_text_def vs old eval_nat_numeral scan_fmt Let_def)
qed

lemma index_3_wrap: "index_3 (wrap_value 2 v)"
  by (simp add: index_3_def wrap_value_def Let_def)

lemma any_value_simp [simp]: "any_value v"
  by (simp add: any_value_def)

lemmas page_defs = do_temp_mode_def do_temp_units_def do_relay_mode_def do_aim_device_def do_fact_default_def do_slope_def do_emissivity_def
  do_transmissivity_low_def do_transmissivity_high_def do_temp_filt_size_def do_analog_mode_def do_analog_out_low_def do_analog_out_high_def
  do_multi_addr_def do_baud_rate_def do_eth_port_def do_local_ip_def do_eth_gw_def do_eth_nm_def

lemma call_page_done:
  assumes "page_ready fn st"
  shows "\<exists>st'. call_page env fn st = Some st' \<and> page_done fn st st'"
proof -
  have ip: "ip_arrays st" using assms by (simp add: page_ready_def)
  have e: "\<exists>st'. edit_page any_value load adjust store effects st = Some st' \<and> page_done fn st st'"
    if "fn \<notin> show_pages" "fn \<notin> index_pages" for load adjust store effects
    by (rule edit_page_done) (use ip that in auto)
  have x: "\<exists>st'. edit_page index_3 load (wrap_value 2) store effects st = Some st' \<and> page_done fn st st'"
    if "fn \<in> index_pages" "index_3 load" for load store effects
    by (rule edit_page_done) (use assms that in \<open>auto simp: page_ready_def index_3_wrap index_pages_def show_pages_def\<close>)
  show ?thesis
  proof (cases "fn \<in> show_pages")
    case True
    then show ?thesis using ip by (auto simp: show_pages_def index_pages_def call_page_def page_done_def ui_nav_def)
  next
    case sh: False
    show ?thesis
    proof (cases "fn \<in> ip_pages")
      case True
      then show ?thesis using ip_page_done [OF assms True] by (auto simp: ip_pages_def call_page_def page_defs)
    next
      case ipf: False
      show ?thesis
      proof (cases "fn \<in> index_pages")
        case True
        then show ?thesis using x by (cases fn) (simp_all add: index_pages_def call_page_def page_defs index_3_def)
      next
        case False
        then show ?thesis using e [OF sh] sh ipf
          by (cases fn) (simp_all add: index_pages_def show_pages_def ip_pages_def call_page_def page_defs)
      qed
    qed
  qed
qed

subsection \<open>Well-formed menus\<close>

definition nav_ok :: "'f ui_sys \<Rightarrow> bool" where
  "nav_ok st \<longleftrightarrow> us_current st = main_page_id st \<and> 0 \<le> main_page_id st \<and> main_page_id st < ROOT_COUNT
     \<and> 0 \<le> sub_page_id st \<and> sub_page_id st < son_count (main_page_id st)"

definition page_of :: "'f ui_sys \<Rightarrow> page_fn" where
  "page_of st = fst (menus ! nat (us_current st) ! nat (sub_page_id st))"

definition edit_ok :: "'f ui_sys \<Rightarrow> bool" where
  "edit_ok st \<longleftrightarrow> (let i = us_para_index st (us_current st) (sub_page_id st) in
     \<not> us_is_menu st \<and> current_para_index st = i \<and> 0 \<le> i \<and> i < item_para_num (us_current st) (sub_page_id st)
     \<and> (page_of st \<in> index_pages \<longrightarrow> index_3 (dis_value st)))"

definition ui_wf :: "'f ui_sys \<Rightarrow> bool" where
  "ui_wf st \<longleftrightarrow> nav_ok st \<and> \<not> set_states st \<and> \<not> cfg_states st \<and> ip_arrays st \<and> length (us_keys st) = KEY_CNT
     \<and> is_blinking st = (us_mode st = EDIT_MODE) \<and> (us_mode st = EDIT_MODE \<longrightarrow> edit_ok st)"

text \<open>At most one key was pressed since the last pass, and SET not together with a key that is held down.\<close>

definition short_of :: "nat \<Rightarrow> 'f ui_sys \<Rightarrow> bool" where
  "short_of k st \<longleftrightarrow> short_flag (us_keys st ! k) \<noteq> 0"

definition long_of :: "nat \<Rightarrow> 'f ui_sys \<Rightarrow> bool" where
  "long_of k st \<longleftrightarrow> long_flag (us_keys st ! k) \<noteq> 0"

definition single_key :: "'f ui_sys \<Rightarrow> bool" where
  "single_key st \<longleftrightarrow> (\<forall>i < KEY_CNT. \<forall>j < KEY_CNT. short_of i st \<and> short_of j st \<longrightarrow> i = j)
     \<and> (short_of KEY_SET st \<longrightarrow> \<not> long_of KEY_UP st \<and> \<not> long_of KEY_DOWN st)"

lemma nat_cases_5: "0 \<le> m \<Longrightarrow> m < ROOT_COUNT \<Longrightarrow> nat m \<in> {0, 1, 2, 3, 4}"
  by (auto simp: ROOT_COUNT_def)

lemma son_count_range: "0 \<le> m \<Longrightarrow> m < ROOT_COUNT \<Longrightarrow> 3 \<le> son_count m \<and> son_count m \<le> 9"
  using nat_cases_5 [of m] by (auto simp: son_count_def menus_def)

lemma son_count_0 [simp]: "son_count 0 = 9"
  by (simp add: son_count_def menus_def)

lemma nav_ok_item: "nav_ok st \<Longrightarrow> item_ok (us_current st) (sub_page_id st) \<and> item_subs (us_current st) (sub_page_id st) = Some (page_of st)"
  using son_count_range [of "main_page_id st"] by (auto simp: nav_ok_def item_ok_def item_subs_def page_of_def MENU_SIZE_def)

text \<open>The pages with four parameters are the IP addresses; a page with a parameter is not one that only shows.\<close>

lemma menu_items: "m < 5 \<Longrightarrow> s < length (menus ! m) \<Longrightarrow>
    (fst (menus ! m ! s) \<in> ip_pages \<longrightarrow> snd (menus ! m ! s) = 4) \<and> (snd (menus ! m ! s) > 0 \<longleftrightarrow> fst (menus ! m ! s) \<notin> show_pages)"
proof -
  have "\<forall>menu \<in> set menus. \<forall>it \<in> set menu. (fst it \<in> ip_pages \<longrightarrow> snd it = 4) \<and> (snd it > 0 \<longleftrightarrow> fst it \<notin> show_pages)"
    by (auto simp: menus_def ip_pages_def show_pages_def)
  moreover assume "m < 5" "s < length (menus ! m)"
  moreover have "length menus = 5" by (simp add: menus_def)
  ultimately show ?thesis by (simp add: all_set_conv_all_nth)
qed

lemma page_of_item:
  assumes "nav_ok st"
  shows "item_para_num (us_current st) (sub_page_id st) = snd (menus ! nat (us_current st) ! nat (sub_page_id st))"
    and "page_of st \<in> ip_pages \<Longrightarrow> item_para_num (us_current st) (sub_page_id st) = 4"
    and "0 < item_para_num (us_current st) (sub_page_id st) \<longleftrightarrow> page_of st \<notin> show_pages"
proof -
  show e: "item_para_num (us_current st) (sub_page_id st) = snd (menus ! nat (us_current st) ! nat (sub_page_id st))"
    using assms by (simp add: item_para_num_def nav_ok_def)
  have "nat (us_current st) < 5" "nat (sub_page_id st) < length (menus ! nat (us_current st))"
    using assms by (auto simp: nav_ok_def ROOT_COUNT_def son_count_def)
  from menu_items [OF this] show "page_of st \<in> ip_pages \<Longrightarrow> item_para_num (us_current st) (sub_page_id st) = 4"
    "0 < item_para_num (us_current st) (sub_page_id st) \<longleftrightarrow> page_of st \<notin> show_pages"
    by (simp_all add: e page_of_def)
qed

text \<open>The selected page can be called when its index is inside.\<close>

lemma call_item_done:
  assumes "nav_ok st" and "page_ready (page_of st) st"
  shows "\<exists>st'. call_item env st = Some st' \<and> page_done (page_of st) st st'"
  using nav_ok_item [OF assms(1)] call_page_done [OF assms(2)] by (auto simp: call_item_def)

subsection \<open>One pass\<close>

definition ui_other :: "'f ui_sys \<Rightarrow> menu_mode \<times> bool \<times> (int \<Rightarrow> int \<Rightarrow> int) \<times> int \<times> int \<times> bool \<times> bool \<times> int \<times> (page_fn \<Rightarrow> u32 list) \<times> 'f ui_para \<times> ui_effect list" where
  "ui_other st = (us_mode st, is_blinking st, us_para_index st, current_para_index st, current_para_num st, set_states st, cfg_states st, dis_value st,
     us_ip_static st, us_para st, us_log st)"

definition ui_where :: "'f ui_sys \<Rightarrow> int \<times> int \<times> int \<times> bool" where
  "ui_where st = (main_page_id st, sub_page_id st, us_current st, us_is_menu st)"

lemma take_short_eq:
  assumes "k < KEY_CNT" and "length (us_keys st) = KEY_CNT" and "take_short k st = (f, st')"
  shows "f = short_of k st" "ui_other st' = ui_other st" "ui_where st' = ui_where st" "length (us_keys st') = KEY_CNT"
    "short_of j st' = (short_of j st \<and> j \<noteq> k)" "long_of j st' = long_of j st"
proof -
  have st': "st' = st\<lparr>us_keys := (us_keys st)[k := (us_keys st ! k)\<lparr>short_flag := 0\<rparr>]\<rparr>" "f = short_of k st"
    using assms(1,3) by (auto simp: take_short_def key_get_short_flag_def short_of_def)
  then show "f = short_of k st" "ui_other st' = ui_other st" "ui_where st' = ui_where st" "length (us_keys st') = KEY_CNT"
    using assms(2) by (simp_all add: ui_other_def ui_where_def)
  show "short_of j st' = (short_of j st \<and> j \<noteq> k)" "long_of j st' = long_of j st"
    using assms(1,2) st'(1) by (auto simp: short_of_def long_of_def nth_list_update)
qed

lemma take_long_eq:
  assumes "k < KEY_CNT" and "length (us_keys st) = KEY_CNT" and "take_long k st = (f, st')"
  shows "f = long_of k st" "ui_other st' = ui_other st" "ui_where st' = ui_where st" "length (us_keys st') = KEY_CNT"
    "short_of j st' = short_of j st" "long_of j st' = (long_of j st \<and> j \<noteq> k)"
proof -
  have st': "st' = st\<lparr>us_keys := (us_keys st)[k := (us_keys st ! k)\<lparr>long_flag := 0\<rparr>]\<rparr>" "f = long_of k st"
    using assms(1,3) by (auto simp: take_long_def key_get_long_flag_def long_of_def)
  then show "f = long_of k st" "ui_other st' = ui_other st" "ui_where st' = ui_where st" "length (us_keys st') = KEY_CNT"
    using assms(2) by (simp_all add: ui_other_def ui_where_def)
  show "short_of j st' = short_of j st" "long_of j st' = (long_of j st \<and> j \<noteq> k)"
    using assms(1,2) st'(1) by (auto simp: short_of_def long_of_def nth_list_update)
qed

lemma key_numbers [simp]: "KEY_UP < KEY_CNT" "KEY_DOWN < KEY_CNT" "KEY_SET < KEY_CNT" "KEY_RIGHT < KEY_CNT"
  "KEY_UP \<noteq> KEY_DOWN" "KEY_UP \<noteq> KEY_SET" "KEY_UP \<noteq> KEY_RIGHT" "KEY_DOWN \<noteq> KEY_SET" "KEY_DOWN \<noteq> KEY_RIGHT" "KEY_SET \<noteq> KEY_RIGHT"
  "KEY_DOWN \<noteq> KEY_UP" "KEY_SET \<noteq> KEY_UP" "KEY_RIGHT \<noteq> KEY_UP" "KEY_SET \<noteq> KEY_DOWN" "KEY_RIGHT \<noteq> KEY_DOWN" "KEY_RIGHT \<noteq> KEY_SET"
  by (simp_all add: KEY_UP_def KEY_DOWN_def KEY_SET_def KEY_RIGHT_def KEY_CNT_def)

lemma single_keyD: "single_key st \<Longrightarrow> short_of i st \<Longrightarrow> i < KEY_CNT \<Longrightarrow> j < KEY_CNT \<Longrightarrow> j \<noteq> i \<Longrightarrow> \<not> short_of j st"
  by (auto simp: single_key_def)

lemma root_mod: "0 \<le> m \<Longrightarrow> m smod 5 = m mod (5 :: int)"
  by (cases "m = 0") (simp_all add: smod_int_alt_def sgn_if)

lemma enter_main_ok: "0 \<le> m \<Longrightarrow> nav_ok (enter_main (m smod ROOT_COUNT) st)"
  using son_count_range [of "m mod 5"] by (simp add: root_mod enter_main_def nav_ok_def ROOT_COUNT_def)

lemma nav_ok_where: "ui_where st' = ui_where st \<Longrightarrow> nav_ok st' = nav_ok st"
  by (simp add: ui_where_def nav_ok_def)

text \<open>What a movement of the selection keeps: the menus stay valid, the rest of the state is untouched and the other keys stay pending.\<close>

definition moved :: "nat \<Rightarrow> 'f ui_sys \<Rightarrow> 'f ui_sys \<Rightarrow> bool" where
  "moved k st st' \<longleftrightarrow> nav_ok st' \<and> ui_other st' = ui_other st \<and> length (us_keys st') = KEY_CNT
     \<and> (\<forall>j. short_of j st' = (short_of j st \<and> j \<noteq> k)) \<and> (\<forall>j. long_of j st' = long_of j st) \<and> (\<not> short_of k st \<longrightarrow> ui_where st' = ui_where st)"

lemma guide_right_moved:
  assumes "nav_ok st" and "length (us_keys st) = KEY_CNT" and "\<not> is_blinking st"
  shows "moved KEY_RIGHT st (guide_right st)"
proof -
  obtain f st1 where t: "take_short KEY_RIGHT st = (f, st1)" by fastforce
  note e = take_short_eq [OF _ assms(2) t, simplified]
  have "nav_ok st1" using nav_ok_where [OF e(3)] assms(1) by simp
  then have "nav_ok (enter_main ((main_page_id st1 + 1) smod ROOT_COUNT) st1)" by (intro enter_main_ok) (simp add: nav_ok_def)
  then show ?thesis
    using e \<open>nav_ok st1\<close> assms(3)
    by (auto simp: guide_right_def t moved_def ui_other_def ui_where_def nav_ok_def enter_main_def short_of_def long_of_def)
qed

lemma guide_down_moved:
  assumes "nav_ok st" and "length (us_keys st) = KEY_CNT" and "short_of KEY_DOWN st \<Longrightarrow> 1 \<le> count \<and> count \<le> son_count (main_page_id st)"
  shows "moved KEY_DOWN st (guide_down count st)"
proof -
  obtain f st1 where t: "take_short KEY_DOWN st = (f, st1)" by fastforce
  note e = take_short_eq [OF _ assms(2) t, simplified]
  have n: "nav_ok st1" using nav_ok_where [OF e(3)] assms(1) by simp
  have m: "main_page_id st1 smod ROOT_COUNT = main_page_id st1" using n by (simp add: root_mod nav_ok_def ROOT_COUNT_def)
  have "son_count (main_page_id st1) > 0" using son_count_range [of "main_page_id st1"] n by (simp add: nav_ok_def)
  then show ?thesis
    using e n assms(3) m
    by (auto simp: guide_down_def t Let_def moved_def ui_other_def ui_where_def nav_ok_def enter_main_def short_of_def long_of_def)
qed

lemma guide_up_moved:
  assumes "nav_ok st" and "length (us_keys st) = KEY_CNT" and "short_of KEY_UP st \<Longrightarrow> 1 \<le> count \<and> count \<le> son_count (main_page_id st)"
  shows "moved KEY_UP st (guide_up count st)"
proof -
  obtain f st1 where t: "take_short KEY_UP st = (f, st1)" by fastforce
  note e = take_short_eq [OF _ assms(2) t, simplified]
  have n: "nav_ok st1" using nav_ok_where [OF e(3)] assms(1) by simp
  then show ?thesis
    using e n assms(3)
    by (auto simp: guide_up_def t Let_def moved_def ui_other_def ui_where_def nav_ok_def enter_main_def short_of_def long_of_def)
qed

lemma guide_moves:
  assumes "nav_ok st" and "length (us_keys st) = KEY_CNT" and "\<not> is_blinking st" and "single_key st" and "1 \<le> count" and "count \<le> son_count (main_page_id st)"
  defines "st' \<equiv> guide_up count (guide_down count (guide_right st))"
  shows "nav_ok st'" "ui_other st' = ui_other st" "length (us_keys st') = KEY_CNT" "short_of KEY_SET st' = short_of KEY_SET st"
    "short_of KEY_SET st \<Longrightarrow> ui_where st' = ui_where st"
proof -
  define a where "a = guide_right st"
  define b where "b = guide_down count a"
  have a: "moved KEY_RIGHT st a" using guide_right_moved [OF assms(1-3)] by (simp add: a_def)
  have "main_page_id a = main_page_id st" if "short_of KEY_DOWN a \<or> short_of KEY_UP a"
    using that a single_keyD [OF assms(4), of KEY_DOWN KEY_RIGHT] single_keyD [OF assms(4), of KEY_UP KEY_RIGHT]
    by (auto simp: moved_def ui_where_def)
  then have b: "moved KEY_DOWN a b" unfolding b_def
    using a assms(5,6) by (intro guide_down_moved) (auto simp: moved_def)
  have "main_page_id b = main_page_id st" if "short_of KEY_UP b"
    using that a b single_keyD [OF assms(4), of KEY_UP KEY_RIGHT] single_keyD [OF assms(4), of KEY_UP KEY_DOWN]
    by (auto simp: moved_def ui_where_def)
  then have c: "moved KEY_UP b st'" unfolding st'_def b_def [symmetric] a_def [symmetric]
    using b assms(5,6) by (intro guide_up_moved) (auto simp: moved_def)
  show "nav_ok st'" "ui_other st' = ui_other st" "length (us_keys st') = KEY_CNT" "short_of KEY_SET st' = short_of KEY_SET st"
    using a b c by (simp_all add: moved_def)
  show "ui_where st' = ui_where st" if "short_of KEY_SET st"
    using a b c single_keyD [OF assms(4) that] by (simp add: moved_def)
qed

lemma key_init_flags [simp]: "length (key_init ks) = length ks"
  by (simp add: key_init_def)

lemma ui_wfD:
  assumes "ui_wf st"
  shows "nav_ok st" "\<not> set_states st" "\<not> cfg_states st" "ip_arrays st" "length (us_keys st) = KEY_CNT" "is_blinking st = (us_mode st = EDIT_MODE)"
    "us_mode st = EDIT_MODE \<Longrightarrow> edit_ok st"
  using assms by (simp_all add: ui_wf_def)

text \<open>Before the last call of the page everything but the displayed index is as in a well-formed state.\<close>

definition ui_ready :: "'f ui_sys \<Rightarrow> bool" where
  "ui_ready st \<longleftrightarrow> nav_ok st \<and> \<not> cfg_states st \<and> ip_arrays st \<and> length (us_keys st) = KEY_CNT \<and> is_blinking st = (us_mode st = EDIT_MODE)
     \<and> (us_mode st = EDIT_MODE \<longrightarrow> edit_ok st) \<and> (set_states st \<longrightarrow> us_mode st = EDIT_MODE)"

lemma ui_wf_ready: "ui_wf st \<Longrightarrow> ui_ready st"
  by (simp add: ui_wf_def ui_ready_def)

lemma page_done_where:
  assumes "page_done fn st st'"
  shows "ui_where st' = ui_where st" "us_para_index st' = us_para_index st" "us_keys st' = us_keys st" "us_mode st' = us_mode st"
    "is_blinking st' = is_blinking st" "current_para_index st' = current_para_index st" "current_para_num st' = current_para_num st" "nav_ok st' = nav_ok st"
    "page_of st' = page_of st" "ip_arrays st'"
  using assms by (auto simp: page_done_def ui_nav_def ui_where_def nav_ok_def page_of_def)

lemma ready_calls_page:
  assumes "ui_ready st" and "us_is_menu st \<longrightarrow> \<not> set_states st"
  shows "\<exists>st'. (if us_is_menu st then Some st else call_item env st) = Some st' \<and> ui_wf st'
    \<and> us_para st' = us_para st \<and> us_log st' = us_log st \<and> us_mode st' = us_mode st"
proof (cases "us_is_menu st")
  case True
  then show ?thesis using assms by (simp add: ui_ready_def ui_wf_def)
next
  case False
  have r: "nav_ok st" "\<not> cfg_states st" "ip_arrays st" "length (us_keys st) = KEY_CNT" "is_blinking st = (us_mode st = EDIT_MODE)"
    "us_mode st = EDIT_MODE \<Longrightarrow> edit_ok st" "set_states st \<Longrightarrow> us_mode st = EDIT_MODE" using assms(1) by (auto simp: ui_ready_def)
  have i: "page_of st \<in> ip_pages \<and> us_mode st = EDIT_MODE \<Longrightarrow> 0 \<le> current_para_index st \<and> current_para_index st < 4"
    using r(6) page_of_item(2) [OF r(1)] by (auto simp: edit_ok_def Let_def)
  have "page_ready (page_of st) st" using r i by (auto simp: page_ready_def edit_ok_def Let_def)
  then obtain st' where st': "call_item env st = Some st'" "page_done (page_of st) st st'" using call_item_done [OF r(1)] by blast
  note w = page_done_where [OF st'(2)]
  have "set_states st \<Longrightarrow> page_of st \<notin> show_pages"
    using r(6,7) page_of_item(3) [OF r(1)] by (auto simp: edit_ok_def Let_def)
  then have f: "\<not> set_states st'" "\<not> cfg_states st'" using st'(2) r(2) by (auto simp: page_done_def split: if_splits)
  have "edit_ok st'" if "us_mode st = EDIT_MODE"
    using r(6) [OF that] st'(2) w by (auto simp: edit_ok_def Let_def page_done_def ui_where_def)
  then have "ui_wf st'" using f w r by (simp add: ui_wf_def)
  moreover have "us_para st' = us_para st" "us_log st' = us_log st" using st'(2) r(2) by (auto simp: page_done_def)
  ultimately show ?thesis using False st'(1) w(4) by auto
qed

text \<open>A state without pending work in one of the two modes; \<open>kept\<close> is what no pass in the guide mode changes.\<close>

definition guide_ready :: "'f ui_sys \<Rightarrow> bool" where
  "guide_ready st \<longleftrightarrow> nav_ok st \<and> \<not> set_states st \<and> \<not> cfg_states st \<and> ip_arrays st \<and> length (us_keys st) = KEY_CNT \<and> \<not> is_blinking st
     \<and> us_mode st = GUIDE_MODE"

lemma guide_ready_wf: "guide_ready st \<Longrightarrow> ui_wf st"
  by (simp add: guide_ready_def ui_wf_def)

lemma guide_ready_other:
  assumes "guide_ready st" and "ui_other st' = ui_other st" and "nav_ok st'" and "length (us_keys st') = KEY_CNT"
  shows "guide_ready st'"
  using assms by (simp add: guide_ready_def ui_other_def ip_arrays_def)

lemma guide_set_ready:
  assumes "guide_ready st"
    and "short_of KEY_SET st \<Longrightarrow> current_para_num st = item_para_num (us_current st) (sub_page_id st)
      \<and> us_para_index st (us_current st) (sub_page_id st) = 0 \<and> current_para_index st = 0"
  shows "\<exists>st'. guide_set env st = Some st' \<and> ui_wf st' \<and> us_para st' = us_para st \<and> us_log st' = us_log st
    \<and> (up_panel_lock (us_para st) \<noteq> 85 \<longrightarrow> us_mode st' = GUIDE_MODE)"
proof -
  have g: "nav_ok st" "\<not> set_states st" "\<not> cfg_states st" "ip_arrays st" "length (us_keys st) = KEY_CNT" "\<not> is_blinking st" "us_mode st = GUIDE_MODE"
    using assms(1) by (simp_all add: guide_ready_def)
  obtain f st1 where t: "take_short KEY_SET st = (f, st1)" by fastforce
  note e = take_short_eq [OF _ g(5) t, simplified]
  have g1: "guide_ready st1" by (rule guide_ready_other [OF assms(1) e(2)]) (use e g nav_ok_where [OF e(3)] in simp_all)
  have para: "us_para st1 = us_para st" "us_log st1 = us_log st" using e(2) by (simp_all add: ui_other_def)
  show ?thesis
  proof (cases "f \<and> \<not> us_is_menu st1 \<and> up_panel_lock (us_para st1) = 85 \<and> 0 < current_para_num st1")
    case False
    define st2 where "st2 = (if us_is_menu st1 then (enter_main (main_page_id st1 smod ROOT_COUNT) st1)\<lparr>us_is_menu := False\<rparr> else st1)"
    have m: "nav_ok (enter_main (main_page_id st1 smod ROOT_COUNT) st1)" using g1 by (intro enter_main_ok) (simp add: guide_ready_def nav_ok_def)
    then have "guide_ready st2" using g1 by (auto simp: st2_def guide_ready_def enter_main_def nav_ok_def ip_arrays_def)
    then have "ui_wf (st2\<lparr>us_keys := key_init (us_keys st2)\<rparr>)"
      by (auto simp: guide_ready_def ui_wf_def nav_ok_def ip_arrays_def)
    moreover have "guide_set env st = (if f then Some (st2\<lparr>us_keys := key_init (us_keys st2)\<rparr>) else Some st1)"
      using False by (auto simp: guide_set_def t st2_def)
    moreover have "us_para st2 = us_para st1" "us_log st2 = us_log st1" "us_mode st2 = GUIDE_MODE"
      using g1 by (simp_all add: st2_def enter_main_def guide_ready_def)
    ultimately show ?thesis using guide_ready_wf [OF g1] para g1 by (cases f) (auto simp: guide_ready_def)
  next
    case True
    have f: "short_of KEY_SET st" using True e(1) by simp
    let ?e = "st1\<lparr>us_mode := EDIT_MODE\<rparr>"
    have n: "nav_ok ?e" "page_of ?e = page_of st1" "nav_ok st1" using g1 by (simp_all add: guide_ready_def nav_ok_def page_of_def)
    have i: "current_para_num st1 = item_para_num (us_current st1) (sub_page_id st1)" "us_para_index st1 (us_current st1) (sub_page_id st1) = 0"
      "current_para_index st1 = 0" using assms(2) [OF f] e(2,3) by (simp_all add: ui_other_def ui_where_def)
    have "page_ready (page_of ?e) ?e" using g1 by (simp add: page_ready_def guide_ready_def ip_arrays_def)
    then obtain st2 where st2: "call_item env ?e = Some st2" "page_done (page_of ?e) ?e st2" using call_item_done [OF n(1)] by blast
    note w = page_done_where [OF st2(2)]
    have ns: "page_of st1 \<notin> show_pages" using True i(1) page_of_item(3) [OF n(3)] by simp
    have "main_page_id st2 \<noteq> 0"
    proof
      assume "main_page_id st2 = 0"
      then have "us_current st1 = 0" "sub_page_id st1 < 9" "0 \<le> sub_page_id st1" using w(1) n(3) by (auto simp: ui_where_def nav_ok_def)
      then have "page_of st1 = Oled_show_info" by (simp add: page_of_def menus_def)
      then show False using ns by (simp add: show_pages_def)
    qed
    moreover define st3 where "st3 = st2\<lparr>is_blinking := True, us_keys := key_init (us_keys st2)\<rparr>"
    ultimately have "guide_set env st = Some st3" using True st2(1) by (simp add: guide_set_def t)
    moreover have "\<not> set_states st2" "\<not> cfg_states st2" "us_para st2 = us_para st1" "us_log st2 = us_log st1" "page_of st1 \<in> index_pages \<longrightarrow> index_3 (dis_value st2)"
      using st2(2) ns n(2) g1 by (simp_all add: page_done_def guide_ready_def)
    moreover have "edit_ok st3"
      using True i w n(2) \<open>page_of st1 \<in> index_pages \<longrightarrow> index_3 (dis_value st2)\<close>
      by (simp add: edit_ok_def st3_def Let_def ui_where_def page_of_def)
    ultimately show ?thesis
      using w n g1 para True by (auto simp: ui_wf_def st3_def nav_ok_def ip_arrays_def guide_ready_def ui_where_def)
  qed
qed

lemma guide_pass_ok:
  assumes "guide_ready st" and "single_key st" and "1 \<le> count" and "count \<le> son_count (main_page_id st)"
  shows "\<exists>st'. guide_pass env count st = Some st' \<and> ui_wf st' \<and> us_para st' = us_para st \<and> us_log st' = us_log st
    \<and> (up_panel_lock (us_para st) \<noteq> 85 \<longrightarrow> us_mode st' = GUIDE_MODE)"
proof -
  define st1 where "st1 = st\<lparr>current_para_num := item_para_num (us_current st) (sub_page_id st),
    us_para_index := (us_para_index st)(us_current st := (us_para_index st (us_current st))(sub_page_id st := 0)), current_para_index := 0\<rparr>"
  have g1: "guide_ready st1" "single_key st1" "count \<le> son_count (main_page_id st1)"
    using assms by (simp_all add: st1_def guide_ready_def nav_ok_def ip_arrays_def single_key_def short_of_def long_of_def)
  define st2 where "st2 = guide_up count (guide_down count (guide_right st1))"
  have m: "nav_ok st2" "ui_other st2 = ui_other st1" "length (us_keys st2) = KEY_CNT" "short_of KEY_SET st2 = short_of KEY_SET st1"
    "short_of KEY_SET st1 \<Longrightarrow> ui_where st2 = ui_where st1"
    unfolding st2_def using guide_moves [of st1 count] g1 assms(3) by (simp_all add: guide_ready_def)
  have g2: "guide_ready st2" by (rule guide_ready_other [OF g1(1) m(2,1,3)])
  have "guide_pass env count st = guide_set env st2"
    using nav_ok_item [of st] assms(1) by (simp add: guide_pass_def guide_ready_def st1_def [symmetric] st2_def)
  moreover have "us_para st2 = us_para st" "us_log st2 = us_log st" using m(2) by (simp_all add: ui_other_def st1_def)
  moreover have "current_para_num st2 = item_para_num (us_current st2) (sub_page_id st2)
      \<and> us_para_index st2 (us_current st2) (sub_page_id st2) = 0 \<and> current_para_index st2 = 0" if "short_of KEY_SET st2"
    using m(2) m(5) m(4) that by (simp add: ui_other_def ui_where_def st1_def)
  ultimately show ?thesis using guide_set_ready [OF g2, of env] by simp
qed

lemma no_keys_init: "length (us_keys st) = KEY_CNT \<Longrightarrow> j < KEY_CNT \<Longrightarrow> \<not> short_of j (st\<lparr>us_keys := key_init (us_keys st)\<rparr>) \<and> \<not> long_of j (st\<lparr>us_keys := key_init (us_keys st)\<rparr>)"
  by (simp add: short_of_def long_of_def key_init_def)

definition edit_base :: "'f ui_sys \<Rightarrow> (int \<times> int \<times> int \<times> bool) \<times> menu_mode \<times> bool \<times> (int \<Rightarrow> int \<Rightarrow> int) \<times> int \<times> int \<times> bool \<times> int \<times> (page_fn \<Rightarrow> u32 list) \<times> 'f ui_para \<times> ui_effect list" where
  "edit_base st = (ui_where st, us_mode st, is_blinking st, us_para_index st, current_para_index st, current_para_num st, cfg_states st, dis_value st,
     us_ip_static st, us_para st, us_log st)"

lemma edit_base_eq: "ui_other st' = ui_other st \<Longrightarrow> ui_where st' = ui_where st \<Longrightarrow> edit_base st' = edit_base st"
  by (simp add: ui_other_def edit_base_def)

lemma edit_step_base:
  assumes "k < KEY_CNT" and "length (us_keys st) = KEY_CNT" and "st' = edit_step k d st"
  shows "edit_base st' = edit_base st" "length (us_keys st') = KEY_CNT" "short_of j st' = (short_of j st \<and> j \<noteq> k)"
    "long_of j st' = (long_of j st \<and> j \<noteq> k)" "\<not> short_of k st \<and> \<not> long_of k st \<Longrightarrow> set_states st' = set_states st"
proof -
  obtain f st1 where t: "take_short k st = (f, st1)" by fastforce
  note e = take_short_eq [OF assms(1,2) t]
  define st2 where "st2 = (if f then st1\<lparr>set_value := d, set_states := True\<rparr> else st1)"
  have s2: "edit_base st2 = edit_base st1" "length (us_keys st2) = KEY_CNT" "short_of j st2 = short_of j st1" "long_of j st2 = long_of j st1"
    "\<not> f \<Longrightarrow> st2 = st1" for j using e(4) by (auto simp: st2_def edit_base_def ui_where_def short_of_def long_of_def)
  obtain h st3 where t3: "take_long k st2 = (h, st3)" by fastforce
  note e3 = take_long_eq [OF assms(1) s2(2) t3]
  have st': "st' = (if h then st3\<lparr>set_value := d * step_value (us_keys st3 ! k), set_states := True\<rparr> else st3)"
    using assms(3) by (simp add: edit_step_def t st2_def [symmetric] t3)
  have "edit_base st' = edit_base st3" by (simp add: st' edit_base_def ui_where_def)
  then show "edit_base st' = edit_base st" using edit_base_eq [OF e3(2,3)] s2(1) edit_base_eq [OF e(2,3)] by simp
  show "length (us_keys st') = KEY_CNT" using e3(4) by (simp add: st')
  show "short_of j st' = (short_of j st \<and> j \<noteq> k)" "long_of j st' = (long_of j st \<and> j \<noteq> k)"
    using e(5,6) e3(5,6) s2(3,4) by (auto simp: st' short_of_def long_of_def)
  show "set_states st' = set_states st" if "\<not> short_of k st \<and> \<not> long_of k st"
    using that e(1,2,6) e3(1,2) s2(4,5) by (auto simp: st' ui_other_def)
qed

lemma edit_right_pass:
  assumes "ui_wf st" and "us_mode st = EDIT_MODE" and "short_of KEY_RIGHT st"
  shows "\<exists>st'. edit_pass env st = Some st' \<and> guide_ready st' \<and> us_para st' = us_para st \<and> us_log st' = us_log st"
proof -
  note wf = ui_wfD [OF assms(1)]
  obtain f st1 where t: "take_short KEY_RIGHT st = (f, st1)" by fastforce
  note e = take_short_eq [OF _ wf(5) t, simplified]
  define st2 where "st2 = edit_right st"
  have st2: "st2 = (enter_main ((main_page_id st1 + 1) smod ROOT_COUNT) st1)\<lparr>us_mode := GUIDE_MODE, us_keys := key_init (us_keys st1), us_is_menu := True, is_blinking := False\<rparr>"
    using e(1) assms(3) by (simp add: st2_def edit_right_def t)
  have "nav_ok (enter_main ((main_page_id st1 + 1) smod ROOT_COUNT) st1)"
    using wf(1) e(3) by (intro enter_main_ok) (simp add: nav_ok_def ui_where_def)
  then have g: "guide_ready st2" using wf e by (simp add: guide_ready_def st2 nav_ok_def ip_arrays_def ui_other_def enter_main_def)
  have k2: "\<not> short_of j st2 \<and> \<not> long_of j st2" if "j < KEY_CNT" for j
    using no_keys_init [OF e(4) that] by (simp add: st2 short_of_def long_of_def)
  define st3 where "st3 = edit_step KEY_UP 1 st2"
  define st4 where "st4 = edit_step KEY_DOWN (- 1) st3"
  have l2: "length (us_keys st2) = KEY_CNT" using g by (simp add: guide_ready_def)
  note e3 = edit_step_base [OF key_numbers(1) l2 st3_def]
  note e4 = edit_step_base [OF key_numbers(2) e3(2) st4_def]
  have s4: "set_states st4 = set_states st2" "\<not> short_of KEY_SET st4" using e3 e4 k2 by simp_all
  have b4: "edit_base st4 = edit_base st2" using e3(1) e4(1) by simp
  obtain h st5 where t5: "take_short KEY_SET st4 = (h, st5)" by fastforce
  note e5 = take_short_eq [OF key_numbers(3) e4(2) t5]
  have "edit_pass env st = Some st5" using s4(2) e5(1) by (simp add: edit_pass_def edit_set_def t5 st2_def [symmetric] st3_def [symmetric] st4_def [symmetric])
  moreover have "guide_ready st5" using g b4 s4(1) e5(2-4) by (auto simp: guide_ready_def edit_base_def ui_other_def ui_where_def nav_ok_def ip_arrays_def)
  moreover have "us_para st5 = us_para st" "us_log st5 = us_log st"
    using b4 e5(2) e(2) by (auto simp: edit_base_def ui_other_def st2 enter_main_def)
  ultimately show ?thesis by blast
qed

lemma edit_set_wf:
  assumes "ui_wf st" and "us_mode st = EDIT_MODE" and "short_of KEY_SET st"
  shows "\<exists>st'. edit_set env st = Some st' \<and> ui_wf st'"
proof -
  note wf = ui_wfD [OF assms(1)]
  let ?c = "us_current st" and ?s = "sub_page_id st"
  let ?i = "us_para_index st ?c ?s"
  have eo: "\<not> us_is_menu st" "current_para_index st = ?i" "0 \<le> ?i" "?i < item_para_num ?c ?s" "page_of st \<in> index_pages \<longrightarrow> index_3 (dis_value st)"
    using wf(7) [OF assms(2)] by (auto simp: edit_ok_def Let_def)
  obtain f st1 where t: "take_short KEY_SET st = (f, st1)" by fastforce
  note e = take_short_eq [OF _ wf(5) t, simplified]
  have o: "us_current st1 = ?c" "sub_page_id st1 = ?s" "us_para_index st1 = us_para_index st" using e(2,3) by (simp_all add: ui_other_def ui_where_def)
  define st2 where "st2 = st1\<lparr>current_para_num := item_para_num ?c ?s, us_para_index := (us_para_index st)(?c := (us_para_index st ?c)(?s := ?i + 1)),
    current_para_index := ?i + 1, cfg_states := True\<rparr>"
  have n: "nav_ok st2" "page_of st2 = page_of st" "nav_ok st1" using wf(1) o e(3) by (simp_all add: st2_def nav_ok_def page_of_def ui_where_def)
  have "page_ready (page_of st2) st2" using wf eo e(2) n(2) by (auto simp: page_ready_def st2_def ui_other_def ip_arrays_def)
  then obtain st3 where st3: "call_item env st2 = Some st3" "page_done (page_of st2) st2 st3" using call_item_done [OF n(1)] by blast
  note w = page_done_where [OF st3(2)]
  have ns: "page_of st \<notin> show_pages" using eo(3,4) page_of_item(3) [OF wf(1)] by simp
  define st4 where "st4 = (if ?i + 1 = item_para_num ?c ?s then st3\<lparr>us_mode := GUIDE_MODE, is_blinking := False\<rparr> else st3)"
  have i2: "item_ok ?c ?s" using nav_ok_item [OF wf(1)] by simp
  have "edit_set env st = Some (st4\<lparr>us_keys := key_init (us_keys st4)\<rparr>)"
  proof -
    have "current_para_index st3 = ?i + 1" "current_para_num st3 = item_para_num ?c ?s" using w by (simp_all add: st2_def)
    moreover have "0 < item_para_num ?c ?s" using eo(3,4) by simp
    ultimately show ?thesis using st3(1) e(1) assms(3) i2
      by (simp add: edit_set_def t o Let_def st2_def [symmetric] st4_def)
  qed
  moreover have "ui_wf (st4\<lparr>us_keys := key_init (us_keys st4)\<rparr>)"
  proof -
    have f: "\<not> set_states st3" "\<not> cfg_states st3" "page_of st \<in> index_pages \<longrightarrow> index_3 (dis_value st3)"
      using st3(2) ns n(2) by (simp_all add: page_done_def)
    have b: "us_mode st3 = EDIT_MODE" "is_blinking st3" "length (us_keys st3) = KEY_CNT" "nav_ok st3" "ip_arrays st3" "page_of st3 = page_of st" "\<not> us_is_menu st3"
      "us_para_index st3 (us_current st3) (sub_page_id st3) = ?i + 1" "current_para_index st3 = ?i + 1" "us_current st3 = ?c" "sub_page_id st3 = ?s"
      using w e assms(2) wf(6) n eo(1) o by (auto simp: st2_def ui_other_def ui_where_def)
    show ?thesis
      using f b eo by (auto simp: st4_def ui_wf_def edit_ok_def Let_def nav_ok_def ip_arrays_def page_of_def)
  qed
  ultimately show ?thesis by blast
qed

lemma edit_pass_ready:
  assumes "ui_wf st" and "us_mode st = EDIT_MODE" and "single_key st"
  shows "\<exists>st'. edit_pass env st = Some st' \<and> ui_ready st'"
proof (cases "short_of KEY_RIGHT st")
  case True
  then show ?thesis using edit_right_pass [OF assms(1,2)] guide_ready_wf ui_wf_ready by blast
next
  case False
  note wf = ui_wfD [OF assms(1)]
  obtain f st1 where t: "take_short KEY_RIGHT st = (f, st1)" by fastforce
  note e = take_short_eq [OF _ wf(5) t, simplified]
  have r: "edit_right st = st1" using False e(1) by (simp add: edit_right_def t)
  define st3 where "st3 = edit_step KEY_UP 1 st1"
  define st4 where "st4 = edit_step KEY_DOWN (- 1) st3"
  note e3 = edit_step_base [OF key_numbers(1) e(4) st3_def]
  note e4 = edit_step_base [OF key_numbers(2) e3(2) st4_def]
  have b: "edit_base st4 = edit_base st" using e3(1) e4(1) edit_base_eq [OF e(2,3)] by simp
  have p: "edit_pass env st = edit_set env st4" by (simp add: edit_pass_def r st3_def [symmetric] st4_def [symmetric])
  have ready: "ui_ready st4" using b wf assms(2) e4(2)
    by (auto simp: ui_ready_def edit_base_def ui_where_def nav_ok_def ip_arrays_def edit_ok_def page_of_def Let_def)
  show ?thesis
  proof (cases "short_of KEY_SET st")
    case True
    then have k: "\<not> short_of KEY_UP st1 \<and> \<not> long_of KEY_UP st1" "\<not> short_of KEY_DOWN st3 \<and> \<not> long_of KEY_DOWN st3"
      using assms(3) single_keyD [OF assms(3) True] e(5,6) e3(3,4) by (auto simp: single_key_def)
    then have "\<not> set_states st4" using e3(5) e4(5) e(2) wf(2) by (simp add: ui_other_def)
    then have "ui_wf st4" using ready by (simp add: ui_ready_def ui_wf_def)
    moreover have "us_mode st4 = EDIT_MODE" using b assms(2) by (simp add: edit_base_def)
    moreover have "short_of KEY_SET st4" using True e(5) e3(3) e4(3) by simp
    ultimately show ?thesis using edit_set_wf [of st4 env] p ui_wf_ready by metis
  next
    case s: False
    obtain h st5 where t5: "take_short KEY_SET st4 = (h, st5)" by fastforce
    note e5 = take_short_eq [OF key_numbers(3) e4(2) t5]
    have "edit_pass env st = Some st5" using s e(5) e3(3) e4(3) e5(1) by (simp add: p edit_set_def t5)
    moreover have "ui_ready st5" using ready e5(2-4)
      by (auto simp: ui_ready_def ui_other_def ui_where_def nav_ok_def ip_arrays_def edit_ok_def page_of_def Let_def)
    ultimately show ?thesis by blast
  qed
qed

lemma nav_idle_ok:
  assumes "ui_wf st" and "single_key st"
  shows "ui_wf (nav_idle st)" "single_key (nav_idle st)" "son_count (us_current st) \<le> son_count (main_page_id (nav_idle st))" "us_para (nav_idle st) = us_para st"
    "us_log (nav_idle st) = us_log st" "us_mode st = GUIDE_MODE \<Longrightarrow> us_mode (nav_idle st) = GUIDE_MODE"
proof -
  note wf = ui_wfD [OF assms(1)]
  have m: "main_page_id st smod ROOT_COUNT = main_page_id st" using wf(1) by (simp add: root_mod nav_ok_def ROOT_COUNT_def)
  have c: "us_current st = main_page_id st" "son_count (main_page_id st) \<le> 9" "0 < son_count (main_page_id st)"
    using wf(1) son_count_range [of "main_page_id st"] by (auto simp: nav_ok_def)
  show "ui_wf (nav_idle st)"
    using assms(1) m c by (auto simp: nav_idle_def enter_main_def ui_wf_def nav_ok_def ip_arrays_def edit_ok_def page_of_def Let_def ROOT_COUNT_def)
  show "single_key (nav_idle st)" using assms(2) by (simp add: nav_idle_def enter_main_def single_key_def short_of_def long_of_def)
  show "son_count (us_current st) \<le> son_count (main_page_id (nav_idle st))" "us_para (nav_idle st) = us_para st" "us_log (nav_idle st) = us_log st"
    "us_mode st = GUIDE_MODE \<Longrightarrow> us_mode (nav_idle st) = GUIDE_MODE"
    using m c by (simp_all add: nav_idle_def enter_main_def)
qed

lemma menu_finish_ok:
  assumes "ui_ready st"
  shows "\<exists>st'. menu_finish env m s st = Some st' \<and> ui_wf st' \<and> us_para st' = us_para st \<and> us_log st' = us_log st \<and> us_mode st' = us_mode st"
proof -
  define st3 where "st3 = (if m \<noteq> main_page_id st \<or> s \<noteq> sub_page_id st then st\<lparr>set_states := False\<rparr> else st)"
  have r: "ui_ready st3" "us_is_menu st3 \<longrightarrow> \<not> set_states st3" "us_para st3 = us_para st" "us_log st3 = us_log st" "us_mode st3 = us_mode st"
    using assms by (auto simp: st3_def ui_ready_def nav_ok_def ip_arrays_def edit_ok_def page_of_def Let_def)
  have "menu_finish env m s st = (if us_is_menu st3 then Some st3 else call_item env st3)"
    unfolding menu_finish_def st3_def Let_def ..
  then show ?thesis using ready_calls_page [OF r(1,2), of env] r(3-5) by auto
qed

text \<open>C20: The menus stay well-formed: in every well-formed state in which at most one key was pressed since the last pass, a pass of the navigation
  calls only functions of existing items, accesses no array outside of its bounds and ends in a well-formed state: the
  current menu is the one of the main page, the sub page exists, the blinking follows the mode, and in the edit mode
  the index of the parameter is below the number of parameters of the page.\<close>

theorem menu_navigate_keeps_menus:
  assumes "ui_wf st" and "single_key st"
  shows "\<exists>st'. menu_navigate env st = Some st' \<and> ui_wf st'"
proof -
  define st1 where "st1 = nav_idle st"
  note i = nav_idle_ok [OF assms, folded st1_def]
  note wf = ui_wfD [OF assms(1)] and wf1 = ui_wfD [OF i(1)]
  have c: "1 \<le> son_count (us_current st)" using wf(1) son_count_range [of "main_page_id st"] by (auto simp: nav_ok_def)
  obtain st2 where st2: "(case us_mode st1 of GUIDE_MODE \<Rightarrow> guide_pass env (son_count (us_current st)) st1 | EDIT_MODE \<Rightarrow> edit_pass env st1) = Some st2"
    "ui_ready st2"
  proof (cases "us_mode st1")
    case EDIT_MODE
    then show ?thesis using that edit_pass_ready [OF i(1) EDIT_MODE i(2), of env] by auto
  next
    case GUIDE_MODE
    then have "guide_ready st1" using wf1 by (simp add: guide_ready_def)
    then show ?thesis using that guide_pass_ok [OF _ i(2) c i(3), of env] ui_wf_ready GUIDE_MODE by fastforce
  qed
  then show ?thesis using menu_finish_ok [OF st2(2), of env "main_page_id st" "sub_page_id st"] by (auto simp: menu_navigate_def st1_def [symmetric])
qed


subsection \<open>Editing a value\<close>

definition press :: "nat \<Rightarrow> 'f ui_sys \<Rightarrow> 'f ui_sys" where
  "press k st = st\<lparr>us_keys := (us_keys st)[k := (us_keys st ! k)\<lparr>short_flag := 1\<rparr>]\<rparr>"

definition quiet :: "'f ui_sys \<Rightarrow> bool" where
  "quiet st \<longleftrightarrow> length (us_keys st) = KEY_CNT \<and> (\<forall>k \<in> set (us_keys st). short_flag k = 0 \<and> long_flag k = 0)"

definition at_addr_page :: "menu_mode \<Rightarrow> 'f ui_sys \<Rightarrow> bool" where
  "at_addr_page mode st \<longleftrightarrow> us_current st = 3 \<and> main_page_id st = 3 \<and> sub_page_id st = 1 \<and> \<not> us_is_menu st \<and> us_mode st = mode
     \<and> is_blinking st = (mode = EDIT_MODE) \<and> \<not> set_states st \<and> \<not> cfg_states st \<and> us_idle st = 0 \<and> quiet st
     \<and> (mode = EDIT_MODE \<longrightarrow> us_para_index st 3 1 = 0)"

lemma quiet_list: "quiet st \<Longrightarrow> \<exists>a b c d. us_keys st = [a, b, c, d] \<and> short_flag a = 0 \<and> short_flag b = 0 \<and> short_flag c = 0 \<and> short_flag d = 0
    \<and> long_flag a = 0 \<and> long_flag b = 0 \<and> long_flag c = 0 \<and> long_flag d = 0"
  by (auto simp: quiet_def KEY_CNT_def length_Suc_conv numeral_eq_Suc)

lemmas key_ids = KEY_UP_def KEY_DOWN_def KEY_SET_def KEY_RIGHT_def KEY_CNT_def

lemma addr_item [simp]: "item_ok 3 1" "item_subs 3 1 = Some Do_multi_addr" "item_para_num 3 1 = 1"
  by (simp_all add: item_ok_def item_subs_def item_para_num_def son_count_def menus_def ROOT_COUNT_def MENU_SIZE_def)











subsection \<open>Two defects\<close>

text \<open>Three keys at once leave the menus: when RIGHT, DOWN and UP were pressed since the last pass on a page of the information menu, UP selects the last item of the old
  menu in the new one, which has only five items, and the navigation calls a null pointer.\<close>

theorem three_keys_call_null:
  assumes "ui_wf st" and "us_mode st = GUIDE_MODE" and "us_idle st = 0" and "main_page_id st = 0"
    and "short_of KEY_RIGHT st" and "short_of KEY_DOWN st" and "short_of KEY_UP st" and "\<not> short_of KEY_SET st"
  shows "menu_navigate env st = None"
proof -
  have l: "length (us_keys st) = 4" "us_current st = 0" "item_ok 0 (sub_page_id st)" "\<not> is_blinking st"
    using assms(1,2,4) nav_ok_item [of st] by (auto simp: ui_wf_def nav_ok_def KEY_CNT_def)
  obtain a b c d where k: "us_keys st = [a, b, c, d]" using l(1) by (auto simp: length_Suc_conv numeral_eq_Suc)
  have f: "short_flag a \<noteq> 0" "short_flag b \<noteq> 0" "short_flag c = 0" "short_flag d \<noteq> 0"
    using assms(5-8) by (simp_all add: short_of_def k key_ids)
  have i: "item_ok 1 8" "item_subs 1 8 = None" by (simp_all add: item_ok_def item_subs_def son_count_def menus_def ROOT_COUNT_def MENU_SIZE_def)
  show ?thesis
    using assms(2-4) l k f i
    by (simp add: menu_navigate_def nav_idle_def guide_pass_def guide_right_def guide_down_def guide_up_def guide_set_def menu_finish_def
      take_short_def key_get_short_flag_def key_ids enter_main_def call_item_def root_mod ROOT_COUNT_def Let_def)
qed

text \<open>The page of the factory defaults does not ask: in its edit mode SET restores the default parameters with the answer NO as well as with YES.\<close>

theorem fact_default_ignores_answer:
  assumes "ui_wf st" and "us_mode st = EDIT_MODE" and "us_current st = 1" and "sub_page_id st = 4" and "us_idle st = 0" and "quiet st"
  shows "\<exists>st'. menu_navigate env (press KEY_SET st) = Some st' \<and> us_para st' = ue_default env (us_para st) \<and> us_log st' = us_log st @ [Restored]"
proof -
  have p: "item_ok 1 4" "item_subs 1 4 = Some Do_fact_default" "item_para_num 1 4 = 1"
    by (simp_all add: item_ok_def item_subs_def item_para_num_def son_count_def menus_def ROOT_COUNT_def MENU_SIZE_def)
  have e: "call_item env s = do_fact_default env s" if "us_current s = 1" "sub_page_id s = 4" for s :: "'a ui_sys"
    using that p by (simp add: call_item_def call_page_def)
  have w: "main_page_id st = 1" "is_blinking st" "\<not> set_states st" "\<not> us_is_menu st" "us_para_index st 1 4 = 0" "current_para_index st = 0"
    using assms p by (auto simp: ui_wf_def nav_ok_def edit_ok_def Let_def)
  obtain a b c d where k: "us_keys st = [a, b, c, d]" "short_flag a = 0" "short_flag b = 0" "short_flag c = 0" "short_flag d = 0"
    "long_flag a = 0" "long_flag b = 0" "long_flag c = 0" "long_flag d = 0" using quiet_list [OF assms(6)] by auto
  show ?thesis
    using assms(2-5) w k p
    by (simp add: menu_navigate_def press_def nav_idle_def edit_pass_def edit_right_def edit_step_def edit_set_def
      take_short_def take_long_def key_get_short_flag_def key_get_long_flag_def key_ids e do_fact_default_def edit_page_def
      menu_finish_def key_init_def Let_def)
qed

subsection \<open>Witnesses\<close>

text \<open>A panel whose floating-point parameters are integers, on the page of the device address.\<close>

definition sample_para :: "int ui_para" where
  "sample_para = \<lparr>up_temp_mode = 2, up_unit = 67, up_relay_mode = 0, up_video = 0, up_slope = 1000, up_emissivity = 1000, up_trans_nb = 1000, up_trans_wb = 1000,
     up_filt_size = 1, up_baudrate = 115200, up_addr = 31, up_ip = [], up_gateway = [], up_mask = [], up_port = 502, up_ana_type = 48, up_lower = 0, up_upper = 100,
     up_temp_min = 0, up_temp_max = 100, up_panel_lock = 85\<rparr>"

definition sample_ui_env :: "int ui_env" where
  "sample_ui_env = \<lparr>ue_milli = id, ue_of_milli = id, ue_int = id, ue_of_int = id, ue_default = (\<lambda>p. p\<lparr>up_addr := 0\<rparr>)\<rparr>"

definition sample_ui :: "int ui_sys" where
  "sample_ui = \<lparr>main_page_id = 3, sub_page_id = 1, dis_value = 0, set_value = 1, current_para_index = 0, current_para_num = 0, cfg_states = False,
     set_states = False, ip_cfg_disvalue = [0, 0, 0, 0], is_blinking = False, us_current = 3, us_mode = GUIDE_MODE, us_is_menu = False,
     us_para_index = (\<lambda>_ _. 0), us_ip_static = (\<lambda>_. [0, 0, 0, 0]), us_keys = KEY_TABLES, us_idle = 0, us_para = sample_para, us_log = []\<rparr>"

lemmas sample_ui_defs = sample_ui_def sample_para_def sample_ui_env_def KEY_TABLES_def key_entry_def

lemma sample_ui_ok: "ui_wf sample_ui" "at_addr_page GUIDE_MODE sample_ui" "quiet sample_ui" "us_keys sample_ui = KEY_TABLES"
  by (simp_all add: ui_wf_def nav_ok_def ip_arrays_def at_addr_page_def quiet_def sample_ui_defs key_ids son_count_def menus_def ROOT_COUNT_def)

lemma KEY_TABLES_quiet: "i < KEY_CNT \<Longrightarrow> short_flag (KEY_TABLES ! i) = 0 \<and> long_flag (KEY_TABLES ! i) = 0"
proof -
  assume "i < KEY_CNT"
  then have "i \<in> {0, 1, 2, 3}" by (auto simp: KEY_CNT_def)
  then show ?thesis by (auto simp: KEY_TABLES_def key_entry_def)
qed

lemma sample_press: "single_key (press k sample_ui)" if "k < KEY_CNT"
proof -
  have "length KEY_TABLES = KEY_CNT" by (simp add: KEY_TABLES_def KEY_CNT_def)
  then show ?thesis
    using that KEY_TABLES_quiet by (auto simp: single_key_def short_of_def long_of_def press_def sample_ui_ok(4) nth_list_update split: if_splits)
qed

lemma ui_wf_press [simp]: "ui_wf (press k st) = ui_wf st" "ui_wf (st\<lparr>us_para := p\<rparr>) = ui_wf st"
  by (simp_all add: ui_wf_def press_def nav_ok_def ip_arrays_def edit_ok_def page_of_def)

theorem menu_navigate_keeps_menus_witness:
  "\<exists>st'. menu_navigate sample_ui_env (press KEY_UP sample_ui) = Some st' \<and> ui_wf st'"
  by (rule menu_navigate_keeps_menus) (simp_all add: sample_ui_ok(1) sample_press)



theorem three_keys_call_null_witness:
  "menu_navigate sample_ui_env (press KEY_UP (press KEY_DOWN (press KEY_RIGHT (sample_ui\<lparr>main_page_id := 0, us_current := 0\<rparr>)))) = None"
proof -
  let ?st = "press KEY_UP (press KEY_DOWN (press KEY_RIGHT (sample_ui\<lparr>main_page_id := 0, us_current := 0\<rparr>)))"
  have "ui_wf ?st" by (simp add: ui_wf_def press_def nav_ok_def ip_arrays_def sample_ui_defs key_ids ROOT_COUNT_def)
  moreover have "us_mode ?st = GUIDE_MODE" "us_idle ?st = 0" "main_page_id ?st = 0" "short_of KEY_RIGHT ?st" "short_of KEY_DOWN ?st" "short_of KEY_UP ?st"
    "\<not> short_of KEY_SET ?st" by (simp_all add: press_def sample_ui_defs short_of_def key_ids)
  ultimately show ?thesis by (rule three_keys_call_null)
qed

theorem fact_default_ignores_answer_witness:
  "\<exists>st'. menu_navigate sample_ui_env (press KEY_SET (sample_ui\<lparr>main_page_id := 1, us_current := 1, sub_page_id := 4, us_mode := EDIT_MODE, is_blinking := True,
      dis_value := 0\<rparr>)) = Some st' \<and> up_addr (us_para st') = 0 \<and> us_log st' = [Restored]"
proof -
  let ?st = "sample_ui\<lparr>main_page_id := 1, us_current := 1, sub_page_id := 4, us_mode := EDIT_MODE, is_blinking := True, dis_value := 0\<rparr>"
  have "ui_wf ?st" by (simp add: ui_wf_def nav_ok_def ip_arrays_def edit_ok_def page_of_def index_pages_def item_para_num_def son_count_def menus_def Let_def
    sample_ui_defs key_ids ROOT_COUNT_def)
  moreover have "quiet ?st" using sample_ui_ok(3) by (simp add: quiet_def)
  moreover have "us_idle ?st = 0" "us_log ?st = []" "up_addr (ue_default sample_ui_env p) = 0" for p by (simp_all add: sample_ui_defs)
  ultimately show ?thesis using fact_default_ignores_answer [of ?st sample_ui_env] by auto
qed

end
