(* ===== verification/Soft_I2c.thy ===== *)
theory Soft_I2c
  imports Wire
begin

text \<open>
  The I2C bus driven in software, \<open>src/bsp/dev/soft_i2c.c\<close>: a start and a stop condition, addressing a device, sending and receiving bytes, all by moving the
  lines SDA and SCL.

  The state has the output latches of the two open-drain lines, the direction of SDA and the log of the levels. When SDA is an
  input its level is that of the device: a sequence \<open>i2_in\<close> whose next element each read takes, and \<open>None\<close> in the
  log. Delays and the pins of the several buses are left out.
\<close>

record i2c_bus =
  i2_sda :: bool
  i2_scl :: bool
  i2_out :: bool
  i2_log :: "(bool \<times> bool option) list"
  i2_in :: "nat \<Rightarrow> bool"
  i2_reads :: nat

definition i2_levels :: "i2c_bus \<Rightarrow> bool \<times> bool option" where
  "i2_levels b = (i2_scl b, if i2_out b then Some (i2_sda b) else None)"

definition i2_drive :: "(i2c_bus \<Rightarrow> i2c_bus) \<Rightarrow> i2c_bus \<Rightarrow> i2c_bus" where
  "i2_drive f b = (f b)\<lparr>i2_log := i2_log b @ [i2_levels (f b)]\<rparr>"

definition set_sda_out :: "i2c_bus \<Rightarrow> i2c_bus" where "set_sda_out = i2_drive (i2_out_update (\<lambda>_. True))"
definition set_sda_in :: "i2c_bus \<Rightarrow> i2c_bus" where "set_sda_in = i2_drive (i2_out_update (\<lambda>_. False))"
definition pull_sda :: "bool \<Rightarrow> i2c_bus \<Rightarrow> i2c_bus" where "pull_sda l = i2_drive (i2_sda_update (\<lambda>_. l))"
definition pull_scl :: "bool \<Rightarrow> i2c_bus \<Rightarrow> i2c_bus" where "pull_scl l = i2_drive (i2_scl_update (\<lambda>_. l))"

definition sda_high :: "i2c_bus \<Rightarrow> bool \<times> i2c_bus" where
  "sda_high b = (i2_in b (i2_reads b), b\<lparr>i2_reads := Suc (i2_reads b)\<rparr>)"

definition SI2C_ACK_TIMEOUT :: u32 where "SI2C_ACK_TIMEOUT = 100"
definition SI2C_OP_WRITE :: u32 where "SI2C_OP_WRITE = 0"
definition SI2C_OP_READ :: u32 where "SI2C_OP_READ = 1"

definition si2c_init :: "i2c_bus \<Rightarrow> i2c_bus" where
  "si2c_init b = pull_scl True (pull_sda True (set_sda_out b))"

definition si2c_start :: "i2c_bus \<Rightarrow> i2c_bus" where
  "si2c_start b = pull_scl False (pull_sda False (pull_sda True (pull_scl True (set_sda_out b))))"

definition si2c_stop :: "i2c_bus \<Rightarrow> i2c_bus" where
  "si2c_stop b = pull_sda True (pull_scl True (pull_sda False (pull_scl False (set_sda_out b))))"

subsection \<open>Bits\<close>

definition tx_bit :: "bool \<Rightarrow> i2c_bus \<Rightarrow> i2c_bus" where
  "tx_bit l b = pull_scl False (pull_scl True (pull_sda l b))"

definition rx_bit :: "i2c_bus \<Rightarrow> bool \<times> i2c_bus" where
  "rx_bit b = (let (l, b) = sda_high (pull_scl True b) in (l, pull_scl False b))"

text \<open>
  The loop \<open>while (timeout-- != 0)\<close>: the result is the value of the counter after it. When the loop runs to its end the counter
  has wrapped around; when it is left by a break the counter was decremented already.
\<close>

function ack_loop :: "u32 \<Rightarrow> i2c_bus \<Rightarrow> u32 \<times> i2c_bus" where
  "ack_loop timeout b =
     (if timeout = 0 then (- 1, b)
      else let (l, b) = sda_high b in if \<not> l then (timeout - 1, b) else ack_loop (timeout - 1) b)"
  by pat_completeness auto
termination
proof (relation "measure (\<lambda>(timeout, b). unat timeout)")
  fix timeout :: u32 and b l b'
  assume "timeout \<noteq> 0"
  then show "((timeout - 1, b'), timeout, b) \<in> measure (\<lambda>(timeout, b). unat timeout)" by (simp add: measure_unat)
qed simp

declare ack_loop.simps [simp del]

definition rx_ack :: "u32 \<Rightarrow> i2c_bus \<Rightarrow> int \<times> i2c_bus" where
  "rx_ack timeout b =
     (let (t, b) = ack_loop timeout (pull_scl True b) in (if t = 0 then - 1 else 0, pull_scl False b))"

subsection \<open>Bytes\<close>

text \<open>The loop \<open>for (i = 7; i >= 0; i--)\<close> over the bits of a byte.\<close>

fun tx_bits :: "nat \<Rightarrow> u8 \<Rightarrow> i2c_bus \<Rightarrow> i2c_bus" where
  "tx_bits 0 byte b = b"
| "tx_bits (Suc i) byte b = tx_bits i byte (tx_bit (drop_bit i byte AND 1 \<noteq> 0) b)"

definition si2c_select :: "u32 \<Rightarrow> u32 \<Rightarrow> i2c_bus \<Rightarrow> int \<times> i2c_bus" where
  "si2c_select addr op b =
     (let byte = ucast (push_bit 1 (addr AND 0x7f) OR (op AND 1)) :: u8;
          b = tx_bits 8 byte (set_sda_out b);
          (r, b) = rx_ack SI2C_ACK_TIMEOUT (set_sda_in b)
      in (if r \<noteq> 0 then - 1 else 0, b))"

fun tx_loop :: "buf \<Rightarrow> i2c_bus \<Rightarrow> nat \<times> i2c_bus" where
  "tx_loop [] b = (0, b)"
| "tx_loop (byte # dat) b =
     (let b = tx_bits 8 byte (set_sda_out b);
          (r, b) = rx_ack SI2C_ACK_TIMEOUT (set_sda_in b)
      in if r \<noteq> 0 then (0, b) else let (n, b) = tx_loop dat b in (Suc n, b))"

definition si2c_tx :: "buf \<Rightarrow> i2c_bus \<Rightarrow> nat \<times> i2c_bus" where
  "si2c_tx = tx_loop"

fun rx_bits :: "nat \<Rightarrow> u8 \<Rightarrow> i2c_bus \<Rightarrow> u8 \<times> i2c_bus" where
  "rx_bits 0 byte b = (byte, b)"
| "rx_bits (Suc i) byte b =
     (let (l, b) = rx_bit b in rx_bits i (push_bit 1 byte OR of_bool l) b)"

fun si2c_rx :: "nat \<Rightarrow> i2c_bus \<Rightarrow> buf \<times> i2c_bus" where
  "si2c_rx 0 b = ([], b)"
| "si2c_rx (Suc len) b =
     (let (byte, b) = rx_bits 8 0 (set_sda_in b);
          b = tx_bit (len = 0) (set_sda_out b);
          (bs, b) = si2c_rx len b
      in (byte # bs, b))"

definition si2c_send :: "u32 \<Rightarrow> buf \<Rightarrow> i2c_bus \<Rightarrow> nat \<times> i2c_bus" where
  "si2c_send addr dat b =
     (let (r, b) = si2c_select addr SI2C_OP_WRITE (si2c_start b)
      in if r \<noteq> 0 then (0, si2c_stop b) else let (n, b) = si2c_tx dat b in (n, si2c_stop b))"

definition si2c_receive :: "u32 \<Rightarrow> nat \<Rightarrow> i2c_bus \<Rightarrow> buf \<times> i2c_bus" where
  "si2c_receive addr len b =
     (let (r, b) = si2c_select addr SI2C_OP_READ (si2c_start b)
      in if r \<noteq> 0 then ([], si2c_stop b) else let (bs, b) = si2c_rx len b in (bs, si2c_stop b))"

subsection \<open>What the devices see\<close>

text \<open>
  A falling SDA while SCL is high is a start, a rising one a stop; a rising SCL takes a bit. A bit that the driver leaves to the device is \<open>None\<close>.
\<close>

datatype i2c_event = I2c_Start | I2c_Stop | I2c_Bit "bool option"

definition i2_edge :: "bool \<times> bool option \<Rightarrow> bool \<times> bool option \<Rightarrow> i2c_event list" where
  "i2_edge l l' = (case (l, l') of ((c, d), (c', d')) \<Rightarrow>
     if \<not> c \<and> c' then [I2c_Bit d']
     else if c \<and> c' \<and> d = Some True \<and> d' = Some False then [I2c_Start]
     else if c \<and> c' \<and> d = Some False \<and> d' = Some True then [I2c_Stop]
     else [])"

interpretation i2: wire i2_levels i2_log i2_drive i2_edge
  by unfold_locales (simp add: i2_drive_def i2_levels_def)

definition i2_seen :: "i2c_bus \<Rightarrow> i2c_event list" where
  "i2_seen b = edges i2_edge (i2_log b)"

lemma i2_drive_sel [simp]:
  "i2_sda (i2_drive f b) = i2_sda (f b)" "i2_scl (i2_drive f b) = i2_scl (f b)" "i2_out (i2_drive f b) = i2_out (f b)"
  "i2_in (i2_drive f b) = i2_in (f b)" "i2_reads (i2_drive f b) = i2_reads (f b)" "i2_levels (i2_drive f b) = i2_levels (f b)"
  by (simp_all add: i2_drive_def i2_levels_def)

lemma i2_seen_drive:
  "logs_levels i2_levels i2_log b \<Longrightarrow> i2_seen (i2_drive f b) = i2_seen b @ i2_edge (i2_levels b) (i2_levels (f b))"
  by (simp add: i2_seen_def i2.drive_events)

lemmas i2_step_simps = i2_seen_drive i2.drive_synced i2_edge_def i2_levels_def
lemmas i2_pins = set_sda_out_def set_sda_in_def pull_sda_def pull_scl_def

definition i2_ok :: "bool \<Rightarrow> i2c_bus \<Rightarrow> bool" where
  "i2_ok out b \<longleftrightarrow> logs_levels i2_levels i2_log b \<and> \<not> i2_scl b \<and> i2_out b = out"

definition i2_idle :: "i2c_bus \<Rightarrow> bool" where
  "i2_idle b \<longleftrightarrow> logs_levels i2_levels i2_log b \<and> i2_scl b \<and> i2_sda b \<and> i2_out b"

text \<open>A step of the driver that the devices see as \<open>es\<close> and that takes \<open>n\<close> samples.\<close>

definition i2_does :: "i2c_bus \<Rightarrow> i2c_event list \<Rightarrow> nat \<Rightarrow> i2c_bus \<Rightarrow> bool" where
  "i2_does b es n b' \<longleftrightarrow> i2_seen b' = i2_seen b @ es \<and> i2_in b' = i2_in b \<and> i2_reads b' = i2_reads b + n"

lemma i2_does_trans: "i2_does b es n b' \<Longrightarrow> i2_does b' fs m b'' \<Longrightarrow> i2_does b (es @ fs) (n + m) b''"
  by (simp add: i2_does_def)

lemma sda_dir:
  assumes "i2_ok out b"
  shows "i2_ok True (set_sda_out b)" "i2_does b [] 0 (set_sda_out b)" "i2_ok False (set_sda_in b)" "i2_does b [] 0 (set_sda_in b)"
  using assms by (auto simp: i2_ok_def i2_does_def i2_pins i2_step_simps)

lemma tx_bit_does:
  assumes "i2_ok True b"
  shows "i2_ok True (tx_bit l b)" "i2_does b [I2c_Bit (Some l)] 0 (tx_bit l b)"
  using assms by (auto simp: tx_bit_def i2_ok_def i2_does_def i2_pins i2_step_simps)

lemma tx_bits_does:
  "i2_ok True b \<Longrightarrow> i2_ok True (tx_bits n w b) \<and> i2_does b (map (\<lambda>i. I2c_Bit (Some (bit w i))) (rev [0..<n])) 0 (tx_bits n w b)"
proof (induction n arbitrary: b)
  case 0
  then show ?case by (simp add: i2_does_def)
next
  case (Suc n)
  let ?l = "drop_bit n w AND 1 \<noteq> 0"
  have l: "?l = bit w n" by (simp add: and_one_eq bit_iff_odd_drop_bit odd_iff_mod_2_eq_one)
  show ?case using Suc.IH [OF tx_bit_does(1) [OF Suc.prems, of ?l]] i2_does_trans [OF tx_bit_does(2) [OF Suc.prems, of ?l]] by (simp add: l)
qed

text \<open>The bits of a byte, the most significant first.\<close>

definition i2_byte :: "u8 \<Rightarrow> i2c_event list" where
  "i2_byte w = map (I2c_Bit \<circ> Some) (rev (byte_bits w))"

lemma tx_byte_does:
  assumes "i2_ok out b"
  shows "i2_ok False (set_sda_in (tx_bits 8 w (set_sda_out b))) \<and> i2_does b (i2_byte w) 0 (set_sda_in (tx_bits 8 w (set_sda_out b)))"
proof -
  note t = tx_bits_does [OF sda_dir(1) [OF assms], of 8 w]
  have "i2_does b ([] @ map (\<lambda>i. I2c_Bit (Some (bit w i))) (rev [0..<8]) @ []) (0 + (0 + 0)) (set_sda_in (tx_bits 8 w (set_sda_out b)))"
    using i2_does_trans [OF sda_dir(2) [OF assms] i2_does_trans [OF conjunct2 [OF t] sda_dir(4) [OF conjunct1 [OF t]]]] .
  moreover have "map (\<lambda>i. I2c_Bit (Some (bit w i))) (rev [0..<8]) = i2_byte w" by (simp add: i2_byte_def byte_bits_def comp_def flip: rev_map)
  ultimately show ?thesis using sda_dir(3) [OF conjunct1 [OF t]] by simp
qed

subsection \<open>Acknowledgement\<close>

lemma ack_loop_low:
  "k < unat t \<Longrightarrow> (\<And>i. i < k \<Longrightarrow> i2_in b (i2_reads b + i)) \<Longrightarrow> \<not> i2_in b (i2_reads b + k) \<Longrightarrow>
   ack_loop t b = (t - 1 - of_nat k, b\<lparr>i2_reads := i2_reads b + Suc k\<rparr>)"
proof (induction k arbitrary: t b)
  case 0
  then have "t \<noteq> 0" by auto
  then show ?case using 0 by (subst ack_loop.simps) (simp add: sda_high_def)
next
  case (Suc k)
  let ?b = "b\<lparr>i2_reads := Suc (i2_reads b)\<rparr>"
  have t: "t \<noteq> 0" using Suc.prems(1) by auto
  then have k: "k < unat (t - 1)" using Suc.prems(1) by (simp add: unat_minus_one)
  have h: "i2_in b (i2_reads b)" using Suc.prems(2) [of 0] by simp
  have "\<And>i. i < k \<Longrightarrow> i2_in ?b (i2_reads ?b + i)" "\<not> i2_in ?b (i2_reads ?b + k)" using Suc.prems(2) [of "Suc i" for i] Suc.prems(3) by auto
  from Suc.IH [OF k this] show ?case using t h by (subst ack_loop.simps) (simp add: sda_high_def algebra_simps)
qed

lemma ack_loop_none:
  "(\<And>i. i < unat t \<Longrightarrow> i2_in b (i2_reads b + i)) \<Longrightarrow> ack_loop t b = (- 1, b\<lparr>i2_reads := i2_reads b + unat t\<rparr>)"
proof (induction "unat t" arbitrary: t b)
  case 0
  then have "t = 0" by (simp add: unat_eq_0)
  then show ?case by (subst ack_loop.simps) simp
next
  case (Suc n)
  let ?b = "b\<lparr>i2_reads := Suc (i2_reads b)\<rparr>"
  have t: "t \<noteq> 0" using Suc.hyps(2) by auto
  then have n: "n = unat (t - 1)" using Suc.hyps(2) by (simp add: unat_minus_one)
  have h: "i2_in b (i2_reads b)" using Suc.prems [of 0] Suc.hyps(2) by simp
  have "\<And>i. i < unat (t - 1) \<Longrightarrow> i2_in ?b (i2_reads ?b + i)" using Suc.prems [of "Suc i" for i] Suc.hyps(2) n by auto
  from Suc.hyps(1) [OF n this] show ?case using t h Suc.hyps(2) n by (subst ack_loop.simps) (simp add: sda_high_def)
qed

lemma rx_ack_does:
  assumes "i2_ok False b" and "ack_loop t (pull_scl True b) = (r, (pull_scl True b)\<lparr>i2_reads := i2_reads b + n\<rparr>)"
  shows "\<exists>b'. rx_ack t b = (if r = 0 then - 1 else 0, b') \<and> i2_ok False b' \<and> i2_does b [I2c_Bit None] n b'"
proof -
  let ?c = "(pull_scl True b)\<lparr>i2_reads := i2_reads b + n\<rparr>"
  have u: "i2_seen (c\<lparr>i2_reads := k\<rparr>) = i2_seen c" "logs_levels i2_levels i2_log (c\<lparr>i2_reads := k\<rparr>) = logs_levels i2_levels i2_log c" for c k
    by (simp_all add: i2_seen_def logs_levels_def i2_levels_def)
  have "i2_ok False (pull_scl False ?c)" "i2_does b [I2c_Bit None] n (pull_scl False ?c)"
    using assms(1) by (auto simp: i2_ok_def i2_does_def u i2_pins i2_step_simps)
  then show ?thesis using assms(2) by (simp add: rx_ack_def)
qed

lemma pull_scl_in [simp]: "i2_in (pull_scl l b) = i2_in b" "i2_reads (pull_scl l b) = i2_reads b"
  by (simp_all add: i2_pins)

text \<open>
  The two ways to an acknowledgement: the device pulls SDA low at once, or nobody does for all hundred polls. In the second case the
  counter wraps around and is not zero.
\<close>

definition ack_takes :: "nat \<Rightarrow> (nat \<Rightarrow> bool) \<Rightarrow> nat \<Rightarrow> bool" where
  "ack_takes m inp r \<longleftrightarrow> m = 1 \<and> \<not> inp r \<or> m = 100 \<and> (\<forall>i < 100. inp (r + i))"

lemma rx_ack_taken:
  assumes "i2_ok False b" and "ack_takes m (i2_in b) (i2_reads b)"
  shows "\<exists>b'. rx_ack SI2C_ACK_TIMEOUT b = (0, b') \<and> i2_ok False b' \<and> i2_does b [I2c_Bit None] m b'"
proof -
  have u: "unat SI2C_ACK_TIMEOUT = 100" by (simp add: SI2C_ACK_TIMEOUT_def)
  show ?thesis
  proof (cases "m = 1 \<and> \<not> i2_in b (i2_reads b)")
    case True
    then show ?thesis using rx_ack_does [OF assms(1), of SI2C_ACK_TIMEOUT 99 1] ack_loop_low [of 0 SI2C_ACK_TIMEOUT "pull_scl True b"] u
      by (simp add: SI2C_ACK_TIMEOUT_def)
  next
    case False
    then have m: "m = 100" "\<forall>i < 100. i2_in b (i2_reads b + i)" using assms(2) by (auto simp: ack_takes_def)
    then show ?thesis using rx_ack_does [OF assms(1), of SI2C_ACK_TIMEOUT "- 1" 100] ack_loop_none [of SI2C_ACK_TIMEOUT "pull_scl True b"] u
      by simp
  qed
qed

text \<open>An acknowledgement at the last poll is taken for a missing one.\<close>

lemma late_ack_is_failure:
  assumes "\<forall>i < 99. i2_in b (i2_reads b + i)" and "\<not> i2_in b (i2_reads b + 99)"
  shows "fst (rx_ack SI2C_ACK_TIMEOUT b) = - 1"
proof -
  have "unat SI2C_ACK_TIMEOUT = 100" by (simp add: SI2C_ACK_TIMEOUT_def)
  then show ?thesis using ack_loop_low [of 99 SI2C_ACK_TIMEOUT "pull_scl True b"] assms by (simp add: rx_ack_def SI2C_ACK_TIMEOUT_def)
qed

subsection \<open>Sending\<close>

definition i2_frame :: "u8 \<Rightarrow> i2c_event list" where
  "i2_frame w = i2_byte w @ [I2c_Bit None]"

definition addr_byte :: "u32 \<Rightarrow> u32 \<Rightarrow> u8" where
  "addr_byte addr op = ucast (push_bit 1 (addr AND 0x7f) OR (op AND 1))"

lemma byte_frame:
  assumes "i2_ok out b" and "ack_takes m (i2_in b) (i2_reads b)"
  shows "\<exists>b'. rx_ack SI2C_ACK_TIMEOUT (set_sda_in (tx_bits 8 w (set_sda_out b))) = (0, b') \<and> i2_ok False b' \<and> i2_does b (i2_frame w) m b'"
proof -
  let ?c = "set_sda_in (tx_bits 8 w (set_sda_out b))"
  have c: "i2_ok False ?c" "i2_does b (i2_byte w) 0 ?c" using tx_byte_does [OF assms(1), of w] by auto
  then have "ack_takes m (i2_in ?c) (i2_reads ?c)" using assms(2) by (simp add: i2_does_def)
  from rx_ack_taken [OF c(1) this] obtain b' where "rx_ack SI2C_ACK_TIMEOUT ?c = (0, b')" "i2_ok False b'" "i2_does ?c [I2c_Bit None] m b'" by blast
  then show ?thesis using i2_does_trans [OF c(2)] by (fastforce simp: i2_frame_def)
qed

lemma si2c_start_does:
  assumes "i2_idle b"
  shows "i2_ok True (si2c_start b)" "i2_does b [I2c_Start] 0 (si2c_start b)"
  using assms by (auto simp: si2c_start_def i2_idle_def i2_ok_def i2_does_def i2_pins i2_step_simps)

lemma si2c_stop_does:
  assumes "i2_ok out b"
  shows "i2_idle (si2c_stop b)" "i2_does b [I2c_Bit (Some False), I2c_Stop] 0 (si2c_stop b)"
  using assms by (auto simp: si2c_stop_def i2_idle_def i2_ok_def i2_does_def i2_pins i2_step_simps)

lemma tx_loop_does:
  "i2_ok out b \<Longrightarrow> (\<And>k. k < length dat \<Longrightarrow> ack_takes m (i2_in b) (i2_reads b + m * k)) \<Longrightarrow>
   \<exists>b' out'. tx_loop dat b = (length dat, b') \<and> i2_ok out' b' \<and> i2_does b (concat (map i2_frame dat)) (m * length dat) b'"
proof (induction dat arbitrary: b out)
  case Nil
  then show ?case by (auto simp: i2_does_def)
next
  case (Cons w dat)
  have "ack_takes m (i2_in b) (i2_reads b)" using Cons.prems(2) [of 0] by simp
  from byte_frame [OF Cons.prems(1) this] obtain c where c: "rx_ack SI2C_ACK_TIMEOUT (set_sda_in (tx_bits 8 w (set_sda_out b))) = (0, c)"
    "i2_ok False c" "i2_does b (i2_frame w) m c" by blast
  have "ack_takes m (i2_in c) (i2_reads c + m * k)" if "k < length dat" for k
    using Cons.prems(2) [of "Suc k"] that c(3) by (simp add: i2_does_def algebra_simps)
  from Cons.IH [OF c(2) this] obtain b' out' where "tx_loop dat c = (length dat, b')" "i2_ok out' b'"
    "i2_does c (concat (map i2_frame dat)) (m * length dat) b'" by blast
  then show ?case using c i2_does_trans [OF c(3)] by fastforce
qed

lemma select_does:
  assumes "i2_ok out b" and "ack_takes m (i2_in b) (i2_reads b)"
  shows "\<exists>b'. si2c_select addr op b = (0, b') \<and> i2_ok False b' \<and> i2_does b (i2_frame (addr_byte addr op)) m b'"
  using byte_frame [OF assms, of "addr_byte addr op"] by (auto simp: si2c_select_def addr_byte_def Let_def)

lemma send_frames:
  assumes "i2_idle b" and "\<And>k. k \<le> length dat \<Longrightarrow> ack_takes m (i2_in b) (i2_reads b + m * k)"
  shows "\<exists>b'. si2c_send addr dat b = (length dat, b') \<and> i2_idle b'
    \<and> i2_seen b' = i2_seen b @ I2c_Start # i2_frame (addr_byte addr 0) @ concat (map i2_frame dat) @ [I2c_Bit (Some False), I2c_Stop]"
proof -
  note s = si2c_start_does [OF assms(1)]
  have "ack_takes m (i2_in (si2c_start b)) (i2_reads (si2c_start b))" using assms(2) [of 0] s(2) by (simp add: i2_does_def)
  from select_does [OF s(1) this, of addr 0] obtain c where c: "si2c_select addr 0 (si2c_start b) = (0, c)" "i2_ok False c"
    "i2_does (si2c_start b) (i2_frame (addr_byte addr 0)) m c" by blast
  have "ack_takes m (i2_in c) (i2_reads c + m * k)" if "k < length dat" for k
    using assms(2) [of "Suc k"] that c(3) s(2) by (simp add: i2_does_def algebra_simps)
  from tx_loop_does [OF c(2) this] obtain d out where d: "tx_loop dat c = (length dat, d)" "i2_ok out d"
    "i2_does c (concat (map i2_frame dat)) (m * length dat) d" by blast
  note e = si2c_stop_does [OF d(2)]
  have "si2c_send addr dat b = (length dat, si2c_stop d)" using c(1) d(1) by (simp add: si2c_send_def SI2C_OP_WRITE_def si2c_tx_def)
  then show ?thesis using s(2) c(3) d(3) e by (simp add: i2_does_def)
qed

text \<open>C21: Sending to a device that acknowledges every byte: the devices on the bus see exactly one start condition, the address with the write bit and the bytes in order, the most
  significant bit first and a ninth clock for the acknowledgement after each, and one stop condition; all bytes are counted as sent and the
  bus is idle again.\<close>

theorem si2c_send_frames:
  assumes "i2_idle b" and "\<forall>k \<le> length dat. \<not> i2_in b (i2_reads b + k)"
  shows "\<exists>b'. si2c_send addr dat b = (length dat, b') \<and> i2_idle b'
    \<and> i2_seen b' = i2_seen b @ I2c_Start # i2_frame (addr_byte addr 0) @ concat (map i2_frame dat) @ [I2c_Bit (Some False), I2c_Stop]"
  by (rule send_frames [OF assms(1), of dat 1]) (use assms(2) in \<open>simp add: ack_takes_def\<close>)

text \<open>A missing acknowledgement is taken for one: whatever is sent to an address where no device answers is counted as sent, because the counter of the
  waiting loop wraps around before it is compared with zero.\<close>

theorem absent_device_accepts_all:
  assumes "i2_idle b" and "i2_in b = (\<lambda>_. True)"
  shows "fst (si2c_send addr dat b) = length dat"
  using send_frames [OF assms(1), of dat 100 addr] assms(2) by (auto simp: ack_takes_def)

definition idle_bus :: "(nat \<Rightarrow> bool) \<Rightarrow> i2c_bus" where
  "idle_bus inp = \<lparr>i2_sda = True, i2_scl = True, i2_out = True, i2_log = [(True, Some True)], i2_in = inp, i2_reads = 0\<rparr>"

lemma idle_bus_ok: "i2_idle (idle_bus inp)" "i2_seen (idle_bus inp) = []" "i2_in (idle_bus inp) = inp" "i2_reads (idle_bus inp) = 0"
  by (simp_all add: i2_idle_def idle_bus_def logs_levels_def i2_levels_def i2_seen_def)

theorem si2c_send_frames_witness:
  "\<exists>b'. si2c_send 0x50 [1, 2] (idle_bus (\<lambda>_. False)) = (2, b')
    \<and> i2_seen b' = I2c_Start # i2_frame 0xA0 @ i2_frame 1 @ i2_frame 2 @ [I2c_Bit (Some False), I2c_Stop]"
proof -
  have "addr_byte 0x50 0 = 0xA0" by (simp add: addr_byte_def)
  then show ?thesis using si2c_send_frames [OF idle_bus_ok(1), of "[1, 2]" "\<lambda>_. False" "0x50"] by (auto simp: idle_bus_ok numeral_2_eq_2)
qed

theorem absent_device_accepts_all_witness: "fst (si2c_send 0x50 [1, 2, 3] (idle_bus (\<lambda>_. True))) = 3"
  using absent_device_accepts_all [OF idle_bus_ok(1) idle_bus_ok(3), of "0x50" "[1, 2, 3]"] by simp

subsection \<open>Receiving\<close>

lemma rx_bit_does:
  assumes "i2_ok False b"
  shows "\<exists>b'. rx_bit b = (i2_in b (i2_reads b), b') \<and> i2_ok False b' \<and> i2_does b [I2c_Bit None] 1 b'"
proof -
  let ?c = "(pull_scl True b)\<lparr>i2_reads := i2_reads b + 1\<rparr>"
  have u: "i2_seen (c\<lparr>i2_reads := k\<rparr>) = i2_seen c" "logs_levels i2_levels i2_log (c\<lparr>i2_reads := k\<rparr>) = logs_levels i2_levels i2_log c" for c k
    by (simp_all add: i2_seen_def logs_levels_def i2_levels_def)
  have "i2_ok False (pull_scl False ?c)" "i2_does b [I2c_Bit None] 1 (pull_scl False ?c)"
    using assms by (auto simp: i2_ok_def i2_does_def u i2_pins i2_step_simps)
  then show ?thesis by (simp add: rx_bit_def sda_high_def)
qed

text \<open>The byte of eight samples, the most significant first.\<close>

definition sampled_byte :: "(nat \<Rightarrow> bool) \<Rightarrow> nat \<Rightarrow> u8" where
  "sampled_byte inp r = foldl (\<lambda>v i. push_bit 1 v OR of_bool (inp (r + i))) 0 [0..<8]"

lemma bit_shifted_in:
  "i < 8 \<Longrightarrow> n \<le> 8 \<Longrightarrow> bit (foldl (\<lambda>v i. push_bit 1 v OR of_bool (inp (r + i))) (v :: u8) [0..<n]) i = (if i < n then inp (r + (n - 1 - i)) else bit v (i - n))"
proof (induction n arbitrary: i)
  case (Suc n)
  show ?case
  proof (cases i)
    case 0
    have "\<not> bit (w * 2) 0" for w :: u8 by (simp add: bit_0)
    then show ?thesis using 0 by (auto simp: bit_or_iff bit_of_bool_iff)
  next
    case (Suc j)
    have "bit (w * 2) (Suc j) = bit w j" if "j < 7" for w :: u8 using that by (simp add: mult.commute [of w] bit_double_iff)
    then show ?thesis using Suc Suc.IH [of j] Suc.prems by (auto simp: bit_or_iff bit_of_bool_iff)
  qed
qed simp

lemma bit_sampled_byte: "i < 8 \<Longrightarrow> bit (sampled_byte inp r) i = inp (r + (7 - i))"
  using bit_shifted_in [of i 8 inp r 0] by (simp add: sampled_byte_def)

lemma rx_bits_does:
  "i2_ok False b \<Longrightarrow> \<exists>b'. rx_bits n v b = (foldl (\<lambda>v i. push_bit 1 v OR of_bool (i2_in b (i2_reads b + i))) v [0..<n], b') \<and> i2_ok False b'
    \<and> i2_does b (replicate n (I2c_Bit None)) n b'"
proof (induction n arbitrary: v b)
  case 0
  then show ?case by (simp add: i2_does_def)
next
  case (Suc n)
  obtain c where c: "rx_bit b = (i2_in b (i2_reads b), c)" "i2_ok False c" "i2_does b [I2c_Bit None] 1 c" using rx_bit_does [OF Suc.prems] by blast
  have f: "foldl (\<lambda>v i. push_bit 1 v OR of_bool (i2_in b (i2_reads b + i))) v [0..<Suc n]
      = foldl (\<lambda>v i. push_bit 1 v OR of_bool (i2_in c (i2_reads c + i))) (push_bit 1 v OR of_bool (i2_in b (i2_reads b))) [0..<n]" for v :: u8
  proof -
    have "[0..<Suc n] = 0 # map Suc [0..<n]" by (simp add: upt_conv_Cons map_Suc_upt del: upt_Suc)
    then show ?thesis using c(3) by (simp add: i2_does_def foldl_map del: upt_Suc)
  qed
  obtain b' where b': "rx_bits n (push_bit 1 v OR of_bool (i2_in b (i2_reads b))) c
      = (foldl (\<lambda>v i. push_bit 1 v OR of_bool (i2_in c (i2_reads c + i))) (push_bit 1 v OR of_bool (i2_in b (i2_reads b))) [0..<n], b')"
    "i2_ok False b'" "i2_does c (replicate n (I2c_Bit None)) n b'" using Suc.IH [OF c(2)] by blast
  show ?case using i2_does_trans [OF c(3) b'(3)] b'(1,2) c(1) unfolding f by (simp del: upt_Suc)
qed

fun rx_frames :: "nat \<Rightarrow> i2c_event list" where
  "rx_frames 0 = []"
| "rx_frames (Suc n) = replicate 8 (I2c_Bit None) @ [I2c_Bit (Some (n = 0))] @ rx_frames n"

lemma si2c_rx_does:
  "i2_ok out b \<Longrightarrow> \<exists>b' out'. si2c_rx n b = (map (\<lambda>k. sampled_byte (i2_in b) (i2_reads b + 8 * k)) [0..<n], b') \<and> i2_ok out' b' \<and> i2_does b (rx_frames n) (8 * n) b'"
proof (induction n arbitrary: b out)
  case 0
  then show ?case by (auto simp: i2_does_def)
next
  case (Suc n)
  note d = sda_dir [OF Suc.prems]
  obtain c where c: "rx_bits 8 0 (set_sda_in b) = (sampled_byte (i2_in b) (i2_reads b), c)" "i2_ok False c" "i2_does b (replicate 8 (I2c_Bit None)) 8 c"
  proof -
    have e: "i2_in (set_sda_in b) = i2_in b" "i2_reads (set_sda_in b) = i2_reads b" using d(4) by (simp_all add: i2_does_def)
    obtain c where c: "rx_bits 8 0 (set_sda_in b) = (sampled_byte (i2_in b) (i2_reads b), c)" "i2_ok False c" "i2_does (set_sda_in b) (replicate 8 (I2c_Bit None)) 8 c"
      using rx_bits_does [OF d(3), of 8 0] unfolding e sampled_byte_def [symmetric] by blast
    show ?thesis using that [OF c(1,2)] i2_does_trans [OF d(4) c(3)] by simp
  qed
  let ?e = "tx_bit (n = 0) (set_sda_out c)"
  have e: "i2_ok True ?e" "i2_does b (replicate 8 (I2c_Bit None) @ [I2c_Bit (Some (n = 0))]) 8 ?e"
    using tx_bit_does [OF sda_dir(1) [OF c(2)], of "n = 0"] sda_dir(2) [OF c(2)] c(3) by (simp_all add: i2_does_def)
  obtain b' out' where b': "si2c_rx n ?e = (map (\<lambda>k. sampled_byte (i2_in ?e) (i2_reads ?e + 8 * k)) [0..<n], b')" "i2_ok out' b'" "i2_does ?e (rx_frames n) (8 * n) b'"
    using Suc.IH [OF e(1)] by blast
  have m: "map (\<lambda>k. sampled_byte (i2_in b) (i2_reads b + 8 * k)) [0..<Suc n]
      = sampled_byte (i2_in b) (i2_reads b) # map (\<lambda>k. sampled_byte (i2_in ?e) (i2_reads ?e + 8 * k)) [0..<n]"
  proof -
    have "[0..<Suc n] = 0 # map Suc [0..<n]" by (simp add: upt_conv_Cons map_Suc_upt del: upt_Suc)
    then show ?thesis using e(2) by (simp add: i2_does_def comp_def add.assoc del: upt_Suc)
  qed
  show ?case using i2_does_trans [OF e(2) b'(3)] b' c(1) unfolding m by (auto simp: Let_def simp del: upt_Suc)
qed

text \<open>Receiving from a device that acknowledges its address returns the bytes that the device drives on SDA, the most significant bit first; the device
  sees the address with the read bit, an acknowledgement after each byte but the last one, which is refused, and one stop condition.\<close>

theorem si2c_receive_bytes:
  assumes "i2_idle b" and "\<not> i2_in b (i2_reads b)"
  shows "\<exists>b'. si2c_receive addr n b = (map (\<lambda>k. sampled_byte (i2_in b) (i2_reads b + 1 + 8 * k)) [0..<n], b') \<and> i2_idle b'
    \<and> i2_seen b' = i2_seen b @ I2c_Start # i2_frame (addr_byte addr 1) @ rx_frames n @ [I2c_Bit (Some False), I2c_Stop]"
proof -
  note s = si2c_start_does [OF assms(1)]
  have "ack_takes 1 (i2_in (si2c_start b)) (i2_reads (si2c_start b))" using assms(2) s(2) by (simp add: i2_does_def ack_takes_def)
  from select_does [OF s(1) this, of addr 1] obtain c where c: "si2c_select addr 1 (si2c_start b) = (0, c)" "i2_ok False c"
    "i2_does (si2c_start b) (i2_frame (addr_byte addr 1)) 1 c" by blast
  obtain d out where d: "si2c_rx n c = (map (\<lambda>k. sampled_byte (i2_in c) (i2_reads c + 8 * k)) [0..<n], d)" "i2_ok out d" "i2_does c (rx_frames n) (8 * n) d"
    using si2c_rx_does [OF c(2)] by blast
  have r: "i2_in c = i2_in b" "i2_reads c = i2_reads b + 1" using c(3) s(2) by (simp_all add: i2_does_def)
  note e = si2c_stop_does [OF d(2)]
  have "si2c_receive addr n b = (map (\<lambda>k. sampled_byte (i2_in b) (i2_reads b + 1 + 8 * k)) [0..<n], si2c_stop d)"
    using c(1) d(1) by (simp add: si2c_receive_def SI2C_OP_READ_def r)
  then show ?thesis using s(2) c(3) d(3) e by (simp add: i2_does_def)
qed

theorem si2c_receive_bytes_witness:
  "\<exists>b'. si2c_receive 0x50 1 (idle_bus (\<lambda>i. i = 2)) = ([0x40], b')
    \<and> i2_seen b' = I2c_Start # i2_frame 0xA1 @ rx_frames 1 @ [I2c_Bit (Some False), I2c_Stop]"
proof -
  have "addr_byte 0x50 1 = 0xA1" "sampled_byte (\<lambda>i. i = 2) 1 = 0x40" by (simp_all add: addr_byte_def sampled_byte_def upt_rec)
  then show ?thesis using si2c_receive_bytes [OF idle_bus_ok(1), of "\<lambda>i. i = 2" "0x50" 1] by (auto simp: idle_bus_ok)
qed

text \<open>A start condition on a bus that is not idle raises SCL before SDA: if the last bit sent was 0, the devices see a stop condition first.\<close>

lemma repeated_start_stops:
  assumes "i2_ok out b" and "\<not> i2_sda b"
  shows "i2_does b [I2c_Bit (Some False), I2c_Stop, I2c_Start] 0 (si2c_start b)"
  using assms by (auto simp: si2c_start_def i2_ok_def i2_does_def i2_pins i2_step_simps)

end
