(* ===== verification/Tcp_Server.thy ===== *)
theory Tcp_Server
  imports Comm Ui
begin

text \<open>
  The TCP servers, \<open>src/app/comm/tcp_server.c\<close>, with the user threads of \<open>src/app/arch/thread.c\<close>. Two servers, for work and for
  the camera, accept clients; every client has a slot of its server and a thread that passes the received blocks to
  the protocols. The theory closes the loop left open in the communication layer: the answers of the
  protocols are sent by \<open>tcp_server_send_low\<close> over the connection of the client.

  The tasks with their local variables are a list in the state, and a step is one pass of the loop of one of them; the clean-up at the
  end of a client thread is two steps, since the server has the higher priority and runs as soon as a connection
  waits. lwIP is an argument: an environment holds what its functions return in the pass, and a connection is a number. The calls that
  change a connection are recorded.
\<close>

subsection \<open>State\<close>

definition ERR_OK :: int where "ERR_OK = 0"
definition ERR_TIMEOUT :: int where "ERR_TIMEOUT = - 3"
definition ERR_CONN :: int where "ERR_CONN = - 11"
definition ERR_ABRT :: int where "ERR_ABRT = - 13"
definition ERR_CLSD :: int where "ERR_CLSD = - 15"

lemmas err_defs = ERR_OK_def ERR_TIMEOUT_def ERR_CONN_def ERR_ABRT_def ERR_CLSD_def

definition USER_THREAD_CNT :: int where "USER_THREAD_CNT = 13"
definition MAX_CLIENT_COUNT :: nat where "MAX_CLIENT_COUNT = 4"
definition SERVER_THREAD_BASE :: int where "SERVER_THREAD_BASE = 1"
definition WORK_CLIENT_BASE :: int where "WORK_CLIENT_BASE = 3"
definition CAMERA_CLIENT_BASE :: int where "CAMERA_CLIENT_BASE = 7"
definition CAMERA_CLIENT_END :: int where "CAMERA_CLIENT_END = USER_THREAD_CNT"
definition LISTEN_PORT_WORK :: u16 where "LISTEN_PORT_WORK = 6363"
definition LISTEN_PORT_CAMERA :: u16 where "LISTEN_PORT_CAMERA = 80"
definition CLIENT_OFFLINE_TIMEO :: int where "CLIENT_OFFLINE_TIMEO = 30"
definition MAX_SEND_SIZE :: nat where "MAX_SEND_SIZE = 1460"
definition MAX_RETRY_COUNT :: nat where "MAX_RETRY_COUNT = 3"
definition SERVER_BUFFER_LEN :: nat where "SERVER_BUFFER_LEN = 1056"

datatype server_state_t = SERVER_STATE_WAIT_LINK | SERVER_STATE_CREATE | SERVER_STATE_BIND | SERVER_STATE_LISTEN
  | SERVER_STATE_ACCEPT | SERVER_STATE_RESTART

datatype client_state_t = CLIENT_STATE_INIT | CLIENT_STATE_WAIT_DATA | CLIENT_STATE_PROCESS | CLIENT_STATE_DISCONNECT

record client_t =
  cl_online :: bool
  cl_num :: int
  cl_offline_cntr :: int
  cl_conn :: "nat option"
  cl_ip :: "u8 list"
  cl_port :: u16
  cl_listen_port :: u16
  cl_flag_send_open :: bool
  cl_state :: client_state_t

record server_context =
  sc_thread_num :: int
  sc_listen_port :: u16
  sc_client_count :: int
  sc_client_base_num :: int
  sc_clients :: "client_t list"
  sc_state :: server_state_t

definition zero_client :: client_t where
  "zero_client = \<lparr>cl_online = False, cl_num = 0, cl_offline_cntr = 0, cl_conn = None, cl_ip = [0, 0, 0, 0], cl_port = 0, cl_listen_port = 0,
     cl_flag_send_open = False, cl_state = CLIENT_STATE_INIT\<rparr>"

definition work_context :: server_context where
  "work_context = \<lparr>sc_thread_num = SERVER_THREAD_BASE, sc_listen_port = LISTEN_PORT_WORK, sc_client_count = 0,
     sc_client_base_num = WORK_CLIENT_BASE, sc_clients = replicate MAX_CLIENT_COUNT zero_client, sc_state = SERVER_STATE_WAIT_LINK\<rparr>"

definition camera_context :: server_context where
  "camera_context = \<lparr>sc_thread_num = SERVER_THREAD_BASE + 1, sc_listen_port = LISTEN_PORT_CAMERA, sc_client_count = 0,
     sc_client_base_num = CAMERA_CLIENT_BASE, sc_clients = replicate MAX_CLIENT_COUNT zero_client, sc_state = SERVER_STATE_WAIT_LINK\<rparr>"

text \<open>The two contexts, and the tasks: a server with its port and its listening connection, a client thread with its slot, the received
  block and the length of the last answer, and a client thread that has only its connection left to close.\<close>

datatype ctx = Work | Camera

datatype task =
    Server_task ctx u16 "nat option"
  | Client_thread ctx nat "buf option" int
  | Client_closing ctx nat
  | Deleted

datatype net_call = Netconn_close nat | Netconn_delete nat | Tcp_write nat buf | Netconn_write nat buf bool

record net_state = comm_state +
  ns_work :: server_context
  ns_camera :: server_context
  ns_tasks :: "task list"
  ns_handles :: "nat option list"
  ns_rx :: buf
  ns_tx :: buf
  ns_busy :: u8
  ns_open_send :: bool
  ns_camera_num :: int
  ns_burst :: bool
  ns_timer :: bool
  ns_calls :: "net_call list"

text \<open>What lwIP, the heap and the scheduler answer during a pass.\<close>

record net_env =
  ne_link :: bool
  ne_up :: bool
  ne_new :: "nat option"
  ne_err :: int
  ne_conn :: nat
  ne_addr :: u32
  ne_port :: u16
  ne_data :: buf
  ne_alloc :: bool
  ne_task :: bool
  ne_sndbuf :: "nat \<Rightarrow> int"
  ne_write :: "nat \<Rightarrow> int"

fun context_of :: "ctx \<Rightarrow> net_state \<Rightarrow> server_context" where
  "context_of Work st = ns_work st"
| "context_of Camera st = ns_camera st"

fun set_context :: "ctx \<Rightarrow> server_context \<Rightarrow> net_state \<Rightarrow> net_state" where
  "set_context Work x st = st\<lparr>ns_work := x\<rparr>"
| "set_context Camera x st = st\<lparr>ns_camera := x\<rparr>"

definition set_client :: "ctx \<Rightarrow> nat \<Rightarrow> client_t \<Rightarrow> net_state \<Rightarrow> net_state" where
  "set_client c i cl st = set_context c ((context_of c st)\<lparr>sc_clients := (sc_clients (context_of c st))[i := cl]\<rparr>) st"

definition client_of :: "ctx \<Rightarrow> nat \<Rightarrow> net_state \<Rightarrow> client_t" where
  "client_of c i st = sc_clients (context_of c st) ! i"

definition set_task :: "nat \<Rightarrow> task \<Rightarrow> net_state \<Rightarrow> net_state" where
  "set_task k t st = st\<lparr>ns_tasks := (ns_tasks st)[k := t]\<rparr>"

definition call :: "net_call list \<Rightarrow> net_state \<Rightarrow> net_state" where
  "call cs st = st\<lparr>ns_calls := ns_calls st @ cs\<rparr>"

subsection \<open>User threads\<close>

definition thread_init :: "net_state \<Rightarrow> net_state" where
  "thread_init st = st\<lparr>ns_handles := replicate (nat USER_THREAD_CNT) None\<rparr>"

definition thread_create :: "bool \<Rightarrow> int \<Rightarrow> task \<Rightarrow> net_state \<Rightarrow> int \<times> net_state" where
  "thread_create ok num t st =
     (if num < 1 \<or> num > USER_THREAD_CNT then (0, st)
      else if \<not> ok then (0, st)
      else (num, st\<lparr>ns_tasks := ns_tasks st @ [t], ns_handles := (ns_handles st)[nat (num - 1) := Some (length (ns_tasks st))]\<rparr>))"

subsection \<open>Sending\<close>

definition send_context :: "int \<Rightarrow> ctx option" where
  "send_context num =
     (if num \<ge> WORK_CLIENT_BASE \<and> num < CAMERA_CLIENT_BASE then Some Work
      else if num \<ge> CAMERA_CLIENT_BASE \<and> num \<le> CAMERA_CLIENT_END then Some Camera
      else None)"

text \<open>The connection of a client number: no value where the slot is outside of the array.\<close>

definition send_conn :: "net_env \<Rightarrow> int \<Rightarrow> net_state \<Rightarrow> nat option option" where
  "send_conn env num st =
     (if \<not> ne_up env \<or> num < 0 \<or> num \<ge> USER_THREAD_CNT then Some None
      else case send_context num of
        None \<Rightarrow> Some None
      | Some c \<Rightarrow>
          let i = num - sc_client_base_num (context_of c st) in
          if i < 0 \<or> i \<ge> sc_client_count (context_of c st) then Some None
          else if nat i \<ge> length (sc_clients (context_of c st)) then None
          else Some (cl_conn (client_of c (nat i) st)))"

text \<open>The unsegmented sender; \<open>tcp_write\<close> takes a length of 16 bits.\<close>

definition tcp_server_send_low :: "net_env \<Rightarrow> int \<Rightarrow> buf \<Rightarrow> int \<Rightarrow> net_state \<Rightarrow> (int \<times> net_state) option" where
  "tcp_server_send_low env num dat len st = do {
     cn \<leftarrow> send_conn env num st;
     case cn of
       None \<Rightarrow> Some (- 1, st)
     | Some conn \<Rightarrow>
         let st = st\<lparr>ns_busy := 1\<rparr> in
         if ne_sndbuf env conn < 23360 then Some (- 1, st)
         else if ne_write env conn \<noteq> ERR_OK then Some (- 1, st)
         else let n = unat (word_of_int len :: u16) in
           if n > length dat then None else Some (0, call [Tcp_write conn (take n dat)] st) }"

text \<open>The sender with chunks: \<open>wr n\<close> is the result of the n-th write. A write is tried at most three times.\<close>

function try_write :: "(nat \<Rightarrow> int) \<Rightarrow> nat \<Rightarrow> nat \<Rightarrow> int \<times> nat" where
  "try_write wr n retry_count =
     (let e = wr n in
      if e = ERR_OK then (ERR_OK, Suc n)
      else if e = ERR_ABRT \<or> e = ERR_CLSD \<or> e = ERR_CONN then (e, Suc n)
      else if Suc retry_count < MAX_RETRY_COUNT then try_write wr (Suc n) (Suc retry_count)
      else (e, Suc n))"
  by pat_completeness auto
termination by (relation "measure (\<lambda>(wr, n, r). MAX_RETRY_COUNT - r)") auto

declare try_write.simps [simp del]

function send_loop :: "(nat \<Rightarrow> int) \<Rightarrow> nat \<Rightarrow> nat \<Rightarrow> buf \<Rightarrow> net_state \<Rightarrow> int \<times> net_state" where
  "send_loop wr n conn dat st =
     (if dat = [] then (0, st)
      else let (e, n) = try_write wr n 0 in
        if e \<noteq> ERR_OK then (- 1, st)
        else send_loop wr n conn (drop MAX_SEND_SIZE dat)
               (call [Netconn_write conn (take MAX_SEND_SIZE dat) (length dat > MAX_SEND_SIZE)] st))"
  by pat_completeness auto
termination
  by (relation "measure (\<lambda>(wr, n, conn, dat, st). length dat)") (auto simp: MAX_SEND_SIZE_def)

declare send_loop.simps [simp del]

definition tcp_server_send :: "(nat \<Rightarrow> int) \<Rightarrow> net_env \<Rightarrow> int \<Rightarrow> buf \<Rightarrow> int \<Rightarrow> net_state \<Rightarrow> (int \<times> net_state) option" where
  "tcp_server_send wr env num dat outlen st = do {
     cn \<leftarrow> send_conn env num st;
     case cn of
       None \<Rightarrow> Some (- 1, st)
     | Some conn \<Rightarrow> if nat outlen > length dat then None else Some (send_loop wr 0 conn (take (nat outlen) dat) st) }"

subsection \<open>Requests for the camera\<close>

text \<open>\<open>strstr\<close> over a block: no value where the search runs past its end.\<close>

fun strstr :: "buf \<Rightarrow> buf \<Rightarrow> bool option" where
  "strstr p [] = None"
| "strstr p (b # bs) = (if take (length p) (b # bs) = p then Some True else if b = 0 then Some False else strstr p bs)"

definition http_header :: buf where
  "http_header = bytes ''HTTP/1.0 200 OK'' @ [13, 10] @ bytes ''Connection: close'' @ [13, 10] @ bytes ''Server: EN-Streamer/1.2'' @ [13, 10]
     @ bytes ''Cache-Control: no-store, no-cache, must-revalidate'' @ [13, 10] @ bytes ''Pragma: no-cache'' @ [13, 10]
     @ bytes ''Expires: 0'' @ [13, 10] @ bytes ''Content-Type: multipart/x-mixed-replace;boundary=boundarydonotcross'' @ [13, 10, 13, 10]"

definition process_http_request :: "net_env \<Rightarrow> buf \<Rightarrow> ctx \<Rightarrow> nat \<Rightarrow> net_state \<Rightarrow> net_state option" where
  "process_http_request env dat c i st =
     (if length dat < 5 \<or> take 4 dat \<noteq> bytes ''GET '' then Some st
      else do {
        found \<leftarrow> strstr (bytes ''/camera?action=stream'') dat;
        if \<not> found then Some st
        else do {
          (r, st) \<leftarrow> tcp_server_send_low env (cl_num (client_of c i st)) http_header (int (length http_header)) st;
          let st = set_client c i ((client_of c i st)\<lparr>cl_flag_send_open := True\<rparr>) st;
          Some (st\<lparr>ns_open_send := True, ns_camera_num := cl_num (client_of c i st)\<rparr>) } })"

subsection \<open>The server task\<close>

fun free_slot :: "client_t list \<Rightarrow> nat \<Rightarrow> nat option" where
  "free_slot [] i = None"
| "free_slot (cl # cls) i = (if \<not> cl_online cl then Some i else free_slot cls (Suc i))"

definition set_server_state :: "ctx \<Rightarrow> server_state_t \<Rightarrow> net_state \<Rightarrow> net_state" where
  "set_server_state c s st = set_context c ((context_of c st)\<lparr>sc_state := s\<rparr>) st"

definition new_client :: "net_env \<Rightarrow> int \<Rightarrow> u16 \<Rightarrow> client_t \<Rightarrow> client_t" where
  "new_client env num prt cl = cl\<lparr>cl_num := num, cl_conn := Some (ne_conn env), cl_online := True, cl_listen_port := prt,
     cl_ip := [ucast (ne_addr env AND 255), ucast (drop_bit 8 (ne_addr env) AND 255),
               ucast (drop_bit 16 (ne_addr env) AND 255), ucast (drop_bit 24 (ne_addr env) AND 255)],
     cl_port := ne_port env, cl_state := CLIENT_STATE_INIT\<rparr>"

definition accept_client :: "net_env \<Rightarrow> ctx \<Rightarrow> u16 \<Rightarrow> net_state \<Rightarrow> net_state option" where
  "accept_client env c prt st =
     (case free_slot (sc_clients (context_of c st)) 0 of
        None \<Rightarrow> Some (call [Netconn_close (ne_conn env), Netconn_delete (ne_conn env)] st)
      | Some i \<Rightarrow>
          let num = sc_client_base_num (context_of c st) + int i;
              st = set_client c i (new_client env num prt (client_of c i st)) st
          in do {
            (_, gs) \<leftarrow> comm_channel_add (ne_alloc env) (cs_tcp_group st) num (cs_groups st);
            let (r, st) = thread_create (ne_task env) num (Client_thread c i None 0) (st\<lparr>cs_groups := gs\<rparr>);
            if r \<noteq> 0
            then let st = (if prt = 80 then st\<lparr>ns_timer := True\<rparr> else st)
                 in Some (set_context c ((context_of c st)\<lparr>sc_client_count := sc_client_count (context_of c st) + 1\<rparr>) st)
            else Some st })"

definition close_conn :: "nat option \<Rightarrow> net_state \<Rightarrow> net_state" where
  "close_conn cn st = (case cn of None \<Rightarrow> st | Some n \<Rightarrow> call [Netconn_close n, Netconn_delete n] st)"

definition delete_conn :: "nat option \<Rightarrow> net_state \<Rightarrow> net_state" where
  "delete_conn cn st = (case cn of None \<Rightarrow> st | Some n \<Rightarrow> call [Netconn_delete n] st)"

definition server_pass :: "net_env \<Rightarrow> nat \<Rightarrow> ctx \<Rightarrow> u16 \<Rightarrow> nat option \<Rightarrow> net_state \<Rightarrow> net_state option" where
  "server_pass env k c prt conn st =
     (case sc_state (context_of c st) of
        SERVER_STATE_WAIT_LINK \<Rightarrow> Some (if \<not> ne_link env then st else set_server_state c SERVER_STATE_CREATE st)
      | SERVER_STATE_CREATE \<Rightarrow>
          (case ne_new env of
             None \<Rightarrow> Some (set_server_state c SERVER_STATE_RESTART (set_task k (Server_task c prt None) st))
           | Some n \<Rightarrow> Some (set_server_state c SERVER_STATE_BIND (set_task k (Server_task c prt (Some n)) st)))
      | SERVER_STATE_BIND \<Rightarrow>
          Some (if ne_err env \<noteq> ERR_OK
                then set_server_state c SERVER_STATE_RESTART (set_task k (Server_task c prt None) (delete_conn conn st))
                else set_server_state c SERVER_STATE_LISTEN st)
      | SERVER_STATE_LISTEN \<Rightarrow>
          Some (if ne_err env \<noteq> ERR_OK
                then set_server_state c SERVER_STATE_RESTART (set_task k (Server_task c prt None) (delete_conn conn st))
                else set_server_state c SERVER_STATE_ACCEPT st)
      | SERVER_STATE_ACCEPT \<Rightarrow>
          if ne_err env = ERR_TIMEOUT \<or> ne_err env = ERR_ABRT then Some st
          else if ne_err env \<noteq> ERR_OK then Some (set_server_state c SERVER_STATE_RESTART st)
          else accept_client env c prt st
      | SERVER_STATE_RESTART \<Rightarrow>
          let st = set_task k (Server_task c prt None) (close_conn conn st);
              (r, st) = thread_create (ne_task env) (sc_thread_num (context_of c st))
                          (Server_task c (sc_listen_port (context_of c st)) None) st
          in Some (if r \<noteq> 0 then set_task k Deleted st else st))"

subsection \<open>The client threads\<close>

definition client_init :: "ctx \<Rightarrow> nat \<Rightarrow> net_state \<Rightarrow> net_state option" where
  "client_init c i st =
     (let cl = client_of c i st in
      if cl_conn cl = None then None
      else let st = (if cl_listen_port cl = sc_listen_port (ns_work st) then st\<lparr>ns_burst := False\<rparr> else st);
               st = (if cl_listen_port cl = 80 then st\<lparr>ns_camera_num := cl_num cl\<rparr> else st)
           in Some (set_client c i (cl\<lparr>cl_offline_cntr := 0, cl_state := CLIENT_STATE_WAIT_DATA\<rparr>) st))"

definition client_wait :: "net_env \<Rightarrow> nat \<Rightarrow> ctx \<Rightarrow> nat \<Rightarrow> buf option \<Rightarrow> int \<Rightarrow> net_state \<Rightarrow> net_state option" where
  "client_wait env k c i buff outlen st =
     (let cl = (client_of c i st)\<lparr>cl_offline_cntr := (if ne_up env then 0 else cl_offline_cntr (client_of c i st) + 1)\<rparr> in
      if cl_offline_cntr cl \<ge> CLIENT_OFFLINE_TIMEO then Some (set_client c i (cl\<lparr>cl_state := CLIENT_STATE_DISCONNECT\<rparr>) st)
      else if ne_err env = ERR_TIMEOUT then Some (set_client c i cl st)
      else if ne_err env \<noteq> ERR_OK then Some (set_client c i (cl\<lparr>cl_state := CLIENT_STATE_DISCONNECT\<rparr>) st)
      else if ne_data env \<noteq> []
      then Some (set_task k (Client_thread c i (Some (ne_data env)) outlen) (set_client c i (cl\<lparr>cl_state := CLIENT_STATE_PROCESS\<rparr>) st))
      else Some (set_task k (Client_thread c i None outlen) (set_client c i cl st)))"

text \<open>The environment of the protocols with the sender of the server. The received block is copied to a buffer of fixed size.\<close>

type_synonym net_proto_env = "unit net_state_ext proto_env"

definition net_proto :: "net_proto_env \<Rightarrow> net_env \<Rightarrow> net_proto_env" where
  "net_proto pe env = pe\<lparr>pe_tcp := \<lambda>num dat len st. map_option snd (tcp_server_send_low env num dat len st)\<rparr>"

definition client_process :: "net_proto_env \<Rightarrow> net_env \<Rightarrow> nat \<Rightarrow> ctx \<Rightarrow> nat \<Rightarrow> buf option \<Rightarrow> int \<Rightarrow> net_state \<Rightarrow> net_state option" where
  "client_process pe env k c i buff outlen st = do {
     dat \<leftarrow> buff;
     if length dat > length (ns_rx st) then None
     else do {
       let st = st\<lparr>ns_rx := overwrite (ns_rx st) 0 dat\<rparr>;
       let cl = client_of c i st;
       (outlen, st) \<leftarrow>
         (if cl_listen_port cl = 80 then map_option (Pair outlen) (process_http_request env dat c i st)
          else do {
            (tx, outlen, st) \<leftarrow> proto_process (net_proto pe env) (ns_rx st) (ns_tx st) (int (length dat)) outlen
              \<lparr>group_idx = word_of_int (cs_tcp_group st), channel_idx = word_of_int (cl_num cl)\<rparr> st;
            Some (outlen, st\<lparr>ns_tx := tx\<rparr>) });
       Some (set_task k (Client_thread c i None outlen)
         (set_client c i ((client_of c i st)\<lparr>cl_state := CLIENT_STATE_WAIT_DATA\<rparr>) st)) } }"

text \<open>The end of a client: first everything up to giving the slot back, then closing the connection of the slot.\<close>

definition client_disconnect :: "nat \<Rightarrow> ctx \<Rightarrow> nat \<Rightarrow> net_state \<Rightarrow> net_state option" where
  "client_disconnect k c i st =
     (let cl = client_of c i st in do {
        (_, gs) \<leftarrow> comm_channel_remove (cs_tcp_group st) (cl_num cl) (cs_groups st);
        let st = st\<lparr>cs_groups := gs\<rparr>;
        let st = (if cl_listen_port cl = sc_listen_port (ns_work st)
                  then st\<lparr>ns_burst := False, ns_work := (ns_work st)\<lparr>sc_thread_num := sc_thread_num (ns_work st) - 1\<rparr>\<rparr>
                  else if cl_listen_port cl = sc_listen_port (ns_camera st)
                  then st\<lparr>ns_camera := (ns_camera st)\<lparr>sc_thread_num := sc_thread_num (ns_camera st) - 1\<rparr>, ns_timer := False\<rparr>
                  else st);
        let st = set_client c i ((client_of c i st)\<lparr>cl_online := False\<rparr>) st;
        let st = (if cl_num cl \<ge> CAMERA_CLIENT_BASE \<and> cl_num cl \<le> CAMERA_CLIENT_END then st\<lparr>ns_open_send := False\<rparr> else st);
        Some (set_task k (Client_closing c i) st) })"

definition client_close :: "nat \<Rightarrow> ctx \<Rightarrow> nat \<Rightarrow> net_state \<Rightarrow> net_state" where
  "client_close k c i st =
     set_task k Deleted (set_client c i ((client_of c i st)\<lparr>cl_conn := None\<rparr>) (close_conn (cl_conn (client_of c i st)) st))"

definition client_pass :: "net_proto_env \<Rightarrow> net_env \<Rightarrow> nat \<Rightarrow> ctx \<Rightarrow> nat \<Rightarrow> buf option \<Rightarrow> int \<Rightarrow> net_state \<Rightarrow> net_state option" where
  "client_pass pe env k c i buff outlen st =
     (case cl_state (client_of c i st) of
        CLIENT_STATE_INIT \<Rightarrow> client_init c i st
      | CLIENT_STATE_WAIT_DATA \<Rightarrow> client_wait env k c i buff outlen st
      | CLIENT_STATE_PROCESS \<Rightarrow> client_process pe env k c i buff outlen st
      | CLIENT_STATE_DISCONNECT \<Rightarrow> client_disconnect k c i st)"

subsection \<open>Start\<close>

definition tcpsvr_start :: "bool \<Rightarrow> bool \<Rightarrow> u32 \<Rightarrow> net_state \<Rightarrow> net_state" where
  "tcpsvr_start ok1 ok2 prt st =
     (let st = (if prt < 65536 then st\<lparr>ns_work := (ns_work st)\<lparr>sc_listen_port := ucast prt\<rparr>\<rparr> else st);
          (_, st) = thread_create ok1 (sc_thread_num (ns_work st)) (Server_task Work (sc_listen_port (ns_work st)) None) st;
          (_, st) = thread_create ok2 (sc_thread_num (ns_camera st)) (Server_task Camera (sc_listen_port (ns_camera st)) None) st
      in st)"

text \<open>The addresses of the parameters as bytes. A text with a field above 255, or without four fields, gives zeros and \<open>-1\<close>.\<close>

fun ip_fields :: "nat \<Rightarrow> buf \<Rightarrow> u32 list" where
  "ip_fields 0 t = []"
| "ip_fields (Suc n) t =
     (case scan_u3 t of
        None \<Rightarrow> []
      | Some (v, r) \<Rightarrow> v # (case r of c # cs \<Rightarrow> if c = 46 then ip_fields n cs else [] | [] \<Rightarrow> []))"

definition parse_ip_string :: "buf \<Rightarrow> int \<times> u8 list" where
  "parse_ip_string src =
     (let ip = ip_fields 4 src in
      if length ip \<noteq> 4 \<or> list_ex (\<lambda>v. v > 255) ip then (- 1, [0, 0, 0, 0]) else (0, map ucast ip))"

record ip_config =
  ic_remote_ip :: "u8 list"
  ic_ip_addr :: "u8 list"
  ic_gateway :: "u8 list"
  ic_net_mask :: "u8 list"

definition get_ipconfig_info :: "buf \<Rightarrow> buf \<Rightarrow> buf \<Rightarrow> buf \<Rightarrow> ip_config" where
  "get_ipconfig_info remote ip gw nm =
     (let (ret1, r) = parse_ip_string remote; a = snd (parse_ip_string ip); g = snd (parse_ip_string gw); m = snd (parse_ip_string nm) in
      if ret1 \<noteq> 0 \<or> r ! 0 = 0
      then \<lparr>ic_remote_ip = [192, 168, 42, 100], ic_ip_addr = [192, 168, 42, 132], ic_gateway = [192, 168, 42, 1], ic_net_mask = [255, 255, 255, 0]\<rparr>
      else \<lparr>ic_remote_ip = r, ic_ip_addr = a, ic_gateway = g, ic_net_mask = m\<rparr>)"

subsection \<open>Steps\<close>

definition task_pass :: "net_proto_env \<Rightarrow> net_env \<Rightarrow> nat \<Rightarrow> net_state \<Rightarrow> net_state option" where
  "task_pass pe env k st =
     (case ns_tasks st ! k of
        Server_task c prt conn \<Rightarrow> server_pass env k c prt conn st
      | Client_thread c i buff outlen \<Rightarrow> client_pass pe env k c i buff outlen st
      | Client_closing c i \<Rightarrow> Some (client_close k c i st)
      | Deleted \<Rightarrow> Some st)"

text \<open>A step under the environments that \<open>E\<close> allows.\<close>

inductive net_step :: "net_proto_env \<Rightarrow> (net_env \<Rightarrow> bool) \<Rightarrow> net_state \<Rightarrow> net_state \<Rightarrow> bool" for pe E where
  pass: "E env \<Longrightarrow> k < length (ns_tasks st) \<Longrightarrow> task_pass pe env k st = Some st' \<Longrightarrow> net_step pe E st st'"


subsection \<open>What processing a block leaves alone\<close>

text \<open>The protocols change the targets of the commands and the source of the command; everything else of the state is changed by the handlers only.\<close>

definition keeps :: "('s \<Rightarrow> 'a) \<Rightarrow> 's \<Rightarrow> ('b \<times> 'c \<times> 's) option \<Rightarrow> bool" where
  "keeps f st m \<longleftrightarrow> holds (\<lambda>(_, _, st'). f st' = f st) m"

lemma keepsD: "keeps f st m \<Longrightarrow> m = Some (a, b, st') \<Longrightarrow> f st' = f st"
  by (auto simp: keeps_def holds_def)

lemma store_target_keeps:
  assumes "\<And>st t. f (st\<lparr>targets := t\<rparr>) = f st"
  shows "store_target st i bs = Some st' \<Longrightarrow> f st' = f st"
  using assms by (auto simp: store_target_def split: if_splits)

lemma cmd_data_chk_keeps:
  assumes "\<And>st t. f (st\<lparr>targets := t\<rparr>) = f st"
  shows "holds (\<lambda>(ok, p, st', b, n). f st' = f st) (cmd_data_chk flt it i p st bkp n)"
proof -
  have n: "holds (\<lambda>(ok, p, st', b, n). f st' = f st) (chk_number k s d l it i p st bkp)" for k s d l
    unfolding chk_number_def by (intro holds_intros) (auto dest: store_target_keeps [of f, OF assms])
  have fl: "holds (\<lambda>(ok, p, st', b, n). f st' = f st) (chk_float flt k it i p st bkp)" for k
    unfolding chk_float_def by (intro holds_intros) (auto dest: store_target_keeps [of f, OF assms])
  show ?thesis
    unfolding cmd_data_chk_def
    by (cases "ci_type it"; simp only: fmt_type.case)
      (intro holds_intros n fl; auto dest: store_target_keeps [of f, OF assms])+
qed

lemma upp_execute_cmd_keeps:
  assumes "\<And>st t. f (st\<lparr>targets := t\<rparr>) = f st"
    and "\<And>p i st. keeps f st (set_cb p i st)" and "\<And>p i st. keeps f st (get_cb p i st)"
  shows "keeps f st (upp_execute_cmd set_cb get_cb flt p st)"
proof -
  have s: "set_cb p i s = Some (e, p', s') \<Longrightarrow> f s' = f s" "get_cb p i s = Some (e, p', s') \<Longrightarrow> f s' = f s" for p i s e p' s'
    using assms(2,3) by (auto simp: keeps_def holds_def)
  show ?thesis
    unfolding keeps_def upp_execute_cmd_def Let_def
    by (intro holds_intros) (auto dest!: holdsD [OF cmd_data_chk_keeps [of f, OF assms(1)]] s store_target_keeps [of f, OF assms(1)])
qed

lemma upp_cmd_handler_keeps:
  assumes "\<And>st t. f (st\<lparr>targets := t\<rparr>) = f st"
    and "\<And>p i st. keeps f st (set_cb p i st)" and "\<And>p i st. keeps f st (get_cb p i st)"
  shows "upp_cmd_handler set_cb get_cb flt ftxt conv p inbuf tx off outlen st = Some (p', tx', n', st') \<Longrightarrow> f st' = f st"
proof -
  have "holds (\<lambda>(p', tx', n', st'). f st' = f st) (upp_cmd_handler set_cb get_cb flt ftxt conv p inbuf tx off outlen st)"
    unfolding upp_cmd_handler_def
    by (intro holds_intros) (auto dest!: keepsD [OF upp_execute_cmd_keeps [of f, OF assms]])
  then show "upp_cmd_handler set_cb get_cb flt ftxt conv p inbuf tx off outlen st = Some (p', tx', n', st') \<Longrightarrow> f st' = f st"
    by (auto simp: holds_def)
qed

lemma upp_pkt_process_keeps:
  assumes "\<And>st t. f (st\<lparr>targets := t\<rparr>) = f st"
    and "\<And>p i st. keeps f st (set_cb p i st)" and "\<And>p i st. keeps f st (get_cb p i st)"
  shows "keeps f st (upp_pkt_process fuel set_cb get_cb flt ftxt conv inbuf inlen tx off outlen st)"
proof (induction fuel arbitrary: inbuf inlen tx off outlen st)
  case 0
  then show ?case by (simp add: keeps_def holds_intros)
next
  case (Suc fuel)
  show ?case
    unfolding keeps_def upp_pkt_process.simps
    by (intro holds_intros) (auto dest!: upp_cmd_handler_keeps [of f, OF assms]
      simp: holds_def dest: keepsD [OF Suc.IH])
qed

lemma base_pkt_process_keeps:
  assumes "\<And>p tx off n st. keeps f st (handler p tx off n st)"
  shows "keeps f st (base_pkt_process handler inbuf inlen tx off outlen cp st)"
proof -
  have "h = handler \<longrightarrow> f (snd (snd r)) = f st" if "base_pkt_process h inbuf inlen tx off outlen cp st = Some r" for h r
  proof (rule base_pkt_process.raw_induct [where P = "\<lambda>h i l tx off n cp st r. h = handler \<longrightarrow> f (snd (snd r)) = f st", OF _ that], intro impI)
    fix bp h i l tx off n cp st r
    assume ih: "\<And>h i l tx off n cp st r. bp h i l tx off n cp st = Some r \<Longrightarrow> h = handler \<longrightarrow> f (snd (snd r)) = f st"
      and h: "h = handler"
      and body: "(if l > 0 then Option.bind (check_packet_base parse_zero i l) (\<lambda>(ok, parse).
          if ok \<noteq> 0 then Option.bind (h (parse\<lparr>port := Some cp\<rparr>) tx off n st) (\<lambda>(tx, n, st).
              bp h (drop (unat (instr_len parse)) i) (l - uint (instr_len parse)) tx (off + nat n) n cp st)
          else if error parse \<noteq> 1 then Some (tx, n, st)
          else bp h (drop (unat (instr_len parse)) i) (l - uint (instr_len parse)) tx off n cp st)
        else Some (tx, n, st)) = Some r"
    have hd: "f st' = f st" if "handler p tx off n st = Some (a, b, st')" for p tx off n st a b st'
      using assms that by (auto simp: keeps_def holds_def)
    show "f (snd (snd r)) = f st"
      using body h by (auto simp: bind_eq_Some_conv dest!: ih hd split: if_splits prod.splits)
  qed
  then show ?thesis by (force simp: keeps_def holds_def)
qed


subsection \<open>Contexts under updates of the state\<close>

lemma context_of_updates [simp]:
  "context_of c (st\<lparr>ns_tasks := ts\<rparr>) = context_of c st" "context_of c (st\<lparr>ns_handles := hs\<rparr>) = context_of c st"
  "context_of c (st\<lparr>ns_rx := rx\<rparr>) = context_of c st" "context_of c (st\<lparr>ns_tx := rx\<rparr>) = context_of c st"
  "context_of c (st\<lparr>ns_busy := b\<rparr>) = context_of c st" "context_of c (st\<lparr>ns_open_send := s\<rparr>) = context_of c st"
  "context_of c (st\<lparr>ns_camera_num := n\<rparr>) = context_of c st" "context_of c (st\<lparr>ns_burst := s\<rparr>) = context_of c st"
  "context_of c (st\<lparr>ns_timer := s\<rparr>) = context_of c st" "context_of c (st\<lparr>ns_calls := l\<rparr>) = context_of c st"
  "context_of c (st\<lparr>cs_groups := gs\<rparr>) = context_of c st" "context_of c (st\<lparr>cs_coms := ds\<rparr>) = context_of c st"
  by (cases c; simp)+

lemma context_of_set_context [simp]: "context_of d (set_context c x st) = (if d = c then x else context_of d st)"
  by (cases c; cases d; simp)

lemma context_of_set_client:
  "context_of d (set_client c i cl st) =
     (if d = c then (context_of c st)\<lparr>sc_clients := (sc_clients (context_of c st))[i := cl]\<rparr> else context_of d st)"
  by (simp add: set_client_def)

lemma context_of_simple [simp]:
  "context_of c (set_task k t st) = context_of c st" "context_of c (call l st) = context_of c st"
  "context_of c (close_conn cn st) = context_of c st" "context_of c (delete_conn cn st) = context_of c st"
  "context_of d (set_server_state c s st) = (if d = c then (context_of c st)\<lparr>sc_state := s\<rparr> else context_of d st)"
  by (simp_all add: set_task_def call_def close_conn_def delete_conn_def set_server_state_def split: option.split)

lemma context_of_thread_create [simp]: "context_of c (snd (thread_create ok num t st)) = context_of c st"
  by (simp add: thread_create_def)

subsection \<open>What a client changes\<close>

definition net_view :: "net_state \<Rightarrow> (server_context \<times> server_context \<times> task list) \<times> int \<times> int" where
  "net_view st = ((ns_work st, ns_camera st, ns_tasks st), cs_uart_group st, cs_tcp_group st)"

text \<open>The handlers of the protocols leave the servers, the tasks and the numbers of the groups alone.\<close>

definition keeps_net :: "net_proto_env \<Rightarrow> bool" where
  "keeps_net pe \<longleftrightarrow> (\<forall>p tx off n st. keeps net_view st (pe_handler pe p tx off n st))
     \<and> (\<forall>p i st. keeps net_view st (pe_set pe p i st)) \<and> (\<forall>p i st. keeps net_view st (pe_get pe p i st))"

lemma send_low_holds: "holds (\<lambda>(r, st'). net_view st' = net_view st) (tcp_server_send_low env num dat len st)"
  unfolding tcp_server_send_low_def Let_def by (intro holds_intros) (simp_all add: net_view_def call_def)

lemma send_low_view: "tcp_server_send_low env num dat len st = Some (r, st') \<Longrightarrow> net_view st' = net_view st"
  using holdsD [OF send_low_holds] by fastforce

lemma chunk_loop_view:
  assumes "\<And>num dat len st st'. tcp num dat len st = Some st' \<Longrightarrow> net_view st' = net_view st"
  shows "chunk_loop tcp fn ch dat len st = Some st' \<Longrightarrow> net_view st' = net_view st"
  using assms
proof (induction tcp fn ch dat len st rule: chunk_loop.induct)
  case (1 tcp fn ch dat len st)
  have c: "call_send tcp fn ch dat l st = Some s \<Longrightarrow> net_view s = net_view st" for l s
    using 1(3) by (auto simp: call_send_def pc_send_wrapper_def pc_send_def tcp_server_send_wrapper_def net_view_def bind_eq_Some_conv
      split: send_func.splits if_splits)
  show ?case
  proof (cases "len > 0")
    case True
    define m where "m = (if len > 1056 then 1056 else len)"
    have "chunk_loop tcp fn ch dat len st = Option.bind (call_send tcp fn ch dat m st) (chunk_loop tcp fn ch (drop (nat m) dat) (len - m))"
      by (subst chunk_loop.simps) (simp only: True Let_def if_True m_def)
    then have "Option.bind (call_send tcp fn ch dat m st) (chunk_loop tcp fn ch (drop (nat m) dat) (len - m)) = Some st'"
      unfolding 1(2) by (rule sym)
    then obtain s where "call_send tcp fn ch dat m st = Some s" "chunk_loop tcp fn ch (drop (nat m) dat) (len - m) s = Some st'"
      unfolding bind_eq_Some_conv by blast
    then have "net_view st' = net_view s" "net_view s = net_view st" using 1(1) [OF True m_def] 1(3) c by blast+
    then show ?thesis by simp
  next
    case False
    then show ?thesis using 1(2) by (subst (asm) chunk_loop.simps) simp
  qed
qed

lemma proto_answer_view:
  assumes "keeps_net pe" and "proto_answer (net_proto pe env) rx tx len outlen cp st = Some (tx', n, st')"
  shows "net_view st' = net_view st"
proof -
  have f: "net_view (s\<lparr>targets := t\<rparr>) = net_view s" "net_view (s\<lparr>cs_src_group := g\<rparr>) = net_view s" for s t g
    by (simp_all add: net_view_def)
  have p: "pe_handler (net_proto pe env) = pe_handler pe" "pe_set (net_proto pe env) = pe_set pe" "pe_get (net_proto pe env) = pe_get pe"
    by (simp_all add: net_proto_def)
  have k: "keeps net_view s (pe_handler pe p tx off n s)" "keeps net_view s (pe_set pe q i s)" "keeps net_view s (pe_get pe q i s)" for p tx off n s q i
    using assms(1) by (simp_all add: keeps_net_def)
  show ?thesis
    using assms(2) unfolding proto_answer_def p
    by (auto simp: bind_eq_Some_conv f simp del: upp_pkt_process.simps split: list.splits if_splits
      dest!: keepsD [OF base_pkt_process_keeps [of net_view, OF k(1)]] keepsD [OF upp_pkt_process_keeps [of net_view, OF f(1) k(2,3)]])
qed

lemma proto_process_view:
  assumes "keeps_net pe" and "proto_process (net_proto pe env) rx tx len outlen cp st = Some (tx', n, st')"
  shows "net_view st' = net_view st"
proof -
  have t: "pe_tcp (net_proto pe env) num dat l s = Some s' \<Longrightarrow> net_view s' = net_view s" for num dat l s s'
    by (auto simp: net_proto_def dest: send_low_view)
  have c: "chunk_loop (pe_tcp (net_proto pe env)) fn ch dat l s = Some s' \<Longrightarrow> net_view s' = net_view s" for fn ch dat l s s'
    using chunk_loop_view [of "pe_tcp (net_proto pe env)"] t by blast
  show ?thesis
    using assms(2) by (auto simp: proto_process_def bind_eq_Some_conv comm_send_chunk_def Let_def split: if_splits
      dest!: proto_answer_view [OF assms(1)] t c)
qed

text \<open>A client keeps the state and the counters of every server, and gives slots back at most.\<close>

definition ctx_frame :: "server_context \<Rightarrow> server_context \<Rightarrow> bool" where
  "ctx_frame x y \<longleftrightarrow> sc_state y = sc_state x \<and> sc_client_count y = sc_client_count x \<and> sc_client_base_num y = sc_client_base_num x
     \<and> length (sc_clients y) = length (sc_clients x)
     \<and> (\<forall>i < length (sc_clients x). cl_num (sc_clients y ! i) = cl_num (sc_clients x ! i) \<and> (cl_online (sc_clients y ! i) \<longrightarrow> cl_online (sc_clients x ! i)))"

lemma ctx_frame_refl [simp]: "ctx_frame x x"
  by (simp add: ctx_frame_def)

lemma nth_update_cases: "xs[i := x] ! j = (if i = j \<and> j < length xs then x else xs ! j)"
  by (cases "i < length xs") (auto simp: nth_list_update list_update_beyond)

definition net_frame :: "net_state \<Rightarrow> net_state \<Rightarrow> bool" where
  "net_frame st st' \<longleftrightarrow> (\<forall>c. ctx_frame (context_of c st) (context_of c st'))"

lemma context_of_view: "net_view st' = net_view st \<Longrightarrow> context_of c st' = context_of c st"
  by (cases c) (simp_all add: net_view_def)

lemma net_frame_updates:
  "net_frame st st"
  "net_frame st s \<Longrightarrow> net_frame st (set_task k t s)" "net_frame st s \<Longrightarrow> net_frame st (close_conn cn s)"
  "net_frame st s \<Longrightarrow> net_frame st (s\<lparr>ns_rx := rx\<rparr>)" "net_frame st s \<Longrightarrow> net_frame st (s\<lparr>ns_tx := rx\<rparr>)"
  "net_frame st s \<Longrightarrow> net_frame st (s\<lparr>ns_open_send := f\<rparr>)" "net_frame st s \<Longrightarrow> net_frame st (s\<lparr>ns_camera_num := n\<rparr>)"
  "net_frame st s \<Longrightarrow> net_frame st (s\<lparr>ns_burst := f\<rparr>)" "net_frame st s \<Longrightarrow> net_frame st (s\<lparr>ns_timer := f\<rparr>)"
  "net_frame st s \<Longrightarrow> net_frame st (s\<lparr>cs_groups := gs\<rparr>)"
  by (simp_all add: net_frame_def)

lemma thread_num_frame:
  assumes "net_frame st s"
  shows "x = (ns_work s)\<lparr>sc_thread_num := n\<rparr> \<Longrightarrow> net_frame st (s\<lparr>ns_work := x\<rparr>)"
    and "y = (ns_camera s)\<lparr>sc_thread_num := n\<rparr> \<Longrightarrow> net_frame st (s\<lparr>ns_camera := y\<rparr>)"
proof -
  have a: "(\<forall>c. P c) \<longleftrightarrow> P Work \<and> P Camera" for P by (metis ctx.exhaust)
  show "x = (ns_work s)\<lparr>sc_thread_num := n\<rparr> \<Longrightarrow> net_frame st (s\<lparr>ns_work := x\<rparr>)"
    "y = (ns_camera s)\<lparr>sc_thread_num := n\<rparr> \<Longrightarrow> net_frame st (s\<lparr>ns_camera := y\<rparr>)"
    using assms by (simp_all add: net_frame_def a ctx_frame_def)
qed

lemma set_client_frame:
  assumes "net_frame st s" and "cl_num cl = cl_num (client_of c i s)" and "cl_online cl \<longrightarrow> cl_online (client_of c i s)"
  shows "net_frame st (set_client c i cl s)"
  using assms by (auto simp: context_of_set_client net_frame_def ctx_frame_def client_of_def nth_update_cases)

lemmas frame_intros = net_frame_updates thread_num_frame set_client_frame

lemma client_init_frame: "client_init c i st = Some st' \<Longrightarrow> net_frame st st'"
  unfolding client_init_def Let_def by (auto simp: client_of_def split: if_splits intro!: frame_intros)

lemma client_wait_frame: "client_wait env k c i buff outlen st = Some st' \<Longrightarrow> net_frame st st'"
  unfolding client_wait_def Let_def by (auto simp: client_of_def split: if_splits intro!: frame_intros)

lemma client_disconnect_frame: "client_disconnect k c i st = Some st' \<Longrightarrow> net_frame st st'"
  unfolding client_disconnect_def Let_def by (auto simp: bind_eq_Some_conv split: if_splits intro!: frame_intros)

lemma client_close_frame: "net_frame st (client_close k c i st)"
  by (auto simp: client_close_def client_of_def intro!: frame_intros)

lemma send_low_frame: "tcp_server_send_low env num dat len s = Some (r, s') \<Longrightarrow> net_frame st s \<Longrightarrow> net_frame st s'"
  using context_of_view [OF send_low_view] by (simp add: net_frame_def)

lemma process_http_request_frame: "process_http_request env dat c i s = Some s' \<Longrightarrow> net_frame st s \<Longrightarrow> net_frame st s'"
  unfolding process_http_request_def Let_def
  by (auto simp: bind_eq_Some_conv split: if_splits dest!: send_low_frame intro!: frame_intros)

lemma proto_process_frame:
  "keeps_net pe \<Longrightarrow> proto_process (net_proto pe env) rx tx len outlen cp s = Some (tx', n, s') \<Longrightarrow> net_frame st s \<Longrightarrow> net_frame st s'"
  using context_of_view [OF proto_process_view] by (simp add: net_frame_def)

lemma client_process_frame:
  assumes "keeps_net pe" and "client_process pe env k c i buff outlen st = Some st'"
  shows "net_frame st st'"
  using assms(2) unfolding client_process_def Let_def
  by (auto simp: bind_eq_Some_conv client_of_def split: if_splits intro!: frame_intros
    intro: process_http_request_frame proto_process_frame [OF assms(1)])

lemma client_pass_frame:
  assumes "keeps_net pe" and "client_pass pe env k c i buff outlen st = Some st'"
  shows "net_frame st st'"
  using assms client_init_frame client_wait_frame client_process_frame client_disconnect_frame
  by (auto simp: client_pass_def split: client_state_t.splits)


subsection \<open>What a server changes\<close>

lemma accept_client_other:
  assumes "accept_client env c prt st = Some st'" and "d \<noteq> c"
  shows "context_of d st' = context_of d st"
  using assms unfolding accept_client_def Let_def
  by (auto simp: bind_eq_Some_conv context_of_set_client case_prod_unfold split: option.splits if_splits)

lemma server_pass_other:
  assumes "server_pass env k c prt conn st = Some st'" and "d \<noteq> c"
  shows "context_of d st' = context_of d st"
  using assms accept_client_other [OF _ assms(2)] unfolding server_pass_def Let_def
  by (auto simp: case_prod_unfold split: server_state_t.splits option.splits if_splits)

text \<open>The context of a server after accepting a client, when the thread could be created.\<close>

lemma free_slot_Some:
  "free_slot cls k = Some i \<Longrightarrow> k \<le> i \<and> i - k < length cls \<and> \<not> cl_online (cls ! (i - k)) \<and> (\<forall>j < i - k. cl_online (cls ! j))"
proof (induction cls k rule: free_slot.induct)
  case (2 cl cls k)
  show ?case
  proof (cases "cl_online cl")
    case True
    then have "free_slot cls (Suc k) = Some i" using 2(2) by simp
    then have h: "Suc k \<le> i" "i - Suc k < length cls" "\<not> cl_online (cls ! (i - Suc k))" "\<forall>j < i - Suc k. cl_online (cls ! j)"
      using 2(1) True by auto
    then show ?thesis using True by (auto simp: nth_Cons' Suc_diff_Suc)
  next
    case False
    then show ?thesis using 2(2) by simp
  qed
qed simp

lemma new_client_simps [simp]:
  "cl_num (new_client env num prt cl) = num" "cl_online (new_client env num prt cl)" "cl_conn (new_client env num prt cl) = Some (ne_conn env)"
  "cl_state (new_client env num prt cl) = CLIENT_STATE_INIT" "cl_listen_port (new_client env num prt cl) = prt"
  by (simp_all add: new_client_def)

lemma accept_client_context:
  assumes "accept_client env c prt st = Some st'" and "ne_task env" and "sc_client_base_num (context_of c st) \<ge> 1"
    and "sc_client_base_num (context_of c st) + int (length (sc_clients (context_of c st))) \<le> 14"
  shows "context_of c st' = context_of c st
    \<or> (\<exists>i cl. free_slot (sc_clients (context_of c st)) 0 = Some i \<and> cl_num cl = sc_client_base_num (context_of c st) + int i
        \<and> context_of c st' = (context_of c st)\<lparr>sc_clients := (sc_clients (context_of c st))[i := cl],
            sc_client_count := sc_client_count (context_of c st) + 1\<rparr>)"
proof (cases "free_slot (sc_clients (context_of c st)) 0")
  case None
  then show ?thesis using assms(1) by (auto simp: accept_client_def)
next
  case (Some i)
  have "i < length (sc_clients (context_of c st))" using free_slot_Some [OF Some] by simp
  then have n: "1 \<le> sc_client_base_num (context_of c st) + int i" "sc_client_base_num (context_of c st) + int i \<le> 13"
    using assms(3,4) by auto
  show ?thesis
    using assms(1,2) Some n unfolding accept_client_def Let_def
    by (intro disjI2 exI [of _ i] exI [of _ "new_client env (sc_client_base_num (context_of c st) + int i) prt (client_of c i st)"])
      (auto simp: bind_eq_Some_conv thread_create_def USER_THREAD_CNT_def context_of_set_client split: if_splits)
qed


subsection \<open>A server that fails stays down\<close>

lemma task_pass_cases:
  assumes "task_pass pe env k st = Some st'" and "keeps_net pe"
  obtains c prt conn where "server_pass env k c prt conn st = Some st'" | "net_frame st st'"
  using assms client_pass_frame [OF assms(2)] client_close_frame net_frame_updates(1)
  by (auto simp: task_pass_def split: task.splits)

lemma step_keeps_restart:
  assumes "net_step pe E st st'" and "keeps_net pe" and "sc_state (context_of c st) = SERVER_STATE_RESTART"
  shows "ctx_frame (context_of c st) (context_of c st')"
  using assms(1)
proof cases
  case (pass env k)
  show ?thesis
  proof (rule task_pass_cases [OF pass(3) assms(2)])
    fix d prt conn assume s: "server_pass env k d prt conn st = Some st'"
    show ?thesis
    proof (cases "d = c")
      case True
      then have "context_of c st' = context_of c st"
        using s assms(3) by (auto simp: server_pass_def Let_def case_prod_unfold split: if_splits)
      then show ?thesis by simp
    next
      case False
      then show ?thesis using server_pass_other [OF s, of c] by simp
    qed
  qed (simp add: net_frame_def)
qed

lemma ctx_frame_trans: "ctx_frame x y \<Longrightarrow> ctx_frame y z \<Longrightarrow> ctx_frame x z"
  by (auto simp: ctx_frame_def)

text \<open>C32: A server never recovers from an error. The state of the server is kept in its context, and neither the clean-up nor the new task that
  it creates leaves the restart state: whatever the tasks and the network do from then on, the server stays in
  that state and no slot is given to a client any more.\<close>

theorem server_never_recovers:
  assumes "keeps_net pe" and "sc_state (context_of c st) = SERVER_STATE_RESTART" and "(net_step pe E)\<^sup>*\<^sup>* st st'"
  shows "sc_state (context_of c st') = SERVER_STATE_RESTART
    \<and> (\<forall>i < length (sc_clients (context_of c st)). cl_online (client_of c i st') \<longrightarrow> cl_online (client_of c i st))"
proof -
  have "ctx_frame (context_of c st) (context_of c st')"
    using assms(3)
  proof (induction rule: rtranclp_induct)
    case (step y z)
    then have "sc_state (context_of c y) = SERVER_STATE_RESTART" using assms(2) by (simp add: ctx_frame_def)
    then show ?case using step_keeps_restart [OF step(2) assms(1)] step(3) ctx_frame_trans by blast
  qed simp
  then show ?thesis using assms(2) by (simp add: ctx_frame_def client_of_def)
qed

subsection \<open>Every client can be addressed\<close>

fun base_num :: "ctx \<Rightarrow> int" where
  "base_num Work = WORK_CLIENT_BASE"
| "base_num Camera = CAMERA_CLIENT_BASE"

definition slots_ok :: "ctx \<Rightarrow> server_context \<Rightarrow> bool" where
  "slots_ok c x \<longleftrightarrow> length (sc_clients x) = MAX_CLIENT_COUNT \<and> sc_client_base_num x = base_num c \<and> 0 \<le> sc_client_count x
     \<and> (\<forall>i < MAX_CLIENT_COUNT. cl_online (sc_clients x ! i) \<longrightarrow> cl_num (sc_clients x ! i) = base_num c + int i \<and> int i < sc_client_count x)"

lemma slots_ok_frame: "ctx_frame x y \<Longrightarrow> slots_ok c x \<Longrightarrow> slots_ok c y"
  by (auto simp: ctx_frame_def slots_ok_def)

lemma base_num_range: "1 \<le> base_num c" "base_num c + int MAX_CLIENT_COUNT \<le> 14"
  by (cases c; simp add: WORK_CLIENT_BASE_def CAMERA_CLIENT_BASE_def MAX_CLIENT_COUNT_def)+

lemma accept_client_slots:
  assumes "accept_client env c prt st = Some st'" and "ne_task env" and "slots_ok c (context_of c st)"
  shows "slots_ok c (context_of c st')"
proof -
  let ?x = "context_of c st"
  have x: "length (sc_clients ?x) = MAX_CLIENT_COUNT" "sc_client_base_num ?x = base_num c" "0 \<le> sc_client_count ?x"
    "\<And>i. i < MAX_CLIENT_COUNT \<Longrightarrow> cl_online (sc_clients ?x ! i) \<Longrightarrow> cl_num (sc_clients ?x ! i) = base_num c + int i \<and> int i < sc_client_count ?x"
    using assms(3) by (auto simp: slots_ok_def)
  consider "context_of c st' = ?x" | i cl where "free_slot (sc_clients ?x) 0 = Some i" "cl_num cl = base_num c + int i"
      "context_of c st' = ?x\<lparr>sc_clients := (sc_clients ?x)[i := cl], sc_client_count := sc_client_count ?x + 1\<rparr>"
    using accept_client_context [OF assms(1,2)] x(1,2) base_num_range [of c] by auto
  then show ?thesis
  proof cases
    case (2 i cl)
    have f: "i < MAX_CLIENT_COUNT" "\<forall>j < i. cl_online (sc_clients ?x ! j)" using free_slot_Some [OF 2(1)] x(1) by auto
    have "int i < sc_client_count ?x + 1"
    proof (cases i)
      case (Suc j)
      then show ?thesis using x(4) [of j] f by auto
    qed (use x(3) in simp)
    then show ?thesis using 2 x f(1) by (fastforce simp: slots_ok_def nth_list_update)
  qed (use assms(3) in simp)
qed

lemma step_keeps_slots:
  assumes "net_step pe ne_task st st'" and "keeps_net pe" and "\<forall>c. slots_ok c (context_of c st)"
  shows "\<forall>c. slots_ok c (context_of c st')"
  using assms(1)
proof cases
  case (pass env k)
  show ?thesis
  proof (rule task_pass_cases [OF pass(3) assms(2)])
    fix d prt conn assume s: "server_pass env k d prt conn st = Some st'"
    have "slots_ok d (context_of d st')"
    proof (cases "sc_state (context_of d st) = SERVER_STATE_ACCEPT \<and> ne_err env = ERR_OK")
      case True
      then have "accept_client env d prt st = Some st'" using s by (simp add: server_pass_def err_defs)
      then show ?thesis using accept_client_slots pass(1) assms(3) by blast
    next
      case False
      then have "ctx_frame (context_of d st)  ((context_of d st')\<lparr>sc_state := sc_state (context_of d st)\<rparr>)"
        using s by (auto simp: ctx_frame_def server_pass_def Let_def case_prod_unfold split: server_state_t.splits option.splits if_splits)
      then show ?thesis using slots_ok_frame assms(3) by (fastforce simp: slots_ok_def)
    qed
    then show ?thesis using server_pass_other [OF s] assms(3) by metis
  qed (use assms(3) in \<open>auto simp: net_frame_def intro: slots_ok_frame\<close>)
qed


lemma send_conn_slot:
  assumes "slots_ok c (context_of c st)" and "i < MAX_CLIENT_COUNT" and "cl_online (client_of c i st)" and "ne_up env"
  shows "send_conn env (base_num c + int i) st = Some (cl_conn (client_of c i st))"
proof -
  have "sc_client_base_num (context_of c st) = base_num c" "int i < sc_client_count (context_of c st)"
      "length (sc_clients (context_of c st)) = 4"
    using assms(1-3) by (auto simp: slots_ok_def client_of_def MAX_CLIENT_COUNT_def)
  moreover have "send_context (base_num c + int i) = Some c" "0 \<le> base_num c + int i" "base_num c + int i < USER_THREAD_CNT"
    using assms(2) by (cases c; simp add: send_context_def WORK_CLIENT_BASE_def CAMERA_CLIENT_BASE_def CAMERA_CLIENT_END_def USER_THREAD_CNT_def MAX_CLIENT_COUNT_def)+
  ultimately show ?thesis using assms(2,4) by (simp add: send_conn_def MAX_CLIENT_COUNT_def)
qed

lemma slots_ok_initial: "slots_ok Work work_context" "slots_ok Camera camera_context"
  by (auto simp: slots_ok_def work_context_def camera_context_def zero_client_def nth_replicate)

text \<open>C31: As long as the client threads can be created, every client that is online can be addressed: its number is the base number
  of its server plus its slot, and the sender maps this number to the connection of exactly this slot, inside
  of the array of clients. The count of clients is never decremented, which is why the number of a slot is
  always below it.\<close>

theorem clients_are_addressable:
  assumes "keeps_net pe" and "ns_work st = work_context\<lparr>sc_listen_port := p\<rparr>" and "ns_camera st = camera_context"
    and "(net_step pe ne_task)\<^sup>*\<^sup>* st st'" and "i < MAX_CLIENT_COUNT" and "cl_online (client_of c i st')" and "ne_up env"
  shows "cl_num (client_of c i st') = base_num c + int i \<and> send_conn env (base_num c + int i) st' = Some (cl_conn (client_of c i st'))"
proof -
  have "slots_ok d (context_of d st)" for d
    using assms(2,3) slots_ok_initial by (cases d) (simp_all add: slots_ok_def)
  then have b: "\<forall>d. slots_ok d (context_of d st)" by blast
  have "\<forall>d. slots_ok d (context_of d st')"
    using assms(4) by (induction rule: rtranclp_induct) (use step_keeps_slots [OF _ assms(1)] b in auto)
  then have x: "slots_ok c (context_of c st')" ..
  then show ?thesis using send_conn_slot [OF x assms(5,6,7)] assms(5,6) by (simp add: slots_ok_def client_of_def)
qed

subsection \<open>From a client to the client\<close>

definition client_ready :: "nat \<Rightarrow> ctx \<Rightarrow> nat \<Rightarrow> nat \<Rightarrow> int \<Rightarrow> net_state \<Rightarrow> bool" where
  "client_ready k c i conn m st \<longleftrightarrow> k < length (ns_tasks st) \<and> ns_tasks st ! k = Client_thread c i None m \<and> i < MAX_CLIENT_COUNT
     \<and> slots_ok c (context_of c st) \<and> cl_online (client_of c i st) \<and> cl_conn (client_of c i st) = Some conn
     \<and> cl_state (client_of c i st) = CLIENT_STATE_WAIT_DATA \<and> cl_listen_port (client_of c i st) \<noteq> 80
     \<and> 0 \<le> cs_tcp_group st \<and> cs_tcp_group st < 256 \<and> cs_uart_group st \<noteq> cs_tcp_group st"

definition tcp_port :: "net_state \<Rightarrow> ctx \<Rightarrow> nat \<Rightarrow> comm_port" where
  "tcp_port st c i = \<lparr>group_idx = word_of_int (cs_tcp_group st), channel_idx = word_of_int (base_num c + int i)\<rparr>"

text \<open>A receiving environment: the network is up, a block has come, and the connection takes data.\<close>

definition receives :: "net_env \<Rightarrow> buf \<Rightarrow> nat \<Rightarrow> bool" where
  "receives env bs conn \<longleftrightarrow> ne_up env \<and> ne_err env = ERR_OK \<and> ne_data env = bs \<and> bs \<noteq> [] \<and> ne_sndbuf env conn \<ge> 23360 \<and> ne_write env conn = ERR_OK"

definition after_wait :: "nat \<Rightarrow> ctx \<Rightarrow> nat \<Rightarrow> int \<Rightarrow> buf \<Rightarrow> net_state \<Rightarrow> net_state" where
  "after_wait k c i m bs st = set_task k (Client_thread c i (Some bs) m)
     (set_client c i ((client_of c i st)\<lparr>cl_offline_cntr := 0, cl_state := CLIENT_STATE_PROCESS\<rparr>) st)"

lemma state_updates [simp]:
  "ns_tasks (set_context c x st) = ns_tasks st" "ns_rx (set_context c x st) = ns_rx st" "ns_tx (set_context c x st) = ns_tx st"
  "ns_calls (set_context c x st) = ns_calls st" "cs_tcp_group (set_context c x st) = cs_tcp_group st"
  "cs_uart_group (set_context c x st) = cs_uart_group st" "cs_groups (set_context c x st) = cs_groups st"
  by (cases c; simp)+

lemma client_updates [simp]:
  "ns_tasks (set_client c i cl st) = ns_tasks st" "ns_rx (set_client c i cl st) = ns_rx st" "ns_tx (set_client c i cl st) = ns_tx st"
  "ns_calls (set_client c i cl st) = ns_calls st" "cs_tcp_group (set_client c i cl st) = cs_tcp_group st"
  "cs_uart_group (set_client c i cl st) = cs_uart_group st" "cs_groups (set_client c i cl st) = cs_groups st"
  "ns_rx (set_task k t st) = ns_rx st" "ns_tx (set_task k t st) = ns_tx st" "ns_calls (set_task k t st) = ns_calls st"
  "cs_tcp_group (set_task k t st) = cs_tcp_group st" "cs_uart_group (set_task k t st) = cs_uart_group st"
  "ns_tasks (set_task k t st) = (ns_tasks st)[k := t]" "cs_groups (set_task k t st) = cs_groups st"
  by (simp_all add: set_client_def set_task_def)

lemma client_of_set_client:
  "i < length (sc_clients (context_of c st)) \<Longrightarrow> client_of c i (set_client c i cl st) = cl"
  by (simp add: client_of_def context_of_set_client)

lemma client_of_context: "context_of c s = context_of c st \<Longrightarrow> client_of c i s = client_of c i st"
  by (simp add: client_of_def)

lemma wait_receives:
  assumes "client_ready k c i conn m st" and "receives env bs conn"
  shows "task_pass pe env k st = Some (after_wait k c i m bs st)"
  using assms by (simp add: task_pass_def client_pass_def client_wait_def client_ready_def receives_def Let_def after_wait_def
    CLIENT_OFFLINE_TIMEO_def ERR_OK_def ERR_TIMEOUT_def)

lemma after_wait_client:
  assumes "client_ready k c i conn m st"
  shows "client_of c i (after_wait k c i m bs st) = (client_of c i st)\<lparr>cl_offline_cntr := 0, cl_state := CLIENT_STATE_PROCESS\<rparr>"
    and "slots_ok c (context_of c (after_wait k c i m bs st))"
    and "ns_tasks (after_wait k c i m bs st) ! k = Client_thread c i (Some bs) m"
proof -
  have x: "slots_ok c (context_of c st)" "i < length (sc_clients (context_of c st))" "k < length (ns_tasks st)"
    using assms by (auto simp: client_ready_def slots_ok_def)
  have "client_of c i (after_wait k c i m bs st) = client_of c i (set_client c i ((client_of c i st)\<lparr>cl_offline_cntr := 0, cl_state := CLIENT_STATE_PROCESS\<rparr>) st)"
    by (rule client_of_context) (simp add: after_wait_def)
  then show "client_of c i (after_wait k c i m bs st) = (client_of c i st)\<lparr>cl_offline_cntr := 0, cl_state := CLIENT_STATE_PROCESS\<rparr>"
    using client_of_set_client x(2) by simp
  have "net_frame st (after_wait k c i m bs st)" unfolding after_wait_def by (intro frame_intros) simp_all
  then show "slots_ok c (context_of c (after_wait k c i m bs st))" using x(1) by (auto simp: net_frame_def intro: slots_ok_frame)
  show "ns_tasks (after_wait k c i m bs st) ! k = Client_thread c i (Some bs) m" using x(3) by (simp add: after_wait_def)
qed


text \<open>The state in which the block is processed.\<close>

definition with_block :: "buf \<Rightarrow> net_state \<Rightarrow> net_state" where
  "with_block bs st = st\<lparr>ns_rx := overwrite (ns_rx st) 0 bs\<rparr>"

lemma uint_channel:
  assumes "i < MAX_CLIENT_COUNT"
  shows "uint (word_of_int (base_num c + int i) :: u8) = base_num c + int i"
proof -
  have "i = 0 \<or> i = 1 \<or> i = 2 \<or> i = 3" using assms by (auto simp: MAX_CLIENT_COUNT_def)
  then show ?thesis by (cases c) (auto simp: WORK_CLIENT_BASE_def CAMERA_CLIENT_BASE_def)
qed

text \<open>The answer of the protocols goes out over the connection of the client.\<close>

lemma answer_is_sent:
  assumes "slots_ok c (context_of c st)" and "i < MAX_CLIENT_COUNT" and "cl_online (client_of c i st)" and "cl_conn (client_of c i st) = Some conn"
    and "receives env bs conn" and "0 \<le> cs_tcp_group st" and "cs_tcp_group st < 256" and "cs_uart_group st \<noteq> cs_tcp_group st"
    and "keeps_net pe" and "proto_answer (net_proto pe env) rx tx len m (tcp_port st c i) st = Some (tx', int n, st')"
    and "0 < n" and "n < 65536" and "n \<le> length tx'" and "4 \<le> length tx'"
  shows "proto_process (net_proto pe env) rx tx len m (tcp_port st c i) st
    = Some (overwrite tx' 0 [0, 0, 0, 0], 0, call [Tcp_write conn (take n tx')] (st'\<lparr>ns_busy := 1\<rparr>))"
proof -
  have v: "net_view st' = net_view st" using proto_answer_view assms(9,10) by blast
  then have g: "cs_tcp_group st' = cs_tcp_group st" "cs_uart_group st' = cs_uart_group st" by (simp_all add: net_view_def)
  have c: "context_of c st' = context_of c st" using context_of_view [OF v] .
  have "send_conn env (base_num c + int i) st' = Some (Some conn)"
    using send_conn_slot [of c st' i env] assms(1-5) by (simp add: c client_of_context [OF c] receives_def)
  then have "tcp_server_send_low env (base_num c + int i) tx' (int n) st' = Some (0, call [Tcp_write conn (take n tx')] (st'\<lparr>ns_busy := 1\<rparr>))"
    using assms(5,12,13) by (simp add: tcp_server_send_low_def receives_def Let_def unat_of_nat)
  then have t: "pe_tcp (net_proto pe env) (uint (channel_idx (tcp_port st c i))) tx' (int n) st' = Some (call [Tcp_write conn (take n tx')] (st'\<lparr>ns_busy := 1\<rparr>))"
    using uint_channel [OF assms(2)] by (simp add: tcp_port_def net_proto_def)
  have u: "uint (group_idx (tcp_port st c i)) = cs_tcp_group st"
    using assms(6,7) by (simp add: tcp_port_def unsigned_of_int take_bit_int_eq_self)
  show ?thesis using assms(8,10,11,14) t u g by (simp add: proto_process_def)
qed


lemma ready_again:
  assumes "client_ready k c i conn m st" and "context_of c s = context_of c (after_wait k c i m bs st)"
    and "ns_tasks s = ns_tasks (after_wait k c i m bs st)" and "cs_tcp_group s = cs_tcp_group st" and "cs_uart_group s = cs_uart_group st"
  shows "client_ready k c i conn 0
    (set_task k (Client_thread c i None 0) (set_client c i ((client_of c i s)\<lparr>cl_state := CLIENT_STATE_WAIT_DATA\<rparr>) (s\<lparr>ns_tx := tx\<rparr>)))"
    (is "client_ready k c i conn 0 ?e")
proof -
  let ?s = "after_wait k c i m bs st"
  have r: "i < MAX_CLIENT_COUNT" "cl_online (client_of c i st)" "cl_num (client_of c i st) = base_num c + int i"
    using assms(1) by (auto simp: client_ready_def slots_ok_def client_of_def)
  have s: "slots_ok c (context_of c ?s)" "length (ns_tasks ?s) = length (ns_tasks st)"
    using after_wait_client(2) [OF assms(1)] by (simp_all add: after_wait_def)
  have o: "client_of c i s = (client_of c i st)\<lparr>cl_offline_cntr := 0, cl_state := CLIENT_STATE_PROCESS\<rparr>"
    using client_of_context [OF assms(2)] after_wait_client(1) [OF assms(1), of bs] by simp
  have e: "context_of c ?e = (context_of c ?s)\<lparr>sc_clients := (sc_clients (context_of c ?s))[i := (client_of c i s)\<lparr>cl_state := CLIENT_STATE_WAIT_DATA\<rparr>]\<rparr>"
    using assms(2) by (simp add: context_of_set_client)
  have "client_of c i ?e = (client_of c i s)\<lparr>cl_state := CLIENT_STATE_WAIT_DATA\<rparr>"
    using s(1) r(1) by (simp add: client_of_def [of _ _ ?e] e slots_ok_def del: context_of_simple)
  moreover have "slots_ok c (context_of c ?e)"
    unfolding e using s(1) r o client_of_context [OF assms(2), of i]
    by (auto simp: slots_ok_def nth_list_update client_of_def simp del: context_of_simple)
  ultimately show ?thesis using assms r s(2) o by (simp add: client_ready_def)
qed

lemma client_process_block:
  assumes "length bs \<le> length (ns_rx s)" and "cl_listen_port (client_of c i s) \<noteq> 80"
    and "proto_process (net_proto pe env) (overwrite (ns_rx s) 0 bs) (ns_tx s) (int (length bs)) m
      \<lparr>group_idx = word_of_int (cs_tcp_group s), channel_idx = word_of_int (cl_num (client_of c i s))\<rparr> (with_block bs s) = Some (tx, out, s')"
  shows "client_process pe env k c i (Some bs) m s
    = Some (set_task k (Client_thread c i None out) (set_client c i ((client_of c i s')\<lparr>cl_state := CLIENT_STATE_WAIT_DATA\<rparr>) (s'\<lparr>ns_tx := tx\<rparr>)))"
  using assms by (simp add: client_process_def Let_def with_block_def client_of_def)

text \<open>C14: A request of a client that is ready is answered over its own connection: the pass that receives the block hands it to the
  pass that processes it, the protocols see the block at the start of the receive buffer, and exactly their
  answer is written to the connection of the client; then the client is ready again. The handlers are
  assumed to leave the servers alone and the connection to take data; the block fits the receive buffer.\<close>

theorem tcp_client_answered:
  assumes "client_ready k c i conn m st" and "receives env bs conn" and "length bs \<le> length (ns_rx st)" and "keeps_net pe"
    and "proto_answer (net_proto pe env) (overwrite (ns_rx st) 0 bs) (ns_tx st) (int (length bs)) m (tcp_port st c i)
           (with_block bs (after_wait k c i m bs st)) = Some (tx', int n, st')"
    and "0 < n" and "n < 65536" and "n \<le> length tx'" and "4 \<le> length tx'"
  shows "\<exists>st1 st2. task_pass pe env k st = Some st1 \<and> task_pass pe env k st1 = Some st2
    \<and> ns_calls st2 = ns_calls st' @ [Tcp_write conn (take n tx')] \<and> client_ready k c i conn 0 st2"
proof -
  let ?s = "after_wait k c i m bs st" let ?b = "with_block bs ?s"
  let ?r = "call [Tcp_write conn (take n tx')] (st'\<lparr>ns_busy := 1\<rparr>)"
  let ?e = "set_task k (Client_thread c i None 0) (set_client c i ((client_of c i ?r)\<lparr>cl_state := CLIENT_STATE_WAIT_DATA\<rparr>)
    (?r\<lparr>ns_tx := overwrite tx' 0 [0, 0, 0, 0]\<rparr>))"
  have r: "k < length (ns_tasks st)" "i < MAX_CLIENT_COUNT" "cl_online (client_of c i st)" "cl_conn (client_of c i st) = Some conn"
    "cl_listen_port (client_of c i st) \<noteq> 80" "cl_num (client_of c i st) = base_num c + int i"
    "0 \<le> cs_tcp_group st" "cs_tcp_group st < 256" "cs_uart_group st \<noteq> cs_tcp_group st"
    using assms(1) by (auto simp: client_ready_def slots_ok_def client_of_def)
  have x: "context_of c ?b = context_of c ?s" by (simp add: with_block_def)
  have b: "client_of c i ?b = client_of c i ?s" by (rule client_of_context) (rule x)
  have g: "cs_tcp_group ?b = cs_tcp_group st" "cs_uart_group ?b = cs_uart_group st" "ns_rx ?s = ns_rx st" "ns_tx ?s = ns_tx st"
    by (simp_all add: with_block_def after_wait_def)
  have tp: "tcp_port ?b c i = tcp_port st c i" by (simp add: tcp_port_def g)
  have pr: "proto_process (net_proto pe env) (overwrite (ns_rx st) 0 bs) (ns_tx st) (int (length bs)) m (tcp_port st c i) ?b
      = Some (overwrite tx' 0 [0, 0, 0, 0], 0, ?r)"
    using answer_is_sent [of c ?b i conn env bs pe "overwrite (ns_rx st) 0 bs" "ns_tx st" "int (length bs)" m tx' n st']
      after_wait_client [OF assms(1)] assms(2,4-9) r by (simp add: x b g tp)
  have "task_pass pe env k ?s = client_process pe env k c i (Some bs) m ?s"
    using after_wait_client [OF assms(1)] by (simp add: task_pass_def client_pass_def)
  also have "\<dots> = Some ?e"
    by (rule client_process_block) (use assms(3) pr after_wait_client(1) [OF assms(1), of bs] r(5,6) g in \<open>simp_all add: tcp_port_def with_block_def\<close>)
  finally have p: "task_pass pe env k ?s = Some ?e" .
  have v: "net_view st' = net_view ?b" using proto_answer_view assms(4,5) by blast
  then have t: "ns_tasks st' = ns_tasks ?s" "cs_tcp_group st' = cs_tcp_group st" "cs_uart_group st' = cs_uart_group st"
    by (simp_all add: net_view_def with_block_def after_wait_def)
  have d: "context_of c ?r = context_of c ?s" using context_of_view [OF v, of c] x by simp
  have "client_ready k c i conn 0 ?e"
    by (rule ready_again [OF assms(1)]) (use d t in \<open>simp_all add: call_def\<close>)
  then show ?thesis
    using wait_receives [OF assms(1,2)] p by (intro exI [of _ ?s] exI [of _ ?e]) (simp add: call_def)
qed


text \<open>A block that is longer than the receive buffer is copied past its end: the pass of a ready client that receives it succeeds, and the
  next pass has no defined behaviour, whatever the block contains. TCP delivers segments of up to 1460
  bytes, and the buffer has 1056.\<close>

theorem oversized_block_overflows:
  assumes "client_ready k c i conn m st" and "receives env bs conn" and "length (ns_rx st) = SERVER_BUFFER_LEN" and "SERVER_BUFFER_LEN < length bs"
  shows "\<exists>st1. task_pass pe env k st = Some st1 \<and> task_pass pe env' k st1 = None"
proof -
  have "ns_rx (after_wait k c i m bs st) = ns_rx st" by (simp add: after_wait_def)
  then have "task_pass pe env' k (after_wait k c i m bs st) = None"
    using after_wait_client [OF assms(1)] assms(3,4) by (simp add: task_pass_def client_pass_def client_process_def)
  then show ?thesis using wait_receives [OF assms(1,2)] by blast
qed

subsection \<open>A slot that is reused too early\<close>

lemma accept_client_success:
  assumes "free_slot (sc_clients (context_of c st)) 0 = Some i" and "ne_task env" and "0 \<le> cs_tcp_group st"
    and "num = sc_client_base_num (context_of c st) + int i" and "1 \<le> num" and "num \<le> USER_THREAD_CNT"
  shows "\<exists>st'. accept_client env c prt st = Some st' \<and> ns_calls st' = ns_calls st \<and> ns_tasks st' = ns_tasks st @ [Client_thread c i None 0]
    \<and> client_of c i st' = new_client env num prt (client_of c i st) \<and> length (sc_clients (context_of c st')) = length (sc_clients (context_of c st))"
proof -
  let ?s = "set_client c i (new_client env num prt (client_of c i st)) st"
  have i: "i < length (sc_clients (context_of c st))" using free_slot_Some [OF assms(1)] by simp
  have "comm_channel_add (ne_alloc env) (cs_tcp_group ?s) num (cs_groups ?s) \<noteq> None"
    using assms(3) by (simp add: comm_channel_add_def)
  then obtain r gs where "comm_channel_add (ne_alloc env) (cs_tcp_group ?s) num (cs_groups ?s) = Some (r, gs)" by auto
  then show ?thesis
    using assms i unfolding accept_client_def
    by (auto simp: Let_def thread_create_def client_of_def context_of_set_client split: if_splits)
qed

text \<open>A client thread that ends gives its slot back before it closes the connection of the slot. When the server, which has the higher
  priority, accepts a client in between, the old thread closes and deletes the connection of the new client and
  never its own, and the thread of the new client, whose slot stays occupied, then uses a null pointer.\<close>

theorem early_reuse_closes_new_connection:
  assumes "k < length (ns_tasks st)" and "ns_tasks st ! k = Client_closing c i" and "j < length (ns_tasks st)"
    and "ns_tasks st ! j = Server_task c prt lc" and "sc_state (context_of c st) = SERVER_STATE_ACCEPT"
    and "free_slot (sc_clients (context_of c st)) 0 = Some i" and "ne_err env = ERR_OK" and "ne_task env" and "0 \<le> cs_tcp_group st"
    and "1 \<le> sc_client_base_num (context_of c st)" and "sc_client_base_num (context_of c st) + int i \<le> USER_THREAD_CNT"
  shows "\<exists>st1 st2. task_pass pe env j st = Some st1 \<and> task_pass pe env' k st1 = Some st2
    \<and> ns_calls st2 = ns_calls st @ [Netconn_close (ne_conn env), Netconn_delete (ne_conn env)]
    \<and> cl_online (client_of c i st2) \<and> task_pass pe env'' (length (ns_tasks st)) st2 = None"
proof -
  obtain st1 where a: "accept_client env c prt st = Some st1" "ns_calls st1 = ns_calls st" "ns_tasks st1 = ns_tasks st @ [Client_thread c i None 0]"
      "client_of c i st1 = new_client env (sc_client_base_num (context_of c st) + int i) prt (client_of c i st)"
      "length (sc_clients (context_of c st1)) = length (sc_clients (context_of c st))"
    using accept_client_success [OF assms(6,8,9) refl] assms(10,11) by force
  have j: "task_pass pe env j st = Some st1"
    using assms(4,5,7) a(1) by (simp add: task_pass_def server_pass_def err_defs)
  let ?s = "client_close k c i st1"
  have i: "i < length (sc_clients (context_of c st1))" using free_slot_Some [OF assms(6)] a(5) by simp
  have k: "task_pass pe env' k st1 = Some ?s" using assms(1,2) a(3) by (simp add: task_pass_def nth_append)
  have l: "ns_calls ?s = ns_calls st @ [Netconn_close (ne_conn env), Netconn_delete (ne_conn env)]"
    using a(2,4) by (simp add: client_close_def close_conn_def call_def)
  have o: "client_of c i ?s = (client_of c i st1)\<lparr>cl_conn := None\<rparr>"
    using i by (simp add: client_close_def client_of_def context_of_set_client)
  have t: "ns_tasks ?s ! length (ns_tasks st) = Client_thread c i None 0"
    using a(3) assms(1) by (simp add: client_close_def close_conn_def call_def nth_append split: option.split)
  have "task_pass pe env'' (length (ns_tasks st)) ?s = None"
    using t o a(4) by (simp add: task_pass_def client_pass_def client_init_def Let_def)
  then show ?thesis using j k l o a(4) by (intro exI [of _ st1] exI [of _ ?s]) simp
qed


subsection \<open>Sending in chunks\<close>

fun conn_data :: "net_call list \<Rightarrow> nat \<Rightarrow> buf" where
  "conn_data [] conn = []"
| "conn_data (Netconn_write n bs m # cs) conn = (if n = conn then bs @ conn_data cs conn else conn_data cs conn)"
| "conn_data (_ # cs) conn = conn_data cs conn"

lemma conn_data_append [simp]: "conn_data (cs @ ds) conn = conn_data cs conn @ conn_data ds conn"
  by (induction cs conn rule: conn_data.induct) simp_all

text \<open>The chunks of a block, each with the flag that more data follows.\<close>

function chunk_calls :: "nat \<Rightarrow> buf \<Rightarrow> net_call list" where
  "chunk_calls conn dat = (if dat = [] then [] else
     Netconn_write conn (take MAX_SEND_SIZE dat) (length dat > MAX_SEND_SIZE) # chunk_calls conn (drop MAX_SEND_SIZE dat))"
  by pat_completeness auto
termination by (relation "measure (length o snd)") (auto simp: MAX_SEND_SIZE_def)

declare chunk_calls.simps [simp del]

lemma conn_data_chunks: "conn_data (chunk_calls conn dat) conn = dat"
proof (induction conn dat rule: chunk_calls.induct)
  case (1 conn dat)
  then show ?case by (subst chunk_calls.simps) simp
qed

text \<open>The write that counts for the n-th call: the first success, or the error that ends the tries.\<close>

definition transient :: "int \<Rightarrow> bool" where
  "transient e \<longleftrightarrow> e \<noteq> ERR_OK \<and> e \<noteq> ERR_ABRT \<and> e \<noteq> ERR_CLSD \<and> e \<noteq> ERR_CONN"

lemma try_write_ok_iff:
  "fst (try_write wr n 0) = ERR_OK \<longleftrightarrow>
     wr n = ERR_OK \<or> transient (wr n) \<and> (wr (n + 1) = ERR_OK \<or> transient (wr (n + 1)) \<and> wr (n + 2) = ERR_OK)"
  by (simp add: try_write.simps [of wr n 0] try_write.simps [of wr "Suc n" "Suc 0"] try_write.simps [of wr "Suc (Suc n)" "Suc (Suc 0)"]
    MAX_RETRY_COUNT_def transient_def Let_def numeral_2_eq_2 err_defs)

text \<open>Whatever the writes answer, the calls are the first chunks in order; the result is 0 exactly if they are all of them.\<close>

lemma send_loop_calls:
  "\<exists>j. ns_calls (snd (send_loop wr n conn dat st)) = ns_calls st @ take j (chunk_calls conn dat)
     \<and> (fst (send_loop wr n conn dat st) = 0 \<longleftrightarrow> length (chunk_calls conn dat) \<le> j) \<and> fst (send_loop wr n conn dat st) \<in> {0, - 1}"
proof (induction wr n conn dat st rule: send_loop.induct)
  case (1 wr n conn dat st)
  let ?w = "Netconn_write conn (take MAX_SEND_SIZE dat) (length dat > MAX_SEND_SIZE)"
  show ?case
  proof (cases "dat = [] \<or> fst (try_write wr n 0) \<noteq> ERR_OK")
    case True
    then show ?thesis by (intro exI [of _ 0], subst (1 2 3) send_loop.simps, subst chunk_calls.simps) (auto simp: case_prod_unfold chunk_calls.simps)
  next
    case False
    obtain e n' where t: "try_write wr n 0 = (e, n')" "e = ERR_OK" using False by (cases "try_write wr n 0") auto
    then obtain j where j: "ns_calls (snd (send_loop wr n' conn (drop MAX_SEND_SIZE dat) (call [?w] st)))
          = ns_calls (call [?w] st) @ take j (chunk_calls conn (drop MAX_SEND_SIZE dat))"
        "fst (send_loop wr n' conn (drop MAX_SEND_SIZE dat) (call [?w] st)) = 0 \<longleftrightarrow> length (chunk_calls conn (drop MAX_SEND_SIZE dat)) \<le> j"
        "fst (send_loop wr n' conn (drop MAX_SEND_SIZE dat) (call [?w] st)) \<in> {0, - 1}"
      using 1 [OF _ t(1) [symmetric] refl] False by auto
    have s: "send_loop wr n conn dat st = send_loop wr n' conn (drop MAX_SEND_SIZE dat) (call [?w] st)"
      using False t by (subst send_loop.simps) simp
    have c: "chunk_calls conn dat = ?w # chunk_calls conn (drop MAX_SEND_SIZE dat)" using False by (subst chunk_calls.simps) simp
    show ?thesis unfolding s c using j by (intro exI [of _ "Suc j"]) (simp add: call_def)
  qed
qed


lemma send_loop_success: "(\<And>n. fst (try_write wr n 0) = ERR_OK) \<Longrightarrow> fst (send_loop wr n conn dat st) = 0"
proof (induction wr n conn dat st rule: send_loop.induct)
  case (1 wr n conn dat st)
  obtain e n' where t: "try_write wr n 0 = (e, n')" "e = ERR_OK" using 1(2) [of n] by (cases "try_write wr n 0") auto
  show ?case
  proof (cases "dat = []")
    case False
    then show ?thesis using 1(1) [OF _ t(1) [symmetric] refl _ 1(2)] t by (subst send_loop.simps) simp
  qed (subst send_loop.simps, simp)
qed

text \<open>C33: The sender with chunks writes a prefix of the chunks of the data, in order and each once, and returns 0 exactly if it has written all of
  them, so that the connection has got exactly the data. It does so whenever no write fails for good and no
  three writes in a row fail, and always returns.\<close>

theorem tcp_server_send_delivers:
  assumes "send_conn env num st = Some (Some conn)" and "nat outlen \<le> length dat"
  shows "\<exists>r st' j. tcp_server_send wr env num dat outlen st = Some (r, st')
    \<and> ns_calls st' = ns_calls st @ take j (chunk_calls conn (take (nat outlen) dat)) \<and> r \<in> {0, - 1}
    \<and> (r = 0 \<longleftrightarrow> length (chunk_calls conn (take (nat outlen) dat)) \<le> j)
    \<and> (r = 0 \<longrightarrow> conn_data (ns_calls st') conn = conn_data (ns_calls st) conn @ take (nat outlen) dat)
    \<and> ((\<forall>n. wr n = ERR_OK \<or> transient (wr n) \<and> (wr (n + 1) = ERR_OK \<or> transient (wr (n + 1)) \<and> wr (n + 2) = ERR_OK)) \<longrightarrow> r = 0)"
proof -
  let ?d = "take (nat outlen) dat"
  let ?l = "send_loop wr 0 conn ?d st"
  obtain j where j: "ns_calls (snd ?l) = ns_calls st @ take j (chunk_calls conn ?d)" "fst ?l = 0 \<longleftrightarrow> length (chunk_calls conn ?d) \<le> j" "fst ?l \<in> {0, - 1}"
    using send_loop_calls by blast
  have "tcp_server_send wr env num dat outlen st = Some (fst ?l, snd ?l)"
    using assms by (simp add: tcp_server_send_def)
  moreover have "fst ?l = 0 \<Longrightarrow> conn_data (ns_calls (snd ?l)) conn = conn_data (ns_calls st) conn @ ?d"
    using j(1,2) by (simp add: conn_data_chunks)
  moreover have "(\<forall>n. wr n = ERR_OK \<or> transient (wr n) \<and> (wr (n + 1) = ERR_OK \<or> transient (wr (n + 1)) \<and> wr (n + 2) = ERR_OK)) \<Longrightarrow> fst ?l = 0"
    using send_loop_success try_write_ok_iff by blast
  ultimately show ?thesis using j by blast
qed

subsection \<open>Addresses\<close>

lemma parse_ip_text:
  assumes "length vs = 4"
  shows "parse_ip_string (ip_text vs) = (0, vs)"
proof -
  obtain a b c d where v: "vs = [a, b, c, d]" using assms by (auto simp: eval_nat_numeral length_Suc_conv)
  have u: "\<not> (255 < (ucast w :: u32))" for w :: u8
    using unsigned_less [of w, where 'a = nat] by (simp add: word_less_nat_alt unsigned_ucast_eq take_bit_nat_eq_self)
  have c: "ucast (ucast w :: u32) = w" for w :: u8 by (rule bit_word_eqI) (simp add: bit_simps)
  show ?thesis using u by (simp add: parse_ip_string_def v ip_text_def eval_nat_numeral scan_fmt Let_def c)
qed

text \<open>The addresses that the pages of the menu store are read back at the start: four texts with a remote address that does not begin with
  zero give the four addresses; when the text of the remote address is not an address, all four are the
  defaults. A text of the local address that is not an address gives the address \<open>0.0.0.0\<close>.\<close>

theorem ip_parameters_are_read_back:
  assumes "length r = 4" and "length g = 4" and "length m = 4" and "length a = 4" and "r ! 0 \<noteq> 0"
  shows "get_ipconfig_info (ip_text r) (ip_text a) (ip_text g) (ip_text m) = \<lparr>ic_remote_ip = r, ic_ip_addr = a, ic_gateway = g, ic_net_mask = m\<rparr>
    \<and> (fst (parse_ip_string t) \<noteq> 0 \<longrightarrow> ic_ip_addr (get_ipconfig_info t (ip_text a) (ip_text g) (ip_text m)) = [192, 168, 42, 132]
        \<and> ic_ip_addr (get_ipconfig_info (ip_text r) t (ip_text g) (ip_text m)) = [0, 0, 0, 0])"
  using assms by (auto simp: get_ipconfig_info_def parse_ip_text Let_def case_prod_unfold parse_ip_string_def [of t] split: if_splits)


subsection \<open>Runs\<close>

text \<open>The result of a schedule, and that it is reached by steps.\<close>

fun run :: "net_proto_env \<Rightarrow> (net_env \<times> nat) list \<Rightarrow> net_state \<Rightarrow> net_state option" where
  "run pe [] st = Some st"
| "run pe ((env, k) # es) st = (if k < length (ns_tasks st) then Option.bind (task_pass pe env k st) (run pe es) else None)"

lemma run_steps: "run pe es st = Some st' \<Longrightarrow> \<forall>(env, k) \<in> set es. E env \<Longrightarrow> (net_step pe E)\<^sup>*\<^sup>* st st'"
proof (induction pe es st rule: run.induct)
  case (2 pe env k es st)
  then obtain s where s: "k < length (ns_tasks st)" "task_pass pe env k st = Some s" "run pe es s = Some st'"
    by (auto simp: bind_eq_Some_conv split: if_splits)
  then have "(net_step pe E)\<^sup>*\<^sup>* s st'" using 2 by auto
  moreover have "net_step pe E st s" using s 2(3) by (auto intro: net_step.pass)
  ultimately show ?case by (rule converse_rtranclp_into_rtranclp [rotated])
qed simp

definition sample_pe :: net_proto_env where
  "sample_pe = \<lparr>pe_handler = (\<lambda>p tx off n st. Some (tx, n, st)), pe_set = sample_callback, pe_get = sample_callback, pe_flt = (\<lambda>_ _ _. Inl 0),
     pe_ftxt = (\<lambda>_ b. b), pe_conv = (\<lambda>_ b. b), pe_tcp = (\<lambda>_ _ _ st. Some st)\<rparr>"

definition sample_net :: "buf \<Rightarrow> net_state" where
  "sample_net rx = comm_state.extend (comm_state.truncate ((sample_comm [])\<lparr>cs_groups :=
       [\<lparr>cg_name = ''UART'', cg_channels = [0], cg_send_func = Pc_send_wrapper\<rparr>, \<lparr>cg_name = ''TCP'', cg_channels = [], cg_send_func = Tcp_server_send_wrapper\<rparr>]\<rparr>))
     (net_state.fields work_context camera_context [] (replicate 13 None) rx (replicate 16 0) 0 False 0 False False [])"

text \<open>An environment in which everything succeeds; it gives the number of the connection and the received data.\<close>

definition sample_nenv :: "nat \<Rightarrow> buf \<Rightarrow> net_env" where
  "sample_nenv n bs = \<lparr>ne_link = True, ne_up = True, ne_new = Some n, ne_err = 0, ne_conn = n, ne_addr = 0x6401A8C0, ne_port = 5000, ne_data = bs,
     ne_alloc = True, ne_task = True, ne_sndbuf = (\<lambda>_. 40000), ne_write = (\<lambda>_. 0)\<rparr>"

text \<open>The work server accepts a client on connection 7, whose thread is the third task.\<close>

definition sample_sched :: "(net_env \<times> nat) list" where
  "sample_sched = replicate 4 (sample_nenv 5 [], 0) @ [(sample_nenv 7 [], 0), (sample_nenv 7 [], 2)]"

definition sample_ready :: "buf \<Rightarrow> net_state" where
  "sample_ready rx = the (run sample_pe sample_sched (tcpsvr_start True True 6363 (sample_net rx)))"

lemma keeps_net_sample: "keeps_net sample_pe"
  by (simp add: keeps_net_def sample_pe_def keeps_def holds_def sample_callback_def)

lemma sample_ready_run: "run sample_pe sample_sched (tcpsvr_start True True 6363 (sample_net rx)) = Some (sample_ready rx)"
proof -
  have "run sample_pe sample_sched (tcpsvr_start True True 6363 (sample_net rx)) \<noteq> None" by code_simp
  then show ?thesis by (simp add: sample_ready_def)
qed


lemma sample_client_ready: "client_ready 2 Work 0 7 0 (sample_ready rx)"
proof -
  have "slots_ok Work (context_of Work (sample_ready rx)) \<longleftrightarrow>
      (let x = context_of Work (sample_ready rx) in length (sc_clients x) = 4 \<and> sc_client_base_num x = 3 \<and> 0 \<le> sc_client_count x
        \<and> list_all (\<lambda>i. cl_online (sc_clients x ! i) \<longrightarrow> cl_num (sc_clients x ! i) = 3 + int i \<and> int i < sc_client_count x) [0..<4])"
    by (auto simp: slots_ok_def Let_def MAX_CLIENT_COUNT_def WORK_CLIENT_BASE_def list_all_iff)
  moreover have "let x = context_of Work (sample_ready rx) in length (sc_clients x) = 4 \<and> sc_client_base_num x = 3 \<and> 0 \<le> sc_client_count x
        \<and> list_all (\<lambda>i. cl_online (sc_clients x ! i) \<longrightarrow> cl_num (sc_clients x ! i) = 3 + int i \<and> int i < sc_client_count x) [0..<4]"
    by code_simp
  moreover have "2 < length (ns_tasks (sample_ready rx))" "ns_tasks (sample_ready rx) ! 2 = Client_thread Work 0 None 0"
    "cl_online (client_of Work 0 (sample_ready rx))" "cl_conn (client_of Work 0 (sample_ready rx)) = Some 7"
    "cl_state (client_of Work 0 (sample_ready rx)) = CLIENT_STATE_WAIT_DATA" "cl_listen_port (client_of Work 0 (sample_ready rx)) = 6363"
    "cs_tcp_group (sample_ready rx) = 1" "cs_uart_group (sample_ready rx) = 0"
    by code_simp+
  ultimately show ?thesis by (simp add: client_ready_def MAX_CLIENT_COUNT_def)
qed

lemma sample_receives: "bs \<noteq> [] \<Longrightarrow> receives (sample_nenv n bs) bs conn"
  by (simp add: receives_def sample_nenv_def ERR_OK_def)

theorem clients_are_addressable_witness:
  "cl_online (client_of Work 0 (sample_ready [])) \<and> send_conn (sample_nenv 7 []) (3 + int 0) (sample_ready []) = Some (Some 7)"
proof -
  have "(net_step sample_pe ne_task)\<^sup>*\<^sup>* (tcpsvr_start True True 6363 (sample_net [])) (sample_ready [])"
    by (rule run_steps [OF sample_ready_run]) (auto simp: sample_sched_def sample_nenv_def)
  moreover have "ns_work (tcpsvr_start True True 6363 (sample_net [])) = work_context\<lparr>sc_listen_port := 6363\<rparr>"
      "ns_camera (tcpsvr_start True True 6363 (sample_net [])) = camera_context"
      "cl_online (client_of Work 0 (sample_ready []))" "cl_conn (client_of Work 0 (sample_ready [])) = Some 7" "ne_up (sample_nenv 7 [])"
    by code_simp+
  ultimately show ?thesis
    using clients_are_addressable [OF keeps_net_sample, of "tcpsvr_start True True 6363 (sample_net [])" 6363 "sample_ready []" 0 Work "sample_nenv 7 []"]
    by (simp add: MAX_CLIENT_COUNT_def WORK_CLIENT_BASE_def)
qed

theorem server_never_recovers_witness:
  "sc_state (ns_work (the (run sample_pe [(sample_nenv 1 [], 0), (sample_nenv 1 [], 0)]
     (set_server_state Work SERVER_STATE_RESTART (tcpsvr_start True True 6363 (sample_net [])))))) = SERVER_STATE_RESTART"
proof -
  let ?s = "set_server_state Work SERVER_STATE_RESTART (tcpsvr_start True True 6363 (sample_net []))"
  let ?e = "[(sample_nenv 1 [], 0), (sample_nenv 1 [], 0)]"
  have "run sample_pe ?e ?s \<noteq> None" by code_simp
  then obtain st' where r: "run sample_pe ?e ?s = Some st'" by auto
  have "(net_step sample_pe (\<lambda>_. True))\<^sup>*\<^sup>* ?s st'" by (rule run_steps [OF r]) simp
  moreover have "sc_state (context_of Work ?s) = SERVER_STATE_RESTART" by simp
  ultimately show ?thesis using server_never_recovers [OF keeps_net_sample, of Work ?s "\<lambda>_. True" st'] r by simp
qed

lemma sample_tcp_answer:
  "proto_answer (net_proto sample_pe (sample_nenv 7 (bytes ''?DA'' @ [13, 10]))) (bytes ''?DA'' @ [13, 10]) (ns_tx (sample_ready (replicate 5 0))) 5 0
     (tcp_port (sample_ready (replicate 5 0)) Work 0)
     (with_block (bytes ''?DA'' @ [13, 10]) (after_wait 2 Work 0 0 (bytes ''?DA'' @ [13, 10]) (sample_ready (replicate 5 0))))
   = Some (bytes ''!DA0'' @ [13, 10] @ replicate 10 0, 6, (with_block (bytes ''?DA'' @ [13, 10]) (after_wait 2 Work 0 0 (bytes ''?DA'' @ [13, 10]) (sample_ready (replicate 5 0))))\<lparr>cs_src_group := - 1\<rparr>)"
  by code_simp


theorem tcp_client_answered_witness:
  "\<exists>st1 st2. task_pass sample_pe (sample_nenv 7 (bytes ''?DA'' @ [13, 10])) 2 (sample_ready (replicate 5 0)) = Some st1
    \<and> task_pass sample_pe (sample_nenv 7 (bytes ''?DA'' @ [13, 10])) 2 st1 = Some st2
    \<and> ns_calls st2 = [Tcp_write 7 (bytes ''!DA0'' @ [13, 10])]"
proof -
  let ?b = "bytes ''?DA'' @ [13, 10]" let ?s = "sample_ready (replicate 5 0)" let ?t = "bytes ''!DA0'' @ [13, 10] @ replicate 10 0"
  let ?w = "(with_block ?b (after_wait 2 Work 0 0 ?b ?s))\<lparr>cs_src_group := - 1\<rparr>"
  have l: "length (bytes x) = length x" for x by (simp add: bytes_def)
  have r: "ns_rx ?s = replicate 5 0" "ns_calls ?s = []" by code_simp+
  have o: "overwrite (replicate 5 0) 0 ?b = ?b" by (simp add: overwrite_def l)
  have a: "proto_answer (net_proto sample_pe (sample_nenv 7 ?b)) (overwrite (ns_rx ?s) 0 ?b) (ns_tx ?s) (int (length ?b)) 0 (tcp_port ?s Work 0)
      (with_block ?b (after_wait 2 Work 0 0 ?b ?s)) = Some (?t, int 6, ?w)"
    using sample_tcp_answer by (simp add: r o l)
  have c: "ns_calls ?w = []" by (simp add: with_block_def after_wait_def r)
  have "\<exists>st1 st2. task_pass sample_pe (sample_nenv 7 ?b) 2 ?s = Some st1 \<and> task_pass sample_pe (sample_nenv 7 ?b) 2 st1 = Some st2
      \<and> ns_calls st2 = ns_calls ?w @ [Tcp_write 7 (take 6 ?t)] \<and> client_ready 2 Work 0 7 0 st2"
    by (rule tcp_client_answered [OF sample_client_ready sample_receives _ keeps_net_sample a]) (simp_all add: r l)
  then show ?thesis unfolding c by (simp add: l) blast
qed

theorem oversized_block_overflows_witness:
  "\<exists>st1. task_pass sample_pe (sample_nenv 7 (replicate 1460 65)) 2 (sample_ready (replicate 1056 0)) = Some st1
     \<and> task_pass sample_pe (sample_nenv 7 []) 2 st1 = None"
proof -
  have "ns_rx (sample_ready rx) = rx" for rx by code_simp
  then have "length (ns_rx (sample_ready (replicate 1056 0))) = SERVER_BUFFER_LEN" by (simp add: SERVER_BUFFER_LEN_def)
  moreover have "SERVER_BUFFER_LEN < length (replicate 1460 (65 :: u8))" by (simp add: SERVER_BUFFER_LEN_def)
  ultimately show ?thesis by (rule oversized_block_overflows [OF sample_client_ready sample_receives, rotated]) simp
qed

text \<open>The client of the sample loses its connection and gives its slot back.\<close>

definition sample_closing :: net_state where
  "sample_closing = the (run sample_pe (replicate 2 ((sample_nenv 7 [])\<lparr>ne_err := ERR_CLSD\<rparr>, 2)) (sample_ready []))"

theorem early_reuse_closes_new_connection_witness:
  "\<exists>st1 st2. task_pass sample_pe (sample_nenv 9 []) 0 sample_closing = Some st1 \<and> task_pass sample_pe (sample_nenv 0 []) 2 st1 = Some st2
    \<and> ns_calls st2 = [Netconn_close 9, Netconn_delete 9] \<and> cl_online (client_of Work 0 st2) \<and> task_pass sample_pe (sample_nenv 0 []) 3 st2 = None"
proof -
  have t: "ns_tasks sample_closing = [Server_task Work 6363 (Some 5), Server_task Camera 80 None, Client_closing Work 0]"
    "sc_state (context_of Work sample_closing) = SERVER_STATE_ACCEPT" "free_slot (sc_clients (context_of Work sample_closing)) 0 = Some 0"
    "cs_tcp_group sample_closing = 1" "sc_client_base_num (context_of Work sample_closing) = 3" "ns_calls sample_closing = []"
    by code_simp+
  have e: "ne_conn (sample_nenv 9 []) = 9" "ne_task (sample_nenv 9 [])" "ne_err (sample_nenv 9 []) = ERR_OK" by (simp_all add: sample_nenv_def ERR_OK_def)
  show ?thesis
    using early_reuse_closes_new_connection [of 2 sample_closing Work 0 0 6363 "Some 5" "sample_nenv 9 []" sample_pe "sample_nenv 0 []" "sample_nenv 0 []"]
    using t(2,3,5) by (simp add: t(1,4,6) e USER_THREAD_CNT_def numeral_2_eq_2 numeral_3_eq_3)
qed

theorem tcp_server_send_delivers_witness:
  "\<exists>st'. tcp_server_send (\<lambda>n. if n = 0 then - 1 else 0) (sample_nenv 7 []) 3 (replicate 2000 65) 2000 (sample_ready []) = Some (0, st')
     \<and> conn_data (ns_calls st') 7 = replicate 2000 65"
proof -
  have c: "send_conn (sample_nenv 7 []) 3 (sample_ready []) = Some (Some 7)" "ns_calls (sample_ready []) = []" by code_simp+
  show ?thesis
    using tcp_server_send_delivers [OF c(1), of 2000 "replicate 2000 65" "\<lambda>n. if n = 0 then - 1 else 0"]
    by (auto simp: c(2) transient_def err_defs split: if_splits)
qed

theorem ip_parameters_are_read_back_witness:
  "ic_ip_addr (get_ipconfig_info (ip_text [10, 0, 0, 1]) (ip_text [10, 0, 0, 2]) (ip_text [10, 0, 0, 3]) (ip_text [255, 0, 0, 0])) = [10, 0, 0, 2]
   \<and> ic_ip_addr (get_ipconfig_info (ip_text [10, 0, 0, 1]) (bytes ''300.0.0.1'') (ip_text [10, 0, 0, 3]) (ip_text [255, 0, 0, 0])) = [0, 0, 0, 0]"
proof -
  have "fst (parse_ip_string (bytes ''300.0.0.1'')) \<noteq> 0" by code_simp
  then show ?thesis
    using ip_parameters_are_read_back [of "[10, 0, 0, 1]" "[10, 0, 0, 3]" "[255, 0, 0, 0]" "[10, 0, 0, 2]" "bytes ''300.0.0.1''"] by simp
qed

end
