(* ===== verification/Ad7124.thy ===== *)
theory Ad7124
  imports Pyro_Prelude
begin

unbundle bit_operations_syntax

text \<open>
  The driver of the AD7124 converter, \<open>src/bsp/dev/ad7124.c\<close>, and the sampling round of \<open>src/app/sys/measure.c\<close> that uses it.

  The converter is an argument: a function that takes the bytes sent while the chip is selected and gives the bytes that come back
  and the next state of the chip. What the driver relies on is the predicate \<open>adc_chip\<close>: a read frame returns the register,
  most significant byte first, and a write frame sets it and no other configuration register. Delays have no
  effect. The result of a read is no value where the driver returns \<open>-1\<close>.
\<close>

subsection \<open>Registers\<close>

datatype op_type = OP_RW | OP_R | OP_W

text \<open>Default value, number of bytes and access of every register; the address of a register is its place in the table.\<close>

definition AD7124_DEF_REG_CFG0 :: "(u32 \<times> nat \<times> op_type) list" where
  "AD7124_DEF_REG_CFG0 = [
    (0x00, 1, OP_R), (0x05C0, 2, OP_RW), (0x000000, 4, OP_R), (0x000000, 3, OP_RW), (0x0000, 2, OP_RW), (0x00, 1, OP_R),
    (0x000000, 3, OP_R), (0x000040, 3, OP_RW), (0x00, 1, OP_R), (0x8011, 2, OP_RW), (0x0001, 2, OP_RW), (0x8051, 2, OP_RW),
    (0x0001, 2, OP_RW), (0x9091, 2, OP_RW), (0x0001, 2, OP_RW), (0x90D1, 2, OP_RW), (0x0001, 2, OP_RW), (0x0001, 2, OP_RW),
    (0x0001, 2, OP_RW), (0x0001, 2, OP_RW), (0x0001, 2, OP_RW), (0x0001, 2, OP_RW), (0x0001, 2, OP_RW), (0x0001, 2, OP_RW),
    (0x0001, 2, OP_RW), (0x0060, 2, OP_RW), (0x0060, 2, OP_RW), (0x8060, 2, OP_RW), (0x0060, 2, OP_RW), (0x0060, 2, OP_RW),
    (0x0060, 2, OP_RW), (0x0060, 2, OP_RW), (0x0060, 2, OP_RW), (0x06001E, 3, OP_RW), (0x060001, 3, OP_RW), (0x06001E, 3, OP_RW),
    (0x060180, 3, OP_RW), (0x060180, 3, OP_RW), (0x060180, 3, OP_RW), (0x060180, 3, OP_RW), (0x060180, 3, OP_RW),
    (0x8003F8, 3, OP_RW), (0x800000, 3, OP_RW), (0x7FFE80, 3, OP_RW), (0x800000, 3, OP_RW), (0x800000, 3, OP_RW),
    (0x800000, 3, OP_RW), (0x800000, 3, OP_RW), (0x800000, 3, OP_RW), (0x500000, 3, OP_RW), (0x500000, 3, OP_RW),
    (0x500000, 3, OP_RW), (0x500000, 3, OP_RW), (0x500000, 3, OP_RW), (0x500000, 3, OP_RW), (0x500000, 3, OP_RW),
    (0x500000, 3, OP_RW)]"

definition AD7124_REG_CNT :: u8 where "AD7124_REG_CNT = 0x39"
definition AD7124_REG_STAT :: u8 where "AD7124_REG_STAT = 0x00"
definition AD7124_REG_ADC_CTRL :: u8 where "AD7124_REG_ADC_CTRL = 0x01"
definition AD7124_REG_DATA :: u8 where "AD7124_REG_DATA = 0x02"
definition AD7124_REG_ID :: u8 where "AD7124_REG_ID = 0x05"
definition AD7124_REG_ERR :: u8 where "AD7124_REG_ERR = 0x06"
definition AD7124_REG_CH0 :: u8 where "AD7124_REG_CH0 = 0x09"
definition AD7124_REG_CFG0 :: u8 where "AD7124_REG_CFG0 = 0x19"
definition AD7124_REG_OFFS0 :: u8 where "AD7124_REG_OFFS0 = 0x29"
definition AD7124_REG_OFFS2 :: u8 where "AD7124_REG_OFFS2 = 0x2B"
definition AD7124_REG_OFFS7 :: u8 where "AD7124_REG_OFFS7 = 0x30"

lemmas ad_regs = AD7124_REG_CNT_def AD7124_REG_STAT_def AD7124_REG_ADC_CTRL_def AD7124_REG_DATA_def AD7124_REG_ID_def AD7124_REG_ERR_def
  AD7124_REG_CH0_def AD7124_REG_CFG0_def AD7124_REG_OFFS0_def AD7124_REG_OFFS2_def AD7124_REG_OFFS7_def

definition reg_size :: "u8 \<Rightarrow> nat" where
  "reg_size a = fst (snd (AD7124_DEF_REG_CFG0 ! unat a))"

definition reg_rw :: "u8 \<Rightarrow> op_type" where
  "reg_rw a = snd (snd (AD7124_DEF_REG_CFG0 ! unat a))"

definition RD_REGISTER :: "u8 \<Rightarrow> u8" where "RD_REGISTER x = (x AND 0x3F) OR 0x40"
definition WR_REGISTER :: "u8 \<Rightarrow> u8" where "WR_REGISTER x = (x AND 0x3F) AND NOT 0x40"

subsection \<open>Frames\<close>

type_synonym 's adc = "buf \<Rightarrow> 's \<Rightarrow> buf \<times> 's"

text \<open>The bytes of a value, most significant first, and back.\<close>

fun be_bytes :: "nat \<Rightarrow> u32 \<Rightarrow> buf" where
  "be_bytes 0 v = []"
| "be_bytes (Suc n) v = be_bytes n (drop_bit 8 v) @ [ucast v]"

definition from_be :: "buf \<Rightarrow> u32" where
  "from_be bs = foldl (\<lambda>r b. push_bit 8 r OR ucast b) 0 bs"

definition read_frame :: "'s adc \<Rightarrow> u8 \<Rightarrow> 's \<Rightarrow> u32 \<times> 's" where
  "read_frame dev a s = (let (m, s) = dev (RD_REGISTER a # replicate (reg_size a) 0) s in (from_be (tl m), s))"

fun ready_loop :: "'s adc \<Rightarrow> nat \<Rightarrow> 's \<Rightarrow> int \<times> 's" where
  "ready_loop dev 0 s = (- 1, s)"
| "ready_loop dev (Suc n) s = (let (aux, s) = read_frame dev AD7124_REG_ERR s in if aux AND 0x40 = 0 then (0, s) else ready_loop dev n s)"

definition wait_spi_ready :: "'s adc \<Rightarrow> 's \<Rightarrow> int \<times> 's" where
  "wait_spi_ready dev s = ready_loop dev (3000 div 10) s"

definition read_reg :: "'s adc \<Rightarrow> u8 \<Rightarrow> 's \<Rightarrow> u32 option \<times> 's" where
  "read_reg dev a s =
     (if a \<ge> AD7124_REG_CNT then (None, s)
      else let (r, s) = (if a \<noteq> AD7124_REG_ERR then wait_spi_ready dev s else (0, s)) in
        if r \<noteq> 0 then (None, s)
        else let (v, s) = read_frame dev a s in (Some v, s))"

definition write_reg :: "'s adc \<Rightarrow> u8 \<Rightarrow> u32 \<Rightarrow> 's \<Rightarrow> int \<times> 's" where
  "write_reg dev a v s =
     (if a \<ge> AD7124_REG_CNT then (- 1, s)
      else if reg_rw a = OP_R then (- 1, s)
      else let (r, s) = wait_spi_ready dev s in
        if r \<noteq> 0 then (- 1, s)
        else (0, snd (dev (WR_REGISTER a # be_bytes (reg_size a) v) s)))"

text \<open>Reading a register, changing its value and writing it back; the change sees the old value.\<close>

definition modify_reg :: "'s adc \<Rightarrow> u8 \<Rightarrow> (u32 \<Rightarrow> u32) \<Rightarrow> 's \<Rightarrow> int \<times> 's" where
  "modify_reg dev a f s =
     (case read_reg dev a s of
        (None, s) \<Rightarrow> (- 1, s)
      | (Some aux, s) \<Rightarrow> let (r, s) = write_reg dev a (f aux) s in (if r \<noteq> 0 then - 1 else 0, s))"

subsection \<open>Settings\<close>

definition AD7124_ADC_CTRL_MODE :: "u32 \<Rightarrow> u32" where "AD7124_ADC_CTRL_MODE x = push_bit 2 (x AND 0xF)"

definition ad7124_set_mode :: "'s adc \<Rightarrow> u32 \<Rightarrow> 's \<Rightarrow> int \<times> 's" where
  "ad7124_set_mode dev op_mode s =
     modify_reg dev AD7124_REG_ADC_CTRL (\<lambda>aux. (aux AND NOT (AD7124_ADC_CTRL_MODE 0xF)) OR AD7124_ADC_CTRL_MODE op_mode) s"

definition ad7124_set_control :: "'s adc \<Rightarrow> u8 \<Rightarrow> u8 \<Rightarrow> u8 \<Rightarrow> u8 \<Rightarrow> 's \<Rightarrow> int \<times> 's" where
  "ad7124_set_control dev op_mode pwr_mode ref_en clk_sel s =
     modify_reg dev AD7124_REG_ADC_CTRL (\<lambda>_. AD7124_ADC_CTRL_MODE (ucast op_mode) OR push_bit 6 (ucast pwr_mode AND 3) OR (ucast clk_sel AND 3)
       OR (if ref_en \<noteq> 0 then 0x100 else 0) OR 0x1000) s"

definition ad7124_set_config :: "'s adc \<Rightarrow> u8 \<Rightarrow> u8 \<Rightarrow> u8 \<Rightarrow> u8 \<Rightarrow> u8 \<Rightarrow> 's \<Rightarrow> int \<times> 's" where
  "ad7124_set_config dev cfg ref pga polar burnout s =
     modify_reg dev (if cfg < 8 then cfg + AD7124_REG_CFG0 else cfg)
       (\<lambda>_. push_bit 3 (ucast ref AND 3) OR (ucast pga AND 7) OR (if polar \<noteq> 0 then 0x800 else 0) OR push_bit 9 (ucast burnout AND 3)
         OR 0x100 OR 0x80 OR 0x40 OR 0x20) s"

definition ad7124_set_pga :: "'s adc \<Rightarrow> u8 \<Rightarrow> u8 \<Rightarrow> 's \<Rightarrow> int \<times> 's" where
  "ad7124_set_pga dev cfg pga s = modify_reg dev (if cfg < 8 then cfg + AD7124_REG_CFG0 else cfg) (\<lambda>_. ucast pga AND 7) s"

definition ad7124_set_offset :: "'s adc \<Rightarrow> u8 \<Rightarrow> u32 \<Rightarrow> 's \<Rightarrow> int \<times> 's" where
  "ad7124_set_offset dev cfg ofs s =
     (let (r, s) = write_reg dev (if cfg < 8 then cfg + AD7124_REG_OFFS0 else cfg) ofs s in (if r \<noteq> 0 then - 1 else 0, s))"

definition ad7124_enable_channel :: "'s adc \<Rightarrow> u8 \<Rightarrow> u8 \<Rightarrow> 's \<Rightarrow> int \<times> 's" where
  "ad7124_enable_channel dev ch en s =
     (if ch > 15 then (- 1, s)
      else modify_reg dev (AD7124_REG_CH0 + ch) (\<lambda>aux. if en \<noteq> 0 then aux OR 0x8000 else aux AND NOT 0x8000) s)"

definition ad7124_set_channel :: "'s adc \<Rightarrow> u8 \<Rightarrow> u8 \<Rightarrow> u8 \<Rightarrow> u8 \<Rightarrow> u8 \<Rightarrow> 's \<Rightarrow> int \<times> 's" where
  "ad7124_set_channel dev ch cfg ainp ainm en s =
     (if ch > 15 \<or> cfg > 7 then (- 1, s)
      else modify_reg dev (ch + AD7124_REG_CH0) (\<lambda>_. push_bit 12 (ucast cfg AND 7) OR push_bit 5 (ucast ainp AND 0x1F) OR (ucast ainm AND 0x1F)
        OR (if en \<noteq> 0 then 0x8000 else 0)) s)"

definition ad7124_conv_ready :: "'s adc \<Rightarrow> 's \<Rightarrow> int \<times> 's" where
  "ad7124_conv_ready dev s =
     (case read_reg dev AD7124_REG_STAT s of
        (None, s) \<Rightarrow> (- 1, s)
      | (Some aux, s) \<Rightarrow> (if aux AND 0x80 \<noteq> 0 then - 1 else uint (aux AND 0x0F), s))"

definition ad7124_read_data :: "'s adc \<Rightarrow> 's \<Rightarrow> u32 option \<times> 's" where
  "ad7124_read_data dev s = read_reg dev AD7124_REG_DATA s"

subsection \<open>Initialisation\<close>

record ad7124_para =
  ap_offs0 :: u32
  ap_offs2 :: u32

definition ad7124_reset :: "'s adc \<Rightarrow> 's \<Rightarrow> 's" where
  "ad7124_reset dev s = snd (dev (replicate 8 0xFF) s)"

fun power_loop :: "'s adc \<Rightarrow> nat \<Rightarrow> 's \<Rightarrow> int \<times> 's" where
  "power_loop dev 0 s = (- 1, s)"
| "power_loop dev (Suc n) s =
     (case read_reg dev AD7124_REG_STAT s of
        (Some aux, s) \<Rightarrow> if aux AND 0x10 = 0 then (0, s) else power_loop dev n s
      | (None, s) \<Rightarrow> power_loop dev n s)"

definition ad7124_wait_power_on :: "'s adc \<Rightarrow> 's \<Rightarrow> int \<times> 's" where
  "ad7124_wait_power_on dev s = power_loop dev (3000 div 10) s"

definition ad7124_read_id :: "'s adc \<Rightarrow> 's \<Rightarrow> int \<times> 's" where
  "ad7124_read_id dev s =
     (case read_reg dev AD7124_REG_ID s of
        (None, s) \<Rightarrow> (- 1, s)
      | (Some i, s) \<Rightarrow> (if i = 0x07 \<or> i = 0x04 then 0 else - 1, s))"

text \<open>The live table: the defaults with the offsets of the parameters.\<close>

definition live_value :: "ad7124_para \<Rightarrow> u8 \<Rightarrow> u32" where
  "live_value para a = (if a = AD7124_REG_OFFS0 then ap_offs0 para else if a = AD7124_REG_OFFS2 then ap_offs2 para
     else fst (AD7124_DEF_REG_CFG0 ! unat a))"

fun config_loop :: "'s adc \<Rightarrow> ad7124_para \<Rightarrow> u8 list \<Rightarrow> 's \<Rightarrow> int \<times> 's" where
  "config_loop dev para [] s = (0, s)"
| "config_loop dev para (a # as) s =
     (if reg_rw a = OP_RW then let (r, s) = write_reg dev a (live_value para a) s in if r \<noteq> 0 then (- 4, s) else config_loop dev para as s
      else config_loop dev para as s)"

definition ad7124_init :: "'s adc \<Rightarrow> ad7124_para \<Rightarrow> 's \<Rightarrow> int \<times> 's" where
  "ad7124_init dev para s =
     (let s = ad7124_reset dev s; (r, s) = ad7124_wait_power_on dev s in
      if r \<noteq> 0 then (- 1, s)
      else let (r, s) = ad7124_read_id dev s in
      if r \<noteq> 0 then (- 2, s)
      else let (r, s) = ad7124_set_mode dev 4 s in
      if r \<noteq> 0 then (- 3, s)
      else let (r, s) = config_loop dev para (map of_nat [0..<unat AD7124_REG_OFFS7]) s in
      if r \<noteq> 0 then (- 4, s)
      else let (r, s) = ad7124_set_mode dev 0 s in (if r \<noteq> 0 then - 5 else 0, s))"


subsection \<open>The sampling round\<close>

text \<open>The sensors of the measurement: two spectral channels and two temperatures. The conversion to a voltage is an argument, as is the level
  of the data line, which is low when a conversion is done, and its change with time.\<close>

record 'f sens =
  volt_nb :: 'f
  volt_wb :: 'f
  volt_ntc_spec :: 'f
  volt_ntc_tia :: 'f

definition store_sample :: "(u32 \<Rightarrow> 'f) \<Rightarrow> u32 \<Rightarrow> 'f sens \<Rightarrow> 'f sens" where
  "store_sample volt w x =
     (let ch = w AND 0xF; v = volt (drop_bit 8 w) in
      if ch = 0 then x\<lparr>volt_nb := v\<rparr>
      else if ch = 2 then x\<lparr>volt_wb := v\<rparr>
      else if ch = 4 then x\<lparr>volt_ntc_spec := v\<rparr>
      else if ch = 6 then x\<lparr>volt_ntc_tia := v\<rparr>
      else x)"

partial_function (option) wait_done :: "('s \<Rightarrow> bool) \<Rightarrow> ('s \<Rightarrow> 's) \<Rightarrow> 's \<Rightarrow> 's option" where
  "wait_done high tick s = (if high s then wait_done high tick (tick s) else Some s)"

text \<open>A read that fails leaves the old value in the variable.\<close>

fun sample_loop :: "'s adc \<Rightarrow> ('s \<Rightarrow> bool) \<Rightarrow> ('s \<Rightarrow> 's) \<Rightarrow> (u32 \<Rightarrow> 'f) \<Rightarrow> nat \<Rightarrow> u32 \<Rightarrow> 's \<Rightarrow> 'f sens \<Rightarrow> (u32 \<times> 's \<times> 'f sens) option" where
  "sample_loop dev high tick volt 0 w s x = Some (w, s, x)"
| "sample_loop dev high tick volt (Suc n) w s x =
     (case wait_done high tick s of
        None \<Rightarrow> None
      | Some s \<Rightarrow> let (v, s) = ad7124_read_data dev s; w = (case v of None \<Rightarrow> w | Some v \<Rightarrow> v)
                in sample_loop dev high tick volt n w s (store_sample volt w x))"

definition SENS_CH_CNT :: nat where "SENS_CH_CNT = 4"

definition sample_round :: "'s adc \<Rightarrow> ('s \<Rightarrow> bool) \<Rightarrow> ('s \<Rightarrow> 's) \<Rightarrow> (u32 \<Rightarrow> 'f) \<Rightarrow> u32 \<Rightarrow> 's \<Rightarrow> 'f sens \<Rightarrow> (u32 \<times> 's \<times> 'f sens) option" where
  "sample_round dev high tick volt w s x = sample_loop dev high tick volt SENS_CH_CNT w s x"

subsection \<open>The converter\<close>

definition writable :: "u8 \<Rightarrow> bool" where
  "writable a \<longleftrightarrow> a < AD7124_REG_CNT \<and> reg_rw a \<noteq> OP_R"

definition reg_mask :: "u8 \<Rightarrow> u32 \<Rightarrow> u32" where
  "reg_mask a v = take_bit (8 * reg_size a) v"

text \<open>The registers of a state, and what the frames do to them. Only the configuration registers keep their value by themselves.\<close>

definition adc_chip :: "'s adc \<Rightarrow> ('s \<Rightarrow> u8 \<Rightarrow> u32) \<Rightarrow> bool" where
  "adc_chip dev regs \<longleftrightarrow>
     (\<forall>s a. a < AD7124_REG_CNT \<longrightarrow> tl (fst (dev (RD_REGISTER a # replicate (reg_size a) 0) s)) = be_bytes (reg_size a) (regs s a)
        \<and> (\<forall>b. writable b \<longrightarrow> regs (snd (dev (RD_REGISTER a # replicate (reg_size a) 0) s)) b = regs s b))
     \<and> (\<forall>s a v b. writable a \<and> writable b \<longrightarrow>
          regs (snd (dev (WR_REGISTER a # be_bytes (reg_size a) v) s)) b = (if b = a then reg_mask a v else regs s b))"

text \<open>A converter that accepts commands, has left its power-on reset and is of a known type.\<close>

definition adc_alive :: "('s \<Rightarrow> u8 \<Rightarrow> u32) \<Rightarrow> bool" where
  "adc_alive regs \<longleftrightarrow> (\<forall>s. regs s AD7124_REG_ERR AND 0x40 = 0 \<and> regs s AD7124_REG_STAT AND 0x10 = 0 \<and> regs s AD7124_REG_ID \<in> {0x07, 0x04})"

definition keeps_config :: "('s \<Rightarrow> u8 \<Rightarrow> u32) \<Rightarrow> 's \<Rightarrow> 's \<Rightarrow> bool" where
  "keeps_config regs s s' \<longleftrightarrow> (\<forall>b. writable b \<longrightarrow> regs s' b = regs s b)"

lemma keeps_config_refl [simp]: "keeps_config regs s s"
  by (simp add: keeps_config_def)

lemma keeps_config_trans: "keeps_config regs s t \<Longrightarrow> keeps_config regs t u \<Longrightarrow> keeps_config regs s u"
  by (simp add: keeps_config_def)

subsection \<open>Single registers\<close>

lemma from_be_append: "from_be (bs @ [b]) = push_bit 8 (from_be bs) OR ucast b"
  by (simp add: from_be_def)

lemma from_be_bytes: "from_be (be_bytes n v) = take_bit (8 * n) v"
proof (induction n arbitrary: v)
  case 0
  then show ?case by (simp add: from_be_def)
next
  case (Suc n)
  have "push_bit 8 (take_bit (8 * n) (drop_bit 8 v)) OR ucast (ucast v :: u8) = take_bit (8 * Suc n) v"
    by (rule bit_word_eqI) (auto simp: bit_simps)
  then show ?case by (simp add: from_be_append Suc)
qed

lemma read_frame_reg:
  assumes "adc_chip dev regs" and "a < AD7124_REG_CNT"
  shows "fst (read_frame dev a s) = reg_mask a (regs s a)" and "keeps_config regs s (snd (read_frame dev a s))"
proof -
  let ?f = "dev (RD_REGISTER a # replicate (reg_size a) 0) s"
  have "tl (fst ?f) = be_bytes (reg_size a) (regs s a)" "\<forall>b. writable b \<longrightarrow> regs (snd ?f) b = regs s b"
    using assms by (simp_all add: adc_chip_def)
  then show "fst (read_frame dev a s) = reg_mask a (regs s a)" "keeps_config regs s (snd (read_frame dev a s))"
    by (simp_all add: read_frame_def case_prod_unfold Let_def from_be_bytes reg_mask_def keeps_config_def)
qed

lemma reg_sizes [simp]: "reg_size AD7124_REG_ERR = 3" "reg_size AD7124_REG_STAT = 1" "reg_size AD7124_REG_ID = 1" "reg_size AD7124_REG_DATA = 4"
  "reg_size AD7124_REG_ADC_CTRL = 2"
  by (simp_all add: reg_size_def ad_regs AD7124_DEF_REG_CFG0_def)

lemma mask_and_zero:
  fixes x m :: u32
  assumes "x AND m = 0"
  shows "take_bit n x AND m = 0"
proof -
  have "take_bit n x AND m = (x AND m) AND mask n" by (simp add: take_bit_eq_mask ac_simps)
  then show ?thesis using assms by simp
qed

lemma ready_alive:
  assumes "adc_chip dev regs" and "adc_alive regs"
  shows "wait_spi_ready dev s = (0, snd (read_frame dev AD7124_REG_ERR s))"
proof -
  have z: "fst (read_frame dev AD7124_REG_ERR s) AND 0x40 = 0"
    using read_frame_reg(1) [OF assms(1), of AD7124_REG_ERR s] assms(2)
    by (simp add: ad_regs reg_mask_def adc_alive_def mask_and_zero)
  have "ready_loop dev (Suc n) s = (0, snd (read_frame dev AD7124_REG_ERR s))" for n using z by (simp add: case_prod_unfold Let_def)
  from this [of 299] show ?thesis by (simp add: wait_spi_ready_def del: ready_loop.simps)
qed




subsection \<open>The whole configuration\<close>













subsection \<open>A converter that does not answer\<close>

text \<open>On a converter that ignores its commands, that is, one whose error register shows the error bit at every read, every read and
  every write of a register fails after 300 polls of the error register, nothing is written, and the
  initialisation fails in its first step.\<close>

theorem busy_converter_is_left_alone:
  assumes "adc_chip dev regs" and "\<forall>s. regs s AD7124_REG_ERR AND 0x40 \<noteq> 0" and "a \<noteq> AD7124_REG_ERR"
  shows "fst (read_reg dev a s) = None \<and> fst (write_reg dev a v s) = - 1 \<and> keeps_config regs s (snd (write_reg dev a v s))
    \<and> fst (ad7124_init dev para s) = - 1 \<and> keeps_config regs (ad7124_reset dev s) (snd (ad7124_init dev para s))"
proof -
  have e: "AD7124_REG_ERR < AD7124_REG_CNT" by (simp add: ad_regs)
  have "(0x40 :: u32) = 2 ^ 6" by simp
  then have "bit (0x40 :: u32) n \<Longrightarrow> n = 6" for n by (metis bit_exp_iff)
  then have m: "take_bit 24 x AND 0x40 = (x AND 0x40 :: u32)" for x by (intro bit_word_eqI) (fastforce simp: bit_and_iff bit_take_bit_iff)
  have b: "fst (read_frame dev AD7124_REG_ERR t) AND 0x40 \<noteq> 0" for t
    using read_frame_reg(1) [OF assms(1) e, of t] assms(2) by (simp add: reg_mask_def m)
  have l: "fst (ready_loop dev n t) = - 1 \<and> keeps_config regs t (snd (ready_loop dev n t))" for n t
  proof (induction n arbitrary: t)
    case (Suc n)
    show ?case using b [of t] Suc [of "snd (read_frame dev AD7124_REG_ERR t)"] read_frame_reg(2) [OF assms(1) e, of t]
      by (auto simp: case_prod_unfold Let_def intro: keeps_config_trans)
  qed simp
  have w: "fst (wait_spi_ready dev t) = - 1" "keeps_config regs t (snd (wait_spi_ready dev t))" for t using l by (simp_all add: wait_spi_ready_def)
  have r: "fst (read_reg dev x t) = None \<and> keeps_config regs t (snd (read_reg dev x t))" if "x \<noteq> AD7124_REG_ERR" for x t
    using w that by (simp add: read_reg_def case_prod_unfold Let_def)
  have s: "AD7124_REG_STAT \<noteq> AD7124_REG_ERR" by (simp add: ad_regs)
  have p: "fst (power_loop dev n t) = - 1 \<and> keeps_config regs t (snd (power_loop dev n t))" for n t
  proof (induction n arbitrary: t)
    case (Suc n)
    obtain u where u: "read_reg dev AD7124_REG_STAT t = (None, u)" "keeps_config regs t u"
      using r [OF s, of t] by (cases "read_reg dev AD7124_REG_STAT t") auto
    then show ?case using Suc [of u] by (auto intro: keeps_config_trans)
  qed simp
  have "fst (write_reg dev a v s) = - 1 \<and> keeps_config regs s (snd (write_reg dev a v s))"
    using w by (simp add: write_reg_def case_prod_unfold Let_def)
  moreover have "fst (ad7124_init dev para s) = - 1 \<and> keeps_config regs (ad7124_reset dev s) (snd (ad7124_init dev para s))"
    using p [of "3000 div 10" "ad7124_reset dev s"] by (simp add: ad7124_init_def ad7124_wait_power_on_def case_prod_unfold Let_def)
  ultimately show ?thesis using r [OF assms(3)] by blast
qed

subsection \<open>Sampling\<close>

text \<open>What the converter delivers: conversions with their status, most significant bits first, in the order of a queue. Reading the data register
  takes one, polling the error register and waiting take none, and the data line goes low at some time.\<close>

definition adc_delivers :: "'s adc \<Rightarrow> ('s \<Rightarrow> u8 \<Rightarrow> u32) \<Rightarrow> ('s \<Rightarrow> bool) \<Rightarrow> ('s \<Rightarrow> 's) \<Rightarrow> ('s \<Rightarrow> u32 list) \<Rightarrow> bool" where
  "adc_delivers dev regs high tick queue \<longleftrightarrow>
     (\<forall>s. (\<exists>n. \<not> high ((tick ^^ n) s)) \<and> queue (tick s) = queue s
        \<and> queue (snd (dev (RD_REGISTER AD7124_REG_ERR # replicate (reg_size AD7124_REG_ERR) 0) s)) = queue s
        \<and> (queue s \<noteq> [] \<longrightarrow> regs s AD7124_REG_DATA = hd (queue s))
        \<and> queue (snd (dev (RD_REGISTER AD7124_REG_DATA # replicate (reg_size AD7124_REG_DATA) 0) s)) = tl (queue s))"

lemma wait_done_returns:
  "\<not> high ((tick ^^ n) s) \<Longrightarrow> \<exists>k \<le> n. wait_done high tick s = Some ((tick ^^ k) s)"
proof (induction n arbitrary: s)
  case 0
  then show ?case by (subst wait_done.simps) simp
next
  case (Suc n)
  show ?case
  proof (cases "high s")
    case True
    have "\<not> high ((tick ^^ n) (tick s))" using Suc.prems by (simp add: funpow_swap1)
    then obtain k where "k \<le> n" "wait_done high tick (tick s) = Some ((tick ^^ k) (tick s))" using Suc.IH by blast
    then show ?thesis using True by (intro exI [of _ "Suc k"], subst wait_done.simps) (simp add: funpow_swap1)
  next
    case False
    then show ?thesis by (intro exI [of _ 0], subst wait_done.simps) simp
  qed
qed

lemma read_data_delivers:
  assumes "adc_chip dev regs" and "adc_alive regs" and "adc_delivers dev regs high tick queue" and "queue s = w # ws"
  shows "\<exists>s'. ad7124_read_data dev s = (Some w, s') \<and> queue s' = ws"
proof -
  let ?t = "snd (read_frame dev AD7124_REG_ERR s)" let ?u = "snd (read_frame dev AD7124_REG_DATA ?t)"
  have q: "queue ?t = w # ws"
    using assms(3,4) by (simp add: adc_delivers_def read_frame_def case_prod_unfold Let_def)
  then have d: "regs ?t AD7124_REG_DATA = w" "queue ?u = ws"
    using assms(3) by (simp_all add: adc_delivers_def read_frame_def case_prod_unfold Let_def)
  have "AD7124_REG_DATA < AD7124_REG_CNT" by (simp add: ad_regs)
  then have "fst (read_frame dev AD7124_REG_DATA ?t) = w"
    using read_frame_reg(1) [OF assms(1), of AD7124_REG_DATA ?t] d(1) by (simp add: reg_mask_def take_bit_word_eq_self)
  moreover have "\<not> AD7124_REG_CNT \<le> AD7124_REG_DATA" "AD7124_REG_DATA \<noteq> AD7124_REG_ERR" by (simp_all add: ad_regs)
  ultimately have "ad7124_read_data dev s = (Some w, ?u)"
    using ready_alive [OF assms(1,2), of s] by (simp add: ad7124_read_data_def read_reg_def case_prod_unfold Let_def)
  then show ?thesis using d(2) by blast
qed

lemma sample_loop_delivers:
  assumes "adc_chip dev regs" and "adc_alive regs" and "adc_delivers dev regs high tick queue"
  shows "queue s = ws @ vs \<Longrightarrow> length ws = n \<Longrightarrow>
    \<exists>w' s'. sample_loop dev high tick volt n w s x = Some (w', s', fold (store_sample volt) ws x) \<and> queue s' = vs"
proof (induction n arbitrary: ws w s x)
  case (Suc n)
  obtain v us where ws: "ws = v # us" "length us = n" using Suc.prems(2) by (cases ws) auto
  obtain m where m: "\<not> high ((tick ^^ m) s)" using assms(3) by (auto simp: adc_delivers_def)
  obtain k where k: "wait_done high tick s = Some ((tick ^^ k) s)" using wait_done_returns [where high = high and tick = tick and n = m and s = s, OF m] by blast
  have "queue ((tick ^^ k) s) = queue s" for k using assms(3) by (induction k) (simp_all add: adc_delivers_def)
  then obtain t where t: "ad7124_read_data dev ((tick ^^ k) s) = (Some v, t)" "queue t = us @ vs"
    using read_data_delivers [OF assms, of "(tick ^^ k) s" v "us @ vs"] Suc.prems(1) ws(1) by auto
  then show ?case using Suc.IH [of t us v "store_sample volt v x"] ws k by simp
qed simp

lemma fold_store_other:
  "\<forall>w \<in> set ws. w AND 0xF \<noteq> 0 \<Longrightarrow> volt_nb (fold (store_sample volt) ws x) = volt_nb x"
  "\<forall>w \<in> set ws. w AND 0xF \<noteq> 2 \<Longrightarrow> volt_wb (fold (store_sample volt) ws x) = volt_wb x"
  "\<forall>w \<in> set ws. w AND 0xF \<noteq> 4 \<Longrightarrow> volt_ntc_spec (fold (store_sample volt) ws x) = volt_ntc_spec x"
  "\<forall>w \<in> set ws. w AND 0xF \<noteq> 6 \<Longrightarrow> volt_ntc_tia (fold (store_sample volt) ws x) = volt_ntc_tia x"
  by (induction ws arbitrary: x) (simp_all add: store_sample_def Let_def)

lemma fold_store_own:
  assumes "w \<in> set ws" and "distinct (map (\<lambda>w. w AND 0xF) ws)"
  shows "w AND 0xF = 0 \<Longrightarrow> volt_nb (fold (store_sample volt) ws x) = volt (drop_bit 8 w)"
    and "w AND 0xF = 2 \<Longrightarrow> volt_wb (fold (store_sample volt) ws x) = volt (drop_bit 8 w)"
    and "w AND 0xF = 4 \<Longrightarrow> volt_ntc_spec (fold (store_sample volt) ws x) = volt (drop_bit 8 w)"
    and "w AND 0xF = 6 \<Longrightarrow> volt_ntc_tia (fold (store_sample volt) ws x) = volt (drop_bit 8 w)"
proof -
  obtain us vs where s: "ws = us @ w # vs" using assms(1) by (meson split_list)
  have "w AND 0xF \<notin> (\<lambda>w. w AND 0xF) ` set vs" using assms(2) unfolding s by simp
  then have n: "\<forall>v \<in> set vs. v AND 0xF \<noteq> w AND 0xF" by (metis imageI)
  show "w AND 0xF = 0 \<Longrightarrow> volt_nb (fold (store_sample volt) ws x) = volt (drop_bit 8 w)"
    "w AND 0xF = 2 \<Longrightarrow> volt_wb (fold (store_sample volt) ws x) = volt (drop_bit 8 w)"
    "w AND 0xF = 4 \<Longrightarrow> volt_ntc_spec (fold (store_sample volt) ws x) = volt (drop_bit 8 w)"
    "w AND 0xF = 6 \<Longrightarrow> volt_ntc_tia (fold (store_sample volt) ws x) = volt (drop_bit 8 w)"
    using n by (simp_all add: s fold_store_other store_sample_def)
qed

text \<open>C35: A sampling round on a converter that delivers its four channels, in any order, ends, takes one conversion of each, and leaves with every
  sensor the voltage of the conversion of its own channel: the narrow and the wide band and the two
  temperatures are never mixed up.\<close>

theorem sample_round_assigns_channels:
  assumes "adc_chip dev regs" and "adc_alive regs" and "adc_delivers dev regs high tick queue"
    and "queue s = ws @ vs" and "length ws = SENS_CH_CNT" and "(\<lambda>w. w AND 0xF) ` set ws = {0, 2, 4, 6}"
  shows "\<exists>w' s' x'. sample_round dev high tick volt w s x = Some (w', s', x') \<and> queue s' = vs
    \<and> (\<forall>v \<in> set ws. (v AND 0xF = 0 \<longrightarrow> volt_nb x' = volt (drop_bit 8 v)) \<and> (v AND 0xF = 2 \<longrightarrow> volt_wb x' = volt (drop_bit 8 v))
        \<and> (v AND 0xF = 4 \<longrightarrow> volt_ntc_spec x' = volt (drop_bit 8 v)) \<and> (v AND 0xF = 6 \<longrightarrow> volt_ntc_tia x' = volt (drop_bit 8 v)))"
proof -
  obtain w' s' where r: "sample_round dev high tick volt w s x = Some (w', s', fold (store_sample volt) ws x)" "queue s' = vs"
    using sample_loop_delivers [OF assms(1-5)] unfolding sample_round_def by blast
  have "card (set (map (\<lambda>w. w AND 0xF) ws)) = length (map (\<lambda>w. w AND 0xF) ws)"
    using assms(5,6) by (simp add: SENS_CH_CNT_def)
  then have d: "distinct (map (\<lambda>w. w AND 0xF) ws)" by (rule card_distinct)
  show ?thesis
    using r by (intro exI [of _ w'] exI [of _ s'] exI [of _ "fold (store_sample volt) ws x"]) (simp add: fold_store_own [OF _ d])
qed


subsection \<open>A converter for the witnesses\<close>

text \<open>The state is the registers and the conversions still to be read; the data register shows the next one.\<close>

record sample_chip =
  sc_regs :: "u8 \<Rightarrow> u32"
  sc_queue :: "u32 list"

definition chip_reg :: "u32 \<Rightarrow> sample_chip \<Rightarrow> u8 \<Rightarrow> u32" where
  "chip_reg e c a = (if a = AD7124_REG_DATA then (case sc_queue c of [] \<Rightarrow> 0 | w # _ \<Rightarrow> w)
     else if a = AD7124_REG_ERR then e else if a = AD7124_REG_STAT then 0 else if a = AD7124_REG_ID then 7 else sc_regs c a)"

definition chip_frame :: "u32 \<Rightarrow> sample_chip adc" where
  "chip_frame e bs c =
     (case bs of [] \<Rightarrow> ([], c)
      | b # rest \<Rightarrow>
        if b AND 0xC0 = 0x40 \<and> b AND 0x3F < AD7124_REG_CNT
        then (0 # be_bytes (reg_size (b AND 0x3F)) (chip_reg e c (b AND 0x3F)),
              if b AND 0x3F = AD7124_REG_DATA then c\<lparr>sc_queue := tl (sc_queue c)\<rparr> else c)
        else if b AND 0xC0 = 0 \<and> writable b
        then (map (\<lambda>_. 0) bs, c\<lparr>sc_regs := (sc_regs c)(b := from_be rest)\<rparr>)
        else (map (\<lambda>_. 0) bs, c))"

lemma reg_codes:
  assumes "a < AD7124_REG_CNT"
  shows "RD_REGISTER a AND 0x3F = a" "RD_REGISTER a AND 0xC0 = 0x40" "WR_REGISTER a = a" "a AND 0xC0 = 0"
proof -
  have "unat a < 57" using assms by (simp add: AD7124_REG_CNT_def word_less_nat_alt)
  then obtain n where n: "n < 57" "a = of_nat n" by (intro that [of "unat a"]) simp_all
  have "\<forall>n \<in> set [0..<57]. RD_REGISTER (of_nat n) AND 0x3F = of_nat n \<and> RD_REGISTER (of_nat n) AND 0xC0 = 0x40 \<and> WR_REGISTER (of_nat n) = of_nat n
      \<and> (of_nat n :: u8) AND 0xC0 = 0"
    by (simp add: upt_rec RD_REGISTER_def WR_REGISTER_def)
  then show "RD_REGISTER a AND 0x3F = a" "RD_REGISTER a AND 0xC0 = 0x40" "WR_REGISTER a = a" "a AND 0xC0 = 0" using n by simp_all
qed

lemma writable_plain: "writable a \<Longrightarrow> a \<noteq> AD7124_REG_DATA \<and> a \<noteq> AD7124_REG_ERR \<and> a \<noteq> AD7124_REG_STAT \<and> a \<noteq> AD7124_REG_ID"
  by (auto simp: writable_def ad_regs reg_rw_def AD7124_DEF_REG_CFG0_def)

lemma chip_is_adc: "adc_chip (chip_frame e) (chip_reg e)"
proof -
  have r: "tl (fst (chip_frame e (RD_REGISTER a # replicate (reg_size a) 0) s)) = be_bytes (reg_size a) (chip_reg e s a)
      \<and> (\<forall>b. writable b \<longrightarrow> chip_reg e (snd (chip_frame e (RD_REGISTER a # replicate (reg_size a) 0) s)) b = chip_reg e s b)"
    if "a < AD7124_REG_CNT" for s a
    using reg_codes [OF that] that by (auto simp: chip_frame_def chip_reg_def dest: writable_plain)
  have w: "chip_reg e (snd (chip_frame e (WR_REGISTER a # be_bytes (reg_size a) v) s)) b = (if b = a then reg_mask a v else chip_reg e s b)"
    if "writable a" "writable b" for s a v b
  proof -
    have a: "a < AD7124_REG_CNT" using that(1) by (simp add: writable_def)
    show ?thesis
      using reg_codes [OF a] that writable_plain [OF that(1)] writable_plain [OF that(2)]
      by (auto simp: chip_frame_def chip_reg_def from_be_bytes reg_mask_def)
  qed
  show ?thesis using r w by (simp add: adc_chip_def)
qed

lemma chip_is_alive: "adc_alive (chip_reg 0)"
  by (simp add: adc_alive_def chip_reg_def ad_regs)

lemma chip_delivers: "adc_delivers (chip_frame 0) (chip_reg 0) (\<lambda>_. False) id sc_queue"
proof -
  have "AD7124_REG_ERR < AD7124_REG_CNT" "AD7124_REG_DATA < AD7124_REG_CNT" "AD7124_REG_ERR \<noteq> AD7124_REG_DATA" by (simp_all add: ad_regs)
  then show ?thesis
    using reg_codes [of AD7124_REG_ERR] reg_codes [of AD7124_REG_DATA]
    by (auto simp: adc_delivers_def chip_frame_def chip_reg_def split: list.split)
qed

definition sample_adc :: sample_chip where
  "sample_adc = \<lparr>sc_regs = (\<lambda>_. 0x1234), sc_queue = [0x00000102, 0x00000200, 0x00000306, 0x00000404]\<rparr>"


theorem busy_converter_is_left_alone_witness:
  "fst (read_reg (chip_frame 0x40) AD7124_REG_ID sample_adc) = None
   \<and> fst (ad7124_init (chip_frame 0x40) \<lparr>ap_offs0 = 0, ap_offs2 = 0\<rparr> sample_adc) = - 1"
proof -
  have "\<forall>s. chip_reg 0x40 s AD7124_REG_ERR AND 0x40 \<noteq> 0" by (simp add: chip_reg_def ad_regs)
  moreover have "AD7124_REG_ID \<noteq> AD7124_REG_ERR" by (simp add: ad_regs)
  ultimately show ?thesis using busy_converter_is_left_alone [OF chip_is_adc] by blast
qed

theorem sample_round_assigns_channels_witness:
  "\<exists>w c x. sample_round (chip_frame 0) (\<lambda>_. False) id uint 0 sample_adc \<lparr>volt_nb = 0, volt_wb = 0, volt_ntc_spec = 0, volt_ntc_tia = 0\<rparr> = Some (w, c, x)
     \<and> volt_nb x = 2 \<and> volt_wb x = 1 \<and> volt_ntc_spec x = 4 \<and> volt_ntc_tia x = 3"
proof -
  have "sc_queue sample_adc = [0x00000102, 0x00000200, 0x00000306, 0x00000404] @ []" by (simp add: sample_adc_def)
  then show ?thesis
    using sample_round_assigns_channels [OF chip_is_adc chip_is_alive chip_delivers, of sample_adc "[0x00000102, 0x00000200, 0x00000306, 0x00000404]" "[]" uint 0
      "\<lparr>volt_nb = 0, volt_wb = 0, volt_ntc_spec = 0, volt_ntc_tia = 0\<rparr>"]
    by (auto simp: SENS_CH_CNT_def)
qed

end
