(* ===== verification/Monitor.thy ===== *)
theory Monitor
  imports Complex_Main Pyro_Prelude
begin

unbundle bit_operations_syntax

text \<open>
  The supervision of the device: the alarm relay (\<open>src/app/sys/alarm.c\<close>), the error states of \<open>self_check.c\<close>, the heater
  (\<open>heater.c\<close>) and the gain of the amplifiers (\<open>tiag.c\<close> and \<open>gain_switch_process\<close> of \<open>measure.c\<close>).

  A floating-point number is the real number that it stands for; the roundings of an operation, \<open>rnd\<close> in single and \<open>rnd2\<close>
  in double precision, are arguments. Values that are not numbers do not occur.
\<close>

subsection \<open>The alarm relay\<close>



record alarm_state =
  target_alarm_active :: bool
  internal_alarm_active :: bool
  decay_alarm_active :: bool
  al_relay :: bool


definition set_relay_states :: "bool \<Rightarrow> alarm_state \<Rightarrow> alarm_state" where
  "set_relay_states states st = st\<lparr>al_relay := states\<rparr>"

definition relay_mode :: "u32 \<Rightarrow> alarm_state \<Rightarrow> alarm_state" where
  "relay_mode m st =
     (let t = target_alarm_active st; i = internal_alarm_active st; d = decay_alarm_active st in
      if m = 0 then set_relay_states False st
      else if m = 1 then set_relay_states True st
      else if m = 2 then set_relay_states (t \<or> i) st
      else if m = 3 then set_relay_states (\<not> (t \<or> i)) st
      else if m = 4 then set_relay_states i st
      else if m = 5 then set_relay_states (\<not> i) st
      else if m = 6 then set_relay_states t st
      else if m = 7 then set_relay_states (\<not> t) st
      else if m = 8 then set_relay_states d st
      else if m = 9 then set_relay_states (\<not> d) st
      else st)"


subsection \<open>Error states\<close>

definition ERR_DETECTOR_FAULT :: u16 where "ERR_DETECTOR_FAULT = 0x0001"
definition ERR_HEATER_HIGH :: u16 where "ERR_HEATER_HIGH = 0x0002"
definition ERR_HEATER_LOW :: u16 where "ERR_HEATER_LOW = 0x0004"
definition ERR_INTERNAL_HIGH :: u16 where "ERR_INTERNAL_HIGH = 0x0008"
definition ERR_INTERNAL_LOW :: u16 where "ERR_INTERNAL_LOW = 0x0010"
definition ERR_ENERGY_LOW :: u16 where "ERR_ENERGY_LOW = 0x0020"
definition ERR_ATTEN_HIGH :: u16 where "ERR_ATTEN_HIGH = 0x0040"

lemmas err_flags = ERR_DETECTOR_FAULT_def ERR_HEATER_HIGH_def ERR_HEATER_LOW_def ERR_INTERNAL_HIGH_def ERR_INTERNAL_LOW_def
  ERR_ENERGY_LOW_def ERR_ATTEN_HIGH_def

definition initial_error_flags :: u16 where "initial_error_flags = 0xFFFF"

definition get_highest_error_index :: "u16 \<Rightarrow> int" where
  "get_highest_error_index f =
     (if f AND ERR_DETECTOR_FAULT \<noteq> 0 then 0
      else if f AND ERR_HEATER_HIGH \<noteq> 0 then 1
      else if f AND ERR_HEATER_LOW \<noteq> 0 then 2
      else if f AND ERR_INTERNAL_HIGH \<noteq> 0 then 3
      else if f AND ERR_INTERNAL_LOW \<noteq> 0 then 4
      else if f AND ERR_ENERGY_LOW \<noteq> 0 then 5
      else if f AND ERR_ATTEN_HIGH \<noteq> 0 then 6
      else - 1)"

definition error_state_set :: "u16 \<Rightarrow> u16 \<Rightarrow> u16" where "error_state_set e f = f OR e"
definition error_state_clear :: "u16 \<Rightarrow> u16 \<Rightarrow> u16" where "error_state_clear e f = f AND NOT e"

record monitor_input =
  mi_temp_mode :: u32
  mi_volt_wb :: int
  mi_volt_nb :: int
  mi_set_temp :: real
  mi_internal_temp :: real
  mi_attenuation :: real
  mi_decay_rate :: u32

definition error_state_upgrade :: "(real \<Rightarrow> real) \<Rightarrow> monitor_input \<Rightarrow> u16 \<Rightarrow> u16" where
  "error_state_upgrade rnd x f =
     (let f = (if mi_temp_mode x = 2 \<and> (mi_volt_wb x = 0 \<or> mi_volt_nb x = 0) then error_state_set ERR_DETECTOR_FAULT f
               else if mi_temp_mode x = 0 \<and> mi_volt_wb x = 0 then error_state_set ERR_DETECTOR_FAULT f
               else if mi_temp_mode x = 1 \<and> mi_volt_nb x = 0 then error_state_set ERR_DETECTOR_FAULT f
               else error_state_clear ERR_DETECTOR_FAULT f);
          f = (if mi_set_temp x \<noteq> 0 then
                 (if mi_internal_temp x > 80 then error_state_clear ERR_HEATER_LOW (error_state_set ERR_HEATER_HIGH f)
                  else if mi_internal_temp x < rnd (mi_set_temp x - 20) then error_state_clear ERR_HEATER_HIGH (error_state_set ERR_HEATER_LOW f)
                  else error_state_clear ERR_HEATER_HIGH (error_state_clear ERR_HEATER_LOW f))
               else error_state_clear ERR_INTERNAL_HIGH (error_state_clear ERR_INTERNAL_LOW
                      (error_state_clear ERR_HEATER_HIGH (error_state_clear ERR_HEATER_LOW f))))
      in if rnd (mi_attenuation x * 100) > rnd (real (unat (mi_decay_rate x))) then error_state_set ERR_ATTEN_HIGH f
         else error_state_clear ERR_ATTEN_HIGH f)"

text \<open>The measurement reports whether the temperature is below, inside of or above its range.\<close>

definition handle_single_error :: "int \<Rightarrow> u16 \<Rightarrow> u16" where
  "handle_single_error out_range f =
     (if out_range < 0 then error_state_clear ERR_DETECTOR_FAULT (error_state_set ERR_ENERGY_LOW f)
      else if out_range > 0 then error_state_set ERR_DETECTOR_FAULT (error_state_clear ERR_ENERGY_LOW f)
      else error_state_clear ERR_DETECTOR_FAULT (error_state_clear ERR_ENERGY_LOW f))"

subsection \<open>The heater\<close>

record heater_para =
  hp_set_temp :: real
  hp_kp :: real
  hp_ki :: real
  hp_kd :: real

record heater_data =
  hd_setpoint :: real
  hd_internal_temperature :: real
  hd_error :: real
  hd_integral :: real
  hd_previous_integral :: real
  hd_derivative :: real
  hd_previous_error :: real
  hd_output :: real
  hd_set_value :: real

text \<open>The device: the controller and the compare register of the pulse width.\<close>

record heater_dev = heater_data +
  hd_duty :: u16

definition heater_init :: "bool \<Rightarrow> heater_dev \<Rightarrow> heater_dev" where
  "heater_init warm_start h =
     (let h = h\<lparr>hd_internal_temperature := 25, hd_error := 0\<rparr>;
          h = (if \<not> warm_start then h\<lparr>hd_integral := 0\<rparr> else h)
      in h\<lparr>hd_derivative := 0, hd_previous_error := 0, hd_output := 0, hd_set_value := 0, hd_duty := 0\<rparr>)"

definition pid_output :: "(real \<Rightarrow> real) \<Rightarrow> (real \<Rightarrow> real) \<Rightarrow> heater_para \<Rightarrow> real \<Rightarrow> real \<Rightarrow> real \<Rightarrow> real" where
  "pid_output rnd rnd2 p e i d = rnd (rnd2 (rnd2 (rnd2 (hp_kp p * e) + rnd2 (hp_ki p * i)) + rnd2 (hp_kd p * d)))"

definition ambient_temp_pid_ctrl :: "(real \<Rightarrow> real) \<Rightarrow> (real \<Rightarrow> real) \<Rightarrow> heater_para \<Rightarrow> heater_dev \<Rightarrow> heater_dev" where
  "ambient_temp_pid_ctrl rnd rnd2 p h =
     (let h = h\<lparr>hd_error := rnd (hd_setpoint h - hd_internal_temperature h)\<rparr>;
          h = h\<lparr>hd_integral := rnd2 (hd_integral h + hd_error h)\<rparr>;
          h = h\<lparr>hd_derivative := rnd (hd_error h - hd_previous_error h)\<rparr>;
          h = h\<lparr>hd_output := pid_output rnd rnd2 p (hd_error h) (hd_integral h) (hd_derivative h)\<rparr>;
          h = h\<lparr>hd_previous_error := hd_error h\<rparr>;
          h = h\<lparr>hd_set_value := rnd (50 + hd_output h)\<rparr>;
          h = (if hd_set_value h > 100 then h\<lparr>hd_set_value := 100, hd_integral := hd_previous_integral h\<rparr>
               else if hd_set_value h < 0 then h\<lparr>hd_set_value := 0, hd_integral := hd_previous_integral h\<rparr>
               else h)
      in h\<lparr>hd_previous_integral := rnd (hd_integral h)\<rparr>)"

definition PTC_PWM_Set :: "(real \<Rightarrow> real) \<Rightarrow> real \<Rightarrow> heater_dev \<Rightarrow> heater_dev" where
  "PTC_PWM_Set rnd v h = (let v = (if v > 100 then 100 else v) in h\<lparr>hd_duty := word_of_int \<lfloor>rnd (v * 50)\<rfloor>\<rparr>)"

definition heater_task :: "(real \<Rightarrow> real) \<Rightarrow> (real \<Rightarrow> real) \<Rightarrow> heater_para \<Rightarrow> real \<Rightarrow> heater_dev \<Rightarrow> heater_dev" where
  "heater_task rnd rnd2 p temp h =
     (let h = h\<lparr>hd_internal_temperature := temp, hd_setpoint := hp_set_temp p\<rparr>; low = rnd (hp_set_temp p - 5) in
      if temp > low \<and> temp < 100 then let h = ambient_temp_pid_ctrl rnd rnd2 p h in PTC_PWM_Set rnd (hd_set_value h) h
      else if temp < low then PTC_PWM_Set rnd 95 h
      else if hp_set_temp p = 0 then PTC_PWM_Set rnd 0 h
      else h)"

subsection \<open>The gain of the amplifiers\<close>

definition GAIN_L :: u8 where "GAIN_L = 0"
definition GAIN_M :: u8 where "GAIN_M = 1"
definition GAIN_H :: u8 where "GAIN_H = 2"
definition GAIN_CNT :: u8 where "GAIN_CNT = 3"

lemmas gain_defs = GAIN_L_def GAIN_M_def GAIN_H_def GAIN_CNT_def

record gain_para =
  gp_upper :: u32
  gp_lowerml :: u32
  gp_lowerhm :: u32
  gp_k_lm :: real
  gp_k_mh :: real
  gp_cnt_thod :: u32
  gp_volt_discard :: u32

text \<open>A channel: the counters, the current gain, the level of the analogue switches, the numbers of values to be discarded after a switch, the filtered voltage and
  its value at the last switch.\<close>

record gain_ch =
  gc_up_gl :: u32
  gc_up_gm :: u32
  gc_down_gm :: u32
  gc_down_gh :: u32
  gc_now_gain :: u32
  gc_switch :: u8
  gc_flag :: bool
  gc_gl_to_gm :: u32
  gc_gm_to_gh :: u32
  gc_gh_to_gm :: u32
  gc_gm_to_gl :: u32
  gc_volt_filter :: int
  gc_last_volt_filter :: int

definition gain_set :: "u8 \<Rightarrow> 'a gain_ch_scheme \<Rightarrow> 'a gain_ch_scheme" where
  "gain_set gain c = (if gain < GAIN_CNT then c\<lparr>gc_switch := gain\<rparr> else c)\<lparr>gc_now_gain := ucast gain\<rparr>"

definition gain_count_init :: "'a gain_ch_scheme \<Rightarrow> 'a gain_ch_scheme" where
  "gain_count_init c = c\<lparr>gc_up_gl := 0, gc_down_gm := 0, gc_up_gm := 0, gc_down_gh := 0\<rparr>"

definition tiag_init :: "bool \<Rightarrow> 'a gain_ch_scheme \<Rightarrow> 'a gain_ch_scheme" where
  "tiag_init warm_start c = gain_count_init (gain_set (if warm_start then ucast (gc_now_gain c) else GAIN_H) c)"

definition tiag_cmd_switch :: "u8 \<Rightarrow> 'a gain_ch_scheme \<Rightarrow> 'a gain_ch_scheme" where
  "tiag_cmd_switch gain c = (if gain \<ge> GAIN_CNT then c else gain_set gain c)"

text \<open>Counting a value above or below resets the counters of the other flags.\<close>

definition up_gl :: "gain_para \<Rightarrow> 'a gain_ch_scheme \<Rightarrow> 'a gain_ch_scheme" where
  "up_gl p c = (let c = c\<lparr>gc_up_gl := gc_up_gl c + 1\<rparr>; c = c\<lparr>gc_down_gm := 0, gc_up_gm := 0, gc_down_gh := 0\<rparr> in
     if gc_up_gl c \<ge> gp_cnt_thod p then (gain_set GAIN_M c)\<lparr>gc_up_gl := 0\<rparr> else c)"

definition up_gm :: "gain_para \<Rightarrow> 'a gain_ch_scheme \<Rightarrow> 'a gain_ch_scheme" where
  "up_gm p c = (let c = c\<lparr>gc_up_gm := gc_up_gm c + 1\<rparr>; c = c\<lparr>gc_up_gl := 0, gc_down_gm := 0, gc_down_gh := 0\<rparr> in
     if gc_up_gm c \<ge> gp_cnt_thod p then (gain_set GAIN_H c)\<lparr>gc_up_gm := 0\<rparr> else c)"

definition down_gm :: "gain_para \<Rightarrow> 'a gain_ch_scheme \<Rightarrow> 'a gain_ch_scheme" where
  "down_gm p c = (let c = c\<lparr>gc_down_gm := gc_down_gm c + 1\<rparr>; c = c\<lparr>gc_up_gl := 0, gc_up_gm := 0, gc_down_gh := 0\<rparr> in
     if gc_down_gm c \<ge> gp_cnt_thod p then (gain_set GAIN_L c)\<lparr>gc_down_gm := 0\<rparr> else c)"

definition down_gh :: "gain_para \<Rightarrow> 'a gain_ch_scheme \<Rightarrow> 'a gain_ch_scheme" where
  "down_gh p c = (let c = c\<lparr>gc_down_gh := gc_down_gh c + 1\<rparr>; c = c\<lparr>gc_up_gl := 0, gc_down_gm := 0, gc_up_gm := 0\<rparr> in
     if gc_down_gh c \<ge> gp_cnt_thod p then (gain_set GAIN_M c)\<lparr>gc_down_gh := 0\<rparr> else c)"

definition too_high :: "gain_para \<Rightarrow> u32 \<Rightarrow> bool" where
  "too_high p volt \<longleftrightarrow> volt > gp_upper p"

text \<open>A quotient by zero is infinite, and no number when the dividend is zero as well.\<close>

definition below_quotient :: "(real \<Rightarrow> real) \<Rightarrow> u32 \<Rightarrow> u32 \<Rightarrow> real \<Rightarrow> bool" where
  "below_quotient rnd2 volt a k \<longleftrightarrow> (if k = 0 then a \<noteq> 0 else real (unat volt) < rnd2 (real (unat a) / k))"

definition too_low_m :: "(real \<Rightarrow> real) \<Rightarrow> gain_para \<Rightarrow> u32 \<Rightarrow> bool" where
  "too_low_m rnd2 p volt \<longleftrightarrow> below_quotient rnd2 volt (gp_lowerml p) (gp_k_lm p)"

definition too_low_h :: "(real \<Rightarrow> real) \<Rightarrow> gain_para \<Rightarrow> u32 \<Rightarrow> bool" where
  "too_low_h rnd2 p volt \<longleftrightarrow> below_quotient rnd2 volt (gp_lowerhm p) (gp_k_mh p)"

definition tiag_auto_switch :: "(real \<Rightarrow> real) \<Rightarrow> gain_para \<Rightarrow> u32 \<Rightarrow> u8 \<Rightarrow> 'a gain_ch_scheme \<Rightarrow> 'a gain_ch_scheme" where
  "tiag_auto_switch rnd2 p volt gain c =
     (if gain \<ge> GAIN_CNT then c
      else if gain = GAIN_L then (if too_high p volt then up_gl p c else c)
      else if gain = GAIN_M then
        (if too_high p volt then up_gm p c else if too_low_m rnd2 p volt then down_gm p c else c)
      else if gain = GAIN_H then (if too_low_h rnd2 p volt then down_gh p c else c)
      else c)"

definition tiag_switch :: "(real \<Rightarrow> real) \<Rightarrow> bool \<Rightarrow> gain_para \<Rightarrow> u32 \<Rightarrow> u8 \<Rightarrow> 'a gain_ch_scheme \<Rightarrow> 'a gain_ch_scheme" where
  "tiag_switch rnd2 auto_mode p volt gain c = (if auto_mode then tiag_auto_switch rnd2 p volt gain c else tiag_cmd_switch gain c)"

text \<open>
  The processing of one channel: the result says whether the gain was switched. The copy of the gain is a byte, the gain a word of 32 bits; the
  voltage is converted to 32 bits by the call.
\<close>

definition gain_switch_channel :: "(real \<Rightarrow> real) \<Rightarrow> bool \<Rightarrow> gain_para \<Rightarrow> int \<Rightarrow> 'a gain_ch_scheme \<Rightarrow> bool \<times> 'a gain_ch_scheme" where
  "gain_switch_channel rnd2 auto_mode p volt_raw c =
     (let bsp = ucast (gc_now_gain c) :: u8;
          c = tiag_switch rnd2 auto_mode p (word_of_int volt_raw) (ucast (gc_now_gain c)) c;
          now = gc_now_gain c;
          c = (if ucast bsp \<noteq> now then c\<lparr>gc_flag := True\<rparr> else c)
      in
      if gc_flag c then
        let c = c\<lparr>gc_flag := False, gc_last_volt_filter := gc_volt_filter c\<rparr>;
            c = (if ucast bsp < now then
                   (if bsp = GAIN_L then c\<lparr>gc_gl_to_gm := gp_volt_discard p\<rparr> else if bsp = GAIN_M then c\<lparr>gc_gm_to_gh := gp_volt_discard p\<rparr> else c)
                 else if ucast bsp > now then
                   (if bsp = GAIN_M then c\<lparr>gc_gm_to_gl := gp_volt_discard p\<rparr> else if bsp = GAIN_H then c\<lparr>gc_gh_to_gm := gp_volt_discard p\<rparr> else c)
                 else c)
        in (True, c)
      else (False, c))"

text \<open>The channels in turn; a switch ends the processing.\<close>

fun gain_switch_process :: "(real \<Rightarrow> real) \<Rightarrow> bool \<Rightarrow> (gain_para \<times> int \<times> 'a gain_ch_scheme) list \<Rightarrow> int \<times> 'a gain_ch_scheme list" where
  "gain_switch_process rnd2 m [] = (0, [])"
| "gain_switch_process rnd2 m ((p, volt, c) # xs) =
     (let (sw, c) = gain_switch_channel rnd2 m p volt c in
      if sw then (- 1, c # map (snd \<circ> snd) xs) else let (r, cs) = gain_switch_process rnd2 m xs in (r, c # cs))"

subsection \<open>Alarms\<close>



lemma relay_mode_active [simp]:
  "target_alarm_active (relay_mode m st) = target_alarm_active st" "internal_alarm_active (relay_mode m st) = internal_alarm_active st"
  "decay_alarm_active (relay_mode m st) = decay_alarm_active st"
  by (simp_all add: relay_mode_def Let_def set_relay_states_def)







subsection \<open>Errors\<close>

lemma err_bits:
  "f AND ERR_DETECTOR_FAULT \<noteq> 0 \<longleftrightarrow> bit f 0" "f AND ERR_HEATER_HIGH \<noteq> 0 \<longleftrightarrow> bit f 1" "f AND ERR_HEATER_LOW \<noteq> 0 \<longleftrightarrow> bit f 2"
  "f AND ERR_INTERNAL_HIGH \<noteq> 0 \<longleftrightarrow> bit f 3" "f AND ERR_INTERNAL_LOW \<noteq> 0 \<longleftrightarrow> bit f 4" "f AND ERR_ENERGY_LOW \<noteq> 0 \<longleftrightarrow> bit f 5"
  "f AND ERR_ATTEN_HIGH \<noteq> 0 \<longleftrightarrow> bit f 6"
  for f :: u16
proof -
  have m: "f AND 2 ^ n \<noteq> 0 \<longleftrightarrow> bit f n" for n by (simp add: bit_iff_and_push_bit_not_eq_0 push_bit_of_1 and.commute)
  show "f AND ERR_DETECTOR_FAULT \<noteq> 0 \<longleftrightarrow> bit f 0" "f AND ERR_HEATER_HIGH \<noteq> 0 \<longleftrightarrow> bit f 1" "f AND ERR_HEATER_LOW \<noteq> 0 \<longleftrightarrow> bit f 2"
    "f AND ERR_INTERNAL_HIGH \<noteq> 0 \<longleftrightarrow> bit f 3" "f AND ERR_INTERNAL_LOW \<noteq> 0 \<longleftrightarrow> bit f 4" "f AND ERR_ENERGY_LOW \<noteq> 0 \<longleftrightarrow> bit f 5"
    "f AND ERR_ATTEN_HIGH \<noteq> 0 \<longleftrightarrow> bit f 6"
    using m [of 0] m [of 1] m [of 2] m [of 3] m [of 4] m [of 5] m [of 6] by (simp_all add: err_flags)
qed

lemma error_index_cases:
  "get_highest_error_index f =
     (if bit f 0 then 0 else if bit f 1 then 1 else if bit f 2 then 2 else if bit f 3 then 3 else if bit f 4 then 4
      else if bit f 5 then 5 else if bit f 6 then 6 else - 1)"
  by (simp only: get_highest_error_index_def err_bits)

text \<open>The index of the error that the display and the analogue output show is the number of the lowest bit set among the seven error bits, the one with
  the highest priority, and -1 exactly if none of them is set.\<close>

theorem error_index_is_lowest_bit:
  "get_highest_error_index f = (if \<exists>i < 7. bit f i then int (LEAST i. bit f i) else - 1)"
proof (cases "\<exists>i < 7. bit f i")
  case True
  have l: "(LEAST i. bit f i) = n" if "bit f n" "\<forall>i < n. \<not> bit f i" for n
    using that by (intro Least_equality) (auto simp: not_less [symmetric])
  from True consider "bit f 0" | "bit f 1" "\<forall>i < 1. \<not> bit f i" | "bit f 2" "\<forall>i < 2. \<not> bit f i" | "bit f 3" "\<forall>i < 3. \<not> bit f i"
    | "bit f 4" "\<forall>i < 4. \<not> bit f i" | "bit f 5" "\<forall>i < 5. \<not> bit f i" | "bit f 6" "\<forall>i < 6. \<not> bit f i"
    by (auto simp: numeral_eq_Suc less_Suc_eq)
  then show ?thesis using True by cases (auto simp: error_index_cases l numeral_eq_Suc less_Suc_eq)
next
  case False
  then show ?thesis by (auto simp: error_index_cases)
qed

subsection \<open>A permanent error\<close>

text \<open>What changes the error bits while the device works: the periodic check and the report of a temperature.\<close>

datatype error_event = Upgrade monitor_input | Temp_Report int

fun error_step :: "(real \<Rightarrow> real) \<Rightarrow> error_event \<Rightarrow> u16 \<Rightarrow> u16" where
  "error_step rnd (Upgrade x) f = error_state_upgrade rnd x f"
| "error_step rnd (Temp_Report r) f = handle_single_error r f"

definition heater_on :: "error_event \<Rightarrow> bool" where
  "heater_on e = (case e of Upgrade x \<Rightarrow> mi_set_temp x \<noteq> 0 | Temp_Report r \<Rightarrow> True)"

lemma error_ops_bit:
  "n < 16 \<Longrightarrow> bit (error_state_set e f) n \<longleftrightarrow> bit f n \<or> bit e n"
  "n < 16 \<Longrightarrow> bit (error_state_clear e f) n \<longleftrightarrow> bit f n \<and> \<not> bit e n"
  by (auto simp: error_state_set_def error_state_clear_def bit_or_iff bit_and_iff bit_not_iff)

lemma error_step_internal:
  assumes "heater_on e"
  shows "bit (error_step rnd e f) 3 = bit f 3" "bit (error_step rnd e f) 4 = bit f 4"
  using assms by (cases e; simp add: heater_on_def error_state_upgrade_def handle_single_error_def Let_def error_ops_bit err_flags bit_numeral_rec)+

lemma permanent_error:
  assumes "\<forall>e \<in> set es. heater_on e"
  shows "get_highest_error_index (fold (error_step rnd) es initial_error_flags) \<in> {0, 1, 2, 3}"
proof -
  have "bit (fold (error_step rnd) es f) 3" if "bit f 3" for f
    using assms that by (induction es arbitrary: f) (auto simp: error_step_internal)
  moreover have "bit initial_error_flags 3" by (simp add: initial_error_flags_def)
  ultimately show ?thesis by (simp add: error_index_cases)
qed

text \<open>All error bits are set at the start. As long as the heater has a set point other than 0, nothing clears the bits of the internal temperature, so that
  after any sequence of checks and measurements, however normal, the index is one of an error and never -1.\<close>

theorem internal_error_is_permanent:
  assumes "\<forall>e \<in> set es. heater_on e"
  shows "get_highest_error_index (fold (error_step rnd) es initial_error_flags) \<noteq> - 1"
  using permanent_error [OF assms, of rnd] by auto

definition wit_monitor :: monitor_input where
  "wit_monitor = \<lparr>mi_temp_mode = 2, mi_volt_wb = 100000, mi_volt_nb = 100000, mi_set_temp = 50, mi_internal_temp = 50, mi_attenuation = 0, mi_decay_rate = 95\<rparr>"

theorem internal_error_is_permanent_witness:
  "get_highest_error_index (fold (error_step id) [Upgrade wit_monitor, Temp_Report 0] initial_error_flags) \<noteq> - 1"
  using internal_error_is_permanent [of "[Upgrade wit_monitor, Temp_Report 0]" id] by (simp add: heater_on_def wit_monitor_def)

subsection \<open>Heating\<close>

text \<open>What is used of the rounding to single precision: it is monotone and leaves the integers up to $2^{24}$ as they are.\<close>

definition float_rounding :: "(real \<Rightarrow> real) \<Rightarrow> bool" where
  "float_rounding rnd \<longleftrightarrow> mono rnd \<and> (\<forall>k :: int. \<bar>k\<bar> \<le> 2 ^ 24 \<longrightarrow> rnd (of_int k) = of_int k)"

lemma float_rounding_id [simp]: "float_rounding id" "float_rounding (\<lambda>x. x)"
  by (simp_all add: float_rounding_def mono_def)

lemma float_rounding_between:
  assumes "float_rounding rnd" and "real_of_int a \<le> x" and "x \<le> real_of_int b" and "\<bar>a\<bar> \<le> 2 ^ 24" and "\<bar>b\<bar> \<le> 2 ^ 24"
  shows "real_of_int a \<le> rnd x" "rnd x \<le> real_of_int b"
  using assms monoD [of rnd "of_int a" x] monoD [of rnd x "of_int b"] by (auto simp: float_rounding_def)

lemma pwm_duty:
  assumes "float_rounding rnd" and "0 \<le> v"
  shows "unat (hd_duty (PTC_PWM_Set rnd v h)) \<le> 5000" "hd_set_value (PTC_PWM_Set rnd v h) = hd_set_value h"
    "int (unat (hd_duty (PTC_PWM_Set rnd v h))) = \<lfloor>rnd (min v 100 * 50)\<rfloor>"
proof -
  have m: "(if v > 100 then 100 else v) = min v 100" by simp
  have "0 \<le> rnd (min v 100 * 50)" "rnd (min v 100 * 50) \<le> 5000"
    using float_rounding_between [OF assms(1), of 0 "min v 100 * 50" 5000] assms(2) by auto
  then have b: "0 \<le> \<lfloor>rnd (min v 100 * 50)\<rfloor>" "\<lfloor>rnd (min v 100 * 50)\<rfloor> \<le> 5000" by linarith+
  have d: "hd_duty (PTC_PWM_Set rnd v h) = word_of_int \<lfloor>rnd (min v 100 * 50)\<rfloor>" by (simp only: PTC_PWM_Set_def Let_def m) simp
  show e: "int (unat (hd_duty (PTC_PWM_Set rnd v h))) = \<lfloor>rnd (min v 100 * 50)\<rfloor>"
    unfolding d using b by (simp add: unsigned_of_int take_bit_int_eq_self)
  show "unat (hd_duty (PTC_PWM_Set rnd v h)) \<le> 5000" using e b by linarith
  show "hd_set_value (PTC_PWM_Set rnd v h) = hd_set_value h" by (simp add: PTC_PWM_Set_def Let_def)
qed

lemma pid_set_value: "0 \<le> hd_set_value (ambient_temp_pid_ctrl rnd rnd2 p h)" "hd_set_value (ambient_temp_pid_ctrl rnd rnd2 p h) \<le> 100"
  by (simp_all add: ambient_temp_pid_ctrl_def Let_def)

lemma heater_task_cases:
  obtains (pid) "heater_task rnd rnd2 p temp h = (let h = ambient_temp_pid_ctrl rnd rnd2 p (h\<lparr>hd_internal_temperature := temp, hd_setpoint := hp_set_temp p\<rparr>)
      in PTC_PWM_Set rnd (hd_set_value h) h)"
  | (full) "heater_task rnd rnd2 p temp h = PTC_PWM_Set rnd 95 (h\<lparr>hd_internal_temperature := temp, hd_setpoint := hp_set_temp p\<rparr>)"
  | (off) "heater_task rnd rnd2 p temp h = PTC_PWM_Set rnd 0 (h\<lparr>hd_internal_temperature := temp, hd_setpoint := hp_set_temp p\<rparr>)"
  | (keep) "heater_task rnd rnd2 p temp h = h\<lparr>hd_internal_temperature := temp, hd_setpoint := hp_set_temp p\<rparr>"
  unfolding heater_task_def Let_def by argo

text \<open>C37: Whatever temperatures are measured and whatever the gains of the controller are, the set value stays between 0 and 100 percent and the
  pulse width never exceeds the period of 5000 ticks.\<close>

theorem heater_power_is_bounded:
  assumes "float_rounding rnd"
  shows "let h = fold (\<lambda>(p, t). heater_task rnd rnd2 p t) xs (heater_init w h0)
    in 0 \<le> hd_set_value h \<and> hd_set_value h \<le> 100 \<and> unat (hd_duty h) \<le> 5000"
proof -
  define inv where "inv h \<longleftrightarrow> 0 \<le> hd_set_value h \<and> hd_set_value h \<le> 100 \<and> unat (hd_duty h) \<le> 5000" for h :: heater_dev
  have step: "inv (heater_task rnd rnd2 p t h)" if "inv h" for h p t
    using that pid_set_value [of rnd rnd2 p] pwm_duty [OF assms]
    by (cases rule: heater_task_cases [of rnd rnd2 p t h]) (simp_all add: inv_def Let_def)
  have "inv (fold (\<lambda>(p, t). heater_task rnd rnd2 p t) xs h)" if "inv h" for h
    using that by (induction xs arbitrary: h) (auto simp: step)
  moreover have "inv (heater_init w h0)" by (simp add: inv_def heater_init_def Let_def)
  ultimately show ?thesis by (simp add: Let_def inv_def)
qed

definition wit_heater :: heater_dev where
  "wit_heater = \<lparr>hd_setpoint = 0, hd_internal_temperature = 0, hd_error = 0, hd_integral = 0, hd_previous_integral = 0, hd_derivative = 0,
     hd_previous_error = 0, hd_output = 0, hd_set_value = 0, hd_duty = 0\<rparr>"

definition wit_pid :: heater_para where
  "wit_pid = \<lparr>hp_set_temp = 50, hp_kp = 10, hp_ki = 1 / 2, hp_kd = 1\<rparr>"

theorem heater_power_is_bounded_witness:
  "unat (hd_duty (fold (\<lambda>(p, t). heater_task id id p t) [(wit_pid, 25), (wit_pid, 47), (wit_pid, 120)] (heater_init False wit_heater))) \<le> 5000"
  using heater_power_is_bounded [of id id "[(wit_pid, 25), (wit_pid, 47), (wit_pid, 120)]" False wit_heater] by (simp only: float_rounding_id Let_def)

text \<open>
  Far below the set point the heater runs at 95 percent. At 100 degrees and above, with a set point below 105, the pulse width is not touched: an overheated
  device goes on heating as before. With the set point 0 the controller works as long as the temperature is between -5 and 100
  degrees, and with its gains at 0 it asks for one half of the power; only outside of this range is the heater switched off.
\<close>

theorem heater_power_by_range:
  assumes "float_rounding rnd"
  shows "temp < rnd (hp_set_temp p - 5) \<Longrightarrow> hd_duty (heater_task rnd rnd2 p temp h) = 4750"
    and "100 \<le> temp \<Longrightarrow> hp_set_temp p \<le> 105 \<Longrightarrow> hp_set_temp p \<noteq> 0 \<Longrightarrow> hd_duty (heater_task rnd rnd2 p temp h) = hd_duty h"
    and "hp_set_temp p = 0 \<Longrightarrow> 100 \<le> temp \<Longrightarrow> hd_duty (heater_task rnd rnd2 p temp h) = 0"
proof -
  have r: "rnd (of_int k) = of_int k" if "\<bar>k\<bar> \<le> 2 ^ 24" for k using assms that by (simp add: float_rounding_def)
  have n: "rnd 4750 = 4750" "rnd 0 = 0" "rnd (- 5) = - 5" using r [of 4750] r [of 0] r [of "- 5"] by simp_all
  show "temp < rnd (hp_set_temp p - 5) \<Longrightarrow> hd_duty (heater_task rnd rnd2 p temp h) = 4750"
    by (simp add: heater_task_def Let_def PTC_PWM_Set_def n)
  show "hp_set_temp p = 0 \<Longrightarrow> 100 \<le> temp \<Longrightarrow> hd_duty (heater_task rnd rnd2 p temp h) = 0"
    by (simp add: heater_task_def Let_def PTC_PWM_Set_def n)
  have "rnd (hp_set_temp p - 5) \<le> 100" if "hp_set_temp p \<le> 105"
    using monoD [of rnd "hp_set_temp p - 5" "of_int 100"] r [of 100] assms that by (simp add: float_rounding_def)
  then show "100 \<le> temp \<Longrightarrow> hp_set_temp p \<le> 105 \<Longrightarrow> hp_set_temp p \<noteq> 0 \<Longrightarrow> hd_duty (heater_task rnd rnd2 p temp h) = hd_duty h"
    by (auto simp: heater_task_def Let_def)
qed

lemma heater_half_power_at_zero:
  assumes "float_rounding rnd" and "float_rounding rnd2" and "hp_set_temp p = 0" and "hp_kp p = 0" and "hp_ki p = 0" and "hp_kd p = 0"
    and "- 5 < temp" and "temp < 100"
  shows "hd_duty (heater_task rnd rnd2 p temp h) = 2500"
proof -
  have r: "rnd (of_int k) = of_int k" "rnd2 (of_int k) = of_int k" if "\<bar>k\<bar> \<le> 2 ^ 24" for k using assms(1,2) that by (simp_all add: float_rounding_def)
  have n: "rnd 2500 = 2500" "rnd 50 = 50" "rnd 0 = 0" "rnd2 0 = 0" "rnd (- 5) = - 5"
    using r [of 2500] r [of 50] r [of 0] r [of "- 5"] by simp_all
  show ?thesis using assms(3-8) by (simp add: heater_task_def Let_def PTC_PWM_Set_def ambient_temp_pid_ctrl_def pid_output_def n)
qed

subsection \<open>Gains\<close>

definition gain_ok :: "'a gain_ch_scheme \<Rightarrow> bool" where
  "gain_ok c \<longleftrightarrow> gc_now_gain c < 3 \<and> gc_now_gain c = ucast (gc_switch c) \<and> \<not> gc_flag c"

lemma gain_ok_cases:
  assumes "gain_ok c"
  obtains "gc_now_gain c = 0" "gc_switch c = GAIN_L" | "gc_now_gain c = 1" "gc_switch c = GAIN_M" | "gc_now_gain c = 2" "gc_switch c = GAIN_H"
proof -
  have s: "unat (gc_switch c) = unat (gc_now_gain c)" using assms unsigned_less [of "gc_switch c", where ?'a = nat] by (simp add: gain_ok_def unsigned_ucast_eq take_bit_nat_eq_self)
  have "gc_now_gain c < 3" using assms unfolding gain_ok_def by blast
  then have "unat (gc_now_gain c) < 3" by (simp add: word_less_nat_alt)
  then have "unat (gc_now_gain c) = 0 \<or> unat (gc_now_gain c) = 1 \<or> unat (gc_now_gain c) = 2" by linarith
  then have "gc_now_gain c = 0 \<and> gc_switch c = 0 \<or> gc_now_gain c = 1 \<and> gc_switch c = 1 \<or> gc_now_gain c = 2 \<and> gc_switch c = 2"
    using s by (simp add: word_unat_eq_iff)
  then show thesis using that by (auto simp: gain_defs)
qed

lemmas gain_ops = gain_switch_channel_def tiag_switch_def tiag_auto_switch_def tiag_cmd_switch_def up_gl_def up_gm_def down_gm_def down_gh_def gain_set_def

text \<open>One sample of a channel: the new gain depends on the old one and the counter of its direction.\<close>

lemma channel_gain:
  fixes volt :: int
  assumes "gain_ok c"
  defines "v \<equiv> word_of_int volt"
  shows "gain_ok (snd (gain_switch_channel rnd2 True p volt c))"
    and "fst (gain_switch_channel rnd2 True p volt c) \<longleftrightarrow> gc_now_gain (snd (gain_switch_channel rnd2 True p volt c)) \<noteq> gc_now_gain c"
    and "gc_now_gain (snd (gain_switch_channel rnd2 True p volt c)) =
      (if gc_now_gain c = 0 then (if too_high p v \<and> gp_cnt_thod p \<le> gc_up_gl c + 1 then 1 else 0)
       else if gc_now_gain c = 1 then
         (if too_high p v then (if gp_cnt_thod p \<le> gc_up_gm c + 1 then 2 else 1)
          else if too_low_m rnd2 p v \<and> gp_cnt_thod p \<le> gc_down_gm c + 1 then 0 else 1)
       else (if too_low_h rnd2 p v \<and> gp_cnt_thod p \<le> gc_down_gh c + 1 then 1 else 2))"
proof -
  have f: "\<not> gc_flag c" "\<not> (3 :: u8) \<le> 1" using assms(1) by (simp_all add: gain_ok_def word_le_nat_alt)
  show "gain_ok (snd (gain_switch_channel rnd2 True p volt c))" using assms(1)
    by (cases rule: gain_ok_cases) (simp_all add: gain_ops Let_def gain_defs gain_ok_def f)
  show "fst (gain_switch_channel rnd2 True p volt c) \<longleftrightarrow> gc_now_gain (snd (gain_switch_channel rnd2 True p volt c)) \<noteq> gc_now_gain c" using assms(1)
    by (cases rule: gain_ok_cases) (simp_all add: gain_ops Let_def gain_defs f)
  show "gc_now_gain (snd (gain_switch_channel rnd2 True p volt c)) =
      (if gc_now_gain c = 0 then (if too_high p v \<and> gp_cnt_thod p \<le> gc_up_gl c + 1 then 1 else 0)
       else if gc_now_gain c = 1 then
         (if too_high p v then (if gp_cnt_thod p \<le> gc_up_gm c + 1 then 2 else 1)
          else if too_low_m rnd2 p v \<and> gp_cnt_thod p \<le> gc_down_gm c + 1 then 0 else 1)
       else (if too_low_h rnd2 p v \<and> gp_cnt_thod p \<le> gc_down_gh c + 1 then 1 else 2))"
    using assms(1) unfolding v_def by (cases rule: gain_ok_cases) (simp_all add: gain_ops Let_def gain_defs f)
qed

text \<open>The samples of a channel one after the other.\<close>

definition run_channel :: "(real \<Rightarrow> real) \<Rightarrow> gain_para \<Rightarrow> int list \<Rightarrow> 'a gain_ch_scheme \<Rightarrow> 'a gain_ch_scheme" where
  "run_channel rnd2 p vs c = fold (\<lambda>v c. snd (gain_switch_channel rnd2 True p v c)) vs c"

lemma low_channel_step:
  assumes "gain_ok c" and "gc_now_gain c = 0" and "\<not> (too_high p (word_of_int v) \<and> gp_cnt_thod p \<le> gc_up_gl c + 1)"
  shows "gc_up_gl (snd (gain_switch_channel rnd2 True p v c)) = gc_up_gl c + of_bool (too_high p (word_of_int v))"
  using assms(1) by (cases rule: gain_ok_cases) (use assms(2,3) in \<open>auto simp: gain_ops Let_def gain_defs gain_ok_def\<close>)

lemma low_channel_counts:
  assumes "gain_ok c" and "gc_now_gain c = 0" and "gc_up_gl c = of_nat k" and "k + length (filter (\<lambda>v. too_high p (word_of_int v)) vs) < unat (gp_cnt_thod p)"
  shows "gain_ok (run_channel rnd2 p vs c) \<and> gc_now_gain (run_channel rnd2 p vs c) = 0
    \<and> gc_up_gl (run_channel rnd2 p vs c) = of_nat (k + length (filter (\<lambda>v. too_high p (word_of_int v)) vs))"
  using assms
proof (induction vs arbitrary: c k)
  case (Cons v vs)
  let ?c = "snd (gain_switch_channel rnd2 True p v c)"
  let ?h = "too_high p (word_of_int v)"
  have "\<not> gp_cnt_thod p \<le> gc_up_gl c + 1" if ?h
  proof -
    have "Suc k < unat (gp_cnt_thod p)" using Cons.prems(4) that by simp
    moreover have "gc_up_gl c + 1 = of_nat (Suc k)" using Cons.prems(3) by simp
    moreover then have "unat (gc_up_gl c + 1) = Suc k"
      using unsigned_less [of "gp_cnt_thod p", where ?'a = nat] calculation(1) by (simp add: unsigned_of_nat take_bit_nat_eq_self del: of_nat_Suc)
    ultimately show ?thesis by (simp add: word_le_nat_alt)
  qed
  then have n: "\<not> (?h \<and> gp_cnt_thod p \<le> gc_up_gl c + 1)" by blast
  have "gain_ok ?c" "gc_now_gain ?c = 0" using channel_gain [OF Cons.prems(1), of rnd2 p v] Cons.prems(2) n by auto
  moreover have "gc_up_gl ?c = of_nat (k + of_bool ?h)" using low_channel_step [OF Cons.prems(1,2) n] Cons.prems(3) by simp
  ultimately show ?case using Cons.IH [of ?c "k + of_bool ?h"] Cons.prems(4) by (cases ?h) (simp_all add: run_channel_def algebra_simps)
qed (simp add: run_channel_def)

text \<open>A channel at the low gain with its counters at 0 goes to the middle gain with exactly the sample that is the threshold's number of samples above the upper limit, however many
  samples within the limits lie between; before that sample its gain does not change.\<close>

theorem gain_rises_at_threshold:
  assumes "gain_ok c" and "gc_now_gain c = 0" and "gc_up_gl c = 0" and "too_high p (word_of_int v)"
    and "Suc (length (filter (\<lambda>v. too_high p (word_of_int v)) vs)) = unat (gp_cnt_thod p)"
  shows "gc_now_gain (run_channel rnd2 p vs c) = 0 \<and> gc_now_gain (run_channel rnd2 p (vs @ [v]) c) = 1
    \<and> gc_switch (run_channel rnd2 p (vs @ [v]) c) = GAIN_M"
proof (intro conjI)
  let ?n = "length (filter (\<lambda>v. too_high p (word_of_int v)) vs)"
  let ?c = "run_channel rnd2 p vs c"
  have c: "gain_ok ?c" "gc_now_gain ?c = 0" "gc_up_gl ?c = of_nat ?n" using low_channel_counts [of c 0 p vs rnd2] assms by auto
  then show "gc_now_gain ?c = 0" by simp
  have "gp_cnt_thod p = gc_up_gl ?c + 1" using arg_cong [OF assms(5), of "of_nat :: nat \<Rightarrow> u32"] c(3) by (simp add: add.commute)
  then have n: "gc_now_gain (snd (gain_switch_channel rnd2 True p v ?c)) = 1" "gain_ok (snd (gain_switch_channel rnd2 True p v ?c))"
    using channel_gain [OF c(1), of rnd2 p v] c(2) assms(4) by auto
  have e: "run_channel rnd2 p (vs @ [v]) c = snd (gain_switch_channel rnd2 True p v ?c)" by (simp add: run_channel_def)
  show "gc_now_gain (run_channel rnd2 p (vs @ [v]) c) = 1" using n(1) by (simp only: e)
  show "gc_switch (run_channel rnd2 p (vs @ [v]) c) = GAIN_M" unfolding e using n(2) by (cases rule: gain_ok_cases) (use n(1) in auto)
qed

definition wit_gain :: gain_para where
  "wit_gain = \<lparr>gp_upper = 3000000, gp_lowerml = 2500000, gp_lowerhm = 2500000, gp_k_lm = 50, gp_k_mh = 50, gp_cnt_thod = 3, gp_volt_discard = 10\<rparr>"

definition wit_channel :: gain_ch where
  "wit_channel = \<lparr>gc_up_gl = 0, gc_up_gm = 0, gc_down_gm = 0, gc_down_gh = 0, gc_now_gain = 0, gc_switch = 0, gc_flag = False, gc_gl_to_gm = 0,
     gc_gm_to_gh = 0, gc_gh_to_gm = 0, gc_gm_to_gl = 0, gc_volt_filter = 0, gc_last_volt_filter = 0\<rparr>"

theorem gain_rises_at_threshold_witness:
  "gc_now_gain (run_channel id wit_gain [3100000, 100, 3100000, 200] wit_channel) = 0
   \<and> gc_now_gain (run_channel id wit_gain ([3100000, 100, 3100000, 200] @ [3200000]) wit_channel) = 1"
  using gain_rises_at_threshold [of wit_channel wit_gain 3200000 "[3100000, 100, 3100000, 200]" id]
  by (simp add: wit_gain_def wit_channel_def gain_ok_def too_high_def)

text \<open>
  With correct channels a round switches at most one of them: the round reports -1 exactly if a gain changed, and then the channels
  after it are left alone.
\<close>

theorem gain_round_switches_at_most_one:
  fixes xs :: "(gain_para \<times> int \<times> 'a gain_ch_scheme) list"
  assumes "\<forall>(p, v, c) \<in> set xs. gain_ok c"
  shows "length (snd (gain_switch_process rnd2 True xs)) = length xs"
    and "\<forall>c \<in> set (snd (gain_switch_process rnd2 True xs)). gain_ok c"
    and "length (filter (\<lambda>((p, v, c), c'). gc_now_gain c' \<noteq> gc_now_gain c) (zip xs (snd (gain_switch_process rnd2 True xs))))
      = (if fst (gain_switch_process rnd2 True xs) = 0 then 0 else 1)"
    and "fst (gain_switch_process rnd2 True xs) \<in> {0, - 1}"
proof -
  have z: "filter (\<lambda>((p, v, c), c'). gc_now_gain c' \<noteq> gc_now_gain c) (zip ys (map (snd \<circ> snd) ys)) = []" for ys :: "(gain_para \<times> int \<times> 'a gain_ch_scheme) list"
    by (induction ys) auto
  have "length (snd (gain_switch_process rnd2 True xs)) = length xs
    \<and> (\<forall>c \<in> set (snd (gain_switch_process rnd2 True xs)). gain_ok c)
    \<and> length (filter (\<lambda>((p, v, c), c'). gc_now_gain c' \<noteq> gc_now_gain c) (zip xs (snd (gain_switch_process rnd2 True xs))))
      = (if fst (gain_switch_process rnd2 True xs) = 0 then 0 else 1)
    \<and> fst (gain_switch_process rnd2 True xs) \<in> {0, - 1}"
    using assms
  proof (induction xs)
    case (Cons x xs)
    obtain p v c where x: "x = (p, v, c)" by (cases x) auto
    have ok: "gain_ok c" using Cons.prems x by simp
    obtain sw c' where g: "gain_switch_channel rnd2 True p v c = (sw, c')" by (cases "gain_switch_channel rnd2 True p v c")
    have c': "gain_ok c'" "sw \<longleftrightarrow> gc_now_gain c' \<noteq> gc_now_gain c" using channel_gain(1,2) [OF ok, of rnd2 p v] g by auto
    show ?case
    proof (cases sw)
      case True
      then show ?thesis using Cons.prems c' by (auto simp: x g z)
    next
      case False
      then show ?thesis using Cons c' by (simp add: x g case_prod_unfold Let_def)
    qed
  qed simp
  then show "length (snd (gain_switch_process rnd2 True xs)) = length xs"
    "\<forall>c \<in> set (snd (gain_switch_process rnd2 True xs)). gain_ok c"
    "length (filter (\<lambda>((p, v, c), c'). gc_now_gain c' \<noteq> gc_now_gain c) (zip xs (snd (gain_switch_process rnd2 True xs))))
      = (if fst (gain_switch_process rnd2 True xs) = 0 then 0 else 1)"
    "fst (gain_switch_process rnd2 True xs) \<in> {0, - 1}" by blast+
qed

end
