(* ===== verification/Analogout.thy ===== *)
theory Analogout
  imports Monitor Soft_I2c
begin

text \<open>
  The analogue output: \<open>src/app/sys/analogout.c\<close> with the table of errors of \<open>self_check.c\<close> and the driver of the converter,
  \<open>src/bsp/dev/ltc2606.c\<close>, on the I2C bus.

  A float is the real number that it stands for, \<open>rnd\<close> the rounding to single precision. A division by zero and a conversion to an integer type that cannot
  hold the value, which the C standard leaves undefined, give \<open>None\<close>.
\<close>

subsection \<open>Conversions\<close>

definition c_trunc :: "real \<Rightarrow> int" where
  "c_trunc x = (if 0 \<le> x then \<lfloor>x\<rfloor> else \<lceil>x\<rceil>)"

definition to_int32 :: "real \<Rightarrow> int option" where
  "to_int32 x = (if - (2 ^ 31) \<le> c_trunc x \<and> c_trunc x < 2 ^ 31 then Some (c_trunc x) else None)"

definition to_u16 :: "real \<Rightarrow> u16 option" where
  "to_u16 x = (if 0 \<le> c_trunc x \<and> c_trunc x < 2 ^ 16 then Some (word_of_int (c_trunc x)) else None)"

definition fdiv :: "(real \<Rightarrow> real) \<Rightarrow> real \<Rightarrow> real \<Rightarrow> real option" where
  "fdiv rnd x y = (if y = 0 then None else Some (rnd (x / y)))"

subsection \<open>State\<close>

datatype ana_type = ANA_0_20MA | ANA_4_20MA | ANA_0_10V

definition ANA_OUT_AUTO :: u32 where "ANA_OUT_AUTO = 60000000"
definition ANA_VOLT_RANGE_MAX :: u8 where "ANA_VOLT_RANGE_MAX = 10"
definition ANA_VOLT_RANGE_MIN :: u8 where "ANA_VOLT_RANGE_MIN = 1"
definition CALIB_VOLT_HIGH :: real where "CALIB_VOLT_HIGH = 9500000"
definition CALIB_VOLT_LOW :: real where "CALIB_VOLT_LOW = 1000000"
definition CALIB_CURRENT_HIGH :: real where "CALIB_CURRENT_HIGH = 19500000"
definition CALIB_CURRENT_LOW :: real where "CALIB_CURRENT_LOW = 1000000"

definition ANA_ITOV_COEF :: "(real \<Rightarrow> real) \<Rightarrow> real" where "ANA_ITOV_COEF rnd = rnd (2 / 10)"
definition ANA_VTOV_COEF :: real where "ANA_VTOV_COEF = 1 / 2"

record ana_para =
  ap_type :: ana_type
  ap_upper :: real
  ap_lower :: real
  ap_exceed_min_range :: real
  ap_exceed_max_range :: real
  ap_real_curt_2ma :: u32
  ap_real_curt_20ma :: u32
  ap_real_volt_1v :: u32
  ap_real_volt_10v :: u32

record ana_status =
  temp_upper :: int
  temp_lower :: int
  current_range :: u8
  current_a :: real
  current_b :: real
  voltage_range :: u8
  voltage_a :: real
  voltage_b :: real

text \<open>The fields of the system state, the two error marks that are kept and the bus of the converter.\<close>

record ana_state =
  an_status :: ana_status
  ana_curt_value :: u32
  ana_volt_value :: u32
  ana_calib_flag :: u8
  ana_calib_value :: u32
  ana_temp_convert_flag :: u8
  ana_temp_convert_value :: real
  err_outrange :: bool
  err_ltc2606 :: bool
  an_bus :: i2c_bus

subsection \<open>The converter\<close>

definition LTC2606_I2C_ADDR :: u32 where "LTC2606_I2C_ADDR = 0x11"
definition LTC2606_WRITE_UPDATE_COMMAND :: u8 where "LTC2606_WRITE_UPDATE_COMMAND = 0x30"

definition ltc2606_init :: "i2c_bus \<Rightarrow> i2c_bus" where
  "ltc2606_init b = si2c_init b"

definition ltc2606_write :: "u32 \<Rightarrow> buf \<Rightarrow> i2c_bus \<Rightarrow> nat \<times> i2c_bus" where
  "ltc2606_write dev_addr buff b =
     (let b = si2c_start b; (r, b) = si2c_select dev_addr SI2C_OP_WRITE b in
      if r \<noteq> 0 then (0, si2c_stop b)
      else let (ret, b) = si2c_tx buff b in (ret, si2c_stop b))"

definition volt_to_dac_code :: "(real \<Rightarrow> real) \<Rightarrow> real \<Rightarrow> u16 option" where
  "volt_to_dac_code rnd volt = to_u16 (rnd (rnd (volt * 65535) / 5000000))"

definition dac_bytes :: "u16 \<Rightarrow> buf" where
  "dac_bytes code = [LTC2606_WRITE_UPDATE_COMMAND, ucast (drop_bit 8 code AND 0xFF), ucast (code AND 0xFF)]"

text \<open>The loop \<open>while (retry--)\<close>: the counter that it leaves has wrapped around and is not 0, so that the last result is returned.\<close>

fun ltc2606_retry :: "(real \<Rightarrow> real) \<Rightarrow> nat \<Rightarrow> real \<Rightarrow> i2c_bus \<Rightarrow> (nat \<times> i2c_bus) option" where
  "ltc2606_retry rnd 0 volt b = Some (0, b)"
| "ltc2606_retry rnd (Suc retry) volt b = do {
     dac_code \<leftarrow> volt_to_dac_code rnd volt;
     let (ret, b) = ltc2606_write LTC2606_I2C_ADDR (dac_bytes dac_code) b;
     if ret \<noteq> 0 then Some (ret, b) else ltc2606_retry rnd retry volt b }"

definition ltc2606_write_volt :: "(real \<Rightarrow> real) \<Rightarrow> real \<Rightarrow> i2c_bus \<Rightarrow> (nat \<times> i2c_bus) option" where
  "ltc2606_write_volt rnd volt b = (if volt > 5000000 then Some (0, b) else ltc2606_retry rnd 3 volt b)"

subsection \<open>The output\<close>

definition ana_threshold_range :: "ana_para \<Rightarrow> ana_status \<Rightarrow> ana_status" where
  "ana_threshold_range p st =
     (let st = (case ap_type p of ANA_0_20MA \<Rightarrow> st\<lparr>current_range := 20 - 0\<rparr> | ANA_4_20MA \<Rightarrow> st\<lparr>current_range := 20 - 4\<rparr> | _ \<Rightarrow> st)
      in st\<lparr>voltage_range := ANA_VOLT_RANGE_MAX - ANA_VOLT_RANGE_MIN\<rparr>)"

definition get_current_calib_para :: "(real \<Rightarrow> real) \<Rightarrow> ana_para \<Rightarrow> ana_state \<Rightarrow> ana_state" where
  "get_current_calib_para rnd p s =
     (let s = s\<lparr>ana_curt_value := ANA_OUT_AUTO, ana_volt_value := ANA_OUT_AUTO\<rparr>;
          low = rnd (real (unat (ap_real_curt_2ma p)));
          high = rnd (real (unat (ap_real_curt_20ma p)));
          a = rnd (rnd (high - low) / rnd (CALIB_CURRENT_HIGH - CALIB_CURRENT_LOW));
          b = rnd (high - rnd (a * rnd CALIB_CURRENT_HIGH))
      in s\<lparr>an_status := (an_status s)\<lparr>current_a := a, current_b := b\<rparr>\<rparr>)"

definition get_voltage_calib_para :: "(real \<Rightarrow> real) \<Rightarrow> ana_para \<Rightarrow> ana_state \<Rightarrow> ana_state" where
  "get_voltage_calib_para rnd p s =
     (let s = s\<lparr>ana_curt_value := ANA_OUT_AUTO, ana_volt_value := ANA_OUT_AUTO\<rparr>;
          low = rnd (real (unat (ap_real_volt_1v p)));
          high = rnd (real (unat (ap_real_volt_10v p)));
          a = rnd (rnd (high - low) / rnd (CALIB_VOLT_HIGH - CALIB_VOLT_LOW));
          b = rnd (high - rnd (a * rnd CALIB_VOLT_HIGH))
      in s\<lparr>an_status := (an_status s)\<lparr>voltage_a := a, voltage_b := b\<rparr>\<rparr>)"

definition anolog_out_init :: "(real \<Rightarrow> real) \<Rightarrow> ana_para \<Rightarrow> ana_state \<Rightarrow> ana_state option" where
  "anolog_out_init rnd p s = do {
     let s = s\<lparr>an_bus := ltc2606_init (an_bus s), ana_curt_value := ANA_OUT_AUTO, ana_volt_value := ANA_OUT_AUTO\<rparr>;
     lo \<leftarrow> to_int32 (rnd (ap_lower p * 100));
     hi \<leftarrow> to_int32 (rnd (ap_upper p * 100));
     let s = s\<lparr>an_status := ana_threshold_range p ((an_status s)\<lparr>temp_lower := lo, temp_upper := hi\<rparr>)\<rparr>;
     Some (if ap_type p \<noteq> ANA_0_10V then get_current_calib_para rnd p s else get_voltage_calib_para rnd p s) }"

text \<open>The temperature as a share of the range, in milliampere or volt.\<close>

definition range_value :: "(real \<Rightarrow> real) \<Rightarrow> ana_type \<Rightarrow> ana_status \<Rightarrow> int \<Rightarrow> real option" where
  "range_value rnd ty st real_temp =
     (if real_temp < temp_lower st then Some (case ty of ANA_0_20MA \<Rightarrow> 0 | ANA_4_20MA \<Rightarrow> 4 | ANA_0_10V \<Rightarrow> 1)
      else if real_temp > temp_upper st then Some (if ty \<noteq> ANA_0_10V then 20 else 10)
      else do {
        share \<leftarrow> fdiv rnd (rnd (of_int (real_temp - temp_lower st))) (rnd (of_int (temp_upper st - temp_lower st)));
        Some (if ty \<noteq> ANA_0_10V then
                let current = rnd (share * real (unat (current_range st))) in if ty = ANA_4_20MA then rnd (current + 4) else current
              else rnd (rnd (share * real (unat (voltage_range st))) + real (unat ANA_VOLT_RANGE_MIN))) })"

definition anolog_temp_convert :: "(real \<Rightarrow> real) \<Rightarrow> ana_para \<Rightarrow> real \<Rightarrow> ana_state \<Rightarrow> (real \<times> ana_state) option" where
  "anolog_temp_convert rnd p temp s = do {
     real_temp \<leftarrow> to_int32 (rnd (temp * 100));
     (real_temp, s) \<leftarrow> (if ana_temp_convert_flag s = 1 then do {
         t \<leftarrow> to_int32 (rnd (ana_temp_convert_value s * 100));
         Some (t, s\<lparr>ana_calib_flag := 0\<rparr>) }
       else Some (real_temp, s));
     bsp_val \<leftarrow> range_value rnd (ap_type p) (an_status s) real_temp;
     Some (if ana_calib_flag s = 1 then rnd (rnd (real (unat (ana_calib_value s))) / 1000000) else bsp_val, s) }"

text \<open>The columns \<open>analog_output\<close> of the table of errors, for 0-20 mA and for 4-20 mA.\<close>

definition err_analog :: "ana_para \<Rightarrow> int \<Rightarrow> real \<times> real" where
  "err_analog p i =
     (if i = 0 \<or> i = 1 \<or> i = 3 then (ap_exceed_max_range p, ap_exceed_max_range p) else (0, ap_exceed_min_range p))"

definition ERROR_ALL_CNT :: int where "ERROR_ALL_CNT = 7"

text \<open>The nominal current, in milliampere, when it is not set by hand.\<close>

definition auto_current :: "(real \<Rightarrow> real) \<Rightarrow> ana_para \<Rightarrow> u16 \<Rightarrow> real \<Rightarrow> ana_state \<Rightarrow> (real \<times> ana_state) option" where
  "auto_current rnd p error_flags target_temp s =
     (if ana_temp_convert_flag s = 1 then anolog_temp_convert rnd p target_temp s
      else let err_index = get_highest_error_index error_flags in
        if err_index \<ge> 0 \<and> err_index < ERROR_ALL_CNT then
          Some (if ap_type p = ANA_4_20MA then snd (err_analog p err_index) else fst (err_analog p err_index), s)
        else anolog_temp_convert rnd p target_temp s)"

definition calibrated :: "(real \<Rightarrow> real) \<Rightarrow> real \<Rightarrow> real \<Rightarrow> real \<Rightarrow> real \<Rightarrow> real option" where
  "calibrated rnd v a b coef = do { q \<leftarrow> fdiv rnd (rnd (rnd (v * 1000000) - b)) a; Some (rnd (q * coef)) }"

definition output_volt :: "(real \<Rightarrow> real) \<Rightarrow> ana_para \<Rightarrow> u16 \<Rightarrow> real \<Rightarrow> ana_state \<Rightarrow> (real \<times> ana_state) option" where
  "output_volt rnd p error_flags target_temp s =
     (if ap_type p \<noteq> ANA_0_10V then
        if ana_curt_value s = ANA_OUT_AUTO then do {
          (v, s) \<leftarrow> auto_current rnd p error_flags target_temp s;
          f \<leftarrow> calibrated rnd v (current_a (an_status s)) (current_b (an_status s)) (ANA_ITOV_COEF rnd);
          Some (f, s) }
        else Some (rnd (rnd (real (unat (ana_curt_value s))) * ANA_ITOV_COEF rnd), s)
      else if ana_volt_value s = ANA_OUT_AUTO then do {
          (v, s) \<leftarrow> anolog_temp_convert rnd p target_temp s;
          f \<leftarrow> calibrated rnd v (voltage_a (an_status s)) (voltage_b (an_status s)) ANA_VTOV_COEF;
          Some (f, s) }
        else Some (rnd (rnd (real (unat (ana_volt_value s))) * ANA_VTOV_COEF), s))"

definition analog_write_volt_lock :: "(real \<Rightarrow> real) \<Rightarrow> real \<Rightarrow> i2c_bus \<Rightarrow> (nat \<times> i2c_bus) option" where
  "analog_write_volt_lock rnd volt b = ltc2606_write_volt rnd volt b"

definition anolog_output :: "(real \<Rightarrow> real) \<Rightarrow> ana_para \<Rightarrow> u16 \<Rightarrow> real \<Rightarrow> ana_state \<Rightarrow> ana_state option" where
  "anolog_output rnd p error_flags target_temp s = do {
     (f_value, s) \<leftarrow> output_volt rnd p error_flags target_temp s;
     let s = s\<lparr>err_outrange := f_value > 5000000\<rparr>;
     (ret, b) \<leftarrow> analog_write_volt_lock rnd f_value (an_bus s);
     Some (s\<lparr>an_bus := b, err_ltc2606 := (ret = 0)\<rparr>) }"

subsection \<open>The range of the current\<close>




definition wit_status :: ana_status where
  "wit_status = \<lparr>temp_upper = 280000, temp_lower = 80000, current_range = 16, current_a = 1, current_b = 0, voltage_range = 9, voltage_a = 1, voltage_b = 0\<rparr>"


subsection \<open>Calibration\<close>

text \<open>In exact arithmetic the two-point calibration inverts the output stage: if the real current depends linearly on the nominal one and has the two measured values at the two points of
  the calibration, then the voltage that is written for a wanted current makes the real current the wanted one.\<close>

theorem current_calibration_is_exact:
  assumes "k * CALIB_CURRENT_LOW + d = real (unat (ap_real_curt_2ma p))" and "k * CALIB_CURRENT_HIGH + d = real (unat (ap_real_curt_20ma p))"
    and "ap_real_curt_2ma p \<noteq> ap_real_curt_20ma p"
  shows "let st = an_status (get_current_calib_para id p s)
    in \<exists>w. calibrated id v (current_a st) (current_b st) (ANA_ITOV_COEF id) = Some w \<and> k * (w / ANA_ITOV_COEF id) + d = v * 1000000"
proof -
  define lo hi where e: "lo = real (unat (ap_real_curt_2ma p))" "hi = real (unat (ap_real_curt_20ma p))"
  have l: "lo = k * 1000000 + d" "hi = k * 19500000 + d" using assms(1,2) by (simp_all add: e CALIB_CURRENT_LOW_def CALIB_CURRENT_HIGH_def)
  have u: "unsigned (ap_real_curt_2ma p) = lo" "unsigned (ap_real_curt_20ma p) = hi" by (simp_all add: e)
  have "hi \<noteq> lo" unfolding e using assms(3) by (metis of_nat_eq_iff word_unat_eq_iff)
  then have k: "k \<noteq> 0" using l by auto
  have "current_a (an_status (get_current_calib_para id p s)) = k" "current_b (an_status (get_current_calib_para id p s)) = d"
    by (simp_all add: get_current_calib_para_def Let_def CALIB_CURRENT_LOW_def CALIB_CURRENT_HIGH_def u l)
  moreover have "(5000000 * v - d * 5) / 5 + d = v * 1000000" by (simp add: diff_divide_distrib)
  ultimately show ?thesis using k by (simp add: Let_def calibrated_def fdiv_def ANA_ITOV_COEF_def)
qed

definition wit_ana_para :: ana_para where
  "wit_ana_para = \<lparr>ap_type = ANA_4_20MA, ap_upper = 2800, ap_lower = 800, ap_exceed_min_range = 5 / 2, ap_exceed_max_range = 21, ap_real_curt_2ma = 1100000,
     ap_real_curt_20ma = 19600000, ap_real_volt_1v = 1000000, ap_real_volt_10v = 10000000\<rparr>"

definition wit_ana_state :: "i2c_bus \<Rightarrow> ana_state" where
  "wit_ana_state b = \<lparr>an_status = wit_status, ana_curt_value = ANA_OUT_AUTO, ana_volt_value = ANA_OUT_AUTO, ana_calib_flag = 0, ana_calib_value = 0,
     ana_temp_convert_flag = 0, ana_temp_convert_value = 0, err_outrange = False, err_ltc2606 = True, an_bus = b\<rparr>"

text \<open>An output stage that gives 0.1 mA too much: for 12 mA the code asks for 11.9 mA.\<close>

theorem current_calibration_is_exact_witness:
  "\<exists>w. calibrated id 12 (current_a (an_status (get_current_calib_para id wit_ana_para (wit_ana_state (idle_bus (\<lambda>_. False))))))
     (current_b (an_status (get_current_calib_para id wit_ana_para (wit_ana_state (idle_bus (\<lambda>_. False)))))) (ANA_ITOV_COEF id) = Some w \<and> w * 5 = 11900000"
  using current_calibration_is_exact [of 1 100000 wit_ana_para "wit_ana_state (idle_bus (\<lambda>_. False))" 12]
  by (auto simp: wit_ana_para_def CALIB_CURRENT_LOW_def CALIB_CURRENT_HIGH_def ANA_ITOV_COEF_def Let_def)

subsection \<open>Errors on the output\<close>

text \<open>C39: From power-on, as long as the heater has a set point other than 0, the current output never shows the temperature: after any
  sequence of checks and measurements the nominal current is one of the two currents of an error, whatever the temperature is.\<close>

theorem current_output_shows_error_forever:
  assumes "\<forall>e \<in> set es. heater_on e" and "ap_type p \<noteq> ANA_0_10V" and "ana_temp_convert_flag s \<noteq> 1"
  shows "\<exists>v \<in> {ap_exceed_max_range p, if ap_type p = ANA_4_20MA then ap_exceed_min_range p else 0}.
    \<forall>temp. auto_current rnd p (fold (error_step rnd) es initial_error_flags) temp s = Some (v, s)"
proof -
  let ?i = "get_highest_error_index (fold (error_step rnd) es initial_error_flags)"
  let ?v = "if ap_type p = ANA_4_20MA then snd (err_analog p ?i) else fst (err_analog p ?i)"
  have i: "?i \<in> {0, 1, 2, 3}" using permanent_error [OF assms(1)] .
  then have "auto_current rnd p (fold (error_step rnd) es initial_error_flags) temp s = Some (?v, s)" for temp
    using assms(3) by (auto simp: auto_current_def Let_def ERROR_ALL_CNT_def)
  moreover have "?v \<in> {ap_exceed_max_range p, if ap_type p = ANA_4_20MA then ap_exceed_min_range p else 0}"
    using i by (auto simp: err_analog_def)
  ultimately show ?thesis by blast
qed

theorem current_output_shows_error_forever_witness:
  "\<exists>v \<in> {21, 5 / 2}. \<forall>temp. auto_current id wit_ana_para (fold (error_step id) [Upgrade wit_monitor, Temp_Report 0] initial_error_flags) temp
     (wit_ana_state (idle_bus (\<lambda>_. False))) = Some (v, wit_ana_state (idle_bus (\<lambda>_. False)))"
  using current_output_shows_error_forever [of "[Upgrade wit_monitor, Temp_Report 0]" wit_ana_para "wit_ana_state (idle_bus (\<lambda>_. False))" id]
  by (simp add: heater_on_def wit_monitor_def wit_ana_para_def wit_ana_state_def)

subsection \<open>Writing the converter\<close>

lemma ltc2606_write_send: "ltc2606_write addr buff b = si2c_send addr buff b"
  by (simp add: ltc2606_write_def si2c_send_def Let_def)

text \<open>Both ways of an acknowledgement, given at once or missing at every poll, end the first attempt.\<close>

lemma write_volt_first_attempt:
  assumes "i2_idle b" and "volt \<le> 5000000" and "volt_to_dac_code rnd volt = Some code"
    and "\<And>k. k \<le> 3 \<Longrightarrow> ack_takes m (i2_in b) (i2_reads b + m * k)"
  shows "\<exists>b'. ltc2606_write_volt rnd volt b = Some (3, b') \<and> i2_idle b'
    \<and> i2_seen b' = i2_seen b @ I2c_Start # i2_frame (addr_byte LTC2606_I2C_ADDR 0) @ concat (map i2_frame (dac_bytes code)) @ [I2c_Bit (Some False), I2c_Stop]"
proof -
  have l: "length (dac_bytes code) = 3" by (simp add: dac_bytes_def)
  obtain b' where "si2c_send LTC2606_I2C_ADDR (dac_bytes code) b = (3, b')" "i2_idle b'"
    "i2_seen b' = i2_seen b @ I2c_Start # i2_frame (addr_byte LTC2606_I2C_ADDR 0) @ concat (map i2_frame (dac_bytes code)) @ [I2c_Bit (Some False), I2c_Stop]"
    using send_frames [OF assms(1), of "dac_bytes code" m LTC2606_I2C_ADDR] assms(4) unfolding l by blast
  then show ?thesis using assms(2,3) by (simp add: ltc2606_write_volt_def numeral_3_eq_3 ltc2606_write_send)
qed

lemma dac_code_exact:
  assumes "0 \<le> volt" and "volt \<le> 5000000"
  shows "volt_to_dac_code id volt = Some (word_of_int \<lfloor>volt * 65535 / 5000000\<rfloor>)"
proof -
  have "0 \<le> volt * 65535 / 5000000" "volt * 65535 / 5000000 \<le> 65535" using assms by simp_all
  then have "0 \<le> \<lfloor>volt * 65535 / 5000000\<rfloor>" "\<lfloor>volt * 65535 / 5000000\<rfloor> < 65536" by linarith+
  then show ?thesis using assms by (simp add: volt_to_dac_code_def to_u16_def c_trunc_def)
qed

text \<open>C16: With a converter that acknowledges, an output voltage within the range reaches it: the bus carries the address, the command to write and update and the code of
  the voltage, and both error marks are cleared. With a voltage above 5 V nothing is sent and both marks are set.\<close>

theorem anolog_output_reaches_dac:
  assumes "output_volt rnd p flags temp s = Some (volt, s')" and "i2_idle (an_bus s')"
    and "\<forall>k \<le> 3. \<not> i2_in (an_bus s') (i2_reads (an_bus s') + k)"
  shows "(volt \<le> 5000000 \<longrightarrow> volt_to_dac_code rnd volt = Some code \<longrightarrow>
      (\<exists>s''. anolog_output rnd p flags temp s = Some s'' \<and> \<not> err_outrange s'' \<and> \<not> err_ltc2606 s'' \<and> i2_idle (an_bus s'')
        \<and> i2_seen (an_bus s'') = i2_seen (an_bus s') @ I2c_Start # i2_frame 0x22 @ concat (map i2_frame (dac_bytes code)) @ [I2c_Bit (Some False), I2c_Stop]))
    \<and> (volt > 5000000 \<longrightarrow> anolog_output rnd p flags temp s = Some (s'\<lparr>err_outrange := True, err_ltc2606 := True\<rparr>))"
proof -
  have a: "addr_byte LTC2606_I2C_ADDR 0 = 0x22" by (simp add: addr_byte_def LTC2606_I2C_ADDR_def)
  have "\<exists>s''. anolog_output rnd p flags temp s = Some s'' \<and> \<not> err_outrange s'' \<and> \<not> err_ltc2606 s'' \<and> i2_idle (an_bus s'')
        \<and> i2_seen (an_bus s'') = i2_seen (an_bus s') @ I2c_Start # i2_frame 0x22 @ concat (map i2_frame (dac_bytes code)) @ [I2c_Bit (Some False), I2c_Stop]"
    if v: "volt \<le> 5000000" "volt_to_dac_code rnd volt = Some code"
    using write_volt_first_attempt [OF assms(2) v, of 1] assms(1,3) v(1)
    by (auto simp: anolog_output_def analog_write_volt_lock_def ack_takes_def a)
  moreover have "anolog_output rnd p flags temp s = Some (s'\<lparr>err_outrange := True, err_ltc2606 := True\<rparr>)" if "volt > 5000000"
    using that assms(1) by (simp add: anolog_output_def analog_write_volt_lock_def ltc2606_write_volt_def)
  ultimately show ?thesis by blast
qed

text \<open>12 mA, no error, and the calibration of an ideal output stage: 2.4 V, the code 31456.\<close>

lemma wit_output_volt:
  "output_volt id wit_ana_para 0 1800 (wit_ana_state b) = Some (2400000, wit_ana_state b)"
  by (simp add: output_volt_def wit_ana_para_def wit_ana_state_def wit_status_def auto_current_def error_index_cases anolog_temp_convert_def to_int32_def
      c_trunc_def range_value_def fdiv_def calibrated_def ANA_ITOV_COEF_def)

theorem anolog_output_reaches_dac_witness:
  "\<exists>s''. anolog_output id wit_ana_para 0 1800 (wit_ana_state (idle_bus (\<lambda>_. False))) = Some s'' \<and> \<not> err_ltc2606 s''
     \<and> i2_seen (an_bus s'') = I2c_Start # i2_frame 0x22 @ concat (map i2_frame (dac_bytes 31456)) @ [I2c_Bit (Some False), I2c_Stop]"
proof -
  have "volt_to_dac_code id 2400000 = Some 31456" by (simp add: dac_code_exact)
  then show ?thesis
    using anolog_output_reaches_dac [OF wit_output_volt, of "idle_bus (\<lambda>_. False)" 31456] idle_bus_ok [of "\<lambda>_. False"]
    by (auto simp: wit_ana_state_def)
qed

text \<open>An absent converter is not noticed: the I2C bus takes the missing acknowledgement for one, and the error mark is cleared.\<close>

theorem absent_dac_is_reported_ok:
  assumes "output_volt rnd p flags temp s = Some (volt, s')" and "i2_idle (an_bus s')" and "i2_in (an_bus s') = (\<lambda>_. True)"
    and "volt \<le> 5000000" and "volt_to_dac_code rnd volt = Some code"
  shows "\<exists>s''. anolog_output rnd p flags temp s = Some s'' \<and> \<not> err_ltc2606 s''"
  using write_volt_first_attempt [OF assms(2,4,5), of 100] assms(1,3)
  by (auto simp: anolog_output_def analog_write_volt_lock_def ack_takes_def)

text \<open>
  The default parameters say that at nominal 1 V and 10 V the real voltages are 1 V and 10 V; the code takes them for the values at 1 V and 9.5 V. In exact arithmetic
  the output for a wanted voltage of 10 V is then too low.
\<close>

lemma default_voltage_calibration:
  assumes "ap_real_volt_1v p = 1000000" and "ap_real_volt_10v p = 10000000"
  shows "let st = an_status (get_voltage_calib_para id p s) in voltage_a st = 18 / 17 \<and> voltage_b st = - 1000000 / 17
    \<and> calibrated id 10 (voltage_a st) (voltage_b st) ANA_VTOV_COEF = Some 4750000"
  using assms by (simp add: Let_def get_voltage_calib_para_def CALIB_VOLT_HIGH_def CALIB_VOLT_LOW_def calibrated_def fdiv_def ANA_VTOV_COEF_def)

end
