(* ===== verification/Measure.thy ===== *)
theory Measure
  imports Analogout Hq_Filter Ad7124
begin

text \<open>
  The measurement of \<open>src/app/sys/measure.c\<close>: from the voltages of the two spectral channels to the reported temperature, with the switching of the gain, the filters, the
  compensations, the calibrations and the analogue output at the end of every round.

  Floating-point numbers are real numbers; \<open>rnd\<close> rounds to single and \<open>rnd2\<close> to double precision after every operation and for every
  constant that is not exact, and the functions of the mathematical library are the rounded real functions. \<open>None\<close> stands for what the C standard leaves undefined and for
  leaving the real numbers: an access outside of an array, a division by zero, a conversion to an integer type that cannot hold the value, a sum beyond 64 bits,
  the use of a variable that was never set. \<open>rand n\<close> is the \<open>n\<close>-th result of \<open>rand\<close>, used by the selection of the trimmed mean.
  Arrays over the spectral channels are lists: index 0 is the wide band, index 1 the narrow band.
\<close>

definition SENS_CH_SPEC_WB :: nat where "SENS_CH_SPEC_WB = 0"
definition SENS_CH_SPEC_NB :: nat where "SENS_CH_SPEC_NB = 1"
definition SENS_CH_SPEC_CNT :: nat where "SENS_CH_SPEC_CNT = 2"

definition to_int64 :: "real \<Rightarrow> int option" where
  "to_int64 x = (if - (2 ^ 63) \<le> c_trunc x \<and> c_trunc x < 2 ^ 63 then Some (c_trunc x) else None)"

definition nth_opt :: "'a list \<Rightarrow> nat \<Rightarrow> 'a option" where
  "nth_opt xs i = (if i < length xs then Some (xs ! i) else None)"

definition upd_opt :: "'a list \<Rightarrow> nat \<Rightarrow> 'a \<Rightarrow> 'a list option" where
  "upd_opt xs i v = (if i < length xs then Some (xs[i := v]) else None)"

subsection \<open>Parameters\<close>

text \<open>A coefficient is a mantissa and a decimal exponent.\<close>

type_synonym coef = "int \<times> int"

record log_seg =
  lp_threshold :: real
  lp_a :: coef
  lp_b :: coef

record algo_para =
  ag_log :: "log_seg list list"
  ag_poly_term :: u8
  ag_subtrahend :: real
  ag_poly :: "coef list"
  ag_w1 :: "real list"
  ag_b1 :: "real list"
  ag_w2 :: "real list"
  ag_b2 :: real

record temp_para =
  tp_emissivity :: real
  tp_trans :: "real list"
  tp_trans_interior :: "real list"
  tp_slope :: real
  tp_slope_interior :: real
  tp_temp_mode :: u32
  tp_valid_vol :: u32
  tp_ambient_comp_ctl :: u8
  tp_calib_gain :: "real list"
  tp_calib_offset :: "real list"
  tp_dev_min :: real
  tp_dev_max :: real

record filter_para =
  fp_buf_size :: u16
  fp_peak_time :: real
  fp_valley_time :: real
  fp_mode :: u8

definition PEAK_HOLDING :: u8 where "PEAK_HOLDING = 1"
definition VALLEY_HOLDING :: u8 where "VALLEY_HOLDING = 2"

subsection \<open>State\<close>

text \<open>A spectral channel: its gain, its voltages, the history of filtered voltages, the sliding window, the coefficients found last and the state of the smoothing.\<close>

record meas_ch = gain_ch +
  mc_volt_raw :: int
  mc_volt_norm :: int
  mc_compensate :: int
  mc_hist :: "real list"
  mc_hist_front :: nat
  mc_hist_count :: nat
  mc_hist_size :: nat
  mc_slid :: slid_remove
  mc_coef_a :: real
  mc_coef_b :: real
  mc_smooth_last :: real
  mc_smooth_count :: u32
  mc_smooth_sta :: bool
  mc_discard_status :: u8

record meas =
  me_ch :: "meas_ch list"
  me_ntc_raw_spec :: int
  me_ntc_raw_tia :: int
  me_ntc_filter :: int
  me_ntc_slid :: slid_remove
  me_filter_buffer :: "int list"
  me_filter_buffer_ntc :: "int list"
  me_rand :: nat
  me_holding :: "slid_holding list"
  me_sample_started :: bool
  me_exti :: bool
  me_timer4 :: bool
  me_temp :: temp_para
  me_out_range :: "int list"
  me_single_temp :: "real list"
  me_ratio_temp :: real
  me_ratio_nerve :: real
  me_target_temp :: real
  me_attenuation :: real
  me_internal_spec :: real
  me_internal_tia :: real
  me_target_volt :: "int list"
  me_output_volt :: "u32 list"
  me_two_calib_open :: u8
  me_low_set :: "real list"
  me_low_real :: "real list"
  me_high_set :: "real list"
  me_high_real :: "real list"
  me_err :: u16

definition upd_ch :: "nat \<Rightarrow> (meas_ch \<Rightarrow> meas_ch) \<Rightarrow> meas \<Rightarrow> meas" where
  "upd_ch i f s = s\<lparr>me_ch := (me_ch s)[i := f (me_ch s ! i)]\<rparr>"

subsection \<open>Voltages\<close>

definition adc_to_voltage :: "(real \<Rightarrow> real) \<Rightarrow> u32 \<Rightarrow> real" where
  "adc_to_voltage rnd adc = rnd (rnd (rnd (real (unat adc)) * 3300000) / 2 ^ 24)"

definition gain_factor :: "(real \<Rightarrow> real) \<Rightarrow> (real \<Rightarrow> real) \<Rightarrow> gain_para \<Rightarrow> u32 \<Rightarrow> real" where
  "gain_factor rnd rnd2 p gain =
     rnd (if gain = 1 then gp_k_lm p else if gain = 2 then rnd2 (gp_k_mh p * gp_k_lm p) else 1)"

text \<open>The result is 0 when the processing goes on.\<close>

fun volt_norm_loop :: "(real \<Rightarrow> real) \<Rightarrow> (real \<Rightarrow> real) \<Rightarrow> gain_para list \<Rightarrow> nat list \<Rightarrow> meas \<Rightarrow> (int \<times> meas) option" where
  "volt_norm_loop rnd rnd2 gp [] s = Some (0, s)"
| "volt_norm_loop rnd rnd2 gp (i # is) s =
     (let c = me_ch s ! i in
      if mc_volt_raw c < 0 \<or> mc_volt_raw c > 3299999 then Some (- 1, s)
      else do {
        v \<leftarrow> to_int64 (rnd (rnd (of_int (mc_volt_raw c)) * gain_factor rnd rnd2 (gp ! i) (gc_now_gain c)));
        volt_norm_loop rnd rnd2 gp is (upd_ch i (\<lambda>c. c\<lparr>mc_volt_norm := v\<rparr>) s) })"

definition volt_normalization :: "(real \<Rightarrow> real) \<Rightarrow> (real \<Rightarrow> real) \<Rightarrow> gain_para list \<Rightarrow> meas \<Rightarrow> (int \<times> meas) option" where
  "volt_normalization rnd rnd2 gp s = volt_norm_loop rnd rnd2 gp [0, 1] s"

definition gain_status_init :: "meas \<Rightarrow> meas" where
  "gain_status_init s = s\<lparr>me_ch := map (\<lambda>c. c\<lparr>mc_hist_size := 20, mc_hist_count := 0, mc_hist_front := 0, gc_gl_to_gm := 0, gc_gm_to_gh := 0, gc_gh_to_gm := 0,
     gc_gm_to_gl := 0\<rparr>) (me_ch s)\<rparr>"

definition count_down :: "meas_ch \<Rightarrow> meas_ch" where
  "count_down c =
     (if gc_gl_to_gm c \<noteq> 0 then c\<lparr>gc_gl_to_gm := gc_gl_to_gm c - 1\<rparr>
      else if gc_gm_to_gh c \<noteq> 0 then c\<lparr>gc_gm_to_gh := gc_gm_to_gh c - 1\<rparr>
      else if gc_gh_to_gm c \<noteq> 0 then c\<lparr>gc_gh_to_gm := gc_gh_to_gm c - 1\<rparr>
      else if gc_gm_to_gl c \<noteq> 0 then c\<lparr>gc_gm_to_gl := gc_gm_to_gl c - 1\<rparr> else c)"

definition insert_channel :: "(real \<Rightarrow> real) \<Rightarrow> meas_ch \<Rightarrow> meas_ch option" where
  "insert_channel rnd c =
     (if gc_gl_to_gm c = 0 \<and> gc_gm_to_gh c = 0 \<and> gc_gh_to_gm c = 0 \<and> gc_gm_to_gl c = 0 then Some c
      else do {
        let c = count_down c;
        let tail = (mc_hist_front c + 1) mod mc_hist_size c;
        let base = sr_buff (mc_slid c) ! ((sr_front (mc_slid c) + FILTER_LEN_MAX - 1) mod FILTER_LEN_MAX);
        slope \<leftarrow> fdiv rnd (rnd (mc_hist c ! mc_hist_front c - mc_hist c ! tail)) (rnd (rnd (real (mc_hist_count c)) - 1));
        v \<leftarrow> to_int64 (rnd (rnd (of_int base) + slope));
        Some (c\<lparr>mc_volt_norm := v\<rparr>) })"

definition gain_temp_insert :: "(real \<Rightarrow> real) \<Rightarrow> meas \<Rightarrow> meas option" where
  "gain_temp_insert rnd s = do {
     wb \<leftarrow> insert_channel rnd (me_ch s ! 0);
     nb \<leftarrow> insert_channel rnd (me_ch s ! 1);
     Some (s\<lparr>me_ch := [wb, nb]\<rparr>) }"

text \<open>
  The sliding average of a channel with its row of the array \<open>filter_buffer[2][20]\<close>: the copy of a full window starts at the row's beginning and is undefined when it
  goes beyond the array.
\<close>

definition FILTER_ROW :: nat where "FILTER_ROW = 20"

definition filter_row :: "(nat \<Rightarrow> nat) \<Rightarrow> nat \<Rightarrow> nat \<Rightarrow> meas \<Rightarrow> (int \<times> meas) option" where
  "filter_row rand sz i s =
     (let c = me_ch s ! i; row = FILTER_ROW * i; s' = add_sample (mc_slid c) sz (mc_volt_norm c) in
      if \<not> sr_count s' < sz \<and> row + sz > FILTER_ROW * SENS_CH_SPEC_CNT then None
      else do {
        (v, sl, b, n) \<leftarrow> sliding_remove_average rand (me_rand s) (mc_slid c) sz (mc_volt_norm c) (drop row (me_filter_buffer s));
        Some (v, upd_ch i (\<lambda>c. c\<lparr>mc_slid := sl, gc_volt_filter := v\<rparr>) (s\<lparr>me_filter_buffer := take row (me_filter_buffer s) @ b, me_rand := n\<rparr>)) })"

definition add_history :: "(real \<Rightarrow> real) \<Rightarrow> meas_ch \<Rightarrow> meas_ch option" where
  "add_history rnd c =
     (let v = rnd (of_int (gc_volt_filter c)) in
      if mc_hist_count c \<ge> mc_hist_size c then
        let f = (mc_hist_front c + 1) mod mc_hist_size c in do { h \<leftarrow> upd_opt (mc_hist c) f v; Some (c\<lparr>mc_hist_front := f, mc_hist := h\<rparr>) }
      else do { h \<leftarrow> upd_opt (mc_hist c) (mc_hist_front c + mc_hist_count c) v; Some (c\<lparr>mc_hist := h, mc_hist_count := mc_hist_count c + 1\<rparr>) })"

definition NTC_TEMP_AVER_LEN :: nat where "NTC_TEMP_AVER_LEN = 20"

definition buf_size :: "filter_para \<Rightarrow> nat" where
  "buf_size fp = (if unat (fp_buf_size fp) < FILTER_LEN_MAX then unat (fp_buf_size fp) else 25)"

definition filter_channel :: "(real \<Rightarrow> real) \<Rightarrow> (nat \<Rightarrow> nat) \<Rightarrow> filter_para \<Rightarrow> nat \<Rightarrow> meas \<Rightarrow> meas option" where
  "filter_channel rnd rand fp i s = do {
     (v, s) \<leftarrow> filter_row rand (buf_size fp) i s;
     c \<leftarrow> add_history rnd (me_ch s ! i);
     Some (upd_ch i (\<lambda>_. c) s) }"

definition volt_remove_average_filter :: "(real \<Rightarrow> real) \<Rightarrow> (nat \<Rightarrow> nat) \<Rightarrow> filter_para \<Rightarrow> meas \<Rightarrow> meas option" where
  "volt_remove_average_filter rnd rand fp s = do {
     s \<leftarrow> filter_channel rnd rand fp 0 s;
     s \<leftarrow> filter_channel rnd rand fp 1 s;
     (v, sl, b, n) \<leftarrow> sliding_remove_average rand (me_rand s) (me_ntc_slid s) NTC_TEMP_AVER_LEN (me_ntc_raw_spec s) (me_filter_buffer_ntc s);
     Some (s\<lparr>me_ntc_filter := v, me_ntc_slid := sl, me_filter_buffer_ntc := b, me_rand := n\<rparr>) }"

subsection \<open>Internal temperature\<close>

definition NTC_REF_VOL :: u32 where "NTC_REF_VOL = 2500000"

definition get_ntc_res :: "(real \<Rightarrow> real) \<Rightarrow> u32 \<Rightarrow> real" where
  "get_ntc_res rnd volt_uv =
     (if volt_uv \<ge> NTC_REF_VOL \<or> volt_uv \<le> 0 then - 1
      else rnd (rnd (rnd (real (unat volt_uv)) * 4700) / rnd (real (unat (NTC_REF_VOL - volt_uv)))))"

definition get_ntc_temp :: "(real \<Rightarrow> real) \<Rightarrow> (real \<Rightarrow> real) \<Rightarrow> real \<Rightarrow> real option" where
  "get_ntc_temp rnd rnd2 res =
     (if res \<le> 0 then Some (- 275)
      else do {
        let l = rnd (rnd2 (ln (rnd (res / 100000))));
        let r = rnd (rnd (l / 4100) + rnd (1 / rnd (rnd (27315 / 100) + 25)));
        q \<leftarrow> fdiv rnd 1 r;
        Some (rnd (q - rnd (27315 / 100))) })"

definition get_internal_temp :: "(real \<Rightarrow> real) \<Rightarrow> (real \<Rightarrow> real) \<Rightarrow> meas \<Rightarrow> meas option" where
  "get_internal_temp rnd rnd2 s = do {
     a \<leftarrow> get_ntc_temp rnd rnd2 (get_ntc_res rnd (word_of_int (me_ntc_filter s)));
     b \<leftarrow> get_ntc_temp rnd rnd2 (get_ntc_res rnd (word_of_int (me_ntc_raw_tia s)));
     Some (s\<lparr>me_internal_spec := a, me_internal_tia := b\<rparr>) }"

definition power_coef :: "(real \<Rightarrow> real) \<Rightarrow> nat \<Rightarrow> real \<Rightarrow> real" where
  "power_coef rnd2 spec x =
     (if spec = 0 then rnd2 (rnd2 (rnd2 (- rnd2 (206134814 / 10 ^ 14) * rnd2 (x ^ 2)) - rnd2 (rnd2 (110086024 / 10 ^ 11) * x)) - rnd2 (839013272 / 10 ^ 12))
      else if spec = 1 then rnd2 (rnd2 (rnd2 (- rnd2 (249380851 / 10 ^ 14) * rnd2 (x ^ 2)) - rnd2 (rnd2 (871315941 / 10 ^ 12) * x)) - rnd2 (905925763 / 10 ^ 12))
      else 0)"

definition internal_temp_power_compensate :: "(real \<Rightarrow> real) \<Rightarrow> (real \<Rightarrow> real) \<Rightarrow> meas \<Rightarrow> int \<Rightarrow> nat \<Rightarrow> int option" where
  "internal_temp_power_compensate rnd rnd2 s raw spec =
     (let x = rnd (rnd (of_int raw) / 1000000); k = power_coef rnd2 spec x; m = rnd2 (k * rnd (me_internal_tia s - 45))
      in to_int64 (rnd2 (rnd2 (x - m) * 1000000)))"

definition calibrate_channel :: "(real \<Rightarrow> real) \<Rightarrow> (real \<Rightarrow> real) \<Rightarrow> nat \<Rightarrow> meas \<Rightarrow> meas option" where
  "calibrate_channel rnd rnd2 i s = do {
     let c = me_ch s ! i;
     v \<leftarrow> (if tp_ambient_comp_ctl (me_temp s) = 1 then internal_temp_power_compensate rnd rnd2 s (gc_volt_filter c) i else Some (gc_volt_filter c));
     Some ((upd_ch i (\<lambda>c. c\<lparr>mc_compensate := v\<rparr>) s)\<lparr>me_output_volt := (me_output_volt s)[i := word_of_int v]\<rparr>) }"

definition internal_temp_calibrate :: "(real \<Rightarrow> real) \<Rightarrow> (real \<Rightarrow> real) \<Rightarrow> meas \<Rightarrow> meas option" where
  "internal_temp_calibrate rnd rnd2 s = do { s \<leftarrow> calibrate_channel rnd rnd2 0 s; calibrate_channel rnd rnd2 1 s }"

subsection \<open>Temperatures\<close>

definition pow10 :: "int \<Rightarrow> real" where
  "pow10 k = (if 0 \<le> k then 10 ^ nat k else 1 / 10 ^ nat (- k))"

definition coef_value :: "(real \<Rightarrow> real) \<Rightarrow> coef \<Rightarrow> real" where
  "coef_value rnd2 c = rnd2 (rnd2 (of_int (fst c)) * rnd2 (pow10 (snd c)))"

definition get_sin_coefficient :: "(real \<Rightarrow> real) \<Rightarrow> (real \<Rightarrow> real) \<Rightarrow> algo_para \<Rightarrow> real \<Rightarrow> nat \<Rightarrow> real \<times> real" where
  "get_sin_coefficient rnd rnd2 ag compes_volt spec =
     (let thr = rnd (lp_threshold (ag_log ag ! spec ! 0)); seg = ag_log ag ! spec ! (if thr = 0 \<or> compes_volt < thr then 0 else 1)
      in (coef_value rnd2 (lp_a seg), coef_value rnd2 (lp_b seg)))"

text \<open>The product of emissivity and transmissions, in single precision.\<close>

definition transmission :: "(real \<Rightarrow> real) \<Rightarrow> temp_para \<Rightarrow> nat \<Rightarrow> real" where
  "transmission rnd t ch = rnd (rnd (tp_emissivity t * tp_trans t ! ch) * tp_trans_interior t ! ch)"

definition get_single_temp :: "(real \<Rightarrow> real) \<Rightarrow> (real \<Rightarrow> real) \<Rightarrow> algo_para \<Rightarrow> int \<Rightarrow> nat \<Rightarrow> meas \<Rightarrow> (real \<times> meas) option" where
  "get_single_temp rnd rnd2 ag voltage ch s = do {
     v \<leftarrow> fdiv rnd2 (rnd (rnd (of_int voltage) / 1000000)) (transmission rnd (me_temp s) ch);
     let (a, b) = get_sin_coefficient rnd rnd2 ag (rnd v) ch;
     let s = upd_ch ch (\<lambda>c. c\<lparr>mc_coef_a := a, mc_coef_b := b\<rparr>) s;
     if v > 0 then do { q \<leftarrow> fdiv rnd2 1 (rnd2 (rnd2 (a * rnd2 (ln v)) + b)); Some (rnd (rnd2 (q - rnd (27315 / 100))), s) }
     else None }"

fun poly_loop :: "(real \<Rightarrow> real) \<Rightarrow> coef list \<Rightarrow> real \<Rightarrow> nat \<Rightarrow> nat \<Rightarrow> real \<Rightarrow> real option" where
  "poly_loop rnd2 cs x i 0 acc = Some acc"
| "poly_loop rnd2 cs x i (Suc n) acc = do {
     c \<leftarrow> nth_opt cs i;
     let m = rnd2 (x ^ i);
     let m = rnd2 (m * rnd2 (of_int (fst c)));
     let m = rnd2 (m * rnd2 (pow10 (snd c)));
     poly_loop rnd2 cs x (Suc i) n (rnd2 (acc + m)) }"

definition get_multi_coefficient :: "(real \<Rightarrow> real) \<Rightarrow> algo_para \<Rightarrow> real \<Rightarrow> u8 \<Rightarrow> real option" where
  "get_multi_coefficient rnd2 ag x poly_num = poly_loop rnd2 (ag_poly ag) x 0 (unat poly_num) 0"

text \<open>The network of one hidden layer with 64 units.\<close>

definition ratio2temp :: "(real \<Rightarrow> real) \<Rightarrow> algo_para \<Rightarrow> real \<Rightarrow> real" where
  "ratio2temp rnd ag ratio =
     (let fc1 = map (\<lambda>i. rnd (rnd (ag_w1 ag ! i * ratio) + ag_b1 ag ! i)) [0..<64];
          relu = map (\<lambda>x. if x > 0 then x else 0) fc1;
          out = fold (\<lambda>i acc. rnd (acc + rnd (ag_w2 ag ! i * relu ! i))) [0..<64] 0
      in rnd (out + ag_b2 ag))"

definition compensated_volt :: "(real \<Rightarrow> real) \<Rightarrow> meas \<Rightarrow> nat \<Rightarrow> real option" where
  "compensated_volt rnd s i = fdiv rnd (rnd (of_int (mc_compensate (me_ch s ! i)))) (transmission rnd (me_temp s) i)"

definition get_ratio_temp :: "(real \<Rightarrow> real) \<Rightarrow> (real \<Rightarrow> real) \<Rightarrow> algo_para \<Rightarrow> meas \<Rightarrow> (real \<times> meas) option" where
  "get_ratio_temp rnd rnd2 ag s = do {
     wb \<leftarrow> compensated_volt rnd s SENS_CH_SPEC_WB;
     nb \<leftarrow> compensated_volt rnd s SENS_CH_SPEC_NB;
     r \<leftarrow> fdiv rnd2 wb nb;
     r \<leftarrow> fdiv rnd2 r (tp_slope (me_temp s));
     r \<leftarrow> fdiv rnd2 r (tp_slope_interior (me_temp s));
     let r = rnd2 (r - rnd (ag_subtrahend ag * 1000));
     t \<leftarrow> get_multi_coefficient rnd2 ag (rnd r) (ag_poly_term ag);
     Some (rnd t, s\<lparr>me_ratio_nerve := ratio2temp rnd ag (rnd r)\<rparr>) }"

definition get_attenuation_rate :: "(real \<Rightarrow> real) \<Rightarrow> (real \<Rightarrow> real) \<Rightarrow> meas \<Rightarrow> real \<Rightarrow> real option" where
  "get_attenuation_rate rnd rnd2 s temp = do {
     let c = me_ch s ! SENS_CH_SPEC_NB;
     m \<leftarrow> fdiv rnd2 1 (rnd2 (temp + rnd (27315 / 100)));
     e \<leftarrow> fdiv rnd2 (rnd2 (m - mc_coef_b c)) (mc_coef_a c);
     q \<leftarrow> fdiv rnd2 (rnd (rnd (of_int (mc_compensate c)) / 1000000)) (rnd2 (exp e));
     let d = rnd (rnd2 (1 - q));
     Some (if d > 0 \<and> d < 1 then d else 0) }"

text \<open>The two-point calibration: when it was asked for, the gain and offset of this mode are computed; the request is taken back in any case.\<close>

definition two_point_update :: "(real \<Rightarrow> real) \<Rightarrow> nat \<Rightarrow> meas \<Rightarrow> meas option" where
  "two_point_update rnd m s =
     (let s = s\<lparr>me_two_calib_open := 0\<rparr>; ls = me_low_set s ! m; lr = me_low_real s ! m; hs = me_high_set s ! m; hr = me_high_real s ! m; t = me_temp s in
      if rnd (hr - lr) \<noteq> 0 then
        let k = rnd (rnd (hs - ls) / rnd (hr - lr))
        in Some (s\<lparr>me_temp := t\<lparr>tp_calib_gain := (tp_calib_gain t)[m := k], tp_calib_offset := (tp_calib_offset t)[m := rnd (hs - rnd (k * hr))]\<rparr>\<rparr>)
      else Some s)"

definition temp_two_point_calibrate :: "(real \<Rightarrow> real) \<Rightarrow> real \<Rightarrow> nat \<Rightarrow> meas \<Rightarrow> (real \<times> meas) option" where
  "temp_two_point_calibrate rnd raw_temp mode s = do {
     let m = (if mode \<ge> 3 then 2 else mode);
     s \<leftarrow> (if me_two_calib_open s = 1 then two_point_update rnd m s else Some s);
     Some (rnd (rnd (tp_calib_gain (me_temp s) ! m * raw_temp) + tp_calib_offset (me_temp s) ! m), s) }"

subsection \<open>Smoothing after a switch\<close>

definition smooth_table_100 :: "(real \<Rightarrow> real) \<Rightarrow> real list" where
  "smooth_table_100 rnd = map (\<lambda>n. rnd (n / 10 ^ 11))
     [29125283, 115604700, 258525960, 456961110, 709966760, 1016584300, 1375839900, 1786745400, 2248297500, 2759479000, 3319258400,
      3926590600, 4580416700, 5279664600, 6023249300, 6810072800, 7639024900, 8508983100, 9418813100, 10367369000, 11353493000,
      12376018000, 13433765000, 14525545000, 15650158000, 16806397000, 17993043000, 19208869000, 20452641000, 21723113000, 23019034000,
      24339146000, 25682182000, 27046869000, 28431927000, 29836070000, 31258008000, 32696443000, 34150074000, 35617594000, 37097695000,
      38589061000, 40090374000, 41600316000, 43117563000, 44640789000, 46168667000, 47699870000, 49233068000, 50766932000, 52300130000,
      53831333000, 55359211000, 56882437000, 58399684000, 59909626000, 61410939000, 62902305000, 64382406000, 65849926000, 67303557000,
      68741992000, 70163930000, 71568073000, 72953131000, 74317818000, 75660854000, 76980966000, 78276887000, 79547359000, 80791131000,
      82006957000, 83193603000, 84349842000, 85474455000, 86566235000, 87623982000, 88646507000, 89632631000, 90581187000, 91491017000,
      92360975000, 93189927000, 93976751000, 94720335000, 95419583000, 96073409000, 96680742000, 97240521000, 97751703000, 98213255000,
      98624160000, 98983416000, 99290033000, 99543039000, 99741474000, 99884395000, 99970875000, 100000000000, 99970875000]"

definition switch_temp_smooth :: "(real \<Rightarrow> real) \<Rightarrow> int \<Rightarrow> real \<Rightarrow> meas_ch \<Rightarrow> (real \<times> meas_ch) option" where
  "switch_temp_smooth rnd smoothCount currentTemp c = do {
     d \<leftarrow> to_int32 (rnd (mc_smooth_last c - currentTemp));
     if \<bar>d\<bar> > 70 then Some (currentTemp, c\<lparr>mc_smooth_sta := False, mc_smooth_count := 0\<rparr>)
     else do {
       w \<leftarrow> nth_opt (smooth_table_100 rnd) (unat (mc_smooth_count c));
       let t = rnd (mc_smooth_last c + rnd (rnd (rnd (currentTemp - mc_smooth_last c) * w) / 8));
       let c = c\<lparr>mc_smooth_last := t, mc_smooth_count := mc_smooth_count c + 1\<rparr>;
       Some (t, if mc_smooth_count c > word_of_int smoothCount then c\<lparr>mc_smooth_count := 0, mc_smooth_sta := False\<rparr> else c) } }"

subsection \<open>The reported temperature\<close>

text \<open>The comparison of a temperature with the range of the device: the flag and the temperature that remain.\<close>

definition range_check :: "temp_para \<Rightarrow> real \<Rightarrow> int \<Rightarrow> int \<times> real" where
  "range_check t x flag =
     (if x > tp_dev_min t \<and> x < tp_dev_max t then (0, x) else if x < tp_dev_min t then (- 1, 0) else if x > tp_dev_max t then (1, 0) else (flag, x))"

definition single_step :: "(real \<Rightarrow> real) \<Rightarrow> (real \<Rightarrow> real) \<Rightarrow> algo_para \<Rightarrow> nat \<Rightarrow> meas \<Rightarrow> (real \<times> meas) option" where
  "single_step rnd rnd2 ag i s = do {
     (t, s) \<leftarrow> get_single_temp rnd rnd2 ag (mc_compensate (me_ch s ! i)) i s;
     (t, s) \<leftarrow> temp_two_point_calibrate rnd t i s;
     let (f, t) = range_check (me_temp s) t (me_out_range s ! i);
     Some (t, s\<lparr>me_out_range := (me_out_range s)[i := f]\<rparr>) }"

definition apply_smoothing :: "(real \<Rightarrow> real) \<Rightarrow> real \<Rightarrow> meas \<Rightarrow> (real \<times> meas) option" where
  "apply_smoothing rnd t s =
     (if mc_smooth_sta (me_ch s ! SENS_CH_SPEC_WB) then do {
        (t, c) \<leftarrow> switch_temp_smooth rnd 100 t (me_ch s ! SENS_CH_SPEC_WB);
        Some (t, upd_ch SENS_CH_SPEC_WB (\<lambda>_. c) s) }
      else Some (t, s))"

definition ratio_step :: "(real \<Rightarrow> real) \<Rightarrow> (real \<Rightarrow> real) \<Rightarrow> algo_para \<Rightarrow> meas \<Rightarrow> (real \<times> meas) option" where
  "ratio_step rnd rnd2 ag s = do {
     (t, s) \<leftarrow> get_ratio_temp rnd rnd2 ag s;
     (t, s) \<leftarrow> temp_two_point_calibrate rnd t 2 s;
     d \<leftarrow> get_attenuation_rate rnd rnd2 s t;
     let s = s\<lparr>me_attenuation := d\<rparr>;
     (t, s) \<leftarrow> apply_smoothing rnd t s;
     let (f, t) = range_check (me_temp s) t (me_out_range s ! 2);
     Some (t, s\<lparr>me_out_range := (me_out_range s)[2 := f]\<rparr>) }"

text \<open>The temperatures of the wide band, the narrow band and the ratio.\<close>

definition all_temps :: "(real \<Rightarrow> real) \<Rightarrow> (real \<Rightarrow> real) \<Rightarrow> algo_para \<Rightarrow> meas \<Rightarrow> ((real \<times> real \<times> real) \<times> meas) option" where
  "all_temps rnd rnd2 ag s =
     (if (word_of_int (me_target_volt s ! SENS_CH_SPEC_NB) :: u32) < tp_valid_vol (me_temp s) then
        Some ((0, 0, 0), s\<lparr>me_out_range := [- 1, - 1, - 1], me_err := error_state_clear ERR_DETECTOR_FAULT (error_state_set ERR_ENERGY_LOW (me_err s))\<rparr>)
      else do {
        (w, s) \<leftarrow> single_step rnd rnd2 ag 0 s;
        (n, s) \<leftarrow> single_step rnd rnd2 ag 1 s;
        (r, s) \<leftarrow> ratio_step rnd rnd2 ag s;
        Some ((w, n, r), s) })"

definition holding_tick :: "(real \<Rightarrow> real) \<Rightarrow> real \<Rightarrow> slid_holding \<Rightarrow> slid_holding" where
  "holding_tick rnd time h =
     (if rnd (real (unat (sh_count h))) = rnd (time * 10) then h\<lparr>sh_count := 0\<rparr>
      else if sh_count h \<noteq> 0 then h\<lparr>sh_count := sh_count h + 1\<rparr> else h)"

fun holding_ticks :: "(real \<Rightarrow> real) \<Rightarrow> real \<Rightarrow> nat list \<Rightarrow> slid_holding list \<Rightarrow> slid_holding list option" where
  "holding_ticks rnd time [] hs = Some hs"
| "holding_ticks rnd time (i # is) hs = do { h \<leftarrow> nth_opt hs i; holding_ticks rnd time is (hs[i := holding_tick rnd time h]) }"

definition timer4_trigger_callback :: "(real \<Rightarrow> real) \<Rightarrow> filter_para \<Rightarrow> meas \<Rightarrow> meas option" where
  "timer4_trigger_callback rnd fp s =
     (if me_timer4 s then do {
        let s = s\<lparr>me_timer4 := False\<rparr>;
        hs \<leftarrow> (if fp_mode fp = PEAK_HOLDING then holding_ticks rnd (fp_peak_time fp) [0, 1, 2] (me_holding s)
               else if fp_mode fp = VALLEY_HOLDING then holding_ticks rnd (fp_valley_time fp) [0, 1, 2] (me_holding s)
               else Some (me_holding s));
        Some (s\<lparr>me_holding := hs\<rparr>) }
      else Some s)"

text \<open>One use of a holding filter: the number of seconds and the temperature are converted to integers.\<close>

definition hold :: "(slid_holding \<Rightarrow> int \<Rightarrow> int \<Rightarrow> int \<times> slid_holding) \<Rightarrow> nat \<Rightarrow> real \<Rightarrow> real \<Rightarrow> slid_holding list \<Rightarrow> (real \<times> slid_holding list) option" where
  "hold f i time t hs = do {
     h \<leftarrow> nth_opt hs i;
     sz \<leftarrow> to_int32 time;
     d \<leftarrow> to_int64 t;
     let (r, h) = f h sz d;
     Some (of_int r, hs[i := h]) }"

definition hold_all :: "(slid_holding \<Rightarrow> int \<Rightarrow> int \<Rightarrow> int \<times> slid_holding) \<Rightarrow> filter_para \<Rightarrow> real \<times> real \<times> real \<Rightarrow> slid_holding list \<Rightarrow>
    ((real \<times> real \<times> real) \<times> slid_holding list) option" where
  "hold_all f fp t hs = (case t of (w, n, r) \<Rightarrow> do {
     (w, hs) \<leftarrow> hold f 0 (fp_peak_time fp) w hs;
     (n, hs) \<leftarrow> hold f 1 (fp_valley_time fp) n hs;
     (r, hs) \<leftarrow> hold f 2 (fp_valley_time fp) r hs;
     Some ((w, n, r), hs) })"

definition apply_holding :: "filter_para \<Rightarrow> real \<times> real \<times> real \<Rightarrow> meas \<Rightarrow> ((real \<times> real \<times> real) \<times> meas) option" where
  "apply_holding fp t s =
     (if fp_mode fp = PEAK_HOLDING then do { (t, hs) \<leftarrow> hold_all peak_holding_fliter fp t (me_holding s); Some (t, s\<lparr>me_holding := hs\<rparr>) }
      else if fp_mode fp = VALLEY_HOLDING then do { (t, hs) \<leftarrow> hold_all valley_holding_fliter fp t (me_holding s); Some (t, s\<lparr>me_holding := hs\<rparr>) }
      else Some (t, s))"

definition report :: "(real \<Rightarrow> real) \<Rightarrow> real \<times> real \<times> real \<Rightarrow> meas \<Rightarrow> meas" where
  "report rnd t s = (case t of (w, n, r) \<Rightarrow>
     let s = s\<lparr>me_single_temp := [rnd w, rnd n], me_ratio_temp := rnd r\<rparr>; m = tp_temp_mode (me_temp s) in
     if m = 0 then s\<lparr>me_err := handle_single_error (me_out_range s ! 0) (me_err s), me_target_temp := me_single_temp s ! SENS_CH_SPEC_WB\<rparr>
     else if m = 1 then s\<lparr>me_err := handle_single_error (me_out_range s ! 1) (me_err s), me_target_temp := me_single_temp s ! SENS_CH_SPEC_NB\<rparr>
     else s\<lparr>me_err := handle_single_error (me_out_range s ! 2) (me_err s), me_target_temp := me_ratio_temp s\<rparr>)"

definition reset_holding :: "meas \<Rightarrow> meas" where
  "reset_holding s =
     (if me_exti s then s\<lparr>me_holding := map (\<lambda>h. h\<lparr>sh_count := 0\<rparr>) (take 2 (me_holding s)) @ drop 2 (me_holding s), me_exti := False\<rparr> else s)"

definition get_temp :: "(real \<Rightarrow> real) \<Rightarrow> (real \<Rightarrow> real) \<Rightarrow> algo_para \<Rightarrow> filter_para \<Rightarrow> meas \<Rightarrow> meas option" where
  "get_temp rnd rnd2 ag fp s = do {
     let s = s\<lparr>me_target_volt := map (\<lambda>c. sint (word_of_int (mc_volt_raw c) :: 32 word)) (me_ch s)\<rparr>;
     (t, s) \<leftarrow> all_temps rnd rnd2 ag s;
     s \<leftarrow> timer4_trigger_callback rnd fp s;
     (t, s) \<leftarrow> apply_holding fp t (reset_holding s);
     Some (report rnd t s) }"

subsection \<open>A round\<close>

record meas_cfg =
  cf_gain :: "gain_para list"
  cf_algo :: algo_para
  cf_filter :: filter_para
  cf_ana :: ana_para
  cf_auto_gain :: bool
  cf_warm_start :: bool

text \<open>The part of a round before the output: a switched gain, a voltage out of range or the first round leave it early.\<close>

definition measure_step :: "(real \<Rightarrow> real) \<Rightarrow> (real \<Rightarrow> real) \<Rightarrow> (nat \<Rightarrow> nat) \<Rightarrow> meas_cfg \<Rightarrow> meas \<Rightarrow> meas option" where
  "measure_step rnd rnd2 rand cf s =
     (let (sw, cs) = gain_switch_process rnd2 (cf_auto_gain cf) (map (\<lambda>i. (cf_gain cf ! i, mc_volt_raw (me_ch s ! i), me_ch s ! i)) [0, 1]);
          s = s\<lparr>me_ch := cs\<rparr>
      in if sw \<noteq> 0 then Some (upd_ch SENS_CH_SPEC_WB (\<lambda>c. c\<lparr>mc_smooth_sta := True, mc_smooth_last := me_target_temp s, mc_discard_status := 1\<rparr>) s)
         else do {
           (r, s) \<leftarrow> volt_normalization rnd rnd2 (cf_gain cf) s;
           if r \<noteq> 0 then Some s
           else do {
             s \<leftarrow> gain_temp_insert rnd s;
             s \<leftarrow> volt_remove_average_filter rnd rand (cf_filter cf) s;
             s \<leftarrow> get_internal_temp rnd rnd2 s;
             s \<leftarrow> internal_temp_calibrate rnd rnd2 s;
             get_temp rnd rnd2 (cf_algo cf) (cf_filter cf) s } })"

definition temp_task :: "(real \<Rightarrow> real) \<Rightarrow> (real \<Rightarrow> real) \<Rightarrow> (nat \<Rightarrow> nat) \<Rightarrow> meas_cfg \<Rightarrow> meas \<times> ana_state \<Rightarrow> (meas \<times> ana_state) option" where
  "temp_task rnd rnd2 rand cf sa = (case sa of (s, a) \<Rightarrow> do {
     s \<leftarrow> (if me_sample_started s then measure_step rnd rnd2 rand cf s else Some s);
     if me_sample_started s then
       if \<not> cf_warm_start cf \<or> sr_count (mc_slid (me_ch s ! SENS_CH_SPEC_NB)) = unat (fp_buf_size (cf_filter cf))
            \<or> sr_count (mc_slid (me_ch s ! SENS_CH_SPEC_WB)) = unat (fp_buf_size (cf_filter cf))
       then do { a \<leftarrow> anolog_output rnd (cf_ana cf) (me_err s) (me_target_temp s) a; Some (s, a) }
       else Some (s, a)
     else Some (s\<lparr>me_sample_started := True\<rparr>, a) })"

text \<open>
  One pass of the loop of \<open>sample_task\<close>: the samples of the four channels, converted to microvolts, and the round of the measurement. The last word that was read from the
  converter is kept between the passes.
\<close>

definition raw_volt :: "(real \<Rightarrow> real) \<Rightarrow> u32 \<Rightarrow> int" where
  "raw_volt rnd d = c_trunc (adc_to_voltage rnd d)"

definition samples_of :: "meas \<Rightarrow> int sens" where
  "samples_of s = \<lparr>volt_nb = mc_volt_raw (me_ch s ! SENS_CH_SPEC_NB), volt_wb = mc_volt_raw (me_ch s ! SENS_CH_SPEC_WB), volt_ntc_spec = me_ntc_raw_spec s,
     volt_ntc_tia = me_ntc_raw_tia s\<rparr>"

definition take_samples :: "int sens \<Rightarrow> meas \<Rightarrow> meas" where
  "take_samples x s = (upd_ch SENS_CH_SPEC_NB (\<lambda>c. c\<lparr>mc_volt_raw := volt_nb x\<rparr>) (upd_ch SENS_CH_SPEC_WB (\<lambda>c. c\<lparr>mc_volt_raw := volt_wb x\<rparr>) s))
     \<lparr>me_ntc_raw_spec := volt_ntc_spec x, me_ntc_raw_tia := volt_ntc_tia x\<rparr>"

definition sample_task_pass :: "(real \<Rightarrow> real) \<Rightarrow> (real \<Rightarrow> real) \<Rightarrow> (nat \<Rightarrow> nat) \<Rightarrow> meas_cfg \<Rightarrow> 's adc \<Rightarrow> ('s \<Rightarrow> bool) \<Rightarrow> ('s \<Rightarrow> 's) \<Rightarrow>
    u32 \<times> 's \<times> meas \<times> ana_state \<Rightarrow> (u32 \<times> 's \<times> meas \<times> ana_state) option" where
  "sample_task_pass rnd rnd2 rand cf dev high tick st = (case st of (w, d, s, a) \<Rightarrow> do {
     (w, d, x) \<leftarrow> sample_round dev high tick (raw_volt rnd) w d (samples_of s);
     (s, a) \<leftarrow> temp_task rnd rnd2 rand cf (take_samples x s, a);
     Some (w, d, s, a) })"

subsection \<open>Calibration of the transmission or slope\<close>

text \<open>The bisection, with \<open>n\<close> rounds left: \<open>meas x\<close> stores the parameter \<open>x\<close> and measures, \<open>up\<close> tells which side keeps a temperature that is too high.\<close>

fun calib_loop :: "(real \<Rightarrow> real) \<Rightarrow> (real \<Rightarrow> 's \<Rightarrow> (real \<times> 's) option) \<Rightarrow> bool \<Rightarrow> real \<Rightarrow> nat \<Rightarrow> real \<Rightarrow> real \<Rightarrow> real \<Rightarrow> 's \<Rightarrow> (int \<times> 's) option" where
  "calib_loop rnd ms up target 0 lo hi mid s = Some (- 1, s)"
| "calib_loop rnd ms up target (Suc n) lo hi mid s = do {
     (t, s) \<leftarrow> ms mid s;
     let diff = rnd (t - target);
     if \<bar>diff\<bar> < rnd (1 / 10) then Some (0, s)
     else
       let (lo, hi) = (if (if up then diff > 0 else diff < 0) then (mid, hi) else (lo, mid));
           m = rnd (rnd (lo + hi) / 2);
           m = (if m \<le> lo then lo else if m \<ge> hi then hi else m)
       in calib_loop rnd ms up target n lo hi m s }"

definition measure_trans :: "(real \<Rightarrow> real) \<Rightarrow> (real \<Rightarrow> real) \<Rightarrow> algo_para \<Rightarrow> int \<Rightarrow> nat \<Rightarrow> real \<Rightarrow> meas \<Rightarrow> (real \<times> meas) option" where
  "measure_trans rnd rnd2 ag voltage ch x s =
     get_single_temp rnd rnd2 ag voltage ch (s\<lparr>me_temp := (me_temp s)\<lparr>tp_trans := (tp_trans (me_temp s))[ch := x]\<rparr>\<rparr>)"

definition measure_slope :: "(real \<Rightarrow> real) \<Rightarrow> (real \<Rightarrow> real) \<Rightarrow> algo_para \<Rightarrow> real \<Rightarrow> meas \<Rightarrow> (real \<times> meas) option" where
  "measure_slope rnd rnd2 ag x s = get_ratio_temp rnd rnd2 ag (s\<lparr>me_temp := (me_temp s)\<lparr>tp_slope := x\<rparr>\<rparr>)"

text \<open>The voltage is kept in a float and converted back for every measurement. With the result 0 the parameter group is saved.\<close>

definition calibrate_temperature :: "(real \<Rightarrow> real) \<Rightarrow> (real \<Rightarrow> real) \<Rightarrow> algo_para \<Rightarrow> real \<Rightarrow> meas \<Rightarrow> (int \<times> meas) option" where
  "calibrate_temperature rnd rnd2 ag target s =
     (let m = tp_temp_mode (me_temp s); ch = (if m = 0 then SENS_CH_SPEC_WB else SENS_CH_SPEC_NB) in
      if m = 0 \<or> m = 1 then
        let voltage = rnd (of_int (gc_volt_filter (me_ch s ! ch))) in
        if voltage \<le> 0 then Some (- 1, s)
        else do {
          v \<leftarrow> to_int64 voltage;
          calib_loop rnd (measure_trans rnd rnd2 ag v ch) True target 50 (rnd (1 / 100)) 10 (tp_trans (me_temp s) ! ch) s }
      else if m = 2 then calib_loop rnd (measure_slope rnd rnd2 ag) False target 50 (rnd (1 / 100)) 10 (tp_slope (me_temp s)) s
      else Some (- 1, s))"

subsection \<open>Accesses outside of arrays\<close>

lemma upd_ch_other: "i \<noteq> j \<Longrightarrow> me_ch (upd_ch i f s) ! j = me_ch s ! j"
  by (simp add: upd_ch_def)

lemma filter_row_other:
  assumes "filter_row rand sz 0 s = Some (v, s')"
  shows "me_ch s' ! 1 = me_ch s ! 1"
  using assms by (auto simp: filter_row_def Let_def upd_ch_def split: if_splits Option.bind_splits)

text \<open>The buffers of the filter are too small: with the default window of 25 samples the copy of the narrow band's window leaves the array \<open>filter_buffer\<close> of two rows of 20 values as soon as the
  window is full, which is with the 25th measurement.\<close>

theorem default_window_overflows:
  assumes "fp_buf_size fp = 25" and "window_inv (mc_slid (me_ch s ! 1))" and "24 \<le> sr_count (mc_slid (me_ch s ! 1))"
  shows "volt_remove_average_filter rnd rand fp s = None"
proof -
  have b: "buf_size fp = 25" using assms(1) by (simp add: buf_size_def FILTER_LEN_MAX_def)
  have "filter_channel rnd rand fp 1 s' = None" if "me_ch s' ! 1 = me_ch s ! 1" for s'
  proof -
    have "sr_count (add_sample (mc_slid (me_ch s ! 1)) 25 x) = 25" for x
      using add_sample_spec(3) [OF assms(2), of 25 x] assms(3) by (simp add: FILTER_LEN_MAX_def)
    then show ?thesis using that by (simp add: filter_channel_def filter_row_def b Let_def FILTER_ROW_def SENS_CH_SPEC_CNT_def)
  qed
  moreover have "me_ch s' ! 1 = me_ch s ! 1" if "filter_channel rnd rand fp 0 s = Some s'" for s'
    using that filter_row_other [of rand "buf_size fp" s] by (auto simp: filter_channel_def upd_ch_other split: Option.bind_splits)
  ultimately show ?thesis by (auto simp: volt_remove_average_filter_def split: Option.bind_splits)
qed

text \<open>
  In the modes that hold a peak or a valley the ratio uses a third element of an array that has two: no temperature can be measured in these modes without leaving
  the array.
\<close>

theorem holding_modes_leave_array:
  assumes "fp_mode fp = PEAK_HOLDING \<or> fp_mode fp = VALLEY_HOLDING" and "length (me_holding s) = 2"
  shows "apply_holding fp t s = None"
proof -
  have "hold_all f fp t hs = None" if "length hs = 2" for f hs
    using that by (cases t) (auto simp: hold_all_def hold_def nth_opt_def Let_def split: Option.bind_splits prod.splits)
  then show ?thesis using assms by (auto simp: apply_holding_def)
qed

text \<open>The results of the smoothing for a sequence of temperatures.\<close>

fun smooth_run :: "(real \<Rightarrow> real) \<Rightarrow> real list \<Rightarrow> meas_ch \<Rightarrow> (real list \<times> meas_ch) option" where
  "smooth_run rnd [] c = Some ([], c)"
| "smooth_run rnd (x # xs) c = do { (t, c) \<leftarrow> switch_temp_smooth rnd 100 x c; (ts, c) \<leftarrow> smooth_run rnd xs c; Some (t # ts, c) }"

lemma smooth_table_facts: "length (smooth_table_100 (\<lambda>a. a)) = 100" "w \<in> set (smooth_table_100 (\<lambda>a. a)) \<Longrightarrow> 0 \<le> w \<and> w \<le> 1"
  by (auto simp: smooth_table_100_def)

lemma trunc_bound: "\<bar>x\<bar> < 71 \<Longrightarrow> to_int32 x = Some (c_trunc x) \<and> \<bar>c_trunc x\<bar> \<le> 70"
proof -
  assume x: "\<bar>x\<bar> < 71"
  have "\<bar>c_trunc x\<bar> \<le> 70"
  proof (cases "0 \<le> x")
    case True
    then have "\<lfloor>x\<rfloor> < 71" "0 \<le> \<lfloor>x\<rfloor>" using x by linarith+
    then show ?thesis using True by (simp add: c_trunc_def)
  next
    case False
    then have "\<bar>\<lceil>x\<rceil>\<bar> \<le> 70" using x by linarith
    then show ?thesis using False by (simp add: c_trunc_def)
  qed
  moreover from this have "- (2 ^ 31) \<le> c_trunc x \<and> c_trunc x < 2 ^ 31" by auto
  ultimately show ?thesis by (simp add: to_int32_def)
qed

text \<open>A temperature between \<open>a\<close> and \<open>b\<close>.\<close>

definition between :: "real \<Rightarrow> real \<Rightarrow> real \<Rightarrow> bool" where
  "between a b t \<longleftrightarrow> min a b \<le> t \<and> t \<le> max a b"

lemma between_step: "0 \<le> w \<Longrightarrow> w \<le> 1 \<Longrightarrow> between a b (a + (b - a) * w / 8)"
proof -
  assume w: "0 \<le> w" "w \<le> 1"
  have "a + (b - a) * w / 8 = (1 - w / 8) * a + (w / 8) * b" by (simp add: field_simps)
  moreover have "min a b \<le> (1 - w / 8) * a + (w / 8) * b" "(1 - w / 8) * a + (w / 8) * b \<le> max a b"
    using w convex_bound_le [of a "max a b" b "1 - w / 8" "w / 8"] convex_bound_le [of "- a" "- min a b" "- b" "1 - w / 8" "w / 8"] by auto
  ultimately show ?thesis by (simp add: between_def)
qed

lemma smooth_step:
  assumes "mc_smooth_count c = of_nat k" and "k < 100" and "\<bar>mc_smooth_last c - x\<bar> < 71"
  shows "\<exists>t. switch_temp_smooth (\<lambda>a. a) 100 x c = Some (t, c\<lparr>mc_smooth_last := t, mc_smooth_count := of_nat (Suc k)\<rparr>) \<and> between (mc_smooth_last c) x t"
proof -
  have k: "unat (mc_smooth_count c) = k" "\<not> (word_of_nat (Suc k) :: u32) > 100"
    using assms(1,2) by (auto simp: unsigned_of_nat take_bit_nat_eq_self word_less_nat_alt simp del: of_nat_Suc)
  define w where "w = smooth_table_100 (\<lambda>a. a) ! k"
  have "w \<in> set (smooth_table_100 (\<lambda>a. a))" using assms(2) smooth_table_facts(1) by (simp add: w_def)
  then have b: "between (mc_smooth_last c) x (mc_smooth_last c + (x - mc_smooth_last c) * w / 8)" using smooth_table_facts(2) between_step by blast
  have n: "nth_opt (smooth_table_100 (\<lambda>a. a)) k = Some w" using assms(2) smooth_table_facts(1) by (simp add: nth_opt_def w_def)
  have d: "to_int32 (mc_smooth_last c - x) = Some (c_trunc (mc_smooth_last c - x))" "\<not> \<bar>c_trunc (mc_smooth_last c - x)\<bar> > 70"
    using trunc_bound [OF assms(3)] by auto
  have "1 + mc_smooth_count c = of_nat (Suc k)" using assms(1) by simp
  then show ?thesis using b k(2) unfolding switch_temp_smooth_def d k(1) n by (simp add: d(2) add.commute Let_def del: of_nat_Suc)
qed

lemma smooth_run_constant:
  assumes "mc_smooth_count c = of_nat k" and "k + n \<le> 100" and "\<bar>mc_smooth_last c - x\<bar> < 71"
  shows "\<exists>ts c'. smooth_run (\<lambda>a. a) (replicate n x) c = Some (ts, c') \<and> (\<forall>t \<in> set ts. between (mc_smooth_last c) x t) \<and> mc_smooth_count c' = of_nat (k + n)
    \<and> mc_smooth_sta c' = mc_smooth_sta c \<and> \<bar>mc_smooth_last c' - x\<bar> < 71 \<and> length ts = n"
  using assms
proof (induction n arbitrary: c k)
  case (Suc n)
  then obtain t where t: "switch_temp_smooth (\<lambda>a. a) 100 x c = Some (t, c\<lparr>mc_smooth_last := t, mc_smooth_count := of_nat (Suc k)\<rparr>)" "between (mc_smooth_last c) x t"
    using smooth_step [of c k x] by auto
  let ?c = "c\<lparr>mc_smooth_last := t, mc_smooth_count := of_nat (Suc k)\<rparr>"
  have "\<bar>mc_smooth_last ?c - x\<bar> < 71" using t(2) Suc.prems(3) by (auto simp: between_def)
  then obtain ts c' where r: "smooth_run (\<lambda>a. a) (replicate n x) ?c = Some (ts, c')" "\<forall>u \<in> set ts. between t x u" "mc_smooth_count c' = of_nat (Suc k + n)"
    "mc_smooth_sta c' = mc_smooth_sta c" "\<bar>mc_smooth_last c' - x\<bar> < 71" "length ts = n"
    using Suc.IH [of ?c "Suc k"] Suc.prems(2) by fastforce
  moreover have "between (mc_smooth_last c) x u" if "between t x u" for u using that t(2) by (auto simp: between_def)
  ultimately show ?case using t by (auto simp del: of_nat_Suc)
qed simp

text \<open>After a switch of the gain the reported temperature moves towards the measured one: with a constant measured temperature less than 71 degrees away, one hundred results
  lie between the temperature before the switch and the measured one. Then the smoothing is still not finished: the next call reads the element with index 100 of a table of 100
  values.\<close>

theorem smoothing_overruns_table:
  assumes "mc_smooth_count c = 0" and "mc_smooth_sta c" and "\<bar>mc_smooth_last c - x\<bar> < 71"
  shows "\<exists>ts c'. smooth_run (\<lambda>a. a) (replicate 100 x) c = Some (ts, c') \<and> length ts = 100 \<and> (\<forall>t \<in> set ts. between (mc_smooth_last c) x t) \<and> mc_smooth_sta c'
    \<and> switch_temp_smooth (\<lambda>a. a) 100 x c' = None"
proof -
  obtain ts c' where r: "smooth_run (\<lambda>a. a) (replicate 100 x) c = Some (ts, c')" "length ts = 100" "\<forall>t \<in> set ts. between (mc_smooth_last c) x t" "mc_smooth_sta c'"
    "mc_smooth_count c' = 100" "\<bar>mc_smooth_last c' - x\<bar> < 71"
    using smooth_run_constant [of c 0 100 x] assms by auto
  have "nth_opt (smooth_table_100 (\<lambda>a. a)) 100 = None" by (simp add: nth_opt_def smooth_table_facts(1))
  then have "switch_temp_smooth (\<lambda>a. a) 100 x c' = None" using trunc_bound [OF r(6)] r(5) by (auto simp: switch_temp_smooth_def)
  then show ?thesis using r by blast
qed

subsection \<open>Two-point calibration\<close>

lemma two_point_other:
  assumes "temp_two_point_calibrate rnd x m s = Some (t, s')" and "m < 3"
  shows "me_two_calib_open s \<noteq> 1 \<Longrightarrow> s' = s" "me_two_calib_open s = 1 \<Longrightarrow> me_two_calib_open s' = 0"
    "i \<noteq> m \<Longrightarrow> tp_calib_gain (me_temp s') ! i = tp_calib_gain (me_temp s) ! i \<and> tp_calib_offset (me_temp s') ! i = tp_calib_offset (me_temp s) ! i"
    "tp_dev_min (me_temp s') = tp_dev_min (me_temp s)" "tp_dev_max (me_temp s') = tp_dev_max (me_temp s)" "me_err s' = me_err s" "me_out_range s' = me_out_range s"
    "tp_temp_mode (me_temp s') = tp_temp_mode (me_temp s)" "me_holding s' = me_holding s"
  using assms by (auto simp: temp_two_point_calibrate_def two_point_update_def Let_def split: if_splits Option.bind_splits)

lemma single_temp_keeps:
  assumes "get_single_temp rnd rnd2 ag v ch s = Some (t, s')"
  shows "me_temp s' = me_temp s" "me_two_calib_open s' = me_two_calib_open s" "me_err s' = me_err s" "me_out_range s' = me_out_range s" "me_holding s' = me_holding s"
  using assms by (auto simp: get_single_temp_def upd_ch_def Let_def case_prod_unfold split: if_splits Option.bind_splits)

lemma ratio_temp_keeps:
  assumes "get_ratio_temp rnd rnd2 ag s = Some (t, s')"
  shows "s' = s\<lparr>me_ratio_nerve := me_ratio_nerve s'\<rparr>"
  using assms by (auto simp: get_ratio_temp_def Let_def split: if_splits Option.bind_splits)

lemma attenuation_defined: "get_attenuation_rate rnd rnd2 s t = Some d \<Longrightarrow> 0 \<le> d \<and> d < 1"
  by (auto simp: get_attenuation_rate_def Let_def split: if_splits Option.bind_splits)

lemma single_step_keeps:
  assumes "single_step rnd rnd2 ag m s = Some (t, s')" and "m < 2"
  shows "me_two_calib_open s = 1 \<Longrightarrow> me_two_calib_open s' = 0" "me_two_calib_open s \<noteq> 1 \<Longrightarrow> me_two_calib_open s' = me_two_calib_open s"
    "i \<noteq> m \<or> me_two_calib_open s \<noteq> 1 \<Longrightarrow>
       tp_calib_gain (me_temp s') ! i = tp_calib_gain (me_temp s) ! i \<and> tp_calib_offset (me_temp s') ! i = tp_calib_offset (me_temp s) ! i"
    "tp_dev_min (me_temp s') = tp_dev_min (me_temp s)" "tp_dev_max (me_temp s') = tp_dev_max (me_temp s)" "tp_temp_mode (me_temp s') = tp_temp_mode (me_temp s)"
    "me_err s' = me_err s" "me_holding s' = me_holding s" "length (me_out_range s') = length (me_out_range s)"
    "t = 0 \<or> tp_dev_min (me_temp s) \<le> t \<and> t \<le> tp_dev_max (me_temp s)"
proof -
  obtain t1 s1 t2 s2 where g: "get_single_temp rnd rnd2 ag (mc_compensate (me_ch s ! m)) m s = Some (t1, s1)"
    "temp_two_point_calibrate rnd t1 m s1 = Some (t2, s2)"
    "t = snd (range_check (me_temp s2) t2 (me_out_range s2 ! m))" "s' = s2\<lparr>me_out_range := (me_out_range s2)[m := fst (range_check (me_temp s2) t2 (me_out_range s2 ! m))]\<rparr>"
    using assms(1) by (auto simp: single_step_def Let_def case_prod_unfold split: Option.bind_splits)
  note k = single_temp_keeps [OF g(1)]
  have m: "m < 3" using assms(2) by simp
  note c = two_point_other [OF g(2) m]
  show "me_two_calib_open s = 1 \<Longrightarrow> me_two_calib_open s' = 0" using c(2) k by (simp add: g(4))
  show "me_two_calib_open s \<noteq> 1 \<Longrightarrow> me_two_calib_open s' = me_two_calib_open s" using c(1) k by (simp add: g(4))
  show "i \<noteq> m \<or> me_two_calib_open s \<noteq> 1 \<Longrightarrow>
       tp_calib_gain (me_temp s') ! i = tp_calib_gain (me_temp s) ! i \<and> tp_calib_offset (me_temp s') ! i = tp_calib_offset (me_temp s) ! i"
    using c(1) c(3) [of i] k by (auto simp: g(4))
  show "tp_dev_min (me_temp s') = tp_dev_min (me_temp s)" "tp_dev_max (me_temp s') = tp_dev_max (me_temp s)" "tp_temp_mode (me_temp s') = tp_temp_mode (me_temp s)"
    "me_err s' = me_err s" "me_holding s' = me_holding s" "length (me_out_range s') = length (me_out_range s)"
    using c(4-9) k by (simp_all add: g(4))
  show "t = 0 \<or> tp_dev_min (me_temp s) \<le> t \<and> t \<le> tp_dev_max (me_temp s)"
    using c(4,5) k by (auto simp: g(3) range_check_def)
qed

lemma smooth_keeps: "apply_smoothing rnd t s = Some (t', s') \<Longrightarrow> s' = s\<lparr>me_ch := me_ch s'\<rparr>"
  by (auto simp: apply_smoothing_def upd_ch_def split: if_splits Option.bind_splits)

lemma ratio_step_keeps:
  assumes "ratio_step rnd rnd2 ag s = Some (t, s')"
  shows "i \<noteq> 2 \<or> me_two_calib_open s \<noteq> 1 \<Longrightarrow>
       tp_calib_gain (me_temp s') ! i = tp_calib_gain (me_temp s) ! i \<and> tp_calib_offset (me_temp s') ! i = tp_calib_offset (me_temp s) ! i"
    "tp_dev_min (me_temp s') = tp_dev_min (me_temp s)" "tp_dev_max (me_temp s') = tp_dev_max (me_temp s)" "tp_temp_mode (me_temp s') = tp_temp_mode (me_temp s)"
    "me_err s' = me_err s" "length (me_out_range s') = length (me_out_range s)" "me_holding s' = me_holding s"
    "t = 0 \<or> tp_dev_min (me_temp s) \<le> t \<and> t \<le> tp_dev_max (me_temp s)"
proof -
  obtain t1 s1 t2 s2 d t3 s3 where g: "get_ratio_temp rnd rnd2 ag s = Some (t1, s1)" "temp_two_point_calibrate rnd t1 2 s1 = Some (t2, s2)"
    "get_attenuation_rate rnd rnd2 s2 t2 = Some d"
    "apply_smoothing rnd t2 (s2\<lparr>me_attenuation := d\<rparr>) = Some (t3, s3)"
    "t = snd (range_check (me_temp s3) t3 (me_out_range s3 ! 2))" "s' = s3\<lparr>me_out_range := (me_out_range s3)[2 := fst (range_check (me_temp s3) t3 (me_out_range s3 ! 2))]\<rparr>"
    using assms by (auto simp: ratio_step_def Let_def case_prod_unfold split: Option.bind_splits)
  have s1: "me_temp s1 = me_temp s" "me_two_calib_open s1 = me_two_calib_open s" "me_err s1 = me_err s" "me_out_range s1 = me_out_range s" "me_holding s1 = me_holding s"
    by (subst ratio_temp_keeps [OF g(1)]; simp)+
  have m: "(2 :: nat) < 3" by simp
  note c = two_point_other [OF g(2) m]
  have s3: "me_temp s3 = me_temp s2" "me_err s3 = me_err s2" "me_out_range s3 = me_out_range s2" "me_holding s3 = me_holding s2"
    by (subst smooth_keeps [OF g(4)]; simp)+
  show "i \<noteq> 2 \<or> me_two_calib_open s \<noteq> 1 \<Longrightarrow>
       tp_calib_gain (me_temp s') ! i = tp_calib_gain (me_temp s) ! i \<and> tp_calib_offset (me_temp s') ! i = tp_calib_offset (me_temp s) ! i"
    using c(1) c(3) [of i] s1 s3 by (auto simp: g(6))
  show "tp_dev_min (me_temp s') = tp_dev_min (me_temp s)" "tp_dev_max (me_temp s') = tp_dev_max (me_temp s)" "tp_temp_mode (me_temp s') = tp_temp_mode (me_temp s)"
    "me_err s' = me_err s" "length (me_out_range s') = length (me_out_range s)" "me_holding s' = me_holding s"
    using c(4-9) s1 s3 by (simp_all add: g(6))
  show "t = 0 \<or> tp_dev_min (me_temp s) \<le> t \<and> t \<le> tp_dev_max (me_temp s)"
    using c(4,5) s1 s3 by (auto simp: g(5) range_check_def)
qed

text \<open>
  A request of the two-point calibration is served for the wide band only: the first of the three uses takes the request back, so that a round leaves
  the gains and offsets of the narrow band and of the ratio as they were.
\<close>

theorem two_point_request_serves_wide_band_only:
  assumes "all_temps rnd rnd2 ag s = Some (t, s')" and "me_two_calib_open s = 1" and "i \<noteq> 0"
  shows "tp_calib_gain (me_temp s') ! i = tp_calib_gain (me_temp s) ! i \<and> tp_calib_offset (me_temp s') ! i = tp_calib_offset (me_temp s) ! i"
proof (cases "(word_of_int (me_target_volt s ! SENS_CH_SPEC_NB) :: u32) < tp_valid_vol (me_temp s)")
  case True
  then show ?thesis using assms(1) by (auto simp: all_temps_def)
next
  case False
  then obtain w s1 n s2 r where g: "single_step rnd rnd2 ag 0 s = Some (w, s1)" "single_step rnd rnd2 ag 1 s1 = Some (n, s2)" "ratio_step rnd rnd2 ag s2 = Some (r, s')"
    using assms(1) by (auto simp: all_temps_def split: Option.bind_splits)
  have m: "(0 :: nat) < 2" "(1 :: nat) < 2" by simp_all
  note a = single_step_keeps [OF g(1) m(1)] and b = single_step_keeps [OF g(2) m(2)] and c = ratio_step_keeps [OF g(3)]
  have "me_two_calib_open s1 \<noteq> 1" "me_two_calib_open s2 \<noteq> 1" using a(1) b(2) assms(2) by simp_all
  then show ?thesis using a(3) [of i] b(3) [of i] c(1) [of i] assms(3) by simp
qed

text \<open>In exact arithmetic the calibration that is served makes the two measured temperatures the two wanted ones.\<close>

lemma two_point_is_exact:
  assumes "me_two_calib_open s = 1" and "m < 3" and "m < length (tp_calib_gain (me_temp s))" and "m < length (tp_calib_offset (me_temp s))"
    and "me_low_real s ! m \<noteq> me_high_real s ! m"
  shows "map_option fst (temp_two_point_calibrate (\<lambda>x. x) (me_low_real s ! m) m s) = Some (me_low_set s ! m)"
    "map_option fst (temp_two_point_calibrate (\<lambda>x. x) (me_high_real s ! m) m s) = Some (me_high_set s ! m)"
proof -
  define k where "k = (me_high_set s ! m - me_low_set s ! m) / (me_high_real s ! m - me_low_real s ! m)"
  have "k * (me_high_real s ! m - me_low_real s ! m) = me_high_set s ! m - me_low_set s ! m" using assms(5) by (simp add: k_def)
  then have e: "k * me_low_real s ! m + (me_high_set s ! m - k * me_high_real s ! m) = me_low_set s ! m" by (simp add: algebra_simps)
  show "map_option fst (temp_two_point_calibrate (\<lambda>x. x) (me_low_real s ! m) m s) = Some (me_low_set s ! m)"
    "map_option fst (temp_two_point_calibrate (\<lambda>x. x) (me_high_real s ! m) m s) = Some (me_high_set s ! m)"
    using assms e unfolding k_def by (simp_all add: temp_two_point_calibrate_def two_point_update_def Let_def)
qed

subsection \<open>The report\<close>

definition in_range :: "temp_para \<Rightarrow> real \<Rightarrow> bool" where
  "in_range t x \<longleftrightarrow> x = 0 \<or> tp_dev_min t \<le> x \<and> x \<le> tp_dev_max t"

lemma all_temps_in_range:
  assumes "all_temps rnd rnd2 ag s = Some ((w, n, r), s')"
  shows "in_range (me_temp s) w" "in_range (me_temp s) n" "in_range (me_temp s) r" "tp_temp_mode (me_temp s') = tp_temp_mode (me_temp s)"
proof -
  have "in_range (me_temp s) w \<and> in_range (me_temp s) n \<and> in_range (me_temp s) r \<and> tp_temp_mode (me_temp s') = tp_temp_mode (me_temp s)"
  proof (cases "(word_of_int (me_target_volt s ! SENS_CH_SPEC_NB) :: u32) < tp_valid_vol (me_temp s)")
    case True
    then show ?thesis using assms by (auto simp: all_temps_def in_range_def)
  next
    case False
    then obtain s1 s2 where g: "single_step rnd rnd2 ag 0 s = Some (w, s1)" "single_step rnd rnd2 ag 1 s1 = Some (n, s2)" "ratio_step rnd rnd2 ag s2 = Some (r, s')"
      using assms by (auto simp: all_temps_def split: Option.bind_splits)
    have m: "(0 :: nat) < 2" "(1 :: nat) < 2" by simp_all
    note a = single_step_keeps [OF g(1) m(1)] and b = single_step_keeps [OF g(2) m(2)] and c = ratio_step_keeps [OF g(3)]
    show ?thesis using a(4-6,10) b(4-6,10) c(2-4,8) by (simp add: in_range_def)
  qed
  then show "in_range (me_temp s) w" "in_range (me_temp s) n" "in_range (me_temp s) r" "tp_temp_mode (me_temp s') = tp_temp_mode (me_temp s)" by auto
qed

lemma report_target:
  assumes "P (rnd w)" and "P (rnd n)" and "P (rnd r)"
  shows "P (me_target_temp (report rnd (w, n, r) s))"
  using assms by (simp add: report_def Let_def SENS_CH_SPEC_WB_def SENS_CH_SPEC_NB_def)

lemma report_errors:
  assumes "me_out_range s = [- 1, - 1, - 1]"
  shows "bit (me_err (report rnd t s)) 5 \<and> \<not> bit (me_err (report rnd t s)) 0"
proof -
  have h: "bit (handle_single_error (- 1) f) 5" "\<not> bit (handle_single_error (- 1) f) 0" for f
    by (simp_all add: handle_single_error_def error_ops_bit err_flags bit_numeral_rec)
  show ?thesis using h assms by (cases t) (simp add: report_def Let_def)
qed

lemma callback_average:
  assumes "fp_mode fp \<noteq> PEAK_HOLDING" and "fp_mode fp \<noteq> VALLEY_HOLDING"
  shows "timer4_trigger_callback rnd fp s = Some (s\<lparr>me_timer4 := False\<rparr>)" "apply_holding fp t s = Some (t, s)"
  using assms by (simp_all add: timer4_trigger_callback_def apply_holding_def)

text \<open>C15: Without a holding mode the reported temperature is 0 or lies in the range of the device, whatever the voltages and coefficients are. If the voltage of the narrow band is below
  the limit of validity the report is 0, with the error of low energy set and the error of the detector cleared.\<close>

theorem reported_temperature_in_range:
  assumes "get_temp rnd rnd2 ag fp s = Some s'" and "fp_mode fp \<noteq> PEAK_HOLDING" and "fp_mode fp \<noteq> VALLEY_HOLDING"
    and "mono rnd" and "rnd 0 = 0" and "rnd (tp_dev_min (me_temp s)) = tp_dev_min (me_temp s)" and "rnd (tp_dev_max (me_temp s)) = tp_dev_max (me_temp s)"
    and "length (me_ch s) = 2"
  shows "(me_target_temp s' = 0 \<or> tp_dev_min (me_temp s) \<le> me_target_temp s' \<and> me_target_temp s' \<le> tp_dev_max (me_temp s))
    \<and> ((word_of_int (mc_volt_raw (me_ch s ! 1)) :: u32) < tp_valid_vol (me_temp s) \<longrightarrow> me_target_temp s' = 0 \<and> bit (me_err s') 5 \<and> \<not> bit (me_err s') 0)"
proof -
  let ?s = "s\<lparr>me_target_volt := map (\<lambda>c. sint (word_of_int (mc_volt_raw c) :: 32 word)) (me_ch s)\<rparr>"
  have g: "get_temp rnd rnd2 ag fp s = do { (t, s1) \<leftarrow> all_temps rnd rnd2 ag ?s; Some (report rnd t (reset_holding (s1\<lparr>me_timer4 := False\<rparr>))) }"
    unfolding get_temp_def Let_def callback_average [OF assms(2,3)] by simp
  obtain w n r s1 where a: "all_temps rnd rnd2 ag ?s = Some ((w, n, r), s1)" and s': "s' = report rnd (w, n, r) (reset_holding (s1\<lparr>me_timer4 := False\<rparr>))"
    using assms(1) unfolding g by (cases "all_temps rnd rnd2 ag ?s") auto
  have "in_range (me_temp s) (rnd x)" if "in_range (me_temp s) x" for x
    using that monoD [OF assms(4), of "tp_dev_min (me_temp s)" x] monoD [OF assms(4), of x "tp_dev_max (me_temp s)"] assms(5-7) by (auto simp: in_range_def)
  then have "in_range (me_temp s) (me_target_temp s')" unfolding s' using all_temps_in_range(1-3) [OF a] by (intro report_target [where P = "in_range (me_temp s)"]) simp_all
  moreover have "me_target_temp s' = 0 \<and> bit (me_err s') 5 \<and> \<not> bit (me_err s') 0"
    if "(word_of_int (mc_volt_raw (me_ch s ! 1)) :: u32) < tp_valid_vol (me_temp s)"
  proof -
    have "w = 0" "n = 0" "r = 0" "me_out_range s1 = [- 1, - 1, - 1]" using a that assms(8) by (auto simp: all_temps_def SENS_CH_SPEC_NB_def)
    moreover from this have "me_out_range (reset_holding (s1\<lparr>me_timer4 := False\<rparr>)) = [- 1, - 1, - 1]" by (simp add: reset_holding_def)
    ultimately show ?thesis using report_errors report_target [of "\<lambda>x. x = 0" rnd w n r] assms(5) unfolding s' by simp
  qed
  ultimately show ?thesis by (auto simp: in_range_def)
qed

subsection \<open>The ratio\<close>

definition attenuate :: "int \<Rightarrow> meas \<Rightarrow> meas" where
  "attenuate k s = s\<lparr>me_ch := map (\<lambda>c. c\<lparr>mc_compensate := k * mc_compensate c\<rparr>) (me_ch s)\<rparr>"

text \<open>C40: In exact arithmetic the temperature of the ratio, by the polynomial and by the network, depends only on the ratio of the two voltages: a factor common to both channels, such as a
  dirty window, does not change it.\<close>

theorem ratio_temperature_ignores_common_factor:
  assumes "k \<noteq> 0" and "length (me_ch s) = 2"
  shows "map_option (\<lambda>(t, s'). (t, me_ratio_nerve s')) (get_ratio_temp id id ag (attenuate k s))
    = map_option (\<lambda>(t, s'). (t, me_ratio_nerve s')) (get_ratio_temp id id ag s)"
proof -
  have c: "compensated_volt id (attenuate k s) i = map_option (\<lambda>v. of_int k * v) (compensated_volt id s i)" if "i < 2" for i
    using that assms(2) by (simp add: compensated_volt_def attenuate_def fdiv_def transmission_def)
  have t: "me_temp (attenuate k s) = me_temp s" by (simp add: attenuate_def)
  have d: "fdiv id (of_int k * x) (of_int k * y) = fdiv id x y" for x y using assms(1) by (simp add: fdiv_def)
  show ?thesis
    by (cases "compensated_volt id s 0"; cases "compensated_volt id s 1")
      (simp_all add: get_ratio_temp_def SENS_CH_SPEC_WB_def SENS_CH_SPEC_NB_def c t d Let_def split: Option.bind_splits)
qed

subsection \<open>Convergence of the calibration\<close>

text \<open>Success means that the last measurement, with the parameter that is kept, was within the tolerance.\<close>

lemma calib_loop_result:
  "calib_loop rnd ms up target n lo hi mid s = Some (0, s') \<Longrightarrow> \<exists>x t s0. ms x s0 = Some (t, s') \<and> \<bar>rnd (t - target)\<bar> < rnd (1 / 10)"
proof (induction rnd ms up target n lo hi mid s rule: calib_loop.induct)
  case (2 rnd ms up target n lo hi mid s)
  obtain t s1 where m: "ms mid s = Some (t, s1)" using "2.prems" by (cases "ms mid s") auto
  show ?case
  proof (cases "\<bar>rnd (t - target)\<bar> < rnd (1 / 10)")
    case True
    then show ?thesis using "2.prems" m by (intro exI [of _ mid] exI [of _ t] exI [of _ s]) simp
  next
    case False
    then show ?thesis using "2.IH" [OF m refl refl False] "2.prems" m by (auto simp: Let_def split: if_splits)
  qed
qed simp

text \<open>
  What the bisection relies on: in the states that satisfy \<open>I\<close>, measuring with the parameter \<open>x\<close> between \<open>a\<close> and \<open>b\<close> gives the temperature \<open>f x\<close>, which falls with the parameter
  and moves by less than the tolerance over a distance \<open>delta\<close>.
\<close>

definition bisectable :: "('s \<Rightarrow> bool) \<Rightarrow> real \<Rightarrow> real \<Rightarrow> (real \<Rightarrow> 's \<Rightarrow> (real \<times> 's) option) \<Rightarrow> (real \<Rightarrow> real) \<Rightarrow> real \<Rightarrow> bool" where
  "bisectable I a b ms f delta \<longleftrightarrow>
     (\<forall>x s. I s \<and> a \<le> x \<and> x \<le> b \<longrightarrow> (\<exists>s'. ms x s = Some (f x, s') \<and> I s')) \<and> (\<forall>x y. a \<le> x \<and> x \<le> y \<and> y \<le> b \<longrightarrow> f y \<le> f x)
     \<and> (\<forall>x y. a \<le> x \<and> x \<le> b \<and> a \<le> y \<and> y \<le> b \<and> \<bar>x - y\<bar> \<le> delta \<longrightarrow> \<bar>f x - f y\<bar> < 1 / 10)"

lemma bisectableD:
  assumes "bisectable I a b ms f delta"
  shows "I s \<Longrightarrow> a \<le> x \<Longrightarrow> x \<le> b \<Longrightarrow> \<exists>s'. ms x s = Some (f x, s') \<and> I s'" "a \<le> x \<Longrightarrow> x \<le> y \<Longrightarrow> y \<le> b \<Longrightarrow> f y \<le> f x"
    "a \<le> x \<Longrightarrow> x \<le> b \<Longrightarrow> a \<le> y \<Longrightarrow> y \<le> b \<Longrightarrow> \<bar>x - y\<bar> \<le> delta \<Longrightarrow> \<bar>f x - f y\<bar> < 1 / 10"
  using assms by (auto simp: bisectable_def)

text \<open>
  With an interval of width at most \<open>2 ^ n * delta\<close> around the solution \<open>n\<close> rounds are enough.
\<close>

lemma bisection_converges:
  assumes bis: "bisectable I a b ms f delta"
    and root: "f r = target"
  shows "0 < n \<Longrightarrow> a \<le> lo \<Longrightarrow> lo \<le> r \<Longrightarrow> r \<le> hi \<Longrightarrow> hi \<le> b \<Longrightarrow> hi - lo \<le> delta * 2 ^ n \<Longrightarrow> I s \<Longrightarrow>
    \<exists>s'. calib_loop (\<lambda>x. x) ms True target n lo hi ((lo + hi) / 2) s = Some (0, s')
      \<and> (\<exists>x s0. I s0 \<and> a \<le> x \<and> x \<le> b \<and> ms x s0 = Some (f x, s') \<and> \<bar>f x - target\<bar> < 1 / 10)"
proof (induction n arbitrary: lo hi s)
  case (Suc n)
  let ?m = "(lo + hi) / 2"
  have m: "a \<le> ?m" "?m \<le> b" "lo \<le> ?m" "?m \<le> hi" using Suc.prems by simp_all
  obtain s1 where s1: "ms ?m s = Some (f ?m, s1)" "I s1" using bisectableD(1) [OF bis Suc.prems(7) m(1,2)] by blast
  show ?case
  proof (cases "\<bar>f ?m - target\<bar> < 1 / 10")
    case True
    then have "calib_loop (\<lambda>x. x) ms True target (Suc n) lo hi ?m s = Some (0, s1)" using s1 by simp
    then show ?thesis using s1 m True Suc.prems(7) by blast
  next
    case far: False
    have n: "0 < n"
    proof (rule ccontr)
      assume "\<not> 0 < n"
      then have "\<bar>?m - r\<bar> \<le> delta" using Suc.prems(3,4,6) by (simp add: abs_le_iff field_simps)
      then show False using bisectableD(3) [OF bis, of ?m r] m Suc.prems(2-5) far root by simp
    qed
    have w: "hi - ?m \<le> delta * 2 ^ n" "?m - lo \<le> delta * 2 ^ n" using Suc.prems(6) by (simp_all add: field_simps)
    have "lo \<noteq> hi" using far root Suc.prems(3,4) by (auto simp: antisym)
    then have strict: "lo < hi" using Suc.prems(3,4) by simp
    show ?thesis
    proof (cases "f ?m - target > 0")
      case True
      have "?m \<le> r" using bisectableD(2) [OF bis, of r ?m] True root m Suc.prems(2-5) by (cases "?m \<le> r") auto
      then have "\<exists>s'. calib_loop (\<lambda>x. x) ms True target n ?m hi ((?m + hi) / 2) s1 = Some (0, s')
          \<and> (\<exists>x s0. I s0 \<and> a \<le> x \<and> x \<le> b \<and> ms x s0 = Some (f x, s') \<and> \<bar>f x - target\<bar> < 1 / 10)"
        using Suc.IH [OF n, of ?m hi s1] m Suc.prems(4,5) w s1(2) by blast
      then show ?thesis using s1(1) far True strict by simp
    next
      case False
      have "r \<le> ?m" using bisectableD(2) [OF bis, of ?m r] False far root m Suc.prems(2-5) by (cases "r \<le> ?m") auto
      then have "\<exists>s'. calib_loop (\<lambda>x. x) ms True target n lo ?m ((lo + ?m) / 2) s1 = Some (0, s')
          \<and> (\<exists>x s0. I s0 \<and> a \<le> x \<and> x \<le> b \<and> ms x s0 = Some (f x, s') \<and> \<bar>f x - target\<bar> < 1 / 10)"
        using Suc.IH [OF n, of lo ?m s1] m Suc.prems(2,3) w s1(2) by blast
      then show ?thesis using s1(1) far False strict by simp
    qed
  qed
qed simp

text \<open>The first round may start anywhere in the interval.\<close>

lemma bisection_from_anywhere:
  assumes bis: "bisectable I a b ms f delta"
    and root: "f r = target" "a \<le> r" "r \<le> b" and start: "a \<le> x" "x \<le> b" "I s" and width: "0 < n" "b - a \<le> delta * 2 ^ n"
  shows "\<exists>s'. calib_loop (\<lambda>x. x) ms True target (Suc n) a b x s = Some (0, s')
      \<and> (\<exists>x s0. I s0 \<and> a \<le> x \<and> x \<le> b \<and> ms x s0 = Some (f x, s') \<and> \<bar>f x - target\<bar> < 1 / 10)"
proof -
  obtain s1 where s1: "ms x s = Some (f x, s1)" "I s1" using bisectableD(1) [OF bis start(3,1,2)] by blast
  note conv = bisection_converges [OF bis root(1) width(1)]
  consider "\<bar>f x - target\<bar> < 1 / 10" | (right) "\<not> \<bar>f x - target\<bar> < 1 / 10" "f x - target > 0" | (left) "\<not> \<bar>f x - target\<bar> < 1 / 10" "\<not> f x - target > 0" by blast
  then show ?thesis
  proof cases
    case 1
    then have "calib_loop (\<lambda>x. x) ms True target (Suc n) a b x s = Some (0, s1)" using s1 by simp
    then show ?thesis using s1 1 start by blast
  next
    case right
    have le: "x \<le> r" using bisectableD(2) [OF bis, of r x] right root start(1,2) by (cases "x \<le> r") auto
    moreover have "x \<noteq> r" using right root(1) by auto
    ultimately have e: "x < b" "calib_loop (\<lambda>x. x) ms True target (Suc n) a b x s = calib_loop (\<lambda>x. x) ms True target n x b ((x + b) / 2) s1"
      using root(3) s1(1) right by simp_all
    have "b - x \<le> delta * 2 ^ n" using width(2) start(1) by linarith
    from conv [OF start(1) le root(3) order_refl this s1(2)] show ?thesis unfolding e(2) .
  next
    case left
    have le: "r \<le> x" using bisectableD(2) [OF bis, of x r] left root start(1,2) by (cases "r \<le> x") auto
    moreover have "x \<noteq> r" using left root(1) by auto
    ultimately have e: "a < x" "calib_loop (\<lambda>x. x) ms True target (Suc n) a b x s = calib_loop (\<lambda>x. x) ms True target n a x ((a + x) / 2) s1"
      using root(2) s1(1) left by simp_all
    have "x - a \<le> delta * 2 ^ n" using width(2) start(2) by linarith
    from conv [OF order_refl root(2) le start(2) this s1(2)] show ?thesis unfolding e(2) .
  qed
qed

text \<open>The formula of the single-colour temperature as a function of the transmission.\<close>

definition kelvin_inverse :: "real \<Rightarrow> real \<Rightarrow> real \<Rightarrow> real \<Rightarrow> real \<Rightarrow> real" where
  "kelvin_inverse A B V E x = A * ln (V / (E * x)) + B"

definition celsius :: "real \<Rightarrow> real \<Rightarrow> real \<Rightarrow> real \<Rightarrow> real \<Rightarrow> real" where
  "celsius A B V E x = 1 / kelvin_inverse A B V E x - 27315 / 100"

lemma kelvin_inverse_eq: "0 < V \<Longrightarrow> 0 < E \<Longrightarrow> 0 < x \<Longrightarrow> kelvin_inverse A B V E x = A * ln (V / E) + B - A * ln x"
  by (simp add: kelvin_inverse_def ln_div ln_mult algebra_simps)

lemma ln_distance: "1 / 100 \<le> x \<Longrightarrow> x \<le> y \<Longrightarrow> ln y - ln x \<le> 100 * (y - (x :: real))"
proof -
  assume xy: "1 / 100 \<le> x" "x \<le> y"
  have "ln y - ln x = ln (y / x)" using xy by (simp add: ln_div)
  also have "\<dots> \<le> y / x - 1" using xy by (intro ln_le_minus_one) simp
  also have "\<dots> = (y - x) / x" using xy by (simp add: field_simps)
  also have "\<dots> \<le> (y - x) / (1 / 100)" using xy by (intro divide_left_mono) simp_all
  finally show ?thesis by simp
qed

lemma kelvin_inverse_bounds:
  assumes "0 < V" and "0 < E" and "- 1 \<le> A" and "A < 0" and "1 / 100000 \<le> kelvin_inverse A B V E (1 / 100)" and "1 / 100 \<le> x" and "x \<le> y"
  shows "1 / 100000 \<le> kelvin_inverse A B V E x" "kelvin_inverse A B V E x \<le> kelvin_inverse A B V E y"
    "kelvin_inverse A B V E y - kelvin_inverse A B V E x \<le> 100 * (y - x)"
proof -
  have m: "kelvin_inverse A B V E u \<le> kelvin_inverse A B V E v" if "0 < u" "u \<le> v" for u v
    using that assms(1-4) by (simp add: kelvin_inverse_eq)
  show "kelvin_inverse A B V E x \<le> kelvin_inverse A B V E y" using m [of x y] assms(6,7) by simp
  show "1 / 100000 \<le> kelvin_inverse A B V E x" using m [of "1 / 100" x] assms(5,6) by linarith
  have "kelvin_inverse A B V E y - kelvin_inverse A B V E x = (- A) * (ln y - ln x)" using assms by (simp add: kelvin_inverse_eq algebra_simps)
  also have "\<dots> \<le> 1 * (ln y - ln x)" using assms by (intro mult_right_mono) simp_all
  finally show "kelvin_inverse A B V E y - kelvin_inverse A B V E x \<le> 100 * (y - x)" using ln_distance [OF assms(6,7)] by simp
qed

lemma celsius_facts:
  assumes "0 < V" and "0 < E" and "- 1 \<le> A" and "A < 0" and "1 / 100000 \<le> kelvin_inverse A B V E (1 / 100)" and "1 / 100 \<le> x" and "x \<le> y"
  shows "celsius A B V E y \<le> celsius A B V E x" "celsius A B V E x - celsius A B V E y \<le> 10 ^ 12 * (y - x)"
proof -
  define p q where d: "p = kelvin_inverse A B V E x" "q = kelvin_inverse A B V E y"
  have k: "1 / 100000 \<le> p" "p \<le> q" "q - p \<le> 100 * (y - x)" using kelvin_inverse_bounds [OF assms] by (simp_all add: d)
  have pos: "0 < p" "0 < q" using k by linarith+
  show "celsius A B V E y \<le> celsius A B V E x" using k pos by (simp add: celsius_def frac_le flip: d)
  have "1 / p - 1 / q = (q - p) * (1 / p) * (1 / q)" using pos by (simp add: field_simps)
  also have "\<dots> \<le> (q - p) * 100000 * 100000" using k pos by (intro mult_mono) (simp_all add: field_simps)
  also have "\<dots> \<le> 100 * (y - x) * 100000 * 100000" using k(3) by simp
  finally show "celsius A B V E x - celsius A B V E y \<le> 10 ^ 12 * (y - x)" by (simp add: celsius_def flip: d)
qed

lemma celsius_modulus:
  assumes "0 < V" and "0 < E" and "- 1 \<le> A" and "A < 0" and "1 / 100000 \<le> kelvin_inverse A B V E (1 / 100)"
    and "1 / 100 \<le> x" and "1 / 100 \<le> y" and "\<bar>x - y\<bar> \<le> 10 / 2 ^ 49"
  shows "\<bar>celsius A B V E x - celsius A B V E y\<bar> < 1 / 10"
proof -
  have w: "\<bar>celsius A B V E u - celsius A B V E v\<bar> < 1 / 10" if "1 / 100 \<le> u" "u \<le> v" "v - u \<le> 10 / 2 ^ 49" for u v
  proof -
    note c = celsius_facts [OF assms(1-5) that(1,2)]
    have "(10 :: real) ^ 12 * (v - u) \<le> 10 ^ 12 * (10 / 2 ^ 49)" using that(3) by (intro mult_left_mono) simp_all
    also have "\<dots> < 1 / 10" by simp
    finally show ?thesis using c by simp
  qed
  show ?thesis using w [of x y] w [of y x] assms(6-8) by (cases "x \<le> y") (simp_all add: abs_minus_commute)
qed

lemma celsius_root:
  assumes "0 < V" and "0 < E" and "- 1 \<le> A" and "A < 0" and "1 / 100000 \<le> kelvin_inverse A B V E (1 / 100)"
    and "celsius A B V E 10 \<le> target" and "target \<le> celsius A B V E (1 / 100)"
  obtains r where "1 / 100 \<le> r" "r \<le> 10" "celsius A B V E r = target"
proof -
  have p: "kelvin_inverse A B V E x \<noteq> 0" if "1 / 100 \<le> x" for x using kelvin_inverse_bounds(1) [OF assms(1-5) that, of x] by auto
  have "continuous_on {1 / 100..10} (celsius A B V E)"
    unfolding celsius_def [abs_def] using p assms(1,2)
    by (intro continuous_intros ballI) (auto simp: kelvin_inverse_def [abs_def] intro!: continuous_intros)
  then show thesis using IVT2' [of "celsius A B V E" 10 target "1 / 100"] assms(6,7) that by auto
qed

text \<open>The states that the calibration of a channel goes through: only its transmission differs from the one at the start.\<close>

definition same_but_trans :: "temp_para \<Rightarrow> nat \<Rightarrow> meas \<Rightarrow> bool" where
  "same_but_trans t ch s \<longleftrightarrow> (\<exists>x. me_temp s = t\<lparr>tp_trans := (tp_trans t)[ch := x]\<rparr>)"

lemma measure_trans_exact:
  assumes "same_but_trans t ch s" and "ch < length (tp_trans t)" and "lp_threshold (ag_log ag ! ch ! 0) = 0" and "0 < voltage"
    and "A = coef_value (\<lambda>x. x) (lp_a (ag_log ag ! ch ! 0))" and "B = coef_value (\<lambda>x. x) (lp_b (ag_log ag ! ch ! 0))"
    and "E = tp_emissivity t * tp_trans_interior t ! ch" and "0 < E" and "0 < x" and "kelvin_inverse A B (of_int voltage / 1000000) E x \<noteq> 0"
  shows "\<exists>s'. measure_trans (\<lambda>x. x) (\<lambda>x. x) ag voltage ch x s = Some (celsius A B (of_int voltage / 1000000) E x, s')
    \<and> same_but_trans t ch s' \<and> tp_trans (me_temp s') ! ch = x"
proof -
  obtain y where y: "me_temp s = t\<lparr>tp_trans := (tp_trans t)[ch := y]\<rparr>" using assms(1) by (auto simp: same_but_trans_def)
  have e: "tp_emissivity t * x * tp_trans_interior t ! ch = E * x" by (simp add: assms(7))
  have p: "0 < of_int voltage / (1000000 * (E * x))" using assms(4,8,9) by simp
  have c: "get_sin_coefficient (\<lambda>x. x) (\<lambda>x. x) ag v ch = (A, B)" for v by (simp add: get_sin_coefficient_def assms(3,5,6) Let_def)
  show ?thesis using assms(2,8-10) p
    by (simp add: measure_trans_def get_single_temp_def y transmission_def fdiv_def e c Let_def celsius_def kelvin_inverse_def upd_ch_def same_but_trans_def)
      (auto simp: mult.assoc)
qed

text \<open>C17: Calibration to a known temperature in exact arithmetic, for one colour: if the coefficients of the channel are in one segment and let the temperature fall with the transmission and stay below 100000 K,
  and if some transmission between 0.01 and 10 gives the wanted temperature, then the bisection finds, within its fifty rounds, a transmission with which the measured
  temperature is within 0.1 degrees of the wanted one, and reports success.\<close>

theorem transmission_calibration_succeeds:
  fixes s :: meas and ag :: algo_para and target :: real
  defines "ch \<equiv> if tp_temp_mode (me_temp s) = 0 then 0 else 1"
  defines "A \<equiv> coef_value (\<lambda>x. x) (lp_a (ag_log ag ! ch ! 0))" and "B \<equiv> coef_value (\<lambda>x. x) (lp_b (ag_log ag ! ch ! 0))"
  defines "E \<equiv> tp_emissivity (me_temp s) * tp_trans_interior (me_temp s) ! ch" and "V \<equiv> of_int (gc_volt_filter (me_ch s ! ch)) / 1000000"
  assumes "tp_temp_mode (me_temp s) \<le> 1" and "0 < gc_volt_filter (me_ch s ! ch)" and "gc_volt_filter (me_ch s ! ch) < 2 ^ 63"
    and "ch < length (tp_trans (me_temp s))" and "lp_threshold (ag_log ag ! ch ! 0) = 0" and "0 < E" and "- 1 \<le> A" and "A < 0"
    and "1 / 100000 \<le> kelvin_inverse A B V E (1 / 100)" and "celsius A B V E 10 \<le> target" and "target \<le> celsius A B V E (1 / 100)"
    and "1 / 100 \<le> tp_trans (me_temp s) ! ch" and "tp_trans (me_temp s) ! ch \<le> 10"
  shows "\<exists>s'. calibrate_temperature (\<lambda>x. x) (\<lambda>x. x) ag target s = Some (0, s')
    \<and> \<bar>celsius A B V E (tp_trans (me_temp s') ! ch) - target\<bar> < 1 / 10"
proof -
  let ?v = "gc_volt_filter (me_ch s ! ch)" and ?t = "me_temp s" and ?f = "celsius A B V E"
  let ?ms = "measure_trans (\<lambda>x. x) (\<lambda>x. x) ag ?v ch"
  define I where "I = same_but_trans ?t ch"
  have V: "0 < V" using assms(7) by (simp add: V_def)
  note pre = V assms(11-14)
  have ms': "\<exists>s'. ?ms x s0 = Some (?f x, s') \<and> I s' \<and> tp_trans (me_temp s') ! ch = x" if "I s0" "1 / 100 \<le> x" for x s0
    using measure_trans_exact [of ?t ch s0 ag ?v A B E x] kelvin_inverse_bounds(1) [OF pre that(2) order_refl] that assms(7,9-11)
    by (auto simp: I_def A_def B_def E_def V_def)
  then have ms: "\<exists>s'. ?ms x s0 = Some (?f x, s') \<and> I s'" if "I s0" "1 / 100 \<le> x" "x \<le> 10" for x s0 using that by blast
  have bis: "bisectable I (1 / 100) 10 ?ms ?f (10 / 2 ^ 49)"
    unfolding bisectable_def using ms celsius_facts(1) [OF pre] celsius_modulus [OF pre] by blast
  obtain r where r: "1 / 100 \<le> r" "r \<le> 10" "?f r = target" using celsius_root [OF pre assms(15,16)] by blast
  let ?x = "tp_trans ?t ! ch"
  have I: "I s" unfolding I_def same_but_trans_def by (intro exI [of _ ?x]) simp
  define n :: nat where "n = 49"
  have n: "0 < n" "(10 :: real) - 1 / 100 \<le> 10 / 2 ^ 49 * 2 ^ n" by (simp_all add: n_def)
  obtain s' x s0 where q: "calib_loop (\<lambda>x. x) ?ms True target (Suc n) (1 / 100) 10 ?x s = Some (0, s')" "I s0" "1 / 100 \<le> x" "?ms x s0 = Some (?f x, s')"
    "\<bar>?f x - target\<bar> < 1 / 10"
    using bisection_from_anywhere [OF bis r(3,1,2) assms(17,18) I n] by blast
  then have "\<exists>s'. calib_loop (\<lambda>x. x) ?ms True target (Suc n) (1 / 100) 10 ?x s = Some (0, s') \<and> \<bar>?f (tp_trans (me_temp s') ! ch) - target\<bar> < 1 / 10"
    using ms' [OF q(2,3)] by auto
  moreover have "calibrate_temperature (\<lambda>x. x) (\<lambda>x. x) ag target s = calib_loop (\<lambda>x. x) ?ms True target (Suc n) (1 / 100) 10 ?x s"
  proof -
    have m: "tp_temp_mode ?t = 0 \<or> tp_temp_mode ?t = 1" using assms(6) by (simp add: word_le_nat_alt word_unat_eq_iff) linarith
    have "to_int64 (of_int ?v) = Some ?v" using assms(7,8) by (simp add: to_int64_def c_trunc_def)
    then show ?thesis using m assms(7)
      by (auto simp: calibrate_temperature_def Let_def ch_def SENS_CH_SPEC_WB_def SENS_CH_SPEC_NB_def n_def)
  qed
  ultimately show ?thesis by simp
qed

subsection \<open>A device\<close>

definition wit_ch :: "int \<Rightarrow> nat \<Rightarrow> meas_ch" where
  "wit_ch v n = \<lparr>gc_up_gl = 0, gc_up_gm = 0, gc_down_gm = 0, gc_down_gh = 0, gc_now_gain = 0, gc_switch = 0, gc_flag = False, gc_gl_to_gm = 0,
     gc_gm_to_gh = 0, gc_gh_to_gm = 0, gc_gm_to_gl = 0, gc_volt_filter = v, gc_last_volt_filter = 0, mc_volt_raw = v, mc_volt_norm = v, mc_compensate = v,
     mc_hist = replicate 50 0, mc_hist_front = 0, mc_hist_count = 0, mc_hist_size = 20,
     mc_slid = \<lparr>sr_buff = replicate 500 0, sr_front = 0, sr_sum = 0, sr_count = n\<rparr>, mc_coef_a = - 1, mc_coef_b = 0, mc_smooth_last = 1000,
     mc_smooth_count = 0, mc_smooth_sta = True, mc_discard_status = 0\<rparr>"

definition wit_temp_para :: temp_para where
  "wit_temp_para = \<lparr>tp_emissivity = 1, tp_trans = [1 / 2, 1], tp_trans_interior = [1, 1], tp_slope = 1, tp_slope_interior = 1, tp_temp_mode = 0,
     tp_valid_vol = 15000, tp_ambient_comp_ctl = 0, tp_calib_gain = [1, 1, 1], tp_calib_offset = [0, 0, 0], tp_dev_min = 800, tp_dev_max = 2800\<rparr>"

definition wit_algo :: algo_para where
  "wit_algo = \<lparr>ag_log = replicate 2 (replicate 2 \<lparr>lp_threshold = 0, lp_a = (- 1, - 5), lp_b = (1, - 3)\<rparr>), ag_poly_term = 2, ag_subtrahend = 0,
     ag_poly = replicate 15 (1, 0), ag_w1 = replicate 64 1, ag_b1 = replicate 64 0, ag_w2 = replicate 64 1, ag_b2 = 0\<rparr>"

definition wit_filter :: filter_para where
  "wit_filter = \<lparr>fp_buf_size = 25, fp_peak_time = 1, fp_valley_time = 1, fp_mode = 0\<rparr>"

definition wit_meas :: "int \<Rightarrow> nat \<Rightarrow> meas" where
  "wit_meas v n = \<lparr>me_ch = [wit_ch v n, wit_ch v n], me_ntc_raw_spec = 0, me_ntc_raw_tia = 0, me_ntc_filter = 0,
     me_ntc_slid = \<lparr>sr_buff = replicate 500 0, sr_front = 0, sr_sum = 0, sr_count = 0\<rparr>, me_filter_buffer = replicate 40 0, me_filter_buffer_ntc = replicate 500 0,
     me_rand = 0, me_holding = replicate 2 \<lparr>sh_data = 0, sh_count = 0\<rparr>, me_sample_started = True, me_exti = False, me_timer4 = False, me_temp = wit_temp_para,
     me_out_range = [0, 0, 0], me_single_temp = [0, 0], me_ratio_temp = 0, me_ratio_nerve = 0, me_target_temp = 0, me_attenuation = 0,
     me_internal_spec = 0, me_internal_tia = 0, me_target_volt = [0, 0], me_output_volt = [0, 0], me_two_calib_open = 0, me_low_set = [0, 0, 0],
     me_low_real = [0, 0, 0], me_high_set = [0, 0, 0], me_high_real = [0, 0, 0], me_err = 0\<rparr>"

theorem default_window_overflows_witness: "volt_remove_average_filter id (\<lambda>_. 0) wit_filter (wit_meas 100000 24) = None"
  by (rule default_window_overflows) (simp_all add: wit_filter_def wit_meas_def wit_ch_def window_inv_def FILTER_LEN_MAX_def)

theorem smoothing_overruns_table_witness:
  "\<exists>ts c'. smooth_run (\<lambda>a. a) (replicate 100 1050) (wit_ch 0 0) = Some (ts, c') \<and> length ts = 100 \<and> switch_temp_smooth (\<lambda>a. a) 100 1050 c' = None"
proof -
  have "mc_smooth_count (wit_ch 0 0) = 0" "mc_smooth_sta (wit_ch 0 0)" "\<bar>mc_smooth_last (wit_ch 0 0) - 1050\<bar> < 71" by (simp_all add: wit_ch_def)
  from smoothing_overruns_table [OF this] show ?thesis by blast
qed

theorem reported_temperature_in_range_witness:
  "\<exists>s'. get_temp id id wit_algo wit_filter (wit_meas 100 0) = Some s' \<and> me_target_temp s' = 0 \<and> bit (me_err s') 5 \<and> \<not> bit (me_err s') 0"
proof -
  have d: "\<exists>s'. get_temp id id wit_algo wit_filter (wit_meas 100 0) = Some s'"
    by (simp add: get_temp_def wit_meas_def wit_ch_def wit_temp_para_def wit_filter_def all_temps_def SENS_CH_SPEC_NB_def timer4_trigger_callback_def apply_holding_def
        PEAK_HOLDING_def VALLEY_HOLDING_def)
  then obtain s' where s': "get_temp id id wit_algo wit_filter (wit_meas 100 0) = Some s'" by blast
  have "fp_mode wit_filter \<noteq> PEAK_HOLDING" "fp_mode wit_filter \<noteq> VALLEY_HOLDING" "mono (id :: real \<Rightarrow> real)" "id (0 :: real) = 0"
    "length (me_ch (wit_meas 100 0)) = 2" "(word_of_int (mc_volt_raw (me_ch (wit_meas 100 0) ! 1)) :: u32) < tp_valid_vol (me_temp (wit_meas 100 0))"
    by (simp_all add: wit_filter_def PEAK_HOLDING_def VALLEY_HOLDING_def wit_meas_def wit_ch_def wit_temp_para_def mono_def)
  then show ?thesis using reported_temperature_in_range [OF s'] s' by simp
qed

theorem ratio_temperature_ignores_common_factor_witness:
  "map_option (\<lambda>(t, s'). (t, me_ratio_nerve s')) (get_ratio_temp id id wit_algo (attenuate 3 (wit_meas 100000 0)))
   = map_option (\<lambda>(t, s'). (t, me_ratio_nerve s')) (get_ratio_temp id id wit_algo (wit_meas 100000 0))"
  by (rule ratio_temperature_ignores_common_factor) (simp_all add: wit_meas_def)

lemma wit_coefs:
  "coef_value (\<lambda>x. x) (lp_a (ag_log wit_algo ! 0 ! 0)) = - 1 / 100000" "coef_value (\<lambda>x. x) (lp_b (ag_log wit_algo ! 0 ! 0)) = 1 / 1000"
  by (simp_all add: coef_value_def pow10_def wit_algo_def)

text \<open>1 V, a transmission of 0.5 at the start and the wanted temperature of 726.85 degrees, which belongs to a transmission of 1.\<close>

theorem transmission_calibration_succeeds_witness:
  "\<exists>s'. calibrate_temperature (\<lambda>x. x) (\<lambda>x. x) wit_algo (72685 / 100) (wit_meas 1000000 0) = Some (0, s')"
proof -
  let ?s = "wit_meas 1000000 0"
  have m: "tp_temp_mode (me_temp ?s) = 0" "gc_volt_filter (me_ch ?s ! 0) = 1000000" "tp_trans (me_temp ?s) = [1 / 2, 1]"
    "tp_emissivity (me_temp ?s) = 1" "tp_trans_interior (me_temp ?s) ! 0 = 1" "lp_threshold (ag_log wit_algo ! 0 ! 0) = 0"
    by (simp_all add: wit_meas_def wit_temp_para_def wit_ch_def wit_algo_def)
  have "ln (100 :: real) \<le> 99" using ln_le_minus_one [of "100 :: real"] by simp
  then have l: "- 99 \<le> ln (1 / 100 :: real)" "ln (1 / 100 :: real) \<le> 0" by (simp_all add: ln_div)
  have p: "0 < ln (10 :: real)" by simp
  have k: "kelvin_inverse (- 1 / 100000) (1 / 1000) 1 1 x = 1 / 1000 + ln x / 100000" if "0 < x" for x
    using kelvin_inverse_eq [of 1 1 x "- 1 / 100000" "1 / 1000"] that by simp
  have c: "1 / 100000 \<le> kelvin_inverse (- 1 / 100000) (1 / 1000) 1 1 (1 / 100)" using l k [of "1 / 100"] by simp
  have t: "celsius (- 1 / 100000) (1 / 1000) 1 1 1 = 72685 / 100" unfolding celsius_def k [OF zero_less_one] by simp
  have h: "celsius (- 1 / 100000) (1 / 1000) 1 1 10 \<le> 72685 / 100" "72685 / 100 \<le> celsius (- 1 / 100000) (1 / 1000) 1 1 (1 / 100)"
    using celsius_facts(1) [of 1 1 "- 1 / 100000" "1 / 1000" 1 10] celsius_facts(1) [of 1 1 "- 1 / 100000" "1 / 1000" "1 / 100" 1] c t by simp_all
  show ?thesis using transmission_calibration_succeeds [of ?s wit_algo "72685 / 100"] c h by (auto simp: m wit_coefs)
qed

end
