(* ===== verification/Spec2Isabelle.thy ===== *)
theory Spec2Isabelle
  imports Hq_String Hq_Crc Hq_Generic Proto_Base Fifo Arch_Message Arch_Agent Mail_Box Storage Para Upgrade Rtc Event_Record
    Hq_Filter Hq_Hash Hq_Cdllist Proto_Char_Cfg Proto_Char Burst Serial Comm Wire Tm1639 Key Ui Soft_I2c Tcp_Server Ad7124 Monitor Analogout Measure
begin

text \<open>
  Verification of the firmware of a two-colour pyrometer (GD32F4 microcontroller, FreeRTOS).

  \<^bold>\<open>The program.\<close> The firmware consists of a bootloader (\<open>src/app/boot_main.c\<close>) and an application. In
  the application a library of C string, memory and checksum functions (\<open>src/lib/microlib\<close>) carries
  everything else. Packets from the serial and network ports are taken apart by \<open>src/app/proto/proto_base.c\<close> and
  dispatched through a command table; text commands are parsed, checked against the rules of a second table
  and answered by \<open>proto_char.c\<close>, and \<open>src/app/sys/burst.c\<close> sends the values of a list of such commands
  periodically. The binary commands of the firmware upgrade (\<open>src/app/sys/upgrade.c\<close>)
  write the internal flash and post the upgrade task to one of three agents, tasks that call the
  functions in their queue (\<open>src/app/arch/agent.c\<close>). Software timers (\<open>ostimer.c\<close>) post functions to the
  agents periodically, messages (\<open>message.c\<close>) and mailboxes (\<open>mail_box.c\<close>) pass values between tasks. The parameters
  (\<open>src/app/para\<close>) live in a working copy and in up to three areas of flash and EEPROM, reached
  through \<open>storage.c\<close>; event records (\<open>src/app/record\<close>) go to the EEPROM, with times from the
  real-time clock (\<open>src/bsp/periph/gd32_rtc.c\<close>).

  The host reaches the device over serial ports (\<open>serial.c\<close>, \<open>pc.c\<close>) and over TCP (\<open>tcp_server.c\<close>); a received block goes through
  the groups and channels of \<open>comm_cfg.c\<close> to the protocols, and the answer goes back over the same channel. On
  the panel a TM1639 chip scans the keys and shows the menus of \<open>src/app/ui\<close>. A task samples the AD7124 converter and
  turns the voltages of two spectral channels into the temperature (\<open>measure.c\<close>, with the gains of \<open>tiag.c\<close>), which
  the analogue output (\<open>analogout.c\<close>, over an LTC2606 on an I2C bus driven in software), the alarm relay
  and the display show; \<open>self_check.c\<close> keeps the error flags and \<open>heater.c\<close> keeps the detector warm.

  \<^bold>\<open>The theories.\<close>
    \<^item> \<open>Pyro_Prelude\<close>: machine words, buffers, C strings in memory, little-endian encodings, and rules that take a property
      of a result through the steps of a fallible computation.
    \<^item> \<open>Hq_String\<close>, \<open>Hq_Generic\<close>: \<open>hq_string.c\<close> and \<open>hq_generic.c\<close>. A pointer is the list of bytes from its address
      to the end of the object; an access past the end is the value \<open>None\<close>. Shown are the order that
      \<open>string_comp\<close> computes, round trips of decimal and hexadecimal text, the language of \<open>is_valid_ip\<close>,
      what \<open>string_search\<close> finds and the dispatch of \<open>command_execute\<close>.
    \<^item> \<open>Hq_Crc\<close>: the table-driven CRC16 functions of \<open>hq_generic.c\<close>, proved equal to polynomial division bit by bit,
      and the detection of bursts.
    \<^item> \<open>Proto_Base\<close>: building, checking and dispatching packets. The loop over the receive buffer carries fuel, the
      length of the buffer plus one; termination is proved for every buffer below 64 KB because each
      round drops at least one byte.
    \<^item> \<open>Fifo\<close>: the locale \<open>bounded_fifo\<close> of a bounded queue, its laws and the facts that follow from them. It is interpreted
      on the message queue (\<open>Arch_Message\<close>), the agents' queues (\<open>Arch_Agent\<close>) and the mailboxes (\<open>Mail_Box\<close>).
    \<^item> \<open>Arch_Agent\<close>: agents with their semaphores as a step relation over interleavings of posts, flushes and the
      agent task, and the software timers over a wrapping tick counter.
    \<^item> \<open>Storage\<close>: flash and EEPROM chips as maps from addresses to bytes, the drivers and the checksum unit.
      The result of programming, the acknowledgement of the EEPROM and the function of the checksum
      unit are arguments.
    \<^item> \<open>Para\<close>: the parameter manager. The locale \<open>para_area\<close> states what reading and writing a storage area promises; it is
      interpreted on the user, backup and factory area.
    \<^item> \<open>Upgrade\<close>: the upgrade commands, the upgrade task and the bootloader, down to the bytes of the flash.
    \<^item> \<open>Rtc\<close>: calendar conversions and the BCD registers of the clock.
    \<^item> \<open>Event_Record\<close>: the rings of event records.
    \<^item> \<open>Proto_Char_Cfg\<close>, \<open>Proto_Char\<close>: the table of the text commands and the text protocol. Shown are that every well-formed
      request is parsed back into its parts, that rejected data changes nothing, what the search in the table
      finds, and that the loop over the packets ends: it carries fuel, and any fuel above the number of bytes gives
      the same result. The callbacks and the reading, printing and converting of floating-point values
      are arguments.
    \<^item> \<open>Burst\<close>: the burst string, with the text it consists of and the condition under which it fits its buffer.
    \<^item> \<open>Hq_Filter\<close>: selection by random pivots and the trimmed mean over a sliding window, as order statistics and
      means of the last samples; peak and valley holding. The pivots are an argument.
    \<^item> \<open>Hq_Hash\<close>: the hash table of commands. The locale \<open>dictionary\<close> states what adding, removing and finding promise; it
      is interpreted on the hash table, which refines a map.
    \<^item> \<open>Hq_Cdllist\<close>: the circular doubly linked list over a heap of pointers, which refines a list.
    \<^item> \<open>Serial\<close>: the rings of the serial ports and their transfers by DMA. Shown are that data sent over an idle port reaches
      the line in order, and what is lost when the port is busy.
    \<^item> \<open>Comm\<close>: groups, channels, the choice of the protocol and the serial host port, from the idle interrupt to the answer on the
      line; the protocols of \<open>Proto_Base\<close> and \<open>Proto_Char\<close> and what their handlers do to the state are arguments.
    \<^item> \<open>Wire\<close>: the locale of a bus whose lines are moved pin by pin, which gives the events that a device on the bus sees. It is
      interpreted on the drivers of \<open>Tm1639\<close> and \<open>Soft_I2c\<close>, where the functions of the drivers are shown to send the frames of
      the two bus protocols and to read the bits that the device drives.
    \<^item> \<open>Key\<close>: the debouncing state machine of the keys over a wrapping tick counter, the reported presses and the pauses.
    \<^item> \<open>Ui\<close>: the navigation through the menus and the pages that change parameters. Shown are that a pass stays inside of all
      arrays, that a locked panel changes nothing and what a session of editing stores.
    \<^item> \<open>Tcp_Server\<close>: the two servers and their clients as tasks, one step per pass of their loops, interleaved in any order; the answers
      of lwIP are arguments of a step. Shown are that a request is answered over its own connection, that clients can be
      addressed by number, the delivery of data in pieces and the server that never leaves its restart state.
    \<^item> \<open>Ad7124\<close>: the registers of the converter over SPI, its initialisation and the sampling of its channels. A converter is a function from
      the bytes sent to the bytes answered; the hypotheses \<open>adc_chip\<close>, \<open>adc_alive\<close> and \<open>adc_delivers\<close> are its data sheet.
    \<^item> \<open>Monitor\<close>: the alarm relay, the error flags, the heater and the switching of the gains. Shown are that the relay follows the last
      crossing of a threshold, the bounds of the heating power and when a gain changes.
    \<^item> \<open>Analogout\<close>: current and voltage output with the driver of the LTC2606 over the bus of \<open>Soft_I2c\<close>. Shown are the range and the
      monotonicity of the current, the frame on the bus and that an error hides the temperature for ever.
    \<^item> \<open>Measure\<close>: the round of the measurement from the samples of \<open>Ad7124\<close> over the filters of \<open>Hq_Filter\<close> and the gains of \<open>Monitor\<close>
      to the report and the output of \<open>Analogout\<close>, and the calibrations. Shown are the range of the reported temperature, the
      independence of the ratio temperature from a common factor and the success of the bisection.

  \<^bold>\<open>Conventions.\<close> Where a C integer can wrap it is a word of its width; sizes and addresses that cannot are natural
  numbers. Undefined behaviour (an access out of bounds, through a null pointer, a conversion of a float that does not fit
  or a division of floats by zero) is the value \<open>None\<close>. Loops are structural recursion, recursion with a measure, or
  fuel as said above; the loops that poll the converter have the 300 and the bisection the 50 rounds of the
  source, and the loop that waits for the data line, which the source does not bound, is a \<open>partial_function\<close>, with a
  hypothesis of the theorem that the line falls. Critical sections and the prints for debugging have no effect in the
  model. Hardware and the operating system are parameters with their documented behaviour.

  Floating-point values are real numbers. The rounding of every operation to single and to double precision is an argument, \<open>rnd\<close>
  and \<open>rnd2\<close>, so that the theorems hold of the machine's arithmetic as long as nothing overflows; where
  they need something of the rounding they assume \<open>float_rounding\<close>, that it is monotone and keeps the
  integers of a float's precision, or say in their text that they hold of exact arithmetic.

  \<^bold>\<open>Not modelled.\<close> FreeRTOS, lwIP, the USB stack, the vendor's peripheral library, the trace and fault tools and the
  other third-party code under \<open>src/\<close>, which the program only calls; drivers that only write
  registers or follow the timing of a device (camera OV5640, OLED, DS18B20, PSRAM, the set-up of pins, timers, SPI and
  network); \<open>proto_coef.c\<close>, whose commands fill the tables of coefficients; the camera task, the console, the simple
  port \<open>scom.c\<close> and the start-up in \<open>system.c\<close> and \<open>app_main.c\<close>; the drawing of the display pages; the records'
  formatted output; the callbacks of the text commands, which are arguments; conversions between text and
  floats, which are arguments as well; \<open>hq_circque.c\<close>, which does not compile. The rest of the upgrade task behind the store through a null pointer
  has no defined behaviour.
\<close>

end
